(* ===== verification/Prelude.thy ===== *)
theory Prelude
  imports Main "HOL-Library.Multiset" "HOL-Library.AList"
begin

text \<open>
  Shared vocabulary of the development: the Python primitives the modelled scripts use, with the
  lemmas their models share.

  \<^item> Results: a call that may raise is a value of \<open>'e + 'a\<close> (\<open>Inl\<close> the exception).
  \<^item> Indices and slices: Python's negative indices and clamped slices (\<open>py_get\<close>,
    \<open>slice_to\<close>, \<open>slice_from\<close>).
  \<^item> Dictionaries: association lists with distinct keys in insertion order; the operations are
    those of \<open>HOL-Library.AList\<close>.
  \<^item> Strings: lists of characters; \<open>split_on\<close>, \<open>split1\<close>, \<open>join\<close>, \<open>strip\<close>,
    \<open>startswith\<close>.
\<close>

named_theorems py_simps \<open>equations of the Python primitives\<close>
named_theorems dict_simps \<open>lookups after dictionary updates\<close>

section \<open>Results and exceptions\<close>

datatype py_exn =
    IndexError
  | KeyError
  | ValueError
  | TypeError
  | ZeroDivisionError
  | AssertionError
  | UnboundLocalError
  | AttributeError
  | OSError
  | Exc string

fun rbind :: "'e + 'a \<Rightarrow> ('a \<Rightarrow> 'e + 'b) \<Rightarrow> 'e + 'b" where
  "rbind (Inl e) f = Inl e"
| "rbind (Inr x) f = f x"

lemma rbind_cong [fundef_cong]:
  assumes "m = m'" and "\<And>x. m' = Inr x \<Longrightarrow> f x = f' x"
  shows "rbind m f = rbind m' f'"
  using assms by (cases m') auto

lemma rbind_eq_Inr [simp]: "rbind m f = Inr y \<longleftrightarrow> (\<exists>x. m = Inr x \<and> f x = Inr y)"
  by (cases m) auto

lemma rbind_eq_Inl: "rbind m f = Inl e \<longleftrightarrow> m = Inl e \<or> (\<exists>x. m = Inr x \<and> f x = Inl e)"
  by (cases m) auto

fun mapM :: "('p \<Rightarrow> 'e + 'q) \<Rightarrow> 'p list \<Rightarrow> 'e + 'q list" where
  "mapM f [] = Inr []"
| "mapM f (x # xs) = rbind (f x) (\<lambda>y. rbind (mapM f xs) (\<lambda>ys. Inr (y # ys)))"

fun foldM :: "('a \<Rightarrow> 's \<Rightarrow> 'e + 's) \<Rightarrow> 'a list \<Rightarrow> 's \<Rightarrow> 'e + 's" where
  "foldM f [] s = Inr s"
| "foldM f (x # xs) s = rbind (f x s) (foldM f xs)"

lemma mapM_append:
  "mapM f (xs @ ys) = rbind (mapM f xs) (\<lambda>as. rbind (mapM f ys) (\<lambda>bs. Inr (as @ bs)))"
proof (induction xs)
  case Nil
  then show ?case by (cases "mapM f ys") auto
next
  case (Cons x xs)
  then show ?case
    by (cases "f x"; cases "mapM f xs"; cases "mapM f ys") auto
qed

lemma mapM_Inr: "mapM f xs = Inr ys \<longleftrightarrow> list_all2 (\<lambda>x y. f x = Inr y) xs ys"
  by (induction xs arbitrary: ys) (auto simp: list_all2_Cons1)

lemma mapM_Inr_set:
  assumes "mapM f xs = Inr ys"
  shows "y \<in> set ys \<longleftrightarrow> (\<exists>x \<in> set xs. f x = Inr y)"
  using assms by (induction xs arbitrary: ys) auto

lemma mapM_Inr_each: "mapM f xs = Inr ys \<Longrightarrow> x \<in> set xs \<Longrightarrow> \<exists>y. f x = Inr y"
  by (induction xs arbitrary: ys) auto

lemma mapM_all_ok: "(\<And>x. x \<in> set xs \<Longrightarrow> f x = Inr (g x)) \<Longrightarrow> mapM f xs = Inr (map g xs)"
  by (induction xs) auto

text \<open>
  The contract between a fallible writer and a fallible reader: what the writer produces for a
  value of its domain, the reader takes back to that value.
\<close>

locale codec =
  fixes enc :: "'a \<Rightarrow> 'e + 'b"
    and dec :: "'b \<Rightarrow> 'f + 'a"
    and encodable :: "'a \<Rightarrow> bool"
  assumes enc_ok: "encodable x \<Longrightarrow> \<exists>y. enc x = Inr y \<and> dec y = Inr x"
begin

lemma enc_not_error: "encodable x \<Longrightarrow> enc x \<noteq> Inl e"
  using enc_ok by fastforce

lemma dec_enc: "encodable x \<Longrightarrow> enc x = Inr y \<Longrightarrow> dec y = Inr x"
  using enc_ok by fastforce

lemma enc_inj:
  assumes "encodable x" and "encodable x'" and "enc x = enc x'"
  shows "x = x'"
proof -
  from assms(1) obtain y where y: "enc x = Inr y" "dec y = Inr x"
    using enc_ok by blast
  with assms(2,3) have "dec y = Inr x'"
    by (intro dec_enc) simp_all
  with y(2) show ?thesis by simp
qed

end

text \<open>
  An invariant of an object under any sequence of its operations: it holds at the start and every operation that does not
  raise keeps it.
\<close>

locale run_invariant =
  fixes perform_op :: "'o \<Rightarrow> 's \<Rightarrow> 'e + 's"
    and first :: 's
    and inv :: "'s \<Rightarrow> bool"
  assumes inv_first: "inv first"
    and inv_op: "inv s \<Longrightarrow> perform_op x s = Inr t \<Longrightarrow> inv t"
begin

lemma kept: "inv s \<Longrightarrow> foldM perform_op xs s = Inr t \<Longrightarrow> inv t"
  by (induction xs arbitrary: s) (auto intro: inv_op)

lemma after: "foldM perform_op xs first = Inr s \<Longrightarrow> inv s"
  using inv_first by (rule kept)

end

section \<open>Indices and slices\<close>

definition py_get :: "'a list \<Rightarrow> int \<Rightarrow> py_exn + 'a" where
  "py_get xs i =
     (if i < - int (length xs) \<or> int (length xs) \<le> i then Inl IndexError
      else Inr (xs ! nat (if i < 0 then i + int (length xs) else i)))"

lemma py_get_nonneg [py_simps]:
  "0 \<le> i \<Longrightarrow> i < int (length xs) \<Longrightarrow> py_get xs i = Inr (xs ! nat i)"
  by (simp add: py_get_def)

lemma py_get_last [py_simps]:
  assumes "xs \<noteq> []"
  shows "py_get xs (- 1) = Inr (last xs)"
proof -
  have "nat (- 1 + int (length xs)) = length xs - 1"
    using assms by simp
  moreover have "\<not> - 1 < - int (length xs)"
    using assms by (cases xs) auto
  ultimately show ?thesis
    using assms by (simp add: py_get_def last_conv_nth)
qed

lemma py_get_neg [py_simps]:
  "0 < k \<Longrightarrow> k \<le> length xs \<Longrightarrow> py_get xs (- int k) = Inr (xs ! (length xs - k))"
  by (auto simp: py_get_def nat_diff_distrib' simp flip: of_nat_diff)

text \<open>A slice bound is clamped into the list, counting from the end when negative.\<close>

definition clamp_index :: "nat \<Rightarrow> int \<Rightarrow> nat" where
  "clamp_index n i = (if i < 0 then nat (int n + i) else min n (nat i))"

definition slice_to :: "'a list \<Rightarrow> int \<Rightarrow> 'a list" where
  "slice_to xs b = take (clamp_index (length xs) b) xs"

definition slice_from :: "'a list \<Rightarrow> int \<Rightarrow> 'a list" where
  "slice_from xs a = drop (clamp_index (length xs) a) xs"

definition slice :: "'a list \<Rightarrow> int \<Rightarrow> int \<Rightarrow> 'a list" where
  "slice xs a b = drop (clamp_index (length xs) a) (take (clamp_index (length xs) b) xs)"

lemma slice_to_nonneg [py_simps]: "0 \<le> b \<Longrightarrow> slice_to xs b = take (nat b) xs"
  by (auto simp: slice_to_def clamp_index_def min_def)

lemma slice_from_nonneg [py_simps]: "0 \<le> a \<Longrightarrow> slice_from xs a = drop (nat a) xs"
  by (auto simp: slice_from_def clamp_index_def min_def)

lemma slice_nonneg [py_simps]:
  "0 \<le> a \<Longrightarrow> 0 \<le> b \<Longrightarrow> slice xs a b = drop (nat a) (take (nat b) xs)"
  by (auto simp: slice_def clamp_index_def min_def)

lemma slice_to_neg [py_simps]: "b < 0 \<Longrightarrow> slice_to xs b = take (nat (int (length xs) + b)) xs"
  by (simp add: slice_to_def clamp_index_def)

lemma slice_from_neg [py_simps]: "a < 0 \<Longrightarrow> slice_from xs a = drop (nat (int (length xs) + a)) xs"
  by (simp add: slice_from_def clamp_index_def)

section \<open>Dictionaries\<close>

type_synonym ('k, 'v) dict = "('k \<times> 'v) list"

abbreviation dget :: "('k, 'v) dict \<Rightarrow> 'k \<Rightarrow> 'v option" where
  "dget \<equiv> map_of"

abbreviation dset :: "'k \<Rightarrow> 'v \<Rightarrow> ('k, 'v) dict \<Rightarrow> ('k, 'v) dict" where
  "dset \<equiv> AList.update"

abbreviation ddel :: "'k \<Rightarrow> ('k, 'v) dict \<Rightarrow> ('k, 'v) dict" where
  "ddel \<equiv> AList.delete"

abbreviation dkeys :: "('k, 'v) dict \<Rightarrow> 'k list" where
  "dkeys d \<equiv> map fst d"

definition wf_dict :: "('k, 'v) dict \<Rightarrow> bool" where
  "wf_dict d \<longleftrightarrow> distinct (dkeys d)"

lemma wf_dict_Nil [simp]: "wf_dict []"
  by (simp add: wf_dict_def)

lemma wf_dict_dset [simp]: "wf_dict d \<Longrightarrow> wf_dict (dset k v d)"
  by (simp add: wf_dict_def distinct_update)

lemma wf_dict_ddel [simp]: "wf_dict d \<Longrightarrow> wf_dict (ddel k d)"
  by (simp add: wf_dict_def distinct_delete)

lemma dget_dset [dict_simps, simp]: "dget (dset k v d) k' = (if k' = k then Some v else dget d k')"
  by (simp add: update_conv')

lemma dget_ddel [dict_simps, simp]: "dget (ddel k d) k' = (if k' = k then None else dget d k')"
  by (simp add: delete_conv')

lemma set_dkeys: "set (dkeys d) = {k. dget d k \<noteq> None}"
  by (simp add: map_of_eq_None_iff)

lemma dkeys_dset_old: "dget d k \<noteq> None \<Longrightarrow> dkeys (dset k v d) = dkeys d"
  by (auto simp: update_keys map_of_eq_None_iff)

lemma length_dset_old: "dget d k \<noteq> None \<Longrightarrow> length (dset k v d) = length d"
  by (metis dkeys_dset_old length_map)

lemma length_ddel_old: "dget d k \<noteq> None \<Longrightarrow> length (ddel k d) < length d"
  by (metis delete_keys length_map length_removeAll_less map_of_eq_None_iff set_map)

lemma dset_new: "k \<notin> fst ` set d \<Longrightarrow> dset k v d = d @ [(k, v)]"
  by (induction d) auto

lemma dict_eq_Nil:
  assumes "\<And>k. dget d k = None"
  shows "d = []"
proof (cases d)
  case (Cons p ps)
  with assms [of "fst p"] show ?thesis by simp
qed simp

text \<open>\<open>d.update(e)\<close>\<close>

definition dict_update :: "('k, 'v) dict \<Rightarrow> ('k, 'v) dict \<Rightarrow> ('k, 'v) dict" where
  "dict_update d e = fold (\<lambda>(k, v). dset k v) e d"

lemma dget_dict_update: "dget (dict_update d e) k = (case map_of (rev e) k of Some v \<Rightarrow> Some v | None \<Rightarrow> dget d k)"
proof (induction e arbitrary: d)
  case (Cons p e)
  then show ?case by (cases p) (auto simp: dict_update_def map_add_def split: option.splits)
qed (simp add: dict_update_def)

section \<open>Strings\<close>

definition startswith :: "'a list \<Rightarrow> 'a list \<Rightarrow> bool" where
  "startswith s p \<longleftrightarrow> take (length p) s = p"

lemma startswith_append [simp]: "startswith (p @ s) p"
  by (simp add: startswith_def)

lemma startswith_iff: "startswith s p \<longleftrightarrow> (\<exists>t. s = p @ t)"
  by (metis append_take_drop_id startswith_append startswith_def)

text \<open>\<open>s.split(sep)\<close> for a one-character separator: never empty, separators dropped.\<close>

fun split_on :: "'a \<Rightarrow> 'a list \<Rightarrow> 'a list list" where
  "split_on c [] = [[]]"
| "split_on c (x # xs) =
     (if x = c then [] # split_on c xs
      else case split_on c xs of [] \<Rightarrow> [[x]] | w # ws \<Rightarrow> (x # w) # ws)"

lemma split_on_nonempty [simp]: "split_on c s \<noteq> []"
  by (induction s) (auto split: list.splits)

text \<open>\<open>s.split(sep, 1)\<close>: the part before the first separator, and the rest when there is one.\<close>

definition split1 :: "'a \<Rightarrow> 'a list \<Rightarrow> 'a list \<times> 'a list option" where
  "split1 c s =
     (takeWhile (\<lambda>x. x \<noteq> c) s,
      case dropWhile (\<lambda>x. x \<noteq> c) s of [] \<Rightarrow> None | _ # t \<Rightarrow> Some t)"

fun join :: "'a list \<Rightarrow> 'a list list \<Rightarrow> 'a list" where
  "join sep [] = []"
| "join sep [w] = w"
| "join sep (w # v # ws) = w @ sep @ join sep (v # ws)"

lemma join_split_on: "join [c] (split_on c s) = s"
proof (induction s)
  case Nil
  show ?case by simp
next
  case (Cons x s)
  obtain w ws where "split_on c s = w # ws"
    by (metis list.exhaust split_on_nonempty)
  with Cons show ?case
    by (cases ws) auto
qed

text \<open>The blanks among the first 256 code points.\<close>

definition is_space :: "char \<Rightarrow> bool" where
  "is_space c \<longleftrightarrow> c \<in> {CHR '' '', CHR 0x09, CHR 0x0A, CHR 0x0B, CHR 0x0C, CHR 0x0D,
     CHR 0x1C, CHR 0x1D, CHR 0x1E, CHR 0x1F, CHR 0x85, CHR 0xA0}"

definition strip :: "string \<Rightarrow> string" where
  "strip s = rev (dropWhile is_space (rev (dropWhile is_space s)))"

lemma strip_id:
  assumes "s = [] \<or> (\<not> is_space (hd s) \<and> \<not> is_space (last s))"
  shows "strip s = s"
proof (cases s rule: rev_cases)
  case Nil
  then show ?thesis by (simp add: strip_def)
next
  case (snoc t x)
  with assms have "dropWhile is_space s = s"
    by (cases t) auto
  with snoc assms show ?thesis
    by (simp add: strip_def)
qed

subsection \<open>Decimal numbers\<close>

definition digit_char :: "nat \<Rightarrow> char" where
  "digit_char d = char_of (48 + d)"

definition is_digit :: "char \<Rightarrow> bool" where
  "is_digit c \<longleftrightarrow> 48 \<le> (of_char c :: nat) \<and> (of_char c :: nat) \<le> 57"

text \<open>\<open>'%d' % n\<close>, and \<open>int(s)\<close> of a string of digits.\<close>

fun nat_str :: "nat \<Rightarrow> string" where
  "nat_str n = (if n < 10 then [digit_char n] else nat_str (n div 10) @ [digit_char (n mod 10)])"

declare nat_str.simps [simp del]

definition int_str :: "int \<Rightarrow> string" where
  "int_str i = (if i < 0 then CHR ''-'' # nat_str (nat (- i)) else nat_str (nat i))"

definition digits_val :: "string \<Rightarrow> nat" where
  "digits_val s = foldl (\<lambda>n c. 10 * n + (of_char c - 48)) 0 s"

lemma digit_char_value [simp]: "d < 10 \<Longrightarrow> of_char (digit_char d) = 48 + d"
  by (simp add: digit_char_def)

lemma is_digit_char [simp]: "d < 10 \<Longrightarrow> is_digit (digit_char d)"
  by (simp add: is_digit_def)

lemma nat_str_nonempty [simp]: "nat_str n \<noteq> []"
  by (subst nat_str.simps) simp

lemma nat_str_digits [simp]: "list_all is_digit (nat_str n)"
proof (induction n rule: nat_str.induct)
  case (1 n)
  then show ?case
    by (subst nat_str.simps) simp
qed

lemma digits_val_snoc: "digits_val (s @ [c]) = 10 * digits_val s + (of_char c - 48)"
  by (simp add: digits_val_def)

lemma digits_val_nat_str [simp]: "digits_val (nat_str n) = n"
proof (induction n rule: nat_str.induct)
  case (1 n)
  then show ?case
    by (subst nat_str.simps) (auto simp: digits_val_snoc, simp add: digits_val_def)
qed

lemma takeWhile_digits:
  "list_all is_digit ds \<Longrightarrow> \<not> is_digit c \<Longrightarrow> takeWhile is_digit (ds @ c # s) = ds"
  "list_all is_digit ds \<Longrightarrow> \<not> is_digit c \<Longrightarrow> dropWhile is_digit (ds @ c # s) = c # s"
  by (induction ds) auto

text \<open>What follows a prefix, and the digits a string begins with.\<close>

definition after :: "string \<Rightarrow> string \<Rightarrow> string option" where
  "after p s = (if startswith s p then Some (drop (length p) s) else None)"

definition take_digits :: "string \<Rightarrow> (string \<times> string) option" where
  "take_digits s =
     (let d = takeWhile is_digit s in if d = [] then None else Some (d, dropWhile is_digit s))"

subsection \<open>Lines\<close>

abbreviation nl :: char where
  "nl \<equiv> CHR 0x0A"

text \<open>The lines of a text file, each with its newline.\<close>

fun readlines :: "string \<Rightarrow> string list" where
  "readlines [] = []"
| "readlines (c # cs) =
     (if c = nl then [nl] # readlines cs
      else case readlines cs of [] \<Rightarrow> [[c]] | l # ls \<Rightarrow> (c # l) # ls)"

lemma readlines_line: "nl \<notin> set u \<Longrightarrow> readlines (u @ nl # s) = (u @ [nl]) # readlines s"
  by (induction u) auto

lemma concat_readlines [simp]: "concat (readlines s) = s"
  by (induction s rule: readlines.induct) (auto split: list.splits)

definition is_line :: "string \<Rightarrow> bool" where
  "is_line w \<longleftrightarrow> w \<noteq> [] \<and> last w = nl \<and> nl \<notin> set (butlast w)"

lemma readlines_concat: "list_all is_line ws \<Longrightarrow> readlines (concat ws) = ws"
proof (induction ws)
  case (Cons w ws)
  then have "w = butlast w @ [nl]" "nl \<notin> set (butlast w)"
    using append_butlast_last_id [of w] by (simp_all add: is_line_def)
  then have "readlines (w @ concat ws) = w # readlines (concat ws)"
    using readlines_line [of "butlast w" "concat ws"] by (metis append.assoc append_Cons append_Nil)
  with Cons show ?case by simp
qed simp

text \<open>Cases of letters, for ASCII.\<close>

definition to_lower :: "char \<Rightarrow> char" where
  "to_lower c =
     (if 65 \<le> (of_char c :: nat) \<and> (of_char c :: nat) \<le> 90
      then char_of ((of_char c :: nat) + 32) else c)"

definition upper_char :: "char \<Rightarrow> char" where
  "upper_char c =
     (if 97 \<le> (of_char c :: nat) \<and> (of_char c :: nat) \<le> 122
      then char_of ((of_char c :: nat) - 32) else c)"

definition is_letter :: "char \<Rightarrow> bool" where
  "is_letter c \<longleftrightarrow> 65 \<le> (of_char c :: nat) \<and> (of_char c :: nat) \<le> 90 \<or> 97 \<le> (of_char c :: nat) \<and> (of_char c :: nat) \<le> 122"

text \<open>\<open>repr\<close> of a string of ASCII characters.\<close>

definition hexdigit :: "nat \<Rightarrow> char" where
  "hexdigit d = ''0123456789abcdef'' ! d"

definition repr_char :: "char \<Rightarrow> char \<Rightarrow> string" where
  "repr_char quote c =
     (if c = quote \<or> c = CHR 0x5C then [CHR 0x5C, c]
      else if c = CHR 0x09 then [CHR 0x5C, CHR ''t'']
      else if c = CHR 0x0A then [CHR 0x5C, CHR ''n'']
      else if c = CHR 0x0D then [CHR 0x5C, CHR ''r'']
      else if (of_char c :: nat) < 32 \<or> (of_char c :: nat) = 127
           then [CHR 0x5C, CHR ''x'', hexdigit (of_char c div 16), hexdigit (of_char c mod 16)]
      else [c])"

definition repr_str :: "string \<Rightarrow> string" where
  "repr_str s =
     (let quote = (if CHR 0x27 \<in> set s \<and> CHR 0x22 \<notin> set s then CHR 0x22 else CHR 0x27)
      in quote # concat (map (repr_char quote) s) @ [quote])"

lemma repr_str_word: "list_all (\<lambda>c. c \<notin> {CHR 0x27, CHR 0x22, CHR 0x5C} \<and> 32 \<le> (of_char c :: nat) \<and> (of_char c :: nat) \<noteq> 127) s \<Longrightarrow>
    repr_str s = CHR 0x27 # s @ [CHR 0x27]"
proof -
  assume s: "list_all (\<lambda>c. c \<notin> {CHR 0x27, CHR 0x22, CHR 0x5C} \<and> 32 \<le> (of_char c :: nat) \<and> (of_char c :: nat) \<noteq> 127) s"
  then have "concat (map (repr_char (CHR 0x27)) s) = s"
    by (induction s) (auto simp: repr_char_def)
  moreover have "CHR 0x27 \<notin> set s" using s by (auto simp: list_all_iff)
  ultimately show ?thesis by (simp add: repr_str_def Let_def)
qed

end
