(* ===== verification/Rad_Bits.thy ===== *)
theory Rad_Bits
  imports Prelude
begin

text \<open>
  The binary-number helpers of \<^verbatim>\<open>bindings/python/rad_util.py\<close>: \<open>int2bin\<close>, \<open>bin2int\<close>, \<open>lsb\<close>,
  \<open>gray_encode\<close>, \<open>binary_range\<close>.  Python integers are \<open>int\<close>, strings are lists of
  characters.  The reference is \<open>lsbstr n m\<close>, the \<open>n\<close> low bits of \<open>m\<close>, least significant
  first, defined by division by two.
\<close>

unbundle bit_operations_syntax

section \<open>Code\<close>

subsection \<open>int2bin\<close>

fun hexstr :: "nat \<Rightarrow> string" where
  "hexstr m = (if m < 16 then [hexdigit m] else hexstr (m div 16) @ [hexdigit (m mod 16)])"

declare hexstr.simps [simp del]

text \<open>The builtin \<open>hex\<close>: sign, prefix, lower-case digits.\<close>

definition py_hex :: "int \<Rightarrow> string" where
  "py_hex i = (if i < 0 then ''-'' else '''') @ ''0x'' @ hexstr (nat \<bar>i\<bar>)"

definition hex2bin_table :: "(char, string) dict" where
  "hex2bin_table =
    [(CHR ''0'', ''0000''), (CHR ''1'', ''0001''), (CHR ''2'', ''0010''), (CHR ''3'', ''0011''),
     (CHR ''4'', ''0100''), (CHR ''5'', ''0101''), (CHR ''6'', ''0110''), (CHR ''7'', ''0111''),
     (CHR ''8'', ''1000''), (CHR ''9'', ''1001''), (CHR ''a'', ''1010''), (CHR ''b'', ''1011''),
     (CHR ''c'', ''1100''), (CHR ''d'', ''1101''), (CHR ''e'', ''1110''), (CHR ''f'', ''1111'')]"

definition hex2bin :: "char \<Rightarrow> py_exn + string" where
  "hex2bin c = (case dget hex2bin_table c of None \<Rightarrow> Inl KeyError | Some s \<Rightarrow> Inr s)"

definition int2bin :: "int \<Rightarrow> int \<Rightarrow> py_exn + string" where
  "int2bin i n =
     rbind (mapM hex2bin (slice_from (filter (\<lambda>c. c \<noteq> CHR ''l'') (map to_lower (py_hex i))) 2))
       (\<lambda>groups.
          let result = concat groups
          in if CHR ''1'' \<in> set (slice_to result (- n)) then Inl ValueError
             else let result = slice_from result (- n)
                  in Inr (replicate (nat (n - int (length result))) (CHR ''0'') @ result))"

subsection \<open>bin2int\<close>

fun digits2 :: "int \<Rightarrow> string \<Rightarrow> py_exn + int" where
  "digits2 acc [] = Inr acc"
| "digits2 acc (c # cs) =
     (if c = CHR ''0'' then digits2 (2 * acc) cs
      else if c = CHR ''1'' then digits2 (2 * acc + 1) cs
      else Inl ValueError)"

text \<open>The builtin \<open>int(s, 2)\<close>: blanks, a sign and the prefix \<open>0b\<close> are accepted.\<close>

definition int_base2 :: "string \<Rightarrow> py_exn + int" where
  "int_base2 s =
     (let t = strip s;
          neg = (t \<noteq> [] \<and> hd t = CHR ''-'');
          u = (if t \<noteq> [] \<and> (hd t = CHR ''-'' \<or> hd t = CHR ''+'') then tl t else t);
          v = (if take 2 u = ''0b'' \<or> take 2 u = ''0B'' then drop 2 u else u)
      in if v = [] then Inl ValueError
         else rbind (digits2 0 v) (\<lambda>m. Inr (if neg then - m else m)))"

definition bin2int :: "string \<Rightarrow> py_exn + int" where
  "bin2int bin_string = int_base2 bin_string"

subsection \<open>lsb, gray\_encode\<close>

definition lsb :: "int \<Rightarrow> nat \<Rightarrow> int" where
  "lsb x n = x AND (2 ^ n - 1)"

definition gray_encode :: "int \<Rightarrow> int" where
  "gray_encode i = i XOR (drop_bit 1 i)"

subsection \<open>binary\_range\<close>

text \<open>The inner loop, from position \<open>i\<close>: ripple the carry recorded in \<open>toggle\<close>.\<close>

function br_inner :: "nat \<Rightarrow> nat \<Rightarrow> string \<Rightarrow> nat list \<Rightarrow> string \<times> nat list" where
  "br_inner bits i v toggle =
     (if i < bits \<and> toggle ! i = 1
      then (if v ! i = CHR ''0''
            then br_inner bits (Suc i) (v[i := CHR ''1'']) (toggle[Suc i := 0])
            else br_inner bits (Suc i) (v[i := CHR ''0'']) (toggle[Suc i := 1]))
      else (v, toggle))"
  by pat_completeness auto
termination
  by (relation "measure (\<lambda>(bits, i, v, toggle). bits - i)") auto

declare br_inner.simps [simp del]

partial_function (option) binary_range_loop ::
    "nat \<Rightarrow> string \<Rightarrow> nat list \<Rightarrow> string list \<Rightarrow> string list option" where
  "binary_range_loop bits v toggle l =
     (if toggle ! bits \<noteq> 1
      then binary_range_loop bits
             (fst (br_inner bits 0 v (1 # replicate bits 0)))
             (snd (br_inner bits 0 v (1 # replicate bits 0)))
             (l @ [rev v])
      else Some l)"

definition binary_range :: "nat \<Rightarrow> string list option" where
  "binary_range bits =
     binary_range_loop bits (replicate bits (CHR ''0'')) (1 # replicate bits 0) []"

section \<open>The reference: bits of a number\<close>

fun lsbstr :: "nat \<Rightarrow> nat \<Rightarrow> string" where
  "lsbstr 0 m = []"
| "lsbstr (Suc n) m = (if odd m then CHR ''1'' else CHR ''0'') # lsbstr n (m div 2)"

definition binstr :: "nat \<Rightarrow> nat \<Rightarrow> string" where
  "binstr n m = rev (lsbstr n m)"

lemma length_lsbstr [simp]: "length (lsbstr n m) = n"
  by (induction n arbitrary: m) auto

lemma length_binstr [simp]: "length (binstr n m) = n"
  by (simp add: binstr_def)

lemma set_lsbstr: "set (lsbstr n m) \<subseteq> {CHR ''0'', CHR ''1''}"
  by (induction n arbitrary: m) auto

lemma lsbstr_add: "lsbstr (a + b) m = lsbstr a m @ lsbstr b (m div 2 ^ a)"
  by (induction a arbitrary: m) (auto simp: div_mult2_eq)

lemma lsbstr_zero: "lsbstr n 0 = replicate n (CHR ''0'')"
  by (induction n) auto

lemma lsbstr_mod: "lsbstr n (m mod 2 ^ n) = lsbstr n m"
proof (induction n arbitrary: m)
  case (Suc n)
  have "m mod 2 ^ Suc n div 2 = m div 2 mod 2 ^ n"
    by (simp add: mod_mult2_eq)
  moreover have "odd (m mod 2 ^ Suc n) = odd m"
    by (simp add: dvd_mod_iff)
  ultimately show ?case
    using Suc by simp
qed simp

lemma one_in_lsbstr: "m < 2 ^ n \<Longrightarrow> CHR ''1'' \<in> set (lsbstr n m) \<longleftrightarrow> m \<noteq> 0"
proof (induction n arbitrary: m)
  case (Suc n)
  then have "m div 2 < 2 ^ n" by auto
  with Suc.IH show ?case
    by (auto elim: oddE)
qed simp

lemma take_lsbstr: "n \<le> l \<Longrightarrow> take n (lsbstr l m) = lsbstr n m"
  using lsbstr_add [of n "l - n" m] by simp

lemma drop_lsbstr: "n \<le> l \<Longrightarrow> drop n (lsbstr l m) = lsbstr (l - n) (m div 2 ^ n)"
  using lsbstr_add [of n "l - n" m] by simp

lemma lsbstr_pad:
  "l \<le> n \<Longrightarrow> m < 2 ^ l \<Longrightarrow> lsbstr n m = lsbstr l m @ replicate (n - l) (CHR ''0'')"
  using lsbstr_add [of l "n - l" m] by (simp add: lsbstr_zero)

section \<open>int2bin agrees with the reference\<close>

lemma hex2bin_digit_all:
  "\<forall>d \<in> set [0..<16]. hex2bin (hexdigit d) = Inr (rev (lsbstr 4 d))"
  by code_simp

lemma hex2bin_digit: "d < 16 \<Longrightarrow> hex2bin (hexdigit d) = Inr (rev (lsbstr 4 d))"
  using hex2bin_digit_all by auto


lemma hexstr_bits:
  "\<exists>gs. mapM hex2bin (hexstr m) = Inr gs
     \<and> concat gs = rev (lsbstr (4 * length (hexstr m)) m) \<and> m < 16 ^ length (hexstr m)"
proof (induction m rule: hexstr.induct)
  case (1 m)
  show ?case
  proof (cases "m < 16")
    case True
    then show ?thesis
      using hex2bin_digit [of m] by (auto simp: hexstr.simps [of m])
  next
    case False
    let ?h = "hexstr (m div 16)"
    from 1 [OF False] obtain gs where gs: "mapM hex2bin ?h = Inr gs"
      "concat gs = rev (lsbstr (4 * length ?h) (m div 16))" "m div 16 < 16 ^ length ?h"
      by auto
    have "lsbstr (4 + 4 * length ?h) m = lsbstr 4 (m mod 16) @ lsbstr (4 * length ?h) (m div 16)"
      using lsbstr_add [of 4 "4 * length ?h" m] lsbstr_mod [of 4 m] by simp
    moreover have "m < 16 ^ Suc (length ?h)"
      using gs(3) by (simp add: div_less_iff_less_mult mult.commute)
    ultimately show ?thesis
      using False gs hex2bin_digit [of "m mod 16"]
      by (auto simp: hexstr.simps [of m] mapM_append)
  qed
qed

lemma hexdigit_lower_all:
  "\<forall>d \<in> set [0..<16]. to_lower (hexdigit d) = hexdigit d \<and> hexdigit d \<noteq> CHR ''l''"
  by code_simp

lemma hexdigit_lower: "d < 16 \<Longrightarrow> to_lower (hexdigit d) = hexdigit d \<and> hexdigit d \<noteq> CHR ''l''"
  using hexdigit_lower_all by auto

lemma hexstr_lower: "map to_lower (hexstr m) = hexstr m \<and> CHR ''l'' \<notin> set (hexstr m)"
proof (induction m rule: hexstr.induct)
  case (1 m)
  show ?case
  proof (cases "m < 16")
    case True
    then show ?thesis using hexdigit_lower [of m] by (auto simp: hexstr.simps [of m])
  next
    case False
    then show ?thesis
      using 1 hexdigit_lower [of "m mod 16"] by (auto simp: hexstr.simps [of m])
  qed
qed

lemma py_hex_lower:
  "filter (\<lambda>c. c \<noteq> CHR ''l'') (map to_lower (py_hex i)) = py_hex i"
proof -
  have "filter (\<lambda>c. c \<noteq> CHR ''l'') (hexstr m) = hexstr m" for m
    using hexstr_lower [of m] by (auto intro: filter_True)
  moreover have "to_lower (CHR ''0'') = CHR ''0''" "to_lower (CHR ''x'') = CHR ''x''"
    "to_lower (CHR ''-'') = CHR ''-''"
    by (simp_all add: to_lower_def of_char_def)
  ultimately show ?thesis
    using hexstr_lower by (simp add: py_hex_def)
qed

lemma shrink_and_pad:
  assumes "0 < n" and "m < 2 ^ l"
  shows "CHR ''1'' \<in> set (slice_to (rev (lsbstr l m)) (- int n)) \<longleftrightarrow> 2 ^ n \<le> m"
    and "m < 2 ^ n \<Longrightarrow>
      (let r = slice_from (rev (lsbstr l m)) (- int n)
       in replicate (nat (int n - int (length r))) (CHR ''0'') @ r) = binstr n m"
proof -
  have mono: "(2::nat) ^ l \<le> 2 ^ n" if "l \<le> n"
    using that by simp
  show "CHR ''1'' \<in> set (slice_to (rev (lsbstr l m)) (- int n)) \<longleftrightarrow> 2 ^ n \<le> m"
  proof (cases "n \<le> l")
    case True
    then have "slice_to (rev (lsbstr l m)) (- int n) = rev (lsbstr (l - n) (m div 2 ^ n))"
      using assms(1) by (simp add: slice_to_neg take_rev drop_lsbstr nat_diff_distrib')
    moreover have "m div 2 ^ n < 2 ^ (l - n)"
      using assms(2) True by (simp add: div_less_iff_less_mult flip: power_add)
    ultimately show ?thesis
      by (simp add: one_in_lsbstr div_eq_0_iff not_less)
  next
    case False
    with assms(2) mono have "m < 2 ^ n" by (meson less_le_trans nat_le_linear)
    with False assms(1) show ?thesis by (simp add: slice_to_neg)
  qed
  show "(let r = slice_from (rev (lsbstr l m)) (- int n)
       in replicate (nat (int n - int (length r))) (CHR ''0'') @ r) = binstr n m"
    if "m < 2 ^ n"
  proof (cases "n \<le> l")
    case True
    then have "slice_from (rev (lsbstr l m)) (- int n) = binstr n m"
      using assms(1) by (simp add: slice_from_neg drop_rev take_lsbstr nat_diff_distrib' binstr_def)
    then show ?thesis by simp
  next
    case False
    then have "slice_from (rev (lsbstr l m)) (- int n) = rev (lsbstr l m)"
      using assms(1) by (simp add: slice_from_neg)
    then show ?thesis
      using False assms(2) by (simp add: lsbstr_pad [of l n] binstr_def nat_diff_distrib')
  qed
qed

lemma int2bin_nonneg:
  assumes "0 < n"
  shows "int2bin (int m) (int n) = (if m < 2 ^ n then Inr (binstr n m) else Inl ValueError)"
proof -
  obtain gs where gs: "mapM hex2bin (hexstr m) = Inr gs"
    "concat gs = rev (lsbstr (4 * length (hexstr m)) m)" "m < 16 ^ length (hexstr m)"
    using hexstr_bits by blast
  from gs(3) have l: "m < 2 ^ (4 * length (hexstr m))"
    by (simp add: power_mult)
  have "slice_from (py_hex (int m)) 2 = hexstr m"
    by (simp add: py_hex_def slice_from_nonneg)
  then show ?thesis
    using gs shrink_and_pad [OF assms l]
    by (auto simp: int2bin_def py_hex_lower Let_def)
qed

lemma int2bin_negative: "i < 0 \<Longrightarrow> int2bin i n = Inl KeyError"
  by (simp add: int2bin_def py_hex_lower)
    (simp add: py_hex_def slice_from_nonneg hex2bin_def hex2bin_table_def)

section \<open>bin2int inverts the reference\<close>

lemma digits2_append: "digits2 acc (xs @ ys) = rbind (digits2 acc xs) (\<lambda>a. digits2 a ys)"
  by (induction xs arbitrary: acc) auto

lemma digits2_binstr: "m < 2 ^ n \<Longrightarrow> digits2 a (binstr n m) = Inr (a * 2 ^ n + int m)"
proof (induction n arbitrary: a m)
  case 0
  then show ?case by (simp add: binstr_def)
next
  case (Suc n)
  then have "m div 2 < 2 ^ n" by auto
  with Suc.IH have "digits2 a (binstr n (m div 2)) = Inr (a * 2 ^ n + int (m div 2))"
    by blast
  moreover have "int m = 2 * int (m div 2) + (if odd m then 1 else 0)"
    by (auto simp: zdiv_int elim!: oddE evenE)
  ultimately show ?case
    by (simp add: binstr_def digits2_append algebra_simps)
qed

lemma int_base2_binstr:
  assumes "0 < n" and "m < 2 ^ n"
  shows "int_base2 (binstr n m) = Inr (int m)"
proof -
  let ?s = "binstr n m"
  have set: "set ?s \<subseteq> {CHR ''0'', CHR ''1''}"
    using set_lsbstr by (simp add: binstr_def)
  from assms(1) have ne: "?s \<noteq> []"
    by (metis length_binstr less_numeral_extra(3) list.size(3))
  then have hd: "hd ?s \<in> {CHR ''0'', CHR ''1''}" and last: "last ?s \<in> {CHR ''0'', CHR ''1''}"
    using set hd_in_set last_in_set by blast+
  then have strip: "strip ?s = ?s"
    by (intro strip_id) (auto simp: is_space_def)
  have pre: "take 2 ?s \<noteq> ''0b''" "take 2 ?s \<noteq> ''0B''"
    using set set_take_subset [of 2 ?s] by auto
  show ?thesis
    using hd strip pre ne digits2_binstr [OF assms(2), of 0]
    by (auto simp: int_base2_def Let_def)
qed


lemma bin2int_binstr: "0 < n \<Longrightarrow> m < 2 ^ n \<Longrightarrow> bin2int (binstr n m) = Inr (int m)"
  by (simp add: bin2int_def int_base2_binstr)

text \<open>At a fixed width, \<open>int2bin\<close> and \<open>bin2int\<close> are a codec for the numbers that fit.\<close>

interpretation bits: codec "\<lambda>m. int2bin m (int n)" "bin2int"
    "\<lambda>m. 0 < n \<and> 0 \<le> m \<and> m < 2 ^ n" for n
proof unfold_locales
  fix i :: int
  assume a: "0 < n \<and> 0 \<le> i \<and> i < 2 ^ n"
  then have m: "nat i < 2 ^ n" "int (nat i) = i"
    by (simp_all add: nat_less_iff)
  with a int2bin_nonneg [of n "nat i"] bin2int_binstr [of n "nat i"]
  show "\<exists>y. int2bin i (int n) = Inr y \<and> bin2int y = Inr i"
    by auto
qed

section \<open>binary\_range enumerates the reference\<close>

text \<open>Adding one to a bit string, least significant bit first, with the final carry.\<close>

fun incr :: "string \<Rightarrow> string \<times> bool" where
  "incr [] = ([], True)"
| "incr (x # xs) =
     (if x = CHR ''0'' then (CHR ''1'' # xs, False)
      else (CHR ''0'' # fst (incr xs), snd (incr xs)))"

lemma incr_lsbstr: "incr (lsbstr n m) = (lsbstr n (Suc m), 2 ^ n dvd Suc m)"
proof (induction n arbitrary: m)
  case (Suc n)
  show ?case
  proof (cases "odd m")
    case True
    then obtain j where j: "m = 2 * j + 1" by (elim oddE)
    then have "2 ^ Suc n dvd Suc m \<longleftrightarrow> 2 * 2 ^ n dvd 2 * Suc j"
      by simp
    then have "2 ^ Suc n dvd Suc m \<longleftrightarrow> 2 ^ n dvd Suc j"
      by (simp only: nat_mult_dvd_cancel_disj) simp
    with j show ?thesis
      using Suc [of j] by simp
  next
    case False
    then have "\<not> 2 ^ Suc n dvd Suc m"
      by (metis dvd_mult_left even_Suc power_Suc)
    with False show ?thesis by (auto elim!: evenE)
  qed
qed simp

lemma br_inner_stop: "\<not> (i < bits \<and> t ! i = 1) \<Longrightarrow> br_inner bits i v t = (v, t)"
  by (subst br_inner.simps) (rule if_not_P)

lemma br_inner_incr:
  assumes "length v = bits" and "length t = Suc bits" and "i \<le> bits" and "t ! i = 1"
    and "\<And>j. i < j \<Longrightarrow> j \<le> bits \<Longrightarrow> t ! j = 0"
  shows "fst (br_inner bits i v t) = take i v @ fst (incr (drop i v))
    \<and> (snd (br_inner bits i v t) ! bits = 1 \<longleftrightarrow> snd (incr (drop i v)))"
  using assms
proof (induction bits i v t rule: br_inner.induct)
  case (1 bits i v t)
  show ?case
  proof (cases "i < bits")
    case False
    then show ?thesis
      using "1.prems" by (auto simp: br_inner_stop)
  next
    case True
    then have d: "drop i v = v ! i # drop (Suc i) v"
      using "1.prems"(1) by (simp add: Cons_nth_drop_Suc)
    show ?thesis
    proof (cases "v ! i = CHR ''0''")
      case zero: True
      have "br_inner bits i v t = br_inner bits (Suc i) (v[i := CHR ''1'']) (t[Suc i := 0])"
        using True zero "1.prems"(4) by (subst br_inner.simps) simp
      also have "\<dots> = (v[i := CHR ''1''], t[Suc i := 0])"
        using True "1.prems"(2) by (intro br_inner_stop) auto
      finally have "br_inner bits i v t = (v[i := CHR ''1''], t[Suc i := 0])" .
      moreover have "v[i := CHR ''1''] = take i v @ CHR ''1'' # drop (Suc i) v"
        using True "1.prems"(1) by (simp add: upd_conv_take_nth_drop)
      moreover have "t[Suc i := 0] ! bits = 0"
        using True "1.prems"(2,5) by (cases "Suc i = bits") auto
      ultimately show ?thesis
        using zero d by simp
    next
      case one: False
      let ?v = "v[i := CHR ''0'']" and ?t = "t[Suc i := 1]"
      have "br_inner bits i v t = br_inner bits (Suc i) ?v ?t"
        using True one "1.prems"(4) by (subst br_inner.simps) simp
      moreover have "fst (br_inner bits (Suc i) ?v ?t) = take (Suc i) ?v @ fst (incr (drop (Suc i) ?v))
          \<and> (snd (br_inner bits (Suc i) ?v ?t) ! bits = 1 \<longleftrightarrow> snd (incr (drop (Suc i) ?v)))"
        using "1.prems" True one
        by (intro "1.IH"(2)) (auto simp: nth_list_update)
      ultimately show ?thesis
        using True one d "1.prems"(1)
        by (simp add: take_Suc_conv_app_nth drop_update_cancel take_update_cancel)
    qed
  qed
qed

lemma br_inner_lsbstr:
  assumes "0 < n"
  shows "fst (br_inner n 0 (lsbstr n m) (1 # replicate n 0)) = lsbstr n (Suc m)"
    and "snd (br_inner n 0 (lsbstr n m) (1 # replicate n 0)) ! n = 1 \<longleftrightarrow> 2 ^ n dvd Suc m"
  using br_inner_incr [of "lsbstr n m" n "1 # replicate n 0" 0]
  by (auto simp: incr_lsbstr nth_Cons')

lemma binary_range_loop_enum:
  assumes "0 < n" and "k < 2 ^ n" and "t ! n \<noteq> 1"
  shows "binary_range_loop n (lsbstr n k) t l = Some (l @ map (binstr n) [k..<2 ^ n])"
  using assms(2,3)
proof (induction "2 ^ n - k" arbitrary: k t l)
  case 0
  then show ?case by simp
next
  case (Suc d)
  let ?b = "br_inner n 0 (lsbstr n k) (1 # replicate n 0)"
  have up: "[k..<2 ^ n] = k # [Suc k..<2 ^ n]"
    using Suc.prems(1) by (simp add: upt_conv_Cons)
  have step: "binary_range_loop n (lsbstr n k) t l
      = binary_range_loop n (lsbstr n (Suc k)) (snd ?b) (l @ [binstr n k])"
    using Suc.prems(2) br_inner_lsbstr(1) [OF assms(1), of k]
    by (subst binary_range_loop.simps) (simp add: binstr_def)
  show ?case
  proof (cases "Suc k = 2 ^ n")
    case True
    then have "snd ?b ! n = 1"
      using br_inner_lsbstr(2) [OF assms(1), of k] by simp
    then have "binary_range_loop n (lsbstr n (Suc k)) (snd ?b) (l @ [binstr n k])
        = Some (l @ [binstr n k])"
      by (subst binary_range_loop.simps) simp
    with step up True show ?thesis by simp
  next
    case False
    then have k: "Suc k < 2 ^ n" using Suc.prems(1) by simp
    then have "snd ?b ! n \<noteq> 1"
      using br_inner_lsbstr(2) [OF assms(1), of k] by (auto dest: dvd_imp_le)
    with Suc.hyps k step up show ?thesis by simp
  qed
qed

lemma binary_range_enum:
  "binary_range n = Some (if n = 0 then [] else map (binstr n) [0..<2 ^ n])"
proof (cases "n = 0")
  case True
  then show ?thesis
    by (simp add: binary_range_def binary_range_loop.simps)
next
  case False
  then show ?thesis
    using binary_range_loop_enum [of n 0 "1 # replicate n 0" "[]"]
    by (simp add: binary_range_def lsbstr_zero nth_Cons')
qed

section \<open>lsb and gray\_encode\<close>

lemma lsb_mod: "lsb x n = x mod 2 ^ n"
  by (simp add: lsb_def flip: take_bit_eq_mod take_bit_eq_mask mask_eq_exp_minus_1)

lemma gray_encode_xor: "gray_encode (a XOR b) = gray_encode a XOR gray_encode b"
  by (rule bit_eqI) (auto simp: gray_encode_def bit_simps)

lemma xor_Suc_mask: "\<exists>k. int m XOR (int m + 1) = mask (Suc k)"
proof (induction m rule: less_induct)
  case (less m)
  show ?case
  proof (cases "even m")
    case True
    then have "int m XOR (int m + 1) = mask (Suc 0)"
      by (auto elim!: evenE simp: mask_eq_exp_minus_1 xor_int_rec [of "2 * _"])
    then show ?thesis by blast
  next
    case False
    then obtain j where j: "m = 2 * j + 1" by (elim oddE)
    with less [of j] obtain k where k: "int j XOR (int j + 1) = mask (Suc k)" by auto
    have "int m XOR (int m + 1) = 1 + 2 * (int j XOR (int j + 1))"
      using j by (subst xor_int_rec) (simp add: algebra_simps)
    also have "\<dots> = mask (Suc (Suc k))"
      by (simp add: k mask_eq_exp_minus_1)
    finally show ?thesis by blast
  qed
qed

lemma gray_encode_mask: "gray_encode (mask (Suc k)) = 2 ^ k"
  by (rule bit_eqI) (auto simp: gray_encode_def bit_simps)

lemma gray_encode_zero:
  assumes "0 \<le> c" and "gray_encode c = 0"
  shows "c = 0"
proof -
  have "c = (c XOR drop_bit 1 c) XOR drop_bit 1 c"
    by (simp add: xor.assoc)
  with assms(2) have "c = drop_bit 1 c"
    by (simp add: gray_encode_def)
  then have "c = c div 2"
    by (simp add: drop_bit_eq_div)
  with assms(1) show ?thesis by linarith
qed


section \<open>Properties\<close>

text \<open>\<open>int2bin\<close> and \<open>bin2int\<close> are inverse at every positive width: a number that fits is
  written with exactly \<open>n\<close> characters and read back unchanged; a number that does not fit
  raises \<open>ValueError\<close>, and a negative one \<open>KeyError\<close> (its hexadecimal text starts with a
  minus sign, so the slice keeps the \<open>x\<close>).\<close>
theorem int2bin_roundtrip:
  assumes "0 < n"
  shows "(if i < 0 then int2bin i (int n) = Inl KeyError
          else if 2 ^ n \<le> i then int2bin i (int n) = Inl ValueError
          else \<exists>s. int2bin i (int n) = Inr s \<and> length s = n \<and> bin2int s = Inr i)"
proof (cases "i < 0")
  case False
  then obtain m where i: "i = int m" by (metis not_less nonneg_int_cases)
  have fits: "2 ^ n \<le> int m \<longleftrightarrow> \<not> m < 2 ^ n"
    by (metis not_less of_nat_numeral of_nat_power of_nat_le_iff)
  show ?thesis
  proof (cases "m < 2 ^ n")
    case True
    with assms fits show ?thesis
      by (simp add: i int2bin_nonneg bin2int_binstr)
  next
    case False
    with assms fits show ?thesis
      by (simp add: i int2bin_nonneg)
  qed
qed (simp add: int2bin_negative)

theorem int2bin_roundtrip_witness:
  "\<exists>s. int2bin 123 8 = Inr s \<and> length s = 8 \<and> bin2int s = Inr 123"
  using int2bin_roundtrip [of 8 123] by simp

text \<open>\<open>binary_range\<close> terminates and lists the binary numbers of the given width in
  increasing order, each exactly once; at width 0 it returns the empty list.\<close>
theorem binary_range_correct:
  "binary_range bits = Some (if bits = 0 then [] else map (binstr bits) [0..<2 ^ bits])"
  by (rule binary_range_enum)

text \<open>Gray codes: the codes of two successive numbers differ in exactly one bit, and
  different numbers have different codes.\<close>
theorem gray_encode_adjacent:
  assumes "0 \<le> i" and "0 \<le> j"
  shows "(\<exists>k. gray_encode i XOR gray_encode (i + 1) = 2 ^ k)
    \<and> (gray_encode i = gray_encode j \<longrightarrow> i = j)"
proof
  obtain k where "i XOR (i + 1) = mask (Suc k)"
    using xor_Suc_mask [of "nat i"] assms(1) by auto
  then have "gray_encode i XOR gray_encode (i + 1) = 2 ^ k"
    by (metis gray_encode_mask gray_encode_xor)
  then show "\<exists>k. gray_encode i XOR gray_encode (i + 1) = 2 ^ k" ..
  show "gray_encode i = gray_encode j \<longrightarrow> i = j"
  proof
    assume "gray_encode i = gray_encode j"
    then have "gray_encode (i XOR j) = 0"
      by (simp only: gray_encode_xor xor_self_eq)
    moreover have "0 \<le> i XOR j"
      using assms by (simp only: xor_nonnegative_int_iff)
    ultimately have z: "i XOR j = 0"
      by (rule gray_encode_zero [rotated])
    have "i = (i XOR j) XOR j" by (simp add: xor.assoc)
    with z show "i = j" by simp
  qed
qed

theorem gray_encode_adjacent_witness:
  "(\<exists>k. gray_encode 7 XOR gray_encode 8 = 2 ^ k) \<and> gray_encode 7 = 4 \<and> gray_encode 8 = 12"
proof -
  have "\<exists>k. gray_encode 7 XOR gray_encode (7 + 1) = 2 ^ k"
    using gray_encode_adjacent [of 7 8, OF zero_le_numeral zero_le_numeral] by (rule conjunct1)
  moreover have "gray_encode 7 = 4" "gray_encode 8 = 12"
    by (simp_all add: gray_encode_def)
  ultimately show ?thesis by simp
qed

end
