(* ===== verification/Rad_Util.thy ===== *)
theory Rad_Util
  imports Complex_Main Prelude "HOL-Library.Sublist"
begin

text \<open>
  The list, string and integer helpers of \<^verbatim>\<open>bindings/python/rad_util.py\<close>.  The file is Python 2
  code, so \<open>/\<close> on two integers is floor division (\<open>div\<close>) and \<open>%\<close> takes the sign of the
  divisor (\<open>mod\<close>).  The numeric helpers are modelled at integer arguments.
\<close>

section \<open>Code\<close>

definition reverse :: "'a list \<Rightarrow> 'a list" where
  "reverse input_string = rev input_string"

text \<open>\<open>zip(*matrix)\<close> stops at the shortest row, and has no rows to read when there is none.\<close>

definition transpose_py :: "'a list list \<Rightarrow> 'a list list" where
  "transpose_py matrix =
     (if matrix = [] then []
      else map (\<lambda>j. map (\<lambda>row. row ! j) matrix) [0..<Min (set (map length matrix))])"

subsection \<open>gcf, lcm, reduce\_fraction\<close>

function gcf_loop :: "rat \<Rightarrow> int \<Rightarrow> int \<Rightarrow> int" where
  "gcf_loop epsilon result remainder =
     (if remainder \<noteq> 0 \<and> of_int \<bar>remainder\<bar> > epsilon
      then gcf_loop epsilon remainder (result mod remainder)
      else \<bar>result\<bar>)"
  by pat_completeness auto
termination
  by (relation "measure (\<lambda>(e, a, b). nat \<bar>b\<bar>)") (auto simp: abs_mod_less)

declare gcf_loop.simps [simp del]

definition gcf :: "rat \<Rightarrow> int \<Rightarrow> int \<Rightarrow> int" where
  "gcf epsilon a b = gcf_loop epsilon (max a b) (min a b)"

text \<open>The default value of \<open>gcf\<close>'s argument \<open>epsilon\<close>.\<close>

definition epsilon_default :: rat where
  "epsilon_default = 1 / 10 ^ 16"

definition lcm_py :: "int \<Rightarrow> int \<Rightarrow> int" where
  "lcm_py a b =
     (let denom = gcf epsilon_default a b
      in if denom = 0 then 0 else a * (b div denom))"

definition reduce_fraction :: "int \<times> int \<Rightarrow> py_exn + int \<times> int" where
  "reduce_fraction fraction =
     (let numerator = fst fraction; denominator = snd fraction;
          common_factor = \<bar>gcf epsilon_default numerator denominator\<bar>
      in if common_factor = 0 then Inl ZeroDivisionError
         else Inr (numerator div common_factor, denominator div common_factor))"

subsection \<open>permutations\<close>

fun permutations :: "'a list \<Rightarrow> 'a list list" where
  "permutations [] = [[]]"
| "permutations [x] = [[x]]"
| "permutations (item # x # xs) =
     concat (map (\<lambda>sub_list.
                    map (\<lambda>i. take i sub_list @ item # drop i sub_list)
                      [0..<length (item # x # xs)])
               (permutations (x # xs)))"

subsection \<open>uniquify, reverse\_dict\<close>

text \<open>The comprehension with the dictionary \<open>d\<close> of the items already kept.\<close>

fun uniquify_fast :: "('a, int) dict \<Rightarrow> 'a list \<Rightarrow> 'a list" where
  "uniquify_fast d [] = []"
| "uniquify_fast d (x # xs) =
     (if dget d x = None then x # uniquify_fast (dset x 0 d) xs else uniquify_fast d xs)"

fun uniquify_slow :: "'a list \<Rightarrow> 'a list \<Rightarrow> 'a list" where
  "uniquify_slow result [] = result"
| "uniquify_slow result (x # xs) =
     uniquify_slow (if x \<in> set result then result else result @ [x]) xs"

text \<open>
  \<open>hashable\<close> says which items a dictionary accepts as keys, \<open>korder\<close> in which order
  \<open>d.keys()\<close> lists them: Python 2 leaves that order open.
\<close>

definition uniquify ::
    "('a \<Rightarrow> bool) \<Rightarrow> ('a list \<Rightarrow> 'a list) \<Rightarrow> 'a list \<Rightarrow> bool \<Rightarrow> 'a list" where
  "uniquify hashable korder seq preserve_order =
     (if list_all hashable seq
      then (if preserve_order then uniquify_fast [] seq
            else korder (dkeys (fold (\<lambda>x d. dset x (0::int) d) seq [])))
      else uniquify_slow [] seq)"

definition reverse_dict :: "('k, 'v) dict \<Rightarrow> ('v, 'k) dict" where
  "reverse_dict d = fold (\<lambda>(key, value) result. dset value key result) d []"

subsection \<open>find\_common\_fixes, is\_rotated\<close>

function fixes_prefix :: "'a list \<Rightarrow> 'a list \<Rightarrow> nat \<Rightarrow> nat \<Rightarrow> 'a list \<Rightarrow> 'a list" where
  "fixes_prefix s1 s2 common_len i pre =
     (if i < common_len
      then (if s1 ! i \<noteq> s2 ! i then pre
            else fixes_prefix s1 s2 common_len (Suc i) (pre @ [s1 ! i]))
      else pre)"
  by pat_completeness auto
termination
  by (relation "measure (\<lambda>(s1, s2, n, i, p). n - i)") auto

function fixes_suffix :: "'a list \<Rightarrow> 'a list \<Rightarrow> nat \<Rightarrow> nat \<Rightarrow> 'a list \<Rightarrow> 'a list" where
  "fixes_suffix s1 s2 common_len i suf =
     (if i < common_len + 1
      then (if s1 ! (length s1 - i) \<noteq> s2 ! (length s2 - i) then suf
            else fixes_suffix s1 s2 common_len (Suc i) (suf @ [s1 ! (length s1 - i)]))
      else suf)"
  by pat_completeness auto
termination
  by (relation "measure (\<lambda>(s1, s2, n, i, p). n + 1 - i)") auto

declare fixes_prefix.simps [simp del] fixes_suffix.simps [simp del]

definition find_common_fixes :: "'a list \<Rightarrow> 'a list \<Rightarrow> 'a list \<times> 'a list" where
  "find_common_fixes s1 s2 =
     (let common_len = min (length s1) (length s2)
      in (fixes_prefix s1 s2 common_len 0 [], rev (fixes_suffix s1 s2 common_len 1 [])))"

definition is_rotated :: "'a list \<Rightarrow> 'a list \<Rightarrow> py_exn + bool" where
  "is_rotated seq1 seq2 =
     (if length seq1 \<noteq> length seq2 then Inr False
      else rbind (py_get seq2 0) (\<lambda>head_item.
        let start_indexes = filter (\<lambda>index1. seq1 ! index1 = head_item) [0..<length seq1];
            double_seq1 = seq1 @ seq1
        in Inr (list_ex (\<lambda>index1.
                  slice double_seq1 (int index1) (int (index1 + length seq1)) = seq2)
                start_indexes)))"

subsection \<open>round\_grid, polygon\_area, get\_args\<close>

text \<open>
  At integer \<open>value\<close> and \<open>grid\<close>; the comparison with \<open>grid / 2.0\<close> is doubled.  The local
  \<open>add_one\<close> is assigned on three branches only.
\<close>

definition round_grid :: "int \<Rightarrow> int \<Rightarrow> int \<Rightarrow> py_exn + int" where
  "round_grid value grid mode =
     (if grid = 0 then Inl ZeroDivisionError
      else
        let off_grid = value mod grid;
            add_one =
              (if mode = 0 then Some (if 2 * off_grid \<ge> grid then 1 else 0)
               else if mode = 1 \<and> off_grid \<noteq> 0 then Some 1
               else if mode = -1 \<and> off_grid \<noteq> 0 then Some 0
               else None)
        in case add_one of
             None \<Rightarrow> Inl UnboundLocalError
           | Some a \<Rightarrow> Inr ((value div grid + a) * grid))"

text \<open>Twice the signed area, summed over the edges of the closed polygon.\<close>

fun shoelace :: "(int \<times> int) list \<Rightarrow> int" where
  "shoelace ((x0, y0) # (x1, y1) # ps) = x1 * y0 - y1 * x0 + shoelace ((x1, y1) # ps)"
| "shoelace _ = 0"

definition close_polygon :: "(int \<times> int) list \<Rightarrow> py_exn + (int \<times> int) list" where
  "close_polygon ps =
     rbind (py_get ps (- 1)) (\<lambda>l. rbind (py_get ps 0) (\<lambda>f.
       Inr (if l \<noteq> f then ps @ [f] else ps)))"

text \<open>
  At integer points and precision: the scaled, closed list that replaces the caller's, and the
  area, a quotient of two integers.
\<close>

definition polygon_area ::
    "(int \<times> int) list \<Rightarrow> int \<Rightarrow> py_exn + (int \<times> int) list \<times> rat" where
  "polygon_area points_list precision =
     rbind (close_polygon (map (\<lambda>(x, y). (x * precision, y * precision)) points_list)) (\<lambda>ps.
       if precision = 0 then Inl ZeroDivisionError
       else Inr (ps, of_int \<bar>shoelace ps div 2\<bar> / of_int (precision ^ 2)))"

datatype arg_value = Flag | Opt string

definition get_args_step ::
    "string \<Rightarrow> (string, arg_value) dict \<times> string list \<Rightarrow> (string, arg_value) dict \<times> string list" where
  "get_args_step arg st =
     (let (d, args) = st
      in if startswith arg ''-''
         then (let parts = split_on (CHR ''='') (dropWhile (\<lambda>c. c = CHR ''-'') arg)
               in if length parts = 2 then (dset (parts ! 0) (Opt (parts ! 1)) d, args)
                  else (dset (parts ! 0) Flag d, args))
         else (d, args @ [arg]))"

text \<open>The final store \<open>d['args'] = args\<close> is the second component, which overrides the key \<open>args\<close>.\<close>

definition get_args :: "string list \<Rightarrow> (string, arg_value) dict \<times> string list" where
  "get_args argv = (let (d, args) = fold get_args_step argv ([], []) in (ddel ''args'' d, args))"

section \<open>Euclid's algorithm\<close>

lemma gcf_loop_gcd: "eps < 1 \<Longrightarrow> gcf_loop eps a b = gcd a b"
proof (induction eps a b rule: gcf_loop.induct)
  case (1 eps a b)
  show ?case
  proof (cases "b = 0")
    case True
    then show ?thesis by (simp add: gcf_loop.simps)
  next
    case False
    then have "1 \<le> \<bar>b\<bar>" by linarith
    then have "(1::rat) \<le> of_int \<bar>b\<bar>"
      by (metis of_int_1 of_int_le_iff)
    with "1.prems" have "of_int \<bar>b\<bar> > eps" by linarith
    with False "1.IH" "1.prems" show ?thesis
      by (simp add: gcf_loop.simps [of eps a b] gcd_red_int [of a b] gcd.commute)
  qed
qed

lemma gcf_gcd: "eps < 1 \<Longrightarrow> gcf eps a b = gcd a b"
  by (simp add: gcf_def gcf_loop_gcd max_def min_def gcd.commute)

lemma gcf_default [simp]: "gcf epsilon_default a b = gcd a b"
  by (simp add: gcf_gcd epsilon_default_def)

section \<open>Permutations\<close>

lemma permutations_Cons:
  "xs \<noteq> [] \<Longrightarrow> permutations (a # xs) =
     concat (map (\<lambda>s. map (\<lambda>i. take i s @ a # drop i s) [0..<Suc (length xs)]) (permutations xs))"
  by (cases xs) simp_all

lemma in_concat_map: "y \<in> set (concat (map f xs)) \<longleftrightarrow> (\<exists>x \<in> set xs. y \<in> set (f x))"
  by simp

lemma in_map_upt: "y \<in> set (map g [0..<Suc n]) \<longleftrightarrow> (\<exists>i \<le> n. y = g i)"
  by (auto simp: less_Suc_eq_le simp del: upt_Suc)

lemma in_permutations_Cons:
  "xs \<noteq> [] \<Longrightarrow> ys \<in> set (permutations (a # xs)) \<longleftrightarrow>
     (\<exists>s \<in> set (permutations xs). \<exists>i \<le> length xs. ys = take i s @ a # drop i s)"
  by (simp only: permutations_Cons in_concat_map in_map_upt not_False_eq_True)

lemma set_permutations: "set (permutations xs) = {ys. mset ys = mset xs}"
proof (induction xs rule: permutations.induct)
  case (3 a x xs)
  let ?xs = "x # xs"
  have "ys \<in> set (permutations (a # ?xs)) \<longleftrightarrow> mset ys = mset (a # ?xs)" for ys
  proof
    assume "ys \<in> set (permutations (a # ?xs))"
    then obtain s i where "mset s = mset ?xs" "ys = take i s @ a # drop i s"
      using 3 in_permutations_Cons [of ?xs ys a] by auto
    then show "mset ys = mset (a # ?xs)"
      by (metis append_take_drop_id mset.simps(2) mset_append union_mset_add_mset_right)
  next
    assume m: "mset ys = mset (a # ?xs)"
    then have "a \<in> set ys" by (metis list.set_intros(1) set_mset_mset)
    then obtain us vs where ys: "ys = us @ a # vs" by (meson split_list)
    with m have s: "mset (us @ vs) = mset ?xs" by simp
    then have "length us \<le> length ?xs"
      by (metis le_add1 length_append size_mset)
    moreover have "ys = take (length us) (us @ vs) @ a # drop (length us) (us @ vs)"
      using ys by simp
    moreover have "us @ vs \<in> set (permutations ?xs)"
      using 3 s by blast
    ultimately show "ys \<in> set (permutations (a # ?xs))"
      using in_permutations_Cons [of ?xs ys a] by blast
  qed
  then show ?case by blast
qed auto

lemma length_permutations: "length (permutations xs) = fact (length xs)"
proof (induction xs rule: permutations.induct)
  case (3 a x xs)
  have "map length (map (\<lambda>s. map (\<lambda>i. take i s @ a # drop i s) [0..<n]) ps) = replicate (length ps) n"
    for n and ps :: "'a list list"
    by (induction ps) auto
  with 3 show ?case
    by (simp add: length_concat sum_list_replicate comp_def)
qed auto


section \<open>uniquify\<close>

text \<open>The reference: each item at its first occurrence.\<close>

fun first_occs :: "'a list \<Rightarrow> 'a list" where
  "first_occs [] = []"
| "first_occs (x # xs) = x # filter (\<lambda>y. y \<noteq> x) (first_occs xs)"

lemma set_first_occs [simp]: "set (first_occs xs) = set xs"
  by (induction xs) auto

lemma distinct_first_occs [simp]: "distinct (first_occs xs)"
  by (induction xs) auto

lemma subseq_first_occs: "subseq (first_occs xs) xs"
  by (induction xs) (auto intro: subseq_order.trans [OF subseq_filter_left])

lemma uniquify_fast_eq: "uniquify_fast d xs = filter (\<lambda>x. dget d x = None) (first_occs xs)"
proof (induction xs arbitrary: d)
  case (Cons x xs)
  have "filter (\<lambda>y. dget (dset x 0 d) y = None) ys = filter (\<lambda>y. dget d y = None) (filter (\<lambda>y. y \<noteq> x) ys)"
    for ys
    by (induction ys) auto
  moreover have "filter (\<lambda>y. dget d y = None) ys = filter (\<lambda>y. dget d y = None) (filter (\<lambda>y. y \<noteq> x) ys)"
    if "dget d x \<noteq> None" for ys
    using that by (induction ys) auto
  ultimately show ?case
    using Cons by auto
qed simp

lemma uniquify_slow_eq: "uniquify_slow r xs = r @ filter (\<lambda>x. x \<notin> set r) (first_occs xs)"
proof (induction xs arbitrary: r)
  case (Cons x xs)
  have "filter (\<lambda>y. y \<notin> set r) (filter (\<lambda>y. y \<noteq> x) ys) = filter (\<lambda>y. y \<notin> set r) ys"
    if "x \<in> set r" for ys
    using that by (induction ys) auto
  moreover have "filter (\<lambda>y. y \<notin> set (r @ [x])) ys = filter (\<lambda>y. y \<notin> set r) (filter (\<lambda>y. y \<noteq> x) ys)"
    for ys
    by (induction ys) auto
  ultimately show ?case
    using Cons by auto
qed simp

lemma dkeys_fold_dset:
  "dkeys (fold (\<lambda>x d. dset x v d) xs d) = dkeys d @ filter (\<lambda>x. x \<notin> set (dkeys d)) (first_occs xs)"
proof (induction xs arbitrary: d)
  case (Cons x xs)
  have keys: "dkeys (dset x v d) = (if x \<in> set (dkeys d) then dkeys d else dkeys d @ [x])"
    by (simp add: update_keys)
  have "filter (\<lambda>y. y \<notin> set ks) (filter (\<lambda>y. y \<noteq> x) ys) = filter (\<lambda>y. y \<notin> set ks) ys"
    if "x \<in> set ks" for ys ks
    using that by (induction ys) auto
  moreover have "filter (\<lambda>y. y \<notin> set (ks @ [x])) ys = filter (\<lambda>y. y \<notin> set ks) (filter (\<lambda>y. y \<noteq> x) ys)"
    for ys ks
    by (induction ys) auto
  ultimately show ?case
    using Cons [of "dset x v d"] unfolding keys by (auto simp del: set_map)
qed simp

lemma uniquify_preserving:
  "preserve_order \<or> \<not> list_all hashable seq \<Longrightarrow>
     uniquify hashable korder seq preserve_order = first_occs seq"
  by (auto simp: uniquify_def uniquify_fast_eq uniquify_slow_eq)

lemma uniquify_unordered:
  "list_all hashable seq \<Longrightarrow> uniquify hashable korder seq False = korder (first_occs seq)"
  by (simp add: uniquify_def dkeys_fold_dset)

section \<open>reverse\_dict\<close>

lemma fold_dset_swap_append:
  "distinct (map fst acc @ map snd d) \<Longrightarrow>
     fold (\<lambda>(key, value) result. dset value key result) d acc = acc @ map prod.swap d"
proof (induction d arbitrary: acc)
  case (Cons p d)
  obtain k v where p: "p = (k, v)" by force
  from Cons.prems have "dset v k acc = acc @ [(v, k)]"
    by (intro dset_new) (auto simp: p)
  with Cons.IH [of "acc @ [(v, k)]"] Cons.prems show ?case
    by (simp add: p)
qed simp

lemma reverse_dict_swap: "distinct (map snd d) \<Longrightarrow> reverse_dict d = map prod.swap d"
  using fold_dset_swap_append [of "[]" d] by (simp add: reverse_dict_def)

lemma reverse_dict_lookup:
  "dget (reverse_dict d) v = dget (rev (map prod.swap d)) v"
proof -
  have "dget (fold (\<lambda>(key, value) result. dset value key result) d acc) v
      = (case dget (rev (map prod.swap d)) v of None \<Rightarrow> dget acc v | Some k \<Rightarrow> Some k)" for acc
    by (induction d arbitrary: acc) (auto split: option.splits simp: map_add_def)
  from this [of "[]"] show ?thesis
    by (auto simp: reverse_dict_def split: option.splits)
qed

section \<open>Common prefixes and suffixes\<close>

lemma fixes_prefix_lcp:
  "i \<le> length s1 \<Longrightarrow> i \<le> length s2 \<Longrightarrow>
     fixes_prefix s1 s2 (min (length s1) (length s2)) i acc
       = acc @ longest_common_prefix (drop i s1) (drop i s2)"
proof (induction "min (length s1) (length s2) - i" arbitrary: i acc)
  case 0
  then have "drop i s1 = [] \<or> drop i s2 = []" by auto
  with 0 show ?case
    by (subst fixes_prefix.simps) auto
next
  case (Suc n)
  then have lt: "i < length s1" "i < length s2" by auto
  then have "drop i s1 = s1 ! i # drop (Suc i) s1" "drop i s2 = s2 ! i # drop (Suc i) s2"
    by (simp_all add: Cons_nth_drop_Suc)
  with Suc lt show ?case
    by (subst fixes_prefix.simps) simp
qed

lemma fixes_suffix_prefix:
  "fixes_suffix s1 s2 (min (length s1) (length s2)) (Suc i) acc
     = fixes_prefix (rev s1) (rev s2) (min (length s1) (length s2)) i acc"
proof (induction "min (length s1) (length s2) - i" arbitrary: i acc)
  case 0
  then show ?case
    by (subst fixes_prefix.simps, subst fixes_suffix.simps) auto
next
  case (Suc n)
  then have "i < length s1" "i < length s2" by auto
  with Suc show ?case
    by (subst fixes_prefix.simps, subst fixes_suffix.simps) (simp add: rev_nth)
qed

lemma find_common_fixes_lcp:
  "find_common_fixes s1 s2 =
     (longest_common_prefix s1 s2, rev (longest_common_prefix (rev s1) (rev s2)))"
  using fixes_prefix_lcp [of 0 "rev s1" "rev s2"]
  by (simp add: find_common_fixes_def Let_def fixes_prefix_lcp fixes_suffix_prefix)

section \<open>Rotations\<close>

lemma double_slice_rotate:
  "i < length xs \<Longrightarrow> slice (xs @ xs) (int i) (int (i + length xs)) = rotate i xs"
  by (simp add: slice_nonneg rotate_drop_take nat_int_add)

lemma is_rotated_rotate:
  assumes "seq2 \<noteq> []"
  shows "is_rotated seq1 seq2 = Inr (\<exists>k. rotate k seq1 = seq2)"
proof (cases "length seq1 = length seq2")
  case False
  then show ?thesis by (auto simp: is_rotated_def)
next
  case True
  with assms have ne: "seq1 \<noteq> []" by auto
  have "(\<exists>i. i < length seq1 \<and> seq1 ! i = seq2 ! 0 \<and> rotate i seq1 = seq2)
      \<longleftrightarrow> (\<exists>k. rotate k seq1 = seq2)"
  proof
    assume "\<exists>k. rotate k seq1 = seq2"
    then obtain k where "rotate k seq1 = seq2" by blast
    then have r: "rotate (k mod length seq1) seq1 = seq2"
      by (simp flip: rotate_conv_mod)
    moreover have "k mod length seq1 < length seq1" using ne by simp
    moreover from this r have "seq1 ! (k mod length seq1) = seq2 ! 0"
      using ne by (auto simp: nth_rotate)
    ultimately show "\<exists>i. i < length seq1 \<and> seq1 ! i = seq2 ! 0 \<and> rotate i seq1 = seq2"
      by blast
  qed blast
  moreover have "py_get seq2 0 = Inr (seq2 ! 0)"
    using assms by (simp add: py_get_nonneg)
  ultimately show ?thesis
    using True double_slice_rotate [of _ seq1]
    by (auto simp: is_rotated_def Let_def list_ex_iff)
qed

section \<open>transpose, round\_grid, polygon\_area, get\_args\<close>

lemma transpose_rect:
  assumes "m \<noteq> []" and "\<forall>row \<in> set m. length row = c"
  shows "transpose_py m = map (\<lambda>j. map (\<lambda>row. row ! j) m) [0..<c]"
proof -
  from assms have "set (map length m) = {c}"
    by (cases m) auto
  with assms(1) show ?thesis
    by (simp add: transpose_py_def)
qed

lemma transpose_twice:
  assumes "m \<noteq> []" and "0 < c" and "\<forall>row \<in> set m. length row = c"
  shows "transpose_py (transpose_py m) = m"
proof -
  let ?t = "transpose_py m"
  have t: "?t = map (\<lambda>j. map (\<lambda>row. row ! j) m) [0..<c]"
    using assms by (intro transpose_rect) auto
  then have "transpose_py ?t = map (\<lambda>i. map (\<lambda>row. row ! i) ?t) [0..<length m]"
    using assms(2) by (intro transpose_rect) auto
  also have "\<dots> = map (\<lambda>i. m ! i) [0..<length m]"
    using assms(3) by (intro map_cong refl nth_equalityI) (auto simp: t)
  finally show ?thesis
    by (simp add: map_nth)
qed

lemma shoelace_snoc:
  "shoelace (xs @ [(x0, y0), (x1, y1)]) = shoelace (xs @ [(x0, y0)]) + x1 * y0 - y1 * x0"
proof (induction xs)
  case (Cons p xs)
  then show ?case
    by (cases p; cases xs) (auto simp: algebra_simps)
qed simp

lemma shoelace_rev: "shoelace (rev ps) = - shoelace ps"
proof (induction ps rule: shoelace.induct)
  case (1 x0 y0 x1 y1 ps)
  then show ?case
    using shoelace_snoc [of "rev ps" x1 y1 x0 y0] by simp
qed auto

lemma fold_get_args_snd:
  "snd (fold get_args_step argv st) = snd st @ filter (\<lambda>a. \<not> startswith a ''-'') argv"
proof (induction argv arbitrary: st)
  case (Cons a argv)
  have "snd (get_args_step a st) = snd st @ (if startswith a ''-'' then [] else [a])"
    by (cases st) (auto simp: get_args_step_def Let_def)
  with Cons show ?case by simp
qed simp


section \<open>Properties\<close>

text \<open>\<open>gcf\<close> at integers is the greatest common divisor (for every \<open>epsilon\<close> below 1), and
  \<open>reduce_fraction\<close>, built on it, returns the same fraction in lowest terms, or raises
  \<open>ZeroDivisionError\<close> exactly on \<open>0/0\<close>.\<close>
theorem reduce_fraction_lowest:
  "(\<forall>eps < 1. gcf eps a b = gcd a b)
   \<and> (case reduce_fraction (a, b) of
        Inl e \<Rightarrow> e = ZeroDivisionError \<and> a = 0 \<and> b = 0
      | Inr (p, q) \<Rightarrow> coprime p q \<and> a * q = b * p \<and> a = p * gcd a b \<and> b = q * gcd a b)"
proof -
  have "coprime (a div gcd a b) (b div gcd a b)" if "gcd a b \<noteq> 0"
    using that by (intro div_gcd_coprime) auto
  moreover have "a * (b div gcd a b) = b * (a div gcd a b)"
    by (metis div_mult_swap gcd_dvd1 gcd_dvd2 mult.commute)
  ultimately show ?thesis
    by (auto simp: reduce_fraction_def gcf_gcd Let_def)
qed

theorem reduce_fraction_lowest_witness:
  "gcf epsilon_default 12 34 = 2 \<and> reduce_fraction (14, 7) = Inr (2, 1)
   \<and> gcf (1 / 2) 12 34 = gcd 12 34"
proof -
  have "gcf (1 / 2) 12 34 = gcd 12 34"
    using reduce_fraction_lowest [of 12 34] by simp
  moreover have "gcd (14::int) 7 = 7" "gcd (12::int) 34 = 2"
    by code_simp+
  ultimately show ?thesis
    by (simp add: reduce_fraction_def)
qed

text \<open>\<open>permutations\<close> returns \<open>n!\<close> lists, which are exactly the rearrangements of its
  argument.\<close>
theorem permutations_complete:
  "set (permutations xs) = {ys. mset ys = mset xs} \<and> length (permutations xs) = fact (length xs)"
  by (simp add: set_permutations length_permutations)

text \<open>\<open>find_common_fixes\<close> returns the longest common prefix and the longest common
  suffix: both strings start and end with them, and no longer common prefix or suffix
  exists.\<close>
theorem find_common_fixes_longest:
  "let (p, q) = find_common_fixes s1 s2
   in prefix p s1 \<and> prefix p s2 \<and> (\<forall>p'. prefix p' s1 \<and> prefix p' s2 \<longrightarrow> prefix p' p)
    \<and> suffix q s1 \<and> suffix q s2 \<and> (\<forall>q'. suffix q' s1 \<and> suffix q' s2 \<longrightarrow> suffix q' q)"
  using longest_common_prefix_prefix1 [of "rev s1" "rev s2"]
    longest_common_prefix_prefix2 [of "rev s1" "rev s2"]
  by (auto simp: find_common_fixes_lcp suffix_to_prefix longest_common_prefix_prefix1
      longest_common_prefix_prefix2 longest_common_prefix_max_prefix)

theorem find_common_fixes_longest_witness:
  "find_common_fixes ''abcelephantdef'' ''abccowdef'' = (''abc'', ''def'')
   \<and> prefix ''ab'' (fst (find_common_fixes ''abcelephantdef'' ''abccowdef''))"
proof -
  have e: "find_common_fixes ''abcelephantdef'' ''abccowdef'' = (''abc'', ''def'')"
    by (simp add: find_common_fixes_def fixes_prefix.simps fixes_suffix.simps)
  have "\<forall>p'. prefix p' ''abcelephantdef'' \<and> prefix p' ''abccowdef'' \<longrightarrow> prefix p' ''abc''"
    using find_common_fixes_longest [of "''abcelephantdef''" "''abccowdef''"]
    by (simp add: e)
  then have "prefix ''ab'' ''abc''" by simp
  with e show ?thesis by simp
qed

text \<open>\<open>uniquify\<close> keeps each item exactly once.  With \<open>preserve_order\<close>, or when an item is
  not hashable, the result is the subsequence of first occurrences; otherwise its order is
  that of the dictionary's keys, whatever it is.\<close>
theorem uniquify_first_occurrences:
  assumes "\<And>ks. mset (korder ks) = mset ks"
  shows "distinct (uniquify hashable korder seq preserve_order)
    \<and> set (uniquify hashable korder seq preserve_order) = set seq
    \<and> (preserve_order \<or> \<not> list_all hashable seq \<longrightarrow>
         uniquify hashable korder seq preserve_order = first_occs seq)"
proof (cases "preserve_order \<or> \<not> list_all hashable seq")
  case True
  then show ?thesis by (simp add: uniquify_preserving)
next
  case False
  then have "mset (uniquify hashable korder seq preserve_order) = mset (first_occs seq)"
    by (simp add: uniquify_unordered assms)
  with False show ?thesis
    by (metis distinct_first_occs mset_eq_imp_distinct_iff mset_eq_setD set_first_occs)
qed

theorem uniquify_first_occurrences_witness:
  "distinct (uniquify (\<lambda>_. True) rev [3, 3, 1, 2::int] False)
   \<and> set (uniquify (\<lambda>_. True) rev [3, 3, 1, 2::int] False) = {1, 2, 3}
   \<and> uniquify (\<lambda>_. False) rev [3, 3, 1, 2::int] False = [3, 1, 2]"
  using uniquify_first_occurrences [of rev "\<lambda>_. True" "[3, 3, 1, 2::int]" False]
    uniquify_first_occurrences [of rev "\<lambda>_. False" "[3, 3, 1, 2::int]" False]
  by auto

text \<open>\<open>round_grid\<close> with a positive grid: nearest, up and down as documented when the value
  is off the grid; but rounding up or down a value that is already on the grid raises
  \<open>UnboundLocalError\<close> instead of returning it.\<close>
theorem round_grid_modes:
  assumes "0 < grid"
  shows "(case round_grid value grid 0 of
            Inl e \<Rightarrow> False
          | Inr r \<Rightarrow> grid dvd r \<and> 2 * \<bar>r - value\<bar> \<le> grid)
    \<and> (\<not> grid dvd value \<longrightarrow>
         (\<exists>r. round_grid value grid 1 = Inr r \<and> grid dvd r \<and> value < r \<and> r < value + grid)
       \<and> (\<exists>r. round_grid value grid (- 1) = Inr r \<and> grid dvd r \<and> value - grid < r \<and> r < value))
    \<and> (grid dvd value \<longrightarrow>
         round_grid value grid 1 = Inl UnboundLocalError
       \<and> round_grid value grid (- 1) = Inl UnboundLocalError)"
proof -
  have v: "value = value div grid * grid + value mod grid" by simp
  have m: "0 \<le> value mod grid" "value mod grid < grid"
    using assms by simp_all
  have r: "(value div grid + a) * grid = value - value mod grid + a * grid" for a
    by (subst (2) v) (simp add: algebra_simps)
  have d: "grid dvd (value div grid + a) * grid" for a by simp
  have p: "0 < value mod grid" if "\<not> grid dvd value"
    using m that by (simp add: dvd_eq_mod_eq_0 less_le)
  show ?thesis
    using assms m p d [unfolded r]
    by (auto simp: round_grid_def Let_def r mod_eq_0_iff_dvd split: if_splits)
qed

theorem round_grid_modes_witness:
  "round_grid 8 5 0 = Inr 10 \<and> round_grid 7 5 1 = Inr 10
   \<and> round_grid 10 5 1 = Inl UnboundLocalError"
  using round_grid_modes [of 5 10] by (simp add: round_grid_def)

end
