(* ===== verification/Topsort.thy ===== *)
theory Topsort
  imports Prelude
begin

text \<open>
  \<^verbatim>\<open>bindings/python/topsort.py\<close>: \<open>topsort\<close>, \<open>topsort_levels\<close> and \<open>topsort_levels_core\<close>.
  The dictionaries \<open>num_parents\<close> and \<open>children\<close> are association lists.  The file is Python 2
  code, where the order of \<open>dict.keys()\<close> is left open: it is the parameter \<open>korder\<close>, of which
  the properties assume only that it lists every key once.  A generator is modelled by the list
  of what it yields and the way it ends.
\<close>

section \<open>Code\<close>

type_synonym 'a counts = "('a, int) dict"
type_synonym 'a succs = "('a, 'a list) dict"

text \<open>
  \<open>CycleError\<close> with the arguments \<open>topsort\<close> gives it, with those \<open>topsort_levels_core\<close>
  gives it, and the \<open>KeyError\<close> of a dictionary access.
\<close>

datatype 'a topsort_exn =
    CycleError "'a list" "'a counts" "'a succs"
  | LevelCycleError "'a counts" "'a succs"
  | MissingKey 'a

datatype 'a generator_end = StopIteration | Raises "'a topsort_exn"

text \<open>One round of the loop over \<open>pairlist\<close>, the same in \<open>topsort\<close> and \<open>topsort_levels\<close>.\<close>

definition add_pair :: "'a \<times> 'a \<Rightarrow> 'a counts \<times> 'a succs \<Rightarrow> 'a counts \<times> 'a succs" where
  "add_pair pair st =
     (let (parent, child) = pair;
          (num_parents, children) = st;
          np1 = (if dget num_parents parent = None then dset parent 0 num_parents else num_parents);
          np2 = (if dget np1 child = None then dset child 0 np1 else np1);
          np3 = dset child ((case dget np2 child of None \<Rightarrow> 0 | Some k \<Rightarrow> k) + 1) np2;
          cs = (case dget children parent of None \<Rightarrow> [] | Some cs \<Rightarrow> cs)
      in (np3, dset parent (cs @ [child]) children))"

definition build :: "('a \<times> 'a) list \<Rightarrow> 'a counts \<times> 'a succs" where
  "build pairlist = fold add_pair pairlist ([], [])"

text \<open>\<open>[x for x in num_parents.keys() if num_parents[x] == 0]\<close>\<close>

definition no_parent :: "('a list \<Rightarrow> 'a list) \<Rightarrow> 'a counts \<Rightarrow> 'a list" where
  "no_parent korder num_parents = filter (\<lambda>x. dget num_parents x = Some 0) (korder (dkeys num_parents))"

subsection \<open>topsort\<close>

text \<open>The inner loop over \<open>children[parent]\<close>, which appends to \<open>answer\<close>.\<close>

fun knock :: "'a list \<Rightarrow> 'a counts \<Rightarrow> 'a list \<Rightarrow> 'a topsort_exn + 'a counts \<times> 'a list" where
  "knock [] num_parents answer = Inr (num_parents, answer)"
| "knock (child # cs) num_parents answer =
     (case dget num_parents child of
        None \<Rightarrow> Inl (MissingKey child)
      | Some k \<Rightarrow>
          knock cs (dset child (k - 1) num_parents)
            (if k - 1 = 0 then answer @ [child] else answer))"

text \<open>The body of \<open>for parent in answer\<close>; \<open>todo\<close> is the part of \<open>answer\<close> not visited yet.\<close>

definition visit ::
    "'a \<Rightarrow> 'a list \<Rightarrow> 'a counts \<Rightarrow> 'a succs \<Rightarrow> 'a topsort_exn + 'a list \<times> 'a counts \<times> 'a succs" where
  "visit parent todo num_parents children =
     (if dget num_parents parent = None then Inl (MissingKey parent)
      else
        let np = ddel parent num_parents
        in case dget children parent of
             None \<Rightarrow> Inr (todo, np, children)
           | Some cs \<Rightarrow>
               rbind (knock cs np todo) (\<lambda>(np', todo'). Inr (todo', np', ddel parent children)))"

lemma length_knock: "knock cs np ans = Inr (np', ans') \<Longrightarrow> length np' = length np"
  by (induction cs np ans rule: knock.induct) (auto simp: length_dset_old split: option.splits)

lemma length_visit: "visit p todo np ch = Inr (todo', np', ch') \<Longrightarrow> length np' < length np"
  by (auto simp: visit_def Let_def length_ddel_old dest!: length_knock
      split: if_splits option.splits)

function topsort_loop ::
    "'a list \<Rightarrow> 'a list \<Rightarrow> 'a counts \<Rightarrow> 'a succs \<Rightarrow> 'a topsort_exn + 'a list" where
  "topsort_loop visited [] num_parents children =
     (if num_parents = [] then Inr visited else Inl (CycleError visited num_parents children))"
| "topsort_loop visited (parent # todo) num_parents children =
     (case visit parent todo num_parents children of
        Inl e \<Rightarrow> Inl e
      | Inr (todo', np, ch) \<Rightarrow> topsort_loop (visited @ [parent]) todo' np ch)"
  by pat_completeness auto
termination
  by (relation "measure (\<lambda>(v, t, np, ch). length np)") (auto dest!: length_visit)

definition topsort :: "('a list \<Rightarrow> 'a list) \<Rightarrow> ('a \<times> 'a) list \<Rightarrow> 'a topsort_exn + 'a list" where
  "topsort korder pairlist =
     (let (num_parents, children) = build pairlist
      in topsort_loop [] (no_parent korder num_parents) num_parents children)"

subsection \<open>topsort\_levels\<close>

fun decrement :: "'a list \<Rightarrow> 'a counts \<Rightarrow> 'a topsort_exn + 'a counts" where
  "decrement [] num_parents = Inr num_parents"
| "decrement (child # cs) num_parents =
     (case dget num_parents child of
        None \<Rightarrow> Inl (MissingKey child)
      | Some k \<Rightarrow> decrement cs (dset child (k - 1) num_parents))"

text \<open>The body of \<open>for level_parent in level_parents\<close>.\<close>

definition retire ::
    "'a \<Rightarrow> 'a counts \<times> 'a succs \<Rightarrow> 'a topsort_exn + 'a counts \<times> 'a succs" where
  "retire level_parent st =
     (let (num_parents, children) = st
      in if dget num_parents level_parent = None then Inl (MissingKey level_parent)
         else
           let np = ddel level_parent num_parents
           in case dget children level_parent of
                None \<Rightarrow> Inr (np, children)
              | Some cs \<Rightarrow>
                  rbind (decrement cs np) (\<lambda>np'. Inr (np', ddel level_parent children)))"

fun retire_all ::
    "'a list \<Rightarrow> 'a counts \<times> 'a succs \<Rightarrow> 'a topsort_exn + 'a counts \<times> 'a succs" where
  "retire_all [] st = Inr st"
| "retire_all (x # xs) st = rbind (retire x st) (retire_all xs)"

lemma length_decrement: "decrement cs np = Inr np' \<Longrightarrow> length np' = length np"
  by (induction cs np rule: decrement.induct) (auto simp: length_dset_old split: option.splits)

lemma length_retire: "retire x (np, ch) = Inr (np', ch') \<Longrightarrow> length np' < length np"
  by (auto simp: retire_def Let_def length_ddel_old dest!: length_decrement
      split: if_splits option.splits)

lemma length_retire_all: "retire_all xs (np, ch) = Inr (np', ch') \<Longrightarrow> length np' \<le> length np"
proof (induction xs arbitrary: np ch)
  case (Cons x xs)
  then obtain np1 ch1 where "retire x (np, ch) = Inr (np1, ch1)"
    "retire_all xs (np1, ch1) = Inr (np', ch')"
    by auto
  with Cons.IH length_retire show ?case by fastforce
qed simp

lemma length_retire_level:
  assumes "xs \<noteq> []" and "retire_all xs (np, ch) = Inr (np', ch')"
  shows "length np' < length np"
proof -
  from assms obtain x ys np1 ch1 where "xs = x # ys" "retire x (np, ch) = Inr (np1, ch1)"
    "retire_all ys (np1, ch1) = Inr (np', ch')"
    by (cases xs) auto
  then show ?thesis
    using length_retire length_retire_all by fastforce
qed

function levels_loop ::
    "('a list \<Rightarrow> 'a list) \<Rightarrow> 'a counts \<Rightarrow> 'a succs \<Rightarrow> 'a list list \<Rightarrow> 'a list list \<times> 'a generator_end"
where
  "levels_loop korder num_parents children yielded =
     (let level_parents = no_parent korder num_parents
      in if level_parents = []
         then (yielded,
               if num_parents = [] then StopIteration
               else Raises (LevelCycleError num_parents children))
         else case retire_all level_parents (num_parents, children) of
                Inl e \<Rightarrow> (yielded @ [level_parents], Raises e)
              | Inr (np, ch) \<Rightarrow> levels_loop korder np ch (yielded @ [level_parents]))"
  by pat_completeness auto
termination
  by (relation "measure (\<lambda>(k, np, ch, y). length np)") (auto dest!: length_retire_level)

declare levels_loop.simps [simp del]

definition topsort_levels_core ::
    "('a list \<Rightarrow> 'a list) \<Rightarrow> 'a counts \<Rightarrow> 'a succs \<Rightarrow> 'a list list \<times> 'a generator_end" where
  "topsort_levels_core korder num_parents children = levels_loop korder num_parents children []"

definition topsort_levels ::
    "('a list \<Rightarrow> 'a list) \<Rightarrow> ('a \<times> 'a) list \<Rightarrow> 'a list list \<times> 'a generator_end" where
  "topsort_levels korder pairlist =
     (let (num_parents, children) = build pairlist
      in topsort_levels_core korder num_parents children)"

section \<open>Peeling a graph\<close>

text \<open>
  The reference: \<open>pending ps D x\<close> counts the pairs whose child is \<open>x\<close> and whose parent is
  not in the set \<open>D\<close> of items already output.
\<close>

definition elems :: "('a \<times> 'a) list \<Rightarrow> 'a set" where
  "elems ps = fst ` set ps \<union> snd ` set ps"

definition pending :: "('a \<times> 'a) list \<Rightarrow> 'a set \<Rightarrow> 'a \<Rightarrow> nat" where
  "pending ps D x = length (filter (\<lambda>(p, c). c = x \<and> p \<notin> D) ps)"

definition succs_of :: "('a \<times> 'a) list \<Rightarrow> 'a \<Rightarrow> 'a list" where
  "succs_of ps p = map snd (filter (\<lambda>(q, c). q = p) ps)"

text \<open>The dictionaries hold exactly the pending counts and successors of the rest.\<close>

definition peeled :: "('a \<times> 'a) list \<Rightarrow> 'a set \<Rightarrow> 'a counts \<Rightarrow> 'a succs \<Rightarrow> bool" where
  "peeled ps D np ch \<longleftrightarrow>
     (\<forall>x. dget np x = (if x \<in> elems ps - D then Some (int (pending ps D x)) else None))
   \<and> (\<forall>p. dget ch p = (if p \<in> fst ` set ps - D then Some (succs_of ps p) else None))
   \<and> D \<subseteq> elems ps
   \<and> (\<forall>(p, c) \<in> set ps. c \<in> D \<longrightarrow> p \<in> D)"

lemma pending_zero: "pending ps D x = 0 \<longleftrightarrow> (\<forall>p. (p, x) \<in> set ps \<longrightarrow> p \<in> D)"
  by (auto simp: pending_def filter_empty_conv)

lemma pending_insert:
  "p \<notin> D \<Longrightarrow> pending ps D x = pending ps (insert p D) x + count_list (succs_of ps p) x"
  by (induction ps) (auto simp: pending_def succs_of_def)

lemma set_succs_of: "c \<in> set (succs_of ps p) \<longleftrightarrow> (p, c) \<in> set ps"
  by (force simp: succs_of_def)

lemma succs_of_Nil: "p \<notin> fst ` set ps \<Longrightarrow> succs_of ps p = []"
  by (force simp: succs_of_def filter_empty_conv)


lemma pending_outside: "x \<notin> elems ps \<Longrightarrow> pending ps D x = 0"
  by (force simp: pending_def elems_def filter_empty_conv)

lemma peeled_build_snoc:
  assumes "peeled ps {} np ch"
  shows "peeled (ps @ [(p, c)]) {} (fst (add_pair (p, c) (np, ch))) (snd (add_pair (p, c) (np, ch)))"
proof -
  have el: "elems (ps @ [(p, c)]) = insert p (insert c (elems ps))"
    by (auto simp: elems_def)
  have pe: "pending (ps @ [(p, c)]) {} x = pending ps {} x + (if x = c then 1 else 0)" for x
    by (auto simp: pending_def)
  have su: "succs_of (ps @ [(p, c)]) q = succs_of ps q @ (if q = p then [c] else [])" for q
    by (auto simp: succs_of_def)
  have np: "dget np x = (if x \<in> elems ps then Some (int (pending ps {} x)) else None)" for x
    using assms by (simp add: peeled_def)
  have ch: "dget ch q = (if q \<in> fst ` set ps then Some (succs_of ps q) else None)" for q
    using assms by (simp add: peeled_def)
  have "dget (fst (add_pair (p, c) (np, ch))) x
      = (if x \<in> elems (ps @ [(p, c)]) then Some (int (pending (ps @ [(p, c)]) {} x)) else None)" for x
    by (auto simp: add_pair_def Let_def np el pe pending_outside split: option.splits)
  moreover have "dget (snd (add_pair (p, c) (np, ch))) q
      = (if q \<in> fst ` set (ps @ [(p, c)]) then Some (succs_of (ps @ [(p, c)]) q) else None)" for q
    by (auto simp: add_pair_def Let_def ch su succs_of_Nil split: option.splits)
  ultimately show ?thesis
    by (simp add: peeled_def)
qed

lemma peeled_build: "peeled ps {} (fst (build ps)) (snd (build ps))"
proof (induction ps rule: rev_induct)
  case Nil
  show ?case by (simp add: peeled_def build_def elems_def)
next
  case (snoc x ps)
  obtain p c where x: "x = (p, c)" by force
  with peeled_build_snoc [OF snoc, of p c] show ?case
    by (simp add: build_def)
qed

lemma decrement_ok:
  assumes "\<And>c. c \<in> set cs \<Longrightarrow> dget np c \<noteq> None"
  shows "\<exists>np'. decrement cs np = Inr np'
    \<and> (\<forall>x. dget np' x = map_option (\<lambda>k. k - int (count_list cs x)) (dget np x))"
  using assms
proof (induction cs arbitrary: np)
  case Nil
  then show ?case by (simp add: option.map_ident)
next
  case (Cons c cs)
  then obtain k where k: "dget np c = Some k" by fastforce
  have "\<exists>np'. decrement cs (dset c (k - 1) np) = Inr np'
    \<and> (\<forall>x. dget np' x = map_option (\<lambda>k. k - int (count_list cs x)) (dget (dset c (k - 1) np) x))"
    using Cons.prems by (intro Cons.IH) auto
  with k show ?case by auto
qed

lemma knock_ok:
  assumes "\<And>c. c \<in> set cs \<Longrightarrow> \<exists>k. dget np c = Some k \<and> int (count_list cs c) \<le> k"
  shows "\<exists>np' new. knock cs np ans = Inr (np', ans @ new)
    \<and> (\<forall>x. dget np' x = map_option (\<lambda>k. k - int (count_list cs x)) (dget np x))
    \<and> distinct new \<and> set new = {c \<in> set cs. dget np c = Some (int (count_list cs c))}"
  using assms
proof (induction cs arbitrary: np ans)
  case Nil
  then show ?case by (simp add: option.map_ident)
next
  case (Cons c cs)
  then obtain k where k: "dget np c = Some k" "int (count_list cs c) + 1 \<le> k" by fastforce
  let ?np = "dset c (k - 1) np" and ?ans = "if k - 1 = 0 then ans @ [c] else ans"
  have "\<exists>k'. dget ?np x = Some k' \<and> int (count_list cs x) \<le> k'" if "x \<in> set cs" for x
    using Cons.prems [of x] that k by (cases "x = c") auto
  from Cons.IH [OF this, of ?ans] obtain np' new where IH:
    "knock cs ?np ?ans = Inr (np', ?ans @ new)"
    "\<forall>x. dget np' x = map_option (\<lambda>k. k - int (count_list cs x)) (dget ?np x)"
    "distinct new" "set new = {x \<in> set cs. dget ?np x = Some (int (count_list cs x))}"
    by blast
  let ?new = "if k = 1 then c # new else new"
  have absent: "c \<notin> set cs" if "k = 1"
    using k that by (simp add: count_list_0_iff)
  have "knock (c # cs) np ans = Inr (np', ans @ ?new)"
    using IH(1) k(1) by auto
  moreover have "dget np' x = map_option (\<lambda>k. k - int (count_list (c # cs) x)) (dget np x)" for x
    using IH(2) k(1) by (auto simp: option.map_comp)
  moreover have "distinct ?new"
    using IH(3,4) absent by simp
  moreover have "set ?new = {x \<in> set (c # cs). dget np x = Some (int (count_list (c # cs) x))}"
  proof (rule set_eqI)
    fix x
    have mem: "x \<in> set cs \<longleftrightarrow> 0 < count_list cs x"
      by (metis count_list_0_iff gr0I less_numeral_extra(3))
    show "x \<in> set ?new \<longleftrightarrow>
      x \<in> {x \<in> set (c # cs). dget np x = Some (int (count_list (c # cs) x))}"
    proof (cases "x = c")
      case True
      define n where "n = count_list cs c"
      have "c \<in> set new \<longleftrightarrow> 0 < n \<and> k - 1 = int n"
        using IH(4) mem True by (simp add: n_def)
      moreover have "n = 0" if "k = 1"
        using absent [OF that] mem True by (simp add: n_def)
      ultimately have "c \<in> set ?new \<longleftrightarrow> k = int n + 1"
        by (cases "k = 1") auto
      moreover have "dget np c = Some (int (count_list (c # cs) c)) \<longleftrightarrow> k = int n + 1"
        by (auto simp: k(1) n_def)
      ultimately show ?thesis
        using True by simp
    next
      case False
      with IH(4) show ?thesis by simp
    qed
  qed
  ultimately show ?case by blast
qed

text \<open>What the two loop bodies have in common: the successors of a ready item are still counted.\<close>

lemma peeled_ready:
  assumes "peeled ps D np ch" and "p \<in> elems ps - D" and "pending ps D p = 0"
    and "c \<in> set (succs_of ps p)"
  shows "c \<in> elems ps - insert p D" and "dget (ddel p np) c = Some (int (pending ps D c))"
proof -
  from assms(4) have pc: "(p, c) \<in> set ps" by (simp add: set_succs_of)
  then have "c \<noteq> p" using assms(2,3) by (auto simp: pending_zero)
  moreover have "c \<notin> D" using assms(1,2) pc by (auto simp: peeled_def)
  moreover have "c \<in> elems ps" using pc by (force simp: elems_def)
  ultimately show "c \<in> elems ps - insert p D" "dget (ddel p np) c = Some (int (pending ps D c))"
    using assms(1) by (auto simp: peeled_def)
qed

lemma peeled_next:
  assumes "peeled ps D np ch" and "p \<in> elems ps - D" and "pending ps D p = 0"
    and "\<And>x. dget np' x = map_option (\<lambda>k. k - int (count_list (succs_of ps p) x)) (dget (ddel p np) x)"
    and "\<And>q. dget ch' q = (if q = p then None else dget ch q)"
  shows "peeled ps (insert p D) np' ch'"
proof -
  have np: "dget np x = (if x \<in> elems ps - D then Some (int (pending ps D x)) else None)" for x
    using assms(1) by (simp add: peeled_def)
  have ch: "dget ch q = (if q \<in> fst ` set ps - D then Some (succs_of ps q) else None)" for q
    using assms(1) by (simp add: peeled_def)
  have "pending ps D x = pending ps (insert p D) x + count_list (succs_of ps p) x" for x
    using assms(2) by (intro pending_insert) simp
  then have "dget np' x = (if x \<in> elems ps - insert p D then Some (int (pending ps (insert p D) x)) else None)" for x
    by (simp add: assms(4) np)
  moreover have "dget ch' q = (if q \<in> fst ` set ps - insert p D then Some (succs_of ps q) else None)" for q
    by (simp add: assms(5) ch)
  moreover have "insert p D \<subseteq> elems ps" "\<forall>(q, c) \<in> set ps. c \<in> insert p D \<longrightarrow> q \<in> insert p D"
    using assms(1-3) by (auto simp: peeled_def pending_zero)
  ultimately show ?thesis
    unfolding peeled_def by blast
qed

lemma visit_ok:
  assumes "peeled ps D np ch" and "p \<in> elems ps - D" and "pending ps D p = 0"
  shows "\<exists>np' ch' new. visit p todo np ch = Inr (todo @ new, np', ch')
    \<and> peeled ps (insert p D) np' ch' \<and> distinct new
    \<and> set new = {c \<in> elems ps - insert p D. 0 < pending ps D c \<and> pending ps (insert p D) c = 0}"
proof -
  have p: "dget np p \<noteq> None" using assms by (simp add: peeled_def)
  have split: "pending ps D c = pending ps (insert p D) c + count_list (succs_of ps p) c" for c
    using assms(2) by (intro pending_insert) simp
  have "\<exists>k. dget (ddel p np) c = Some k \<and> int (count_list (succs_of ps p) c) \<le> k"
    if "c \<in> set (succs_of ps p)" for c
    using peeled_ready(2) [OF assms that] split [of c] by auto
  from knock_ok [OF this] obtain np' new where k:
    "knock (succs_of ps p) (ddel p np) todo = Inr (np', todo @ new)"
    "\<And>x. dget np' x = map_option (\<lambda>k. k - int (count_list (succs_of ps p) x)) (dget (ddel p np) x)"
    "distinct new"
    "set new = {c \<in> set (succs_of ps p). dget (ddel p np) c = Some (int (count_list (succs_of ps p) c))}"
    by blast
  have new: "set new = {c \<in> elems ps - insert p D. 0 < pending ps D c \<and> pending ps (insert p D) c = 0}"
  proof (rule set_eqI)
    fix c
    have mem: "c \<in> set (succs_of ps p) \<longleftrightarrow> 0 < count_list (succs_of ps p) c"
      by (metis count_list_0_iff gr0I less_numeral_extra(3))
    show "c \<in> set new \<longleftrightarrow>
      c \<in> {c \<in> elems ps - insert p D. 0 < pending ps D c \<and> pending ps (insert p D) c = 0}"
    proof (cases "c \<in> set (succs_of ps p)")
      case True
      with peeled_ready [OF assms True] split [of c] mem show ?thesis
        by (simp add: k(4))
    next
      case False
      with split [of c] mem show ?thesis
        by (auto simp: k(4))
    qed
  qed
  show ?thesis
  proof (cases "dget ch p")
    case None
    then have s: "succs_of ps p = []"
      using assms by (auto simp: peeled_def succs_of_Nil split: if_splits)
    then have "visit p todo np ch = Inr (todo @ new, np', ch)"
      using k(1) p None by (simp add: visit_def)
    moreover have "peeled ps (insert p D) np' ch"
      using None by (intro peeled_next [OF assms k(2)]) simp
    ultimately show ?thesis using k(3) new by blast
  next
    case (Some cs)
    then have "cs = succs_of ps p"
      using assms by (auto simp: peeled_def split: if_splits)
    then have "visit p todo np ch = Inr (todo @ new, np', ddel p ch)"
      using k(1) p Some by (simp add: visit_def)
    moreover have "peeled ps (insert p D) np' (ddel p ch)"
      by (intro peeled_next [OF assms k(2)]) simp
    ultimately show ?thesis using k(3) new by blast
  qed
qed

lemma retire_ok:
  assumes "peeled ps D np ch" and "p \<in> elems ps - D" and "pending ps D p = 0"
  shows "\<exists>np' ch'. retire p (np, ch) = Inr (np', ch') \<and> peeled ps (insert p D) np' ch'"
proof -
  have p: "dget np p \<noteq> None" using assms by (simp add: peeled_def)
  have "dget (ddel p np) c \<noteq> None" if "c \<in> set (succs_of ps p)" for c
    using peeled_ready(2) [OF assms that] by simp
  from decrement_ok [OF this] obtain np' where k: "decrement (succs_of ps p) (ddel p np) = Inr np'"
    "\<And>x. dget np' x = map_option (\<lambda>k. k - int (count_list (succs_of ps p) x)) (dget (ddel p np) x)"
    by blast
  show ?thesis
  proof (cases "dget ch p")
    case None
    then have s: "succs_of ps p = []"
      using assms by (auto simp: peeled_def succs_of_Nil split: if_splits)
    then have "retire p (np, ch) = Inr (np', ch)"
      using k(1) p None by (simp add: retire_def)
    moreover have "peeled ps (insert p D) np' ch"
      using None by (intro peeled_next [OF assms k(2)]) simp
    ultimately show ?thesis by blast
  next
    case (Some cs)
    then have "cs = succs_of ps p"
      using assms by (auto simp: peeled_def split: if_splits)
    then have "retire p (np, ch) = Inr (np', ddel p ch)"
      using k(1) p Some by (simp add: retire_def)
    moreover have "peeled ps (insert p D) np' (ddel p ch)"
      by (intro peeled_next [OF assms k(2)]) simp
    ultimately show ?thesis by blast
  qed
qed


section \<open>Orders and cycles\<close>

text \<open>Every occurrence of an item is preceded by all its parents.\<close>

definition parents_first :: "('a \<times> 'a) list \<Rightarrow> 'a list \<Rightarrow> bool" where
  "parents_first ps xs \<longleftrightarrow>
     (\<forall>(p, c) \<in> set ps. \<forall>us vs. xs = us @ c # vs \<longrightarrow> p \<in> set us)"

lemma parents_first_Nil [simp]: "parents_first ps []"
  by (simp add: parents_first_def)

lemma parents_first_snoc:
  assumes "parents_first ps xs" and "\<And>p. (p, x) \<in> set ps \<Longrightarrow> p \<in> set xs"
  shows "parents_first ps (xs @ [x])"
proof -
  have "p \<in> set us" if pc: "(p, c) \<in> set ps" and eq: "xs @ [x] = us @ c # vs" for p c us vs
  proof (cases vs rule: rev_cases)
    case Nil
    with eq pc assms(2) show ?thesis by simp
  next
    case (snoc ws w)
    with eq have "xs = us @ c # ws" by simp
    with assms(1) pc show ?thesis by (auto simp: parents_first_def)
  qed
  then show ?thesis by (auto simp: parents_first_def)
qed

lemma parents_first_before:
  assumes "parents_first ps xs" and "(p, c) \<in> set ps" and "c \<in> set xs"
  shows "\<exists>us vs ws. xs = us @ p # vs @ c # ws"
proof -
  obtain us ws where xs: "xs = us @ c # ws"
    using assms(3) by (meson split_list)
  with assms(1,2) have "p \<in> set us" by (auto simp: parents_first_def)
  then obtain us1 us2 where "us = us1 @ p # us2" by (meson split_list)
  with xs show ?thesis by auto
qed

text \<open>In an order of this kind no item is its own ancestor.\<close>

lemma parents_first_ancestor:
  assumes "parents_first ps xs" and "(p, c) \<in> (set ps)\<^sup>+" and "xs = us @ c # vs"
  shows "p \<in> set us"
  using assms(2,3)
proof (induction arbitrary: us vs rule: trancl_induct)
  case (base c)
  with assms(1) show ?case by (auto simp: parents_first_def)
next
  case (step b c)
  with assms(1) have "b \<in> set us" by (auto simp: parents_first_def)
  then obtain us1 us2 where "us = us1 @ b # us2" by (meson split_list)
  with step.IH [of us1 "us2 @ c # vs"] step.prems show ?case by auto
qed

lemma parents_first_no_cycle:
  assumes "parents_first ps xs" and "x \<in> set xs"
  shows "(x, x) \<notin> (set ps)\<^sup>+"
proof
  assume "(x, x) \<in> (set ps)\<^sup>+"
  moreover obtain us vs where "xs = us @ x # vs" "x \<notin> set us"
    using assms(2) by (meson split_list_first)
  ultimately show False
    using parents_first_ancestor [OF assms(1)] by blast
qed

text \<open>The items that a cycle can reach.\<close>

definition on_or_after_cycle :: "('a \<times> 'a) list \<Rightarrow> 'a set" where
  "on_or_after_cycle ps = {x. \<exists>y. (y, y) \<in> (set ps)\<^sup>+ \<and> (y, x) \<in> (set ps)\<^sup>*}"

lemma on_or_after_cycle_empty: "on_or_after_cycle ps = {} \<longleftrightarrow> acyclic (set ps)"
  by (auto simp: on_or_after_cycle_def acyclic_def)

lemma parent_in_rest_cycle:
  assumes "finite S" and parent: "\<And>x. x \<in> S \<Longrightarrow> \<exists>p \<in> S. (p, x) \<in> R" and "x \<in> S"
  shows "\<exists>y. (y, y) \<in> R\<^sup>+ \<and> (y, x) \<in> R\<^sup>*"
proof (rule ccontr)
  assume none: "\<nexists>y. (y, y) \<in> R\<^sup>+ \<and> (y, x) \<in> R\<^sup>*"
  let ?S = "{y \<in> S. (y, x) \<in> R\<^sup>*}" and ?R = "R \<inter> {y \<in> S. (y, x) \<in> R\<^sup>*} \<times> {y \<in> S. (y, x) \<in> R\<^sup>*}"
  have "acyclic ?R"
  proof (rule acyclicI, rule allI, rule notI)
    fix y assume y: "(y, y) \<in> ?R\<^sup>+"
    then have "(y, y) \<in> R\<^sup>+" by (rule trancl_mono) blast
    moreover from y have "(y, x) \<in> R\<^sup>*" by (cases rule: trancl.cases) auto
    ultimately show False using none by blast
  qed
  moreover have "finite ?R"
    by (rule finite_subset [of _ "?S \<times> ?S"]) (use assms(1) in auto)
  ultimately have "wf ?R" by (simp add: finite_acyclic_wf)
  moreover have "x \<in> ?S" using assms(3) by simp
  ultimately obtain m where m: "m \<in> ?S" "\<And>y. (y, m) \<in> ?R \<Longrightarrow> y \<notin> ?S"
    by (metis (no_types, lifting) wfE_min)
  then obtain p where "p \<in> S" "(p, m) \<in> R" using parent [of m] by blast
  with m show False
    by (auto dest: converse_rtrancl_into_rtrancl)
qed

lemma closed_rest:
  assumes closed: "\<forall>(p, c) \<in> set ps. c \<in> D \<longrightarrow> p \<in> D" and "(y, x) \<in> (set ps)\<^sup>*" and "x \<in> D"
  shows "y \<in> D"
  using assms(2,3) closed by (induction rule: converse_rtrancl_induct) auto

text \<open>When nothing is ready, what is left is exactly what the cycles can reach.\<close>

lemma rest_is_cycles:
  assumes peeled: "peeled ps D np ch" and none: "\<And>x. x \<in> elems ps - D \<Longrightarrow> pending ps D x \<noteq> 0"
    and nocyc: "\<And>x. x \<in> D \<Longrightarrow> (x, x) \<notin> (set ps)\<^sup>+"
  shows "elems ps - D = on_or_after_cycle ps"
proof (intro equalityI subsetI)
  fix x assume x: "x \<in> elems ps - D"
  have fin: "finite (elems ps - D)" by (simp add: elems_def)
  have "\<exists>p \<in> elems ps - D. (p, x) \<in> set ps" if xD: "x \<in> elems ps - D" for x
  proof -
    obtain p where p: "(p, x) \<in> set ps" "p \<notin> D"
      using none [OF xD] by (auto simp: pending_zero)
    then have "p \<in> elems ps" by (force simp: elems_def)
    with p show ?thesis by blast
  qed
  from parent_in_rest_cycle [OF fin this x] show "x \<in> on_or_after_cycle ps"
    by (auto simp: on_or_after_cycle_def)
next
  fix x assume "x \<in> on_or_after_cycle ps"
  then obtain y where y: "(y, y) \<in> (set ps)\<^sup>+" "(y, x) \<in> (set ps)\<^sup>*"
    by (auto simp: on_or_after_cycle_def)
  have "y \<in> elems ps" using y(1) by (cases rule: trancl.cases) (force simp: elems_def)+
  with y(2) have "x \<in> elems ps"
    by (cases rule: rtrancl.cases) (force simp: elems_def)+
  moreover have "x \<notin> D"
  proof
    assume "x \<in> D"
    have "\<forall>(p, c) \<in> set ps. c \<in> D \<longrightarrow> p \<in> D"
      using peeled by (simp add: peeled_def)
    from closed_rest [OF this y(2) \<open>x \<in> D\<close>] have "y \<in> D" .
    with nocyc y(1) show False by blast
  qed
  ultimately show "x \<in> elems ps - D" by simp
qed

lemma peeled_keys: "peeled ps D np ch \<Longrightarrow> set (dkeys np) = elems ps - D"
  unfolding set_dkeys by (auto simp: peeled_def)

lemma set_no_parent:
  assumes "\<And>ks. mset (korder ks) = mset ks" and "peeled ps D np ch"
  shows "set (no_parent korder np) = {x \<in> elems ps - D. pending ps D x = 0}"
proof -
  have "set (korder (dkeys np)) = elems ps - D"
    using peeled_keys [OF assms(2)] mset_eq_setD [OF assms(1)] by blast
  moreover have "dget np x = Some (int (pending ps D x))" if "x \<in> elems ps - D" for x
    using assms(2) that by (simp add: peeled_def)
  ultimately show ?thesis
    by (auto simp: no_parent_def)
qed

section \<open>topsort is correct\<close>

definition topsort_inv ::
    "('a \<times> 'a) list \<Rightarrow> 'a list \<Rightarrow> 'a list \<Rightarrow> 'a counts \<Rightarrow> 'a succs \<Rightarrow> bool" where
  "topsort_inv ps visited todo np ch \<longleftrightarrow>
     peeled ps (set visited) np ch \<and> distinct (visited @ todo) \<and> parents_first ps visited
   \<and> set todo = {x \<in> elems ps - set visited. pending ps (set visited) x = 0}"

lemma topsort_inv_visit:
  assumes "topsort_inv ps visited (p # todo) np ch"
  shows "\<exists>todo' np' ch'. visit p todo np ch = Inr (todo', np', ch')
    \<and> topsort_inv ps (visited @ [p]) todo' np' ch'"
proof -
  let ?D = "set visited"
  have peeled: "peeled ps ?D np ch" and dist: "distinct (visited @ p # todo)"
    and first: "parents_first ps visited"
    and ready: "insert p (set todo) = {x \<in> elems ps - ?D. pending ps ?D x = 0}"
    using assms by (auto simp: topsort_inv_def)
  from ready have p: "p \<in> elems ps - ?D" "pending ps ?D p = 0" by auto
  from visit_ok [OF peeled p, of todo] obtain np' ch' new where v:
    "visit p todo np ch = Inr (todo @ new, np', ch')" "peeled ps (insert p ?D) np' ch'" "distinct new"
    "set new = {c \<in> elems ps - insert p ?D. 0 < pending ps ?D c \<and> pending ps (insert p ?D) c = 0}"
    by blast
  have mono: "pending ps (insert p ?D) x = 0" if "pending ps ?D x = 0" for x
    using that by (auto simp: pending_zero)
  have todo: "set todo = {x \<in> elems ps - insert p ?D. pending ps ?D x = 0}"
    using ready dist by auto
  then have "set (todo @ new) = {x \<in> elems ps - insert p ?D. pending ps (insert p ?D) x = 0}"
    using v(4) mono by auto
  moreover have "distinct ((visited @ [p]) @ todo @ new)"
    using dist v(3,4) todo by auto
  moreover have "parents_first ps (visited @ [p])"
    using first p(2) by (intro parents_first_snoc) (auto simp: pending_zero)
  ultimately show ?thesis
    using v by (auto simp: topsort_inv_def)
qed

lemma topsort_loop_result:
  assumes "topsort_inv ps visited todo np ch"
  shows "(case topsort_loop visited todo np ch of
            Inr xs \<Rightarrow> distinct xs \<and> set xs = elems ps \<and> parents_first ps xs
          | Inl e \<Rightarrow> \<exists>xs np' ch'. e = CycleError xs np' ch' \<and> distinct xs \<and> parents_first ps xs
              \<and> np' \<noteq> [] \<and> set (dkeys np') = on_or_after_cycle ps
              \<and> set xs = elems ps - on_or_after_cycle ps)"
  using assms
proof (induction visited todo np ch rule: topsort_loop.induct)
  case (1 visited np ch)
  then have peeled: "peeled ps (set visited) np ch" and first: "parents_first ps visited"
    and dist: "distinct visited"
    and none: "\<And>x. x \<in> elems ps - set visited \<Longrightarrow> pending ps (set visited) x \<noteq> 0"
    by (auto simp: topsort_inv_def)
  have rest: "elems ps - set visited = on_or_after_cycle ps"
    by (rule rest_is_cycles [OF peeled none]) (auto dest: parents_first_no_cycle [OF first])
  have sub: "set visited \<subseteq> elems ps" using peeled by (simp add: peeled_def)
  show ?case
  proof (cases "np = []")
    case True
    with peeled_keys [OF peeled] sub show ?thesis
      using dist first by auto
  next
    case False
    with peeled_keys [OF peeled] rest sub show ?thesis
      using dist first by auto
  qed
next
  case (2 visited p todo np ch)
  from topsort_inv_visit [OF "2.prems"] obtain todo' np' ch' where
    "visit p todo np ch = Inr (todo', np', ch')" "topsort_inv ps (visited @ [p]) todo' np' ch'"
    by blast
  with "2.IH" show ?case by simp
qed

lemma topsort_result:
  assumes "\<And>ks. mset (korder ks) = mset ks"
  shows "(case topsort korder ps of
            Inr xs \<Rightarrow> distinct xs \<and> set xs = elems ps \<and> parents_first ps xs
          | Inl e \<Rightarrow> \<exists>xs np' ch'. e = CycleError xs np' ch' \<and> distinct xs \<and> parents_first ps xs
              \<and> np' \<noteq> [] \<and> set (dkeys np') = on_or_after_cycle ps
              \<and> set xs = elems ps - on_or_after_cycle ps)"
proof -
  obtain np ch where b: "build ps = (np, ch)" by force
  then have peeled: "peeled ps {} np ch" using peeled_build [of ps] by simp
  have "distinct (dkeys np)"
  proof -
    have "wf_dict (fst (fold add_pair ps st))" if "wf_dict (fst st)" for st
      using that
      by (induction ps arbitrary: st) (auto simp: add_pair_def Let_def split: prod.splits)
    from this [of "([], [])"] b show ?thesis
      by (simp add: build_def wf_dict_def)
  qed
  then have "distinct (korder (dkeys np))"
    by (metis assms mset_eq_imp_distinct_iff)
  then have "topsort_inv ps [] (no_parent korder np) np ch"
    using peeled set_no_parent [OF assms peeled]
    by (auto simp: topsort_inv_def no_parent_def)
  from topsort_loop_result [OF this] show ?thesis
    by (simp add: topsort_def b)
qed

end
