(* ===== verification/Topsort_Levels.thy ===== *)
theory Topsort_Levels
  imports Topsort
begin

text \<open>
  Correctness of \<open>topsort_levels\<close> of \<^verbatim>\<open>bindings/python/topsort.py\<close>, and the contract of a
  topological sort that \<open>topsort\<close> and the flattened \<open>topsort_levels\<close> both satisfy, which
  \<^verbatim>\<open>bindings/python/ns3modulescan.py\<close> relies on.
\<close>

section \<open>Levels\<close>

text \<open>
  Every level is non-empty; the parents of its items are in earlier levels, one of them in the
  level just before.
\<close>

definition levelled :: "('a \<times> 'a) list \<Rightarrow> 'a list list \<Rightarrow> bool" where
  "levelled ps ls \<longleftrightarrow>
     (\<forall>i < length ls. ls ! i \<noteq> [] \<and> (\<forall>x \<in> set (ls ! i).
        (\<forall>p. (p, x) \<in> set ps \<longrightarrow> p \<in> set (concat (take i ls)))
      \<and> (0 < i \<longrightarrow> (\<exists>p \<in> set (ls ! (i - 1)). (p, x) \<in> set ps))))"

lemma levelled_Nil [simp]: "levelled ps []"
  by (simp add: levelled_def)

lemma levelled_snoc:
  assumes "levelled ps ls" and "l \<noteq> []"
    and "\<And>x p. x \<in> set l \<Longrightarrow> (p, x) \<in> set ps \<Longrightarrow> p \<in> set (concat ls)"
    and "\<And>x. x \<in> set l \<Longrightarrow> ls \<noteq> [] \<Longrightarrow> \<exists>p \<in> set (last ls). (p, x) \<in> set ps"
  shows "levelled ps (ls @ [l])"
proof -
  have "(ls @ [l]) ! i \<noteq> [] \<and> (\<forall>x \<in> set ((ls @ [l]) ! i).
        (\<forall>p. (p, x) \<in> set ps \<longrightarrow> p \<in> set (concat (take i (ls @ [l]))))
      \<and> (0 < i \<longrightarrow> (\<exists>p \<in> set ((ls @ [l]) ! (i - 1)). (p, x) \<in> set ps)))"
    if "i < length (ls @ [l])" for i
  proof (cases "i < length ls")
    case True
    with assms(1) show ?thesis
      by (simp add: levelled_def nth_append less_imp_diff_less)
  next
    case False
    with that have i: "i = length ls" by simp
    have "last ls = ls ! (i - 1)" "i - 1 < length ls" if "0 < i"
      using that i by (auto simp: last_conv_nth)
    with assms(2-4) i show ?thesis
      by (auto simp: nth_append)
  qed
  then show ?thesis by (simp only: levelled_def) blast
qed

lemma parents_first_append:
  assumes "parents_first ps xs"
    and "\<And>x p. x \<in> set ys \<Longrightarrow> (p, x) \<in> set ps \<Longrightarrow> p \<in> set xs"
  shows "parents_first ps (xs @ ys)"
  using assms(2)
proof (induction ys rule: rev_induct)
  case Nil
  with assms(1) show ?case by simp
next
  case (snoc y ys)
  have "parents_first ps (xs @ ys)"
    by (rule snoc.IH) (use snoc.prems in auto)
  with snoc.prems parents_first_snoc [of ps "xs @ ys" y] show ?case by auto
qed

section \<open>One level\<close>

lemma wf_dict_decrement: "decrement cs np = Inr np' \<Longrightarrow> wf_dict np \<Longrightarrow> wf_dict np'"
  by (induction cs np rule: decrement.induct) (auto split: option.splits)

lemma wf_dict_retire: "retire x (np, ch) = Inr (np', ch') \<Longrightarrow> wf_dict np \<Longrightarrow> wf_dict np'"
  by (auto simp: retire_def Let_def dest: wf_dict_decrement split: if_splits option.splits)

lemma wf_dict_build: "wf_dict (fst (build ps))"
proof -
  have "wf_dict (fst (fold add_pair ps st))" if "wf_dict (fst st)" for st
    using that
    by (induction ps arbitrary: st) (auto simp: add_pair_def Let_def split: prod.splits)
  from this [of "([], [])"] show ?thesis
    by (simp add: build_def)
qed

lemma retire_all_ok:
  assumes "peeled ps D np ch" and "distinct xs" and "wf_dict np"
    and "set xs \<subseteq> {x \<in> elems ps - D. pending ps D x = 0}"
  shows "\<exists>np' ch'. retire_all xs (np, ch) = Inr (np', ch') \<and> peeled ps (D \<union> set xs) np' ch'
    \<and> wf_dict np'"
  using assms
proof (induction xs arbitrary: D np ch)
  case (Cons x xs)
  then have x: "x \<in> elems ps - D" "pending ps D x = 0" by auto
  from retire_ok [OF Cons.prems(1) x] obtain np1 ch1 where r:
    "retire x (np, ch) = Inr (np1, ch1)" "peeled ps (insert x D) np1 ch1"
    by blast
  have "set xs \<subseteq> {y \<in> elems ps - insert x D. pending ps (insert x D) y = 0}"
    using Cons.prems(2,4) by (auto simp: pending_zero)
  with Cons.IH [OF r(2)] Cons.prems(2,3) wf_dict_retire [OF r(1)] r(1) show ?case
    by (auto simp: insert_commute)
qed auto

definition levels_inv ::
    "('a \<times> 'a) list \<Rightarrow> 'a list list \<Rightarrow> 'a counts \<Rightarrow> 'a succs \<Rightarrow> bool" where
  "levels_inv ps ls np ch \<longleftrightarrow>
     peeled ps (set (concat ls)) np ch \<and> wf_dict np \<and> distinct (concat ls)
   \<and> parents_first ps (concat ls) \<and> levelled ps ls
   \<and> (ls \<noteq> [] \<longrightarrow> (\<forall>x \<in> elems ps - set (concat ls). \<exists>p. (p, x) \<in> set ps \<and> p \<notin> set (concat (butlast ls))))"

lemma concat_butlast_last: "ls \<noteq> [] \<Longrightarrow> set (concat ls) = set (concat (butlast ls)) \<union> set (last ls)"
  by (cases ls rule: rev_cases) auto

lemma levels_inv_step:
  assumes korder: "\<And>ks. mset (korder ks) = mset ks" and inv: "levels_inv ps ls np ch"
    and l: "no_parent korder np = l" "l \<noteq> []"
  shows "\<exists>np' ch'. retire_all l (np, ch) = Inr (np', ch') \<and> levels_inv ps (ls @ [l]) np' ch'"
proof -
  let ?D = "set (concat ls)"
  have peeled: "peeled ps ?D np ch" and wf: "wf_dict np" and dist: "distinct (concat ls)"
    and first: "parents_first ps (concat ls)" and lev: "levelled ps ls"
    and prev: "\<And>x. ls \<noteq> [] \<Longrightarrow> x \<in> elems ps - ?D \<Longrightarrow> \<exists>p. (p, x) \<in> set ps \<and> p \<notin> set (concat (butlast ls))"
    using inv by (auto simp: levels_inv_def)
  have ready: "set l = {x \<in> elems ps - ?D. pending ps ?D x = 0}"
    using set_no_parent [OF korder peeled] l(1) by simp
  have "distinct (korder (dkeys np))"
    by (metis korder mset_eq_imp_distinct_iff wf wf_dict_def)
  then have dl: "distinct l" using l(1) by (auto simp: no_parent_def)
  from retire_all_ok [OF peeled dl wf] ready obtain np' ch' where r:
    "retire_all l (np, ch) = Inr (np', ch')" "peeled ps (?D \<union> set l) np' ch'" "wf_dict np'"
    by blast
  have parents: "p \<in> ?D" if "x \<in> set l" "(p, x) \<in> set ps" for x p
    using that ready by (auto simp: pending_zero)
  have "\<exists>p \<in> set (last ls). (p, x) \<in> set ps" if "x \<in> set l" "ls \<noteq> []" for x
  proof -
    have "x \<in> elems ps - ?D" using that(1) ready by simp
    from prev [OF that(2) this] obtain p where "(p, x) \<in> set ps" "p \<notin> set (concat (butlast ls))"
      by blast
    with parents [OF that(1)] concat_butlast_last [OF that(2)] show ?thesis by blast
  qed
  with lev l(2) parents have "levelled ps (ls @ [l])"
    by (intro levelled_snoc) auto
  moreover have "parents_first ps (concat ls @ l)"
    using first parents by (intro parents_first_append) auto
  moreover have "\<exists>p. (p, x) \<in> set ps \<and> p \<notin> ?D" if "x \<in> elems ps - (?D \<union> set l)" for x
    using that ready by (auto simp: pending_zero)
  ultimately show ?thesis
    using r dist dl ready by (auto simp: levels_inv_def butlast_append)
qed

lemma levels_loop_result:
  assumes "\<forall>ks. mset (korder ks) = mset ks" and "levels_inv ps ls np ch"
  shows "\<exists>ls' stop. levels_loop korder np ch ls = (ls', stop)
    \<and> levelled ps ls' \<and> distinct (concat ls') \<and> parents_first ps (concat ls')
    \<and> set (concat ls') = elems ps - on_or_after_cycle ps
    \<and> (if on_or_after_cycle ps = {} then stop = StopIteration
       else \<exists>np' ch'. stop = Raises (LevelCycleError np' ch') \<and> set (dkeys np') = on_or_after_cycle ps)"
  using assms
proof (induction korder np ch ls rule: levels_loop.induct)
  case (1 korder np ch ls)
  let ?D = "set (concat ls)" and ?l = "no_parent korder np"
  have korder: "\<And>ks. mset (korder ks) = mset ks" using "1.prems"(1) by blast
  have peeled: "peeled ps ?D np ch" and first: "parents_first ps (concat ls)"
    and lev: "levelled ps ls" and dist: "distinct (concat ls)"
    using "1.prems"(2) by (auto simp: levels_inv_def)
  show ?case
  proof (cases "?l = []")
    case False
    from levels_inv_step [OF korder "1.prems"(2) refl False] obtain np' ch' where
      r: "retire_all ?l (np, ch) = Inr (np', ch')" "levels_inv ps (ls @ [?l]) np' ch'"
      by blast
    then have "levels_loop korder np ch ls = levels_loop korder np' ch' (ls @ [?l])"
      using False by (simp add: levels_loop.simps [of korder np ch ls])
    with "1.IH" [OF refl False r(1) refl "1.prems"(1) r(2)] show ?thesis by simp
  next
    case True
    then have none: "\<And>x. x \<in> elems ps - ?D \<Longrightarrow> pending ps ?D x \<noteq> 0"
      using set_no_parent [OF korder peeled] by auto
    have rest: "elems ps - ?D = on_or_after_cycle ps"
      by (rule rest_is_cycles [OF peeled none]) (use parents_first_no_cycle [OF first] in blast)+
    have keys: "set (dkeys np) = on_or_after_cycle ps"
      using peeled_keys [OF peeled] rest by simp
    have "?D = elems ps - on_or_after_cycle ps"
      using peeled rest by (auto simp: peeled_def)
    moreover have "np = [] \<longleftrightarrow> on_or_after_cycle ps = {}"
      using keys by (metis list.set(1) map_is_Nil_conv set_empty)
    ultimately show ?thesis
      using True lev dist first keys
      by (auto simp: levels_loop.simps [of korder np ch ls])
  qed
qed

lemma topsort_levels_result:
  assumes "\<forall>ks. mset (korder ks) = mset ks"
  shows "\<exists>ls stop. topsort_levels korder ps = (ls, stop)
    \<and> levelled ps ls \<and> distinct (concat ls) \<and> parents_first ps (concat ls)
    \<and> set (concat ls) = elems ps - on_or_after_cycle ps
    \<and> (if on_or_after_cycle ps = {} then stop = StopIteration
       else \<exists>np ch. stop = Raises (LevelCycleError np ch) \<and> set (dkeys np) = on_or_after_cycle ps)"
proof -
  obtain np ch where b: "build ps = (np, ch)" by force
  have "levels_inv ps [] np ch"
    using peeled_build [of ps] wf_dict_build [of ps] by (simp add: levels_inv_def b)
  from levels_loop_result [OF assms this] show ?thesis
    by (simp add: topsort_levels_def topsort_levels_core_def b)
qed

section \<open>The contract of a topological sort\<close>

text \<open>
  What a caller relies on: an acyclic relation is sorted, every item once and after its
  parents; a cyclic one is an error.
\<close>

locale topological_sort =
  fixes sort :: "('a \<times> 'a) list \<Rightarrow> 'e + 'a list"
  assumes sort_acyclic: "acyclic (set ps) \<Longrightarrow>
      \<exists>xs. sort ps = Inr xs \<and> distinct xs \<and> set xs = elems ps \<and> parents_first ps xs"
    and sort_cyclic: "\<not> acyclic (set ps) \<Longrightarrow> \<exists>e. sort ps = Inl e"
begin

lemma sorted_iff_acyclic: "(\<exists>xs. sort ps = Inr xs) \<longleftrightarrow> acyclic (set ps)"
  using sort_acyclic sort_cyclic by fastforce

lemma sorted_facts:
  assumes "sort ps = Inr xs"
  shows "distinct xs" and "set xs = elems ps" and "parents_first ps xs"
  using sort_acyclic [of ps] sorted_iff_acyclic [of ps] assms by auto

text \<open>The position of an item, which the callers use as its precedence, is above its parents'.\<close>

lemma precedence_increases:
  assumes "sort ps = Inr xs" and "(p, c) \<in> set ps" and "i < length xs" and "xs ! i = c"
  shows "\<exists>j < i. xs ! j = p"
proof -
  have "xs = take i xs @ c # drop (Suc i) xs"
    using id_take_nth_drop [OF assms(3)] assms(4) by simp
  moreover have "\<forall>us vs. xs = us @ c # vs \<longrightarrow> p \<in> set us"
    using sorted_facts(3) [OF assms(1)] assms(2) unfolding parents_first_def by blast
  ultimately have "p \<in> set (take i xs)" by blast
  then show ?thesis
    using assms(3) by (auto simp: in_set_conv_nth)
qed

end

definition topsort_keys :: "('a \<times> 'a) list \<Rightarrow> 'a topsort_exn + 'a list" where
  "topsort_keys = topsort (\<lambda>ks. ks)"

text \<open>The generator read to its end: \<^verbatim>\<open>list(topsort_levels(pairlist))\<close>, flattened.\<close>

definition topsort_flat :: "('a \<times> 'a) list \<Rightarrow> 'a topsort_exn + 'a list" where
  "topsort_flat pairlist =
     (let (ls, stop) = topsort_levels (\<lambda>ks. ks) pairlist
      in case stop of StopIteration \<Rightarrow> Inr (concat ls) | Raises e \<Rightarrow> Inl e)"

lemma acyclic_sorted:
  assumes "set xs = elems ps" and "parents_first ps xs"
  shows "acyclic (set ps)"
proof (unfold acyclic_def, intro allI notI)
  fix x
  assume c: "(x, x) \<in> (set ps)\<^sup>+"
  then obtain z where "(x, z) \<in> set ps" by (blast dest: tranclD)
  then have "x \<in> set xs" using assms(1) by (force simp: elems_def)
  with parents_first_no_cycle [OF assms(2)] c show False by blast
qed

interpretation by_answer: topological_sort "topsort_keys"
proof unfold_locales
  fix ps :: "('a \<times> 'a) list"
  have r: "case topsort_keys ps of
            Inr xs \<Rightarrow> distinct xs \<and> set xs = elems ps \<and> parents_first ps xs
          | Inl e \<Rightarrow> \<exists>xs np' ch'. e = CycleError xs np' ch' \<and> distinct xs \<and> parents_first ps xs
              \<and> np' \<noteq> [] \<and> set (dkeys np') = on_or_after_cycle ps
              \<and> set xs = elems ps - on_or_after_cycle ps"
    unfolding topsort_keys_def by (rule topsort_result) simp
  show "\<exists>xs. topsort_keys ps = Inr xs \<and> distinct xs \<and> set xs = elems ps \<and> parents_first ps xs"
    if "acyclic (set ps)"
    using r that by (auto simp flip: on_or_after_cycle_empty split: sum.splits)
  show "\<exists>e. topsort_keys ps = Inl e" if "\<not> acyclic (set ps)"
  proof (cases "topsort_keys ps")
    case (Inr xs)
    with r have xs: "set xs = elems ps" "parents_first ps xs" by auto
    with that show ?thesis using acyclic_sorted by blast
  qed simp
qed

interpretation by_levels: topological_sort "topsort_flat"
proof unfold_locales
  fix ps :: "('a \<times> 'a) list"
  obtain ls stop where r: "topsort_levels (\<lambda>ks. ks) ps = (ls, stop)" "distinct (concat ls)"
    "parents_first ps (concat ls)" "set (concat ls) = elems ps - on_or_after_cycle ps"
    "if on_or_after_cycle ps = {} then stop = StopIteration
     else \<exists>np ch. stop = Raises (LevelCycleError np ch) \<and> set (dkeys np) = on_or_after_cycle ps"
    using topsort_levels_result [of "\<lambda>ks. ks" ps] by auto
  show "\<exists>xs. topsort_flat ps = Inr xs \<and> distinct xs \<and> set xs = elems ps \<and> parents_first ps xs"
    if "acyclic (set ps)"
    using r that by (simp add: topsort_flat_def flip: on_or_after_cycle_empty)
  show "\<exists>e. topsort_flat ps = Inl e" if "\<not> acyclic (set ps)"
    using r that by (auto simp: topsort_flat_def simp flip: on_or_after_cycle_empty split: if_splits)
qed

section \<open>Properties\<close>

text \<open>
  C11. \<open>topsort\<close>, whatever the order in which the dictionary lists its keys: for an acyclic
  relation it returns every item once, each after all its parents; for a cyclic one it raises
  \<open>CycleError\<close> and never \<open>KeyError\<close>, the \<open>num_parents\<close> it carries holding exactly the items on
  a cycle or reachable from one, and its first component the sorted rest.
\<close>

theorem topsort_correct:
  assumes "\<And>ks. mset (korder ks) = mset ks"
  shows "case topsort korder ps of
            Inr xs \<Rightarrow> acyclic (set ps) \<and> distinct xs \<and> set xs = elems ps \<and> parents_first ps xs
          | Inl e \<Rightarrow> \<not> acyclic (set ps)
              \<and> (\<exists>xs np ch. e = CycleError xs np ch \<and> distinct xs \<and> parents_first ps xs
                   \<and> set (dkeys np) = {x. \<exists>y. (y, y) \<in> (set ps)\<^sup>+ \<and> (y, x) \<in> (set ps)\<^sup>*}
                   \<and> set xs = elems ps - set (dkeys np))"
proof (cases "topsort korder ps")
  case (Inl e)
  with topsort_result [OF assms, of ps] obtain xs np ch where e: "e = CycleError xs np ch"
    "distinct xs" "parents_first ps xs" "np \<noteq> []" "set (dkeys np) = on_or_after_cycle ps"
    "set xs = elems ps - on_or_after_cycle ps"
    by auto
  then have "\<not> acyclic (set ps)"
    by (auto simp flip: on_or_after_cycle_empty)
  with e Inl show ?thesis
    by (simp add: on_or_after_cycle_def)
next
  case (Inr xs)
  with topsort_result [OF assms, of ps] have xs: "distinct xs" "set xs = elems ps" "parents_first ps xs"
    by auto
  with Inr show ?thesis
    using acyclic_sorted [OF xs(2,3)] by simp
qed

theorem topsort_correct_witness:
  "topsort rev [(1::nat, 2), (2, 3), (3, 2)] = Inl (CycleError [1] [(2, 1), (3, 1)] [(2, [3]), (3, [2])])
   \<and> \<not> acyclic (set [(1::nat, 2), (2, 3), (3, 2)])"
proof -
  have t: "topsort rev [(1::nat, 2), (2, 3), (3, 2)]
    = Inl (CycleError [1] [(2, 1), (3, 1)] [(2, [3]), (3, [2])])"
    by code_simp
  moreover have "\<not> acyclic (set [(1::nat, 2), (2, 3), (3, 2)])"
    using topsort_correct [of rev "[(1::nat, 2), (2, 3), (3, 2)]"] unfolding t by simp
  ultimately show ?thesis by blast
qed

text \<open>
  C12. \<open>topsort_levels\<close>: the lists yielded are non-empty, hold each item that no cycle
  reaches once, and an item is in the first list after those of all its parents (they are all in
  earlier lists, one of them in the list just before).  The generator stops normally exactly for
  an acyclic relation and otherwise raises \<open>CycleError\<close> with the items a cycle reaches.
\<close>

theorem topsort_levels_correct:
  assumes "\<And>ks. mset (korder ks) = mset ks" and "topsort_levels korder ps = (ls, stop)"
  shows "distinct (concat ls) \<and> set (concat ls) = elems ps - on_or_after_cycle ps
    \<and> (\<forall>i < length ls. ls ! i \<noteq> [] \<and> (\<forall>x \<in> set (ls ! i).
           (\<forall>p. (p, x) \<in> set ps \<longrightarrow> p \<in> set (concat (take i ls)))
         \<and> (0 < i \<longrightarrow> (\<exists>p \<in> set (ls ! (i - 1)). (p, x) \<in> set ps))))
    \<and> (if acyclic (set ps) then stop = StopIteration
         else \<exists>np ch. stop = Raises (LevelCycleError np ch) \<and> set (dkeys np) = on_or_after_cycle ps)"
  using topsort_levels_result [of korder ps] assms
  unfolding levelled_def on_or_after_cycle_empty by fastforce

theorem topsort_levels_correct_witness:
  "topsort_levels (\<lambda>ks. ks) [(1::nat, 2), (3, 4), (5, 6), (1, 3), (1, 5), (1, 6), (2, 5)]
     = ([[1], [2, 3], [4, 5], [6]], StopIteration)
   \<and> set (concat [[1], [2, 3], [4, 5], [6]])
     = elems [(1::nat, 2), (3, 4), (5, 6), (1, 3), (1, 5), (1, 6), (2, 5)]
       - on_or_after_cycle [(1, 2), (3, 4), (5, 6), (1, 3), (1, 5), (1, 6), (2, 5)]"
proof -
  have t: "topsort_levels (\<lambda>ks. ks) [(1::nat, 2), (3, 4), (5, 6), (1, 3), (1, 5), (1, 6), (2, 5)]
     = ([[1], [2, 3], [4, 5], [6]], StopIteration)"
    by code_simp
  with topsort_levels_correct [OF refl t] show ?thesis by blast
qed

text \<open>
  The two sorts agree: the generator read to its end yields a permutation of what \<open>topsort\<close>
  returns, and one raises exactly when the other does.
\<close>

theorem topsort_levels_equiv:
  "(case topsort_keys ps of
      Inr xs \<Rightarrow> \<exists>ys. topsort_flat ps = Inr ys \<and> mset ys = mset xs
    | Inl e \<Rightarrow> \<exists>e'. topsort_flat ps = Inl e')"
proof (cases "topsort_keys ps")
  case (Inl e)
  then have "\<not> acyclic (set ps)"
    using by_answer.sorted_iff_acyclic [of ps] by auto
  with Inl by_levels.sort_cyclic show ?thesis by auto
next
  case (Inr xs)
  then have "acyclic (set ps)"
    using by_answer.sorted_iff_acyclic [of ps] by auto
  then obtain ys where ys: "topsort_flat ps = Inr ys"
    using by_levels.sort_acyclic by blast
  have "mset ys = mset xs"
    using by_answer.sorted_facts [OF Inr] by_levels.sorted_facts [OF ys]
    by (simp add: set_eq_iff_mset_eq_distinct [symmetric])
  with Inr ys show ?thesis by simp
qed

end
