(* ===== verification/Find_Cycles.thy ===== *)
theory Find_Cycles
  imports Rad_Util
begin

text \<open>
  \<open>find_cycles\<close> of \<^verbatim>\<open>bindings/python/topsort.py\<close>, which enumerates the cycles of a graph by
  extending simple paths on a stack, with \<open>is_rotated\<close> of \<^verbatim>\<open>bindings/python/rad_util.py\<close> to
  drop a cycle already found from another start.  The graph is a dictionary from parents to
  children; it is iterated in the order of the association list, so a statement for all
  association lists is one for all iteration orders.  The list returned is the list of the
  values yielded.  The stack is a list with its top first.
\<close>

section \<open>Code\<close>

type_synonym 'a graph = "('a, 'a list) dict"
type_synonym 'a search = "'a list list \<times> 'a set \<times> 'a list list"

text \<open>The loop over \<open>cycles\<close> that sets \<open>is_dup\<close>.\<close>

fun is_dup :: "'a list list \<Rightarrow> 'a list \<Rightarrow> py_exn + bool" where
  "is_dup [] cycle = Inr False"
| "is_dup (other_cycle # cycles) cycle =
     rbind (is_rotated other_cycle cycle) (\<lambda>b. if b then Inr True else is_dup cycles cycle)"

text \<open>The loop over \<open>children\<close>; the state is \<open>cycles\<close>, \<open>visited_nodes\<close> and \<open>paths\<close>.\<close>

fun scan_children :: "'a list \<Rightarrow> 'a list \<Rightarrow> 'a search \<Rightarrow> py_exn + 'a search" where
  "scan_children path [] st = Inr st"
| "scan_children path (child # cs) (cycles, visited, paths) =
     (if child \<in> set path then
        let cycle = dropWhile (\<lambda>x. x \<noteq> child) path
        in rbind (is_dup cycles cycle) (\<lambda>dup.
             scan_children path cs (if dup then cycles else cycles @ [cycle], visited, paths))
      else scan_children path cs (cycles, insert child visited, (path @ [child]) # paths))"

text \<open>Stacked paths grow by items they do not contain, so the loop ends.\<close>

definition all_children :: "'a graph \<Rightarrow> 'a set" where
  "all_children d = \<Union> (set ` snd ` set d)"

definition room :: "'a graph \<Rightarrow> 'a list \<Rightarrow> nat" where
  "room d path = card (all_children d - set path)"

lemma scan_children_paths:
  assumes "scan_children path cs (cycles, visited, paths) = Inr (cycles', visited', paths')"
  shows "\<exists>new. paths' = new @ paths \<and> (\<forall>p \<in> set new. \<exists>c \<in> set cs. c \<notin> set path \<and> p = path @ [c])"
  using assms
proof (induction path cs "(cycles, visited, paths)" arbitrary: cycles visited paths
    rule: scan_children.induct)
  case (1 path)
  then show ?case by simp
next
  case (2 path child cs cycles visited paths)
  show ?case
  proof (cases "child \<in> set path")
    case True
    with 2 show ?thesis by (auto simp: Let_def)
  next
    case False
    with "2.prems" have "scan_children path cs (cycles, insert child visited, (path @ [child]) # paths)
        = Inr (cycles', visited', paths')"
      by simp
    from "2.hyps"(2) [OF False this] obtain new where "paths' = new @ (path @ [child]) # paths"
      "\<forall>p \<in> set new. \<exists>c \<in> set cs. c \<notin> set path \<and> p = path @ [c]"
      by blast
    with False show ?thesis
      by (intro exI [of _ "new @ [path @ [child]]"]) auto
  qed
qed

lemma room_less: "dget d x = Some cs \<Longrightarrow> c \<in> set cs \<Longrightarrow> c \<notin> set path \<Longrightarrow> room d (path @ [c]) < room d path"
proof -
  assume "dget d x = Some cs" "c \<in> set cs" "c \<notin> set path"
  then have "c \<in> all_children d - set path"
    by (force simp: all_children_def dest: map_of_SomeD)
  moreover have "finite (all_children d - set path)"
    by (simp add: all_children_def)
  moreover have "all_children d - set (path @ [c]) = all_children d - set path - {c}"
    by auto
  ultimately show ?thesis
    unfolding room_def by (metis card_Diff1_less)
qed

text \<open>The \<open>while paths\<close> loop.\<close>

function explore :: "'a graph \<Rightarrow> 'a search \<Rightarrow> py_exn + 'a search" where
  "explore d (cycles, visited, []) = Inr (cycles, visited, [])"
| "explore d (cycles, visited, path # paths) =
     (case py_get path (- 1) of
        Inl e \<Rightarrow> Inl e
      | Inr parent \<Rightarrow>
          (case dget d parent of
             None \<Rightarrow> explore d (cycles, visited, paths)
           | Some children \<Rightarrow>
               (case scan_children path children (cycles, visited, paths) of
                  Inl e \<Rightarrow> Inl e
                | Inr st \<Rightarrow> explore d st)))"
  by pat_completeness auto
termination
proof (relation "inv_image (mult less_than) (\<lambda>(d, c, v, paths). image_mset (room d) (mset paths))",
    goal_cases)
  case 1
  show ?case by (simp add: wf_mult)
next
  case (2 d cycles visited path paths x)
  show ?case
    using one_step_implies_mult [of "{#room d path#}" "{#}" less_than "image_mset (room d) (mset paths)"]
    by simp
next
  case (3 d cycles visited path paths x children st)
  obtain cycles' visited' paths' where st: "st = (cycles', visited', paths')"
    by (cases st)
  from scan_children_paths [OF 3(3) [unfolded st]] obtain new where new: "paths' = new @ paths"
    "\<forall>p \<in> set new. \<exists>c \<in> set children. c \<notin> set path \<and> p = path @ [c]"
    by blast
  have "\<forall>k \<in># image_mset (room d) (mset new). \<exists>j \<in># {#room d path#}. (k, j) \<in> less_than"
    using new(2) room_less [OF 3(2)] by fastforce
  then have "(image_mset (room d) (mset paths) + image_mset (room d) (mset new),
      image_mset (room d) (mset paths) + {#room d path#}) \<in> mult less_than"
    by (intro one_step_implies_mult) auto
  with st new(1) show ?case by (simp add: add.commute)
qed

text \<open>The outer loop: the starts, less those visited from an earlier one.\<close>

fun find_from :: "'a graph \<Rightarrow> 'a list \<Rightarrow> 'a list list \<times> 'a set \<Rightarrow> py_exn + 'a list list \<times> 'a set" where
  "find_from d [] st = Inr st"
| "find_from d (parent # ps) (cycles, visited) =
     (if parent \<in> visited then find_from d ps (cycles, visited)
      else rbind (explore d (cycles, visited, [[parent]])) (\<lambda>(cycles', visited', _).
             find_from d ps (cycles', visited')))"

definition find_cycles :: "'a graph \<Rightarrow> py_exn + 'a list list" where
  "find_cycles parent_children =
     rbind (find_from parent_children (dkeys parent_children) ([], {})) (\<lambda>(cycles, _). Inr cycles)"

section \<open>Cycles of the graph\<close>

definition edge :: "'a graph \<Rightarrow> 'a \<Rightarrow> 'a \<Rightarrow> bool" where
  "edge d p c \<longleftrightarrow> (\<exists>cs. dget d p = Some cs \<and> c \<in> set cs)"

definition simple_path :: "'a graph \<Rightarrow> 'a list \<Rightarrow> bool" where
  "simple_path d p \<longleftrightarrow> p \<noteq> [] \<and> distinct p \<and> successively (edge d) p"

definition is_cycle :: "'a graph \<Rightarrow> 'a list \<Rightarrow> bool" where
  "is_cycle d c \<longleftrightarrow> simple_path d c \<and> edge d (last c) (hd c)"

definition rotated :: "'a list \<Rightarrow> 'a list \<Rightarrow> bool" where
  "rotated xs ys \<longleftrightarrow> (\<exists>k. rotate k xs = ys)"

lemma rotated_refl [simp]: "rotated xs xs"
  by (metis id_apply rotate0 rotated_def)

lemma rotated_trans: "rotated xs ys \<Longrightarrow> rotated ys zs \<Longrightarrow> rotated xs zs"
  by (metis rotate_rotate rotated_def)

lemma rotated_append: "rotated (us @ vs) (vs @ us)"
  by (metis rotate_append rotated_def)

lemma rotated_sym:
  assumes "rotated xs ys"
  shows "rotated ys xs"
proof -
  from assms obtain k where "rotate k xs = ys" by (auto simp: rotated_def)
  then have "ys = drop (k mod length xs) xs @ take (k mod length xs) xs"
    by (simp add: rotate_drop_take)
  with rotated_append show ?thesis
    by (metis append_take_drop_id)
qed

lemma is_dup_rotated:
  "cycle \<noteq> [] \<Longrightarrow> is_dup cycles cycle = Inr (\<exists>c \<in> set cycles. rotated c cycle)"
  by (induction cycles) (auto simp: is_rotated_rotate rotated_def)

lemma simple_path_snoc:
  "simple_path d (p @ [c]) \<longleftrightarrow> p = [] \<or> simple_path d p \<and> edge d (last p) c \<and> c \<notin> set p"
  by (cases "p = []") (auto simp: simple_path_def successively_append_iff)

lemma dropWhile_split: "c \<notin> set us \<Longrightarrow> dropWhile (\<lambda>x. x \<noteq> c) (us @ c # vs) = c # vs"
  by (induction us) auto

lemma back_edge_cycle:
  assumes "simple_path d p" and "edge d (last p) c" and "c \<in> set p"
  shows "is_cycle d (dropWhile (\<lambda>x. x \<noteq> c) p)"
proof -
  obtain us vs where p: "p = us @ c # vs" "c \<notin> set us"
    using assms(3) by (meson split_list_first)
  with assms(1,2) show ?thesis
    by (auto simp: dropWhile_split is_cycle_def simple_path_def successively_append_iff)
qed

text \<open>What has been yielded so far: cycles, no two the same up to rotation.\<close>

definition good_cycles :: "'a graph \<Rightarrow> 'a list list \<Rightarrow> bool" where
  "good_cycles d cycles \<longleftrightarrow> (\<forall>c \<in> set cycles. is_cycle d c) \<and> sorted_wrt (\<lambda>c c'. \<not> rotated c c') cycles"

definition covers :: "'a list list \<Rightarrow> 'a list \<Rightarrow> bool" where
  "covers cycles c \<longleftrightarrow> (\<exists>c' \<in> set cycles. rotated c' c)"

lemma covers_mono: "covers cycles c \<Longrightarrow> set cycles \<subseteq> set cycles' \<Longrightarrow> covers cycles' c"
  by (auto simp: covers_def)

lemma good_cycles_snoc:
  "good_cycles d cycles \<Longrightarrow> is_cycle d c \<Longrightarrow> \<not> covers cycles c \<Longrightarrow> good_cycles d (cycles @ [c])"
  by (auto simp: good_cycles_def covers_def sorted_wrt_append)

section \<open>The search\<close>

text \<open>One path: its back edges are recorded, its other extensions pushed and marked.\<close>

lemma scan_children_ok:
  assumes "simple_path d path" and "\<And>c. c \<in> set cs \<Longrightarrow> edge d (last path) c"
    and "good_cycles d cycles"
  shows "\<exists>cycles' new. scan_children path cs (cycles, visited, paths)
      = Inr (cycles', visited \<union> (set cs - set path), new @ paths)
    \<and> good_cycles d cycles' \<and> set cycles \<subseteq> set cycles'
    \<and> (\<forall>c \<in> set cs \<inter> set path. covers cycles' (dropWhile (\<lambda>x. x \<noteq> c) path))
    \<and> set new = (\<lambda>c. path @ [c]) ` (set cs - set path)"
  using assms(2,3)
proof (induction cs arbitrary: cycles visited paths)
  case Nil
  then show ?case by auto
next
  case (Cons c cs)
  show ?case
  proof (cases "c \<in> set path")
    case True
    let ?cyc = "dropWhile (\<lambda>x. x \<noteq> c) path"
    let ?cycles = "if covers cycles ?cyc then cycles else cycles @ [?cyc]"
    have cyc: "is_cycle d ?cyc"
      using back_edge_cycle [OF assms(1)] Cons.prems(1) True by simp
    then have "is_dup cycles ?cyc = Inr (covers cycles ?cyc)"
      by (simp add: is_dup_rotated covers_def is_cycle_def simple_path_def)
    then have step: "scan_children path (c # cs) (cycles, visited, paths)
        = scan_children path cs (?cycles, visited, paths)"
      using True by (simp add: Let_def)
    have good: "good_cycles d ?cycles"
      using Cons.prems(2) good_cycles_snoc [OF _ cyc] by simp
    have new: "covers ?cycles ?cyc" by (auto simp: covers_def)
    have diff: "set (c # cs) - set path = set cs - set path" using True by auto
    have "\<exists>cycles' new. scan_children path cs (?cycles, visited, paths)
        = Inr (cycles', visited \<union> (set cs - set path), new @ paths)
      \<and> good_cycles d cycles' \<and> set ?cycles \<subseteq> set cycles'
      \<and> (\<forall>c \<in> set cs \<inter> set path. covers cycles' (dropWhile (\<lambda>x. x \<noteq> c) path))
      \<and> set new = (\<lambda>c. path @ [c]) ` (set cs - set path)"
      by (rule Cons.IH [OF _ good]) (use Cons.prems(1) in auto)
    then obtain cycles' new' where IH: "scan_children path cs (?cycles, visited, paths)
        = Inr (cycles', visited \<union> (set cs - set path), new' @ paths)"
      "good_cycles d cycles'" "set ?cycles \<subseteq> set cycles'"
      "\<forall>c \<in> set cs \<inter> set path. covers cycles' (dropWhile (\<lambda>x. x \<noteq> c) path)"
      "set new' = (\<lambda>c. path @ [c]) ` (set cs - set path)"
      by blast
    have "set cycles \<subseteq> set cycles'" using IH(3) by (auto split: if_splits)
    moreover have "covers cycles' ?cyc" using covers_mono [OF new IH(3)] .
    ultimately show ?thesis
      unfolding step diff using IH by auto
  next
    case False
    from Cons.IH [OF _ Cons.prems(2), of "insert c visited" "(path @ [c]) # paths"] Cons.prems(1)
    obtain cycles' new where IH: "scan_children path cs (cycles, insert c visited, (path @ [c]) # paths)
        = Inr (cycles', insert c visited \<union> (set cs - set path), new @ (path @ [c]) # paths)"
      "good_cycles d cycles'" "set cycles \<subseteq> set cycles'"
      "\<forall>c \<in> set cs \<inter> set path. covers cycles' (dropWhile (\<lambda>x. x \<noteq> c) path)"
      "set new = (\<lambda>c. path @ [c]) ` (set cs - set path)"
      by auto
    have "insert c visited \<union> (set cs - set path) = visited \<union> (set (c # cs) - set path)"
      "(\<lambda>c. path @ [c]) ` (set (c # cs) - set path) = set (new @ [path @ [c]])"
      "set (c # cs) \<inter> set path = set cs \<inter> set path"
      using False IH(5) by auto
    with IH(1-4) False show ?thesis
      by (intro exI [of _ cycles'] exI [of _ "new @ [path @ [c]]"]) simp
  qed
qed

text \<open>\<open>p\<close> has been dealt with: every back edge of a simple path that extends it is recorded.\<close>

definition explored :: "'a graph \<Rightarrow> 'a list list \<Rightarrow> 'a list \<Rightarrow> bool" where
  "explored d cycles p \<longleftrightarrow> (\<forall>q c. simple_path d (p @ q) \<longrightarrow> edge d (last (p @ q)) c \<longrightarrow> c \<in> set (p @ q)
     \<longrightarrow> covers cycles (dropWhile (\<lambda>x. x \<noteq> c) (p @ q)))"

lemma explored_mono: "explored d cycles p \<Longrightarrow> set cycles \<subseteq> set cycles' \<Longrightarrow> explored d cycles' p"
  unfolding explored_def using covers_mono by blast

lemma explored_step:
  assumes "\<And>c. edge d (last p) c \<Longrightarrow> c \<in> set p \<Longrightarrow> covers cycles (dropWhile (\<lambda>x. x \<noteq> c) p)"
    and "\<And>c. edge d (last p) c \<Longrightarrow> c \<notin> set p \<Longrightarrow> explored d cycles (p @ [c])" and "p \<noteq> []"
  shows "explored d cycles p"
proof -
  have "covers cycles (dropWhile (\<lambda>x. x \<noteq> c) (p @ q))"
    if h: "simple_path d (p @ q)" "edge d (last (p @ q)) c" "c \<in> set (p @ q)" for q c
  proof (cases q)
    case Nil
    with assms(1) h show ?thesis by simp
  next
    case (Cons x q')
    with h(1) assms(3) have "edge d (last p) x" "x \<notin> set p"
      by (auto simp: simple_path_def successively_append_iff)
    from assms(2) [OF this] h Cons show ?thesis
      unfolding explored_def by (metis append.assoc append_Cons append_Nil)
  qed
  then show ?thesis by (simp add: explored_def)
qed

text \<open>What the search marks is reached by a simple path that extends a stacked one.\<close>

definition reached :: "'a graph \<Rightarrow> 'a list list \<Rightarrow> 'a \<Rightarrow> bool" where
  "reached d paths v \<longleftrightarrow> (\<exists>p \<in> set paths. \<exists>q. q \<noteq> [] \<and> simple_path d (p @ q) \<and> v = last q)"

lemma reached_pushed:
  assumes "reached d (new @ paths) v" and "set new \<subseteq> (\<lambda>c. path @ [c]) ` C"
  shows "reached d (path # paths) v"
proof -
  from assms(1) obtain p q where p: "p \<in> set (new @ paths)" "q \<noteq> []" "simple_path d (p @ q)" "v = last q"
    by (auto simp: reached_def)
  show ?thesis
  proof (cases "p \<in> set paths")
    case True
    with p show ?thesis by (auto simp: reached_def)
  next
    case False
    with p(1) assms(2) obtain c where "p = path @ [c]" by auto
    with p have "path \<in> set (path # paths)" "c # q \<noteq> []" "simple_path d (path @ c # q)" "v = last (c # q)"
      by auto
    then show ?thesis unfolding reached_def by blast
  qed
qed

lemma explore_ok:
  assumes "good_cycles d cycles" and "\<forall>p \<in> set paths. simple_path d p"
  shows "\<exists>cycles' visited'. explore d (cycles, visited, paths) = Inr (cycles', visited', [])
    \<and> good_cycles d cycles' \<and> set cycles \<subseteq> set cycles' \<and> visited \<subseteq> visited'
    \<and> (\<forall>p \<in> set paths. explored d cycles' p)
    \<and> (\<forall>v \<in> visited'. v \<in> visited \<or> reached d paths v)"
  using assms
proof (induction d "(cycles, visited, paths)" arbitrary: cycles visited paths rule: explore.induct)
  case (1 d cycles visited)
  then show ?case by auto
next
  case (2 d cycles visited path paths)
  have sp: "simple_path d path" and rest: "\<forall>p \<in> set paths. simple_path d p"
    using "2.prems"(2) by auto
  then have ne: "path \<noteq> []" by (simp add: simple_path_def)
  then have top: "py_get path (- 1) = Inr (last path)" by (simp add: py_simps)
  show ?case
  proof (cases "dget d (last path)")
    case None
    then have none: "\<not> edge d (last path) c" for c by (simp add: edge_def)
    have "explored d cs path" for cs
      by (rule explored_step) (use none ne in auto)
    moreover have "reached d (path # paths) v" if "reached d paths v" for v
      using that by (auto simp: reached_def)
    moreover from "2.hyps"(1) [OF top None "2.prems"(1) rest] obtain cycles' visited' where
      "explore d (cycles, visited, paths) = Inr (cycles', visited', [])"
      "good_cycles d cycles'" "set cycles \<subseteq> set cycles'" "visited \<subseteq> visited'"
      "\<forall>p \<in> set paths. explored d cycles' p" "\<forall>v \<in> visited'. v \<in> visited \<or> reached d paths v"
      by blast
    ultimately show ?thesis
      using top None by (intro exI [of _ cycles'] exI [of _ visited']) auto
  next
    case (Some children)
    then have edges: "edge d (last path) c \<longleftrightarrow> c \<in> set children" for c by (simp add: edge_def)
    have "c \<in> set children \<Longrightarrow> edge d (last path) c" for c using edges by blast
    from scan_children_ok [OF sp this "2.prems"(1), of children visited paths]
    obtain cycles1 new where sc: "scan_children path children (cycles, visited, paths)
        = Inr (cycles1, visited \<union> (set children - set path), new @ paths)"
      "good_cycles d cycles1" "set cycles \<subseteq> set cycles1"
      "\<forall>c \<in> set children \<inter> set path. covers cycles1 (dropWhile (\<lambda>x. x \<noteq> c) path)"
      "set new = (\<lambda>c. path @ [c]) ` (set children - set path)"
      by blast
    have "\<forall>p \<in> set (new @ paths). simple_path d p"
      using rest sc(5) sp edges by (auto simp: simple_path_snoc)
    from "2.hyps"(2) [OF top Some sc(1) sc(2) this] obtain cycles' visited' where IH:
      "explore d (cycles1, visited \<union> (set children - set path), new @ paths) = Inr (cycles', visited', [])"
      "good_cycles d cycles'" "set cycles1 \<subseteq> set cycles'"
      "visited \<union> (set children - set path) \<subseteq> visited'"
      "\<forall>p \<in> set (new @ paths). explored d cycles' p"
      "\<forall>v \<in> visited'. v \<in> visited \<union> (set children - set path) \<or> reached d (new @ paths) v"
      by blast
    have "explored d cycles' path"
    proof (rule explored_step)
      show "covers cycles' (dropWhile (\<lambda>x. x \<noteq> c) path)" if "edge d (last path) c" "c \<in> set path" for c
        using covers_mono [OF _ IH(3)] sc(4) edges that by auto
      show "explored d cycles' (path @ [c])" if "edge d (last path) c" "c \<notin> set path" for c
        using IH(5) sc(5) edges that by auto
    qed (rule ne)
    moreover have "reached d (path # paths) v" if "v \<in> set children - set path" for v
    proof -
      have "simple_path d (path @ [v])" using that sp edges by (auto simp: simple_path_snoc)
      moreover have "path \<in> set (path # paths)" "[v] \<noteq> []" "v = last [v]" by simp_all
      ultimately show ?thesis unfolding reached_def by blast
    qed
    ultimately show ?thesis
      using top Some sc(1,3) IH reached_pushed [of d new paths _ path "set children - set path"] sc(5)
      by (intro exI [of _ cycles'] exI [of _ visited']) auto
  qed
qed

text \<open>Every item visited is reached from a start whose simple paths have all been explored.\<close>

definition searched :: "'a graph \<Rightarrow> 'a list list \<Rightarrow> 'a \<Rightarrow> bool" where
  "searched d cycles v \<longleftrightarrow> (\<exists>s q. explored d cycles [s] \<and> simple_path d (s # q) \<and> v = last (s # q))"

lemma searched_mono: "searched d cycles v \<Longrightarrow> set cycles \<subseteq> set cycles' \<Longrightarrow> searched d cycles' v"
  unfolding searched_def using explored_mono by blast

lemma find_from_ok:
  assumes "good_cycles d cycles" and "\<forall>v \<in> visited. searched d cycles v"
  shows "\<exists>cycles' visited'. find_from d ps (cycles, visited) = Inr (cycles', visited')
    \<and> good_cycles d cycles' \<and> set cycles \<subseteq> set cycles' \<and> (\<forall>v \<in> set ps. searched d cycles' v)"
  using assms
proof (induction ps arbitrary: cycles visited)
  case Nil
  then show ?case by auto
next
  case (Cons parent ps)
  show ?case
  proof (cases "parent \<in> visited")
    case True
    with Cons.IH [OF Cons.prems] Cons.prems(2) searched_mono show ?thesis by fastforce
  next
    case False
    have "simple_path d [parent]" by (simp add: simple_path_def)
    with explore_ok [OF Cons.prems(1), of "[[parent]]" visited] obtain cycles1 visited1 where e:
      "explore d (cycles, visited, [[parent]]) = Inr (cycles1, visited1, [])" "good_cycles d cycles1"
      "set cycles \<subseteq> set cycles1" "explored d cycles1 [parent]"
      "\<forall>v \<in> visited1. v \<in> visited \<or> reached d [[parent]] v"
      by auto
    have new: "searched d cycles1 v" if "v = parent \<or> reached d [[parent]] v" for v
    proof -
      from that obtain q where "simple_path d (parent # q)" "v = last (parent # q)"
        using \<open>simple_path d [parent]\<close> by (auto simp: reached_def)
      with e(4) show ?thesis unfolding searched_def by blast
    qed
    have "searched d cycles1 v" if v: "v \<in> visited1" for v
    proof (cases "v \<in> visited")
      case True
      with Cons.prems(2) have "searched d cycles v" by simp
      from searched_mono [OF this e(3)] show ?thesis .
    next
      case False
      with e(5) v have "reached d [[parent]] v" by blast
      with new [of v] show ?thesis by blast
    qed
    then have "\<forall>v \<in> visited1. searched d cycles1 v" ..
    from Cons.IH [OF e(2) this] obtain cycles' visited' where IH:
      "find_from d ps (cycles1, visited1) = Inr (cycles', visited')" "good_cycles d cycles'"
      "set cycles1 \<subseteq> set cycles'" "\<forall>v \<in> set ps. searched d cycles' v"
      by blast
    have "searched d cycles' parent"
      using searched_mono [OF new IH(3)] by blast
    moreover have "set cycles \<subseteq> set cycles'" using e(3) IH(3) by blast
    moreover have "find_from d (parent # ps) (cycles, visited) = Inr (cycles', visited')"
      using False e(1) IH(1) by simp
    ultimately show ?thesis
      using IH(2,4) by (intro exI [of _ cycles'] exI [of _ visited']) simp
  qed
qed

section \<open>find\_cycles finds every cycle once\<close>

lemma is_cycle_rotate:
  assumes "is_cycle d (us @ vs)"
  shows "is_cycle d (vs @ us)"
proof (cases "us = [] \<or> vs = []")
  case True
  with assms show ?thesis by auto
next
  case False
  with assms show ?thesis
    by (auto simp: is_cycle_def simple_path_def successively_append_iff)
qed

lemma searched_covers:
  assumes "is_cycle d c" and "searched d cycles (hd c)"
  shows "covers cycles c"
proof -
  from assms(2) obtain s q where s: "explored d cycles [s]" "simple_path d (s # q)" "hd c = last (s # q)"
    by (auto simp: searched_def)
  have "hd c \<in> set c" using assms(1) by (simp add: is_cycle_def simple_path_def)
  moreover have "hd c \<in> set (s # q)" unfolding s(3) by (rule last_in_set) simp
  ultimately have "\<exists>x \<in> set (s # q). x \<in> set c" by blast
  then obtain us x ws where sq: "s # q = us @ x # ws" "x \<in> set c" "\<forall>y \<in> set us. y \<notin> set c"
    by (rule split_list_first_propE)
  obtain as bs where c: "c = as @ x # bs"
    using sq(2) by (meson split_list)
  let ?c = "x # bs @ as"
  have cyc: "is_cycle d ?c" using is_cycle_rotate [of d as "x # bs"] assms(1) c by simp
  have "simple_path d (us @ ?c)"
  proof -
    have us: "simple_path d (us @ x # ws)" using s(2) sq(1) by simp
    have c': "simple_path d ?c" using cyc by (simp add: is_cycle_def)
    have "set us \<inter> set ?c = {}" using sq(3) c by auto
    with us c' have "distinct (us @ ?c)" by (simp add: simple_path_def)
    moreover have "successively (edge d) (us @ ?c)"
      using us c' by (cases us rule: rev_cases) (simp_all add: simple_path_def successively_append_iff)
    ultimately show ?thesis
      by (simp add: simple_path_def)
  qed
  moreover have "edge d (last (us @ ?c)) x" using cyc by (auto simp: is_cycle_def)
  moreover obtain r where r: "us @ ?c = [s] @ r"
    using sq(1) by (cases us) auto
  moreover have "x \<in> set ([s] @ r)" unfolding r [symmetric] by simp
  ultimately have "covers cycles (dropWhile (\<lambda>y. y \<noteq> x) ([s] @ r))"
    using s(1) unfolding explored_def by metis
  then have "covers cycles (dropWhile (\<lambda>y. y \<noteq> x) (us @ ?c))"
    unfolding r .
  moreover have "x \<notin> set us" using sq(2,3) by blast
  ultimately have "covers cycles ?c"
    by (simp add: dropWhile_split)
  moreover have "rotated ?c c"
    using rotated_append [of "x # bs" as] c by simp
  ultimately show ?thesis
    unfolding covers_def using rotated_trans by blast
qed

lemma good_cycles_once:
  assumes "good_cycles d cycles" and "i < length cycles" and "j < length cycles"
    and "rotated (cycles ! i) c" and "rotated (cycles ! j) c"
  shows "i = j"
proof (rule ccontr)
  assume "i \<noteq> j"
  have "rotated (cycles ! i) (cycles ! j)" "rotated (cycles ! j) (cycles ! i)"
    using assms(4,5) rotated_sym rotated_trans by blast+
  with assms(1-3) \<open>i \<noteq> j\<close> show False
    unfolding good_cycles_def sorted_wrt_iff_nth_less by (metis nat_neq_iff)
qed

text \<open>
  C14. \<open>find_cycles\<close> ends without an exception on every graph (children that are not keys and
  repeated children included); every list it yields is a cycle (distinct items, each a child of the
  one before it and the first a child of the last), and every cycle of the graph is a
  rotation of exactly one yielded list.
\<close>

theorem find_cycles_exactly_once:
  "\<exists>cycles. find_cycles d = Inr cycles
     \<and> list_all (is_cycle d) cycles
     \<and> {c. is_cycle d c} = {c. \<exists>!i. i < length cycles \<and> (\<exists>k. rotate k (cycles ! i) = c)}"
proof -
  from find_from_ok [of d "[]" "{}" "dkeys d"] obtain cycles visited where
    f: "find_from d (dkeys d) ([], {}) = Inr (cycles, visited)" "good_cycles d cycles"
    "\<forall>v \<in> set (dkeys d). searched d cycles v"
    by (auto simp: good_cycles_def)
  have all: "list_all (is_cycle d) cycles"
    using f(2) by (simp add: good_cycles_def list_all_iff)
  have "covers cycles c" if c: "is_cycle d c" for c
  proof -
    from c obtain y where "edge d (hd c) y"
      by (cases c; cases "tl c") (auto simp: is_cycle_def simple_path_def)
    then have "hd c \<in> set (dkeys d)"
      by (force simp: edge_def dest: map_of_SomeD)
    with searched_covers [OF c] f(3) show ?thesis by blast
  qed
  moreover have "is_cycle d c" if "i < length cycles" "rotated (cycles ! i) c" for i c
  proof -
    from that(2) obtain k where "rotate k (cycles ! i) = c" by (auto simp: rotated_def)
    then have "c = drop (k mod length (cycles ! i)) (cycles ! i) @ take (k mod length (cycles ! i)) (cycles ! i)"
      by (simp add: rotate_drop_take)
    moreover have "is_cycle d (cycles ! i)" using all that(1) by (simp add: list_all_length)
    ultimately show ?thesis
      by (metis append_take_drop_id is_cycle_rotate)
  qed
  ultimately have "is_cycle d c \<longleftrightarrow> (\<exists>i. i < length cycles \<and> rotated (cycles ! i) c)" for c
    unfolding covers_def by (metis in_set_conv_nth)
  then have "{c. is_cycle d c} = {c. \<exists>!i. i < length cycles \<and> rotated (cycles ! i) c}"
    using good_cycles_once [OF f(2)] by auto
  with f(1) all show ?thesis
    by (simp add: find_cycles_def rotated_def)
qed

end
