(* ===== verification/Patch.thy ===== *)
theory Patch
  imports Prelude "HOL-Library.Monad_Syntax"
begin

text \<open>
  \<^verbatim>\<open>utils/check-style.py\<close>: the classes \<open>PatchChunkLine\<close>, \<open>PatchChunk\<close> and \<open>Patch\<close>,
  \<open>parse_patchset\<close> and \<open>remove_trailing_whitespace_changes\<close>.  The line objects of a chunk are
  shared between the lists \<open>src()\<close> and \<open>dst()\<close>, so these lists hold positions in the chunk's
  list of lines.  \<open>parse_patchset\<close> appends to the chunk made last, which may belong to an earlier
  patch than the current one; its state says where both are.  What \<open>write\<close> gives to the file is
  the list of the strings written.
\<close>

section \<open>PatchChunkLine, PatchChunk, Patch\<close>

text \<open>\<open>LineType0\<close> is the 0 a new line starts with.\<close>

datatype line_type = LineType0 | SRC | DST | BOTH

record patch_line =
  pl_type :: line_type
  pl_line :: string

definition new_line :: patch_line where
  "new_line = \<lparr>pl_type = LineType0, pl_line = ''''\<rparr>"

definition set_src_line :: "string \<Rightarrow> patch_line \<Rightarrow> patch_line" where
  "set_src_line line l = l\<lparr>pl_type := SRC, pl_line := line\<rparr>"

definition set_dst_line :: "string \<Rightarrow> patch_line \<Rightarrow> patch_line" where
  "set_dst_line line l = l\<lparr>pl_type := DST, pl_line := line\<rparr>"

definition set_both_line :: "string \<Rightarrow> patch_line \<Rightarrow> patch_line" where
  "set_both_line line l = l\<lparr>pl_type := BOTH, pl_line := line\<rparr>"

definition append_to_line :: "string \<Rightarrow> patch_line \<Rightarrow> patch_line" where
  "append_to_line s l = l\<lparr>pl_line := pl_line l @ s\<rparr>"

definition is_src :: "patch_line \<Rightarrow> bool" where
  "is_src l \<longleftrightarrow> pl_type l = SRC \<or> pl_type l = BOTH"

definition is_dst :: "patch_line \<Rightarrow> bool" where
  "is_dst l \<longleftrightarrow> pl_type l = DST \<or> pl_type l = BOTH"

definition write_line :: "patch_line \<Rightarrow> py_exn + string list" where
  "write_line l =
     (case pl_type l of
        SRC \<Rightarrow> Inr [CHR ''-'' # pl_line l @ [nl]]
      | DST \<Rightarrow> Inr [CHR ''+'' # pl_line l @ [nl]]
      | BOTH \<Rightarrow> Inr [CHR '' '' # pl_line l @ [nl]]
      | LineType0 \<Rightarrow> Inl (Exc ''invalid patch''))"

record patch_chunk =
  ck_lines :: "patch_line list"
  ck_src_pos :: int
  ck_dst_pos :: int

definition new_chunk :: "int \<Rightarrow> int \<Rightarrow> patch_chunk" where
  "new_chunk src_pos dst_pos = \<lparr>ck_lines = [], ck_src_pos = src_pos, ck_dst_pos = dst_pos\<rparr>"

definition src_start :: "patch_chunk \<Rightarrow> int" where
  "src_start c = ck_src_pos c"

definition add_line :: "patch_line \<Rightarrow> patch_chunk \<Rightarrow> patch_chunk" where
  "add_line l c = c\<lparr>ck_lines := ck_lines c @ [l]\<rparr>"

definition chunk_src :: "patch_chunk \<Rightarrow> nat list" where
  "chunk_src c = filter (\<lambda>i. is_src (ck_lines c ! i)) [0..<length (ck_lines c)]"

definition chunk_dst :: "patch_chunk \<Rightarrow> nat list" where
  "chunk_dst c = filter (\<lambda>i. is_dst (ck_lines c ! i)) [0..<length (ck_lines c)]"

definition src_len :: "patch_chunk \<Rightarrow> nat" where
  "src_len c = length (chunk_src c)"

definition dst_len :: "patch_chunk \<Rightarrow> nat" where
  "dst_len c = length (chunk_dst c)"

definition chunk_header :: "patch_chunk \<Rightarrow> string" where
  "chunk_header c = ''@@ -'' @ int_str (ck_src_pos c) @ '','' @ nat_str (src_len c)
     @ '' +'' @ int_str (ck_dst_pos c) @ '','' @ nat_str (dst_len c) @ '' @@'' @ [nl]"

definition write_chunk :: "patch_chunk \<Rightarrow> py_exn + string list" where
  "write_chunk c = rbind (mapM write_line (ck_lines c)) (\<lambda>ls. Inr (chunk_header c # concat ls))"

record patch =
  p_src :: string
  p_dst :: string
  p_chunks :: "patch_chunk list"

definition new_patch :: patch where
  "new_patch = \<lparr>p_src = '''', p_dst = '''', p_chunks = []\<rparr>"

definition add_chunk :: "patch_chunk \<Rightarrow> patch \<Rightarrow> patch" where
  "add_chunk chunk p = p\<lparr>p_chunks := p_chunks p @ [chunk]\<rparr>"

definition write_patch :: "patch \<Rightarrow> py_exn + string list" where
  "write_patch p =
     rbind (mapM write_chunk (p_chunks p)) (\<lambda>cs.
       Inr ((''--- '' @ p_src p @ [nl]) # (''+++ '' @ p_dst p @ [nl]) # concat cs))"

section \<open>parse\_patchset\<close>

text \<open>
  The regular expressions.  \<open>line_body\<close> is what \<open>(.*)$\<close> needs: the line less a final newline,
  with no other newline.
\<close>

definition line_body :: "string \<Rightarrow> string option" where
  "line_body line =
     (let s = (if line \<noteq> [] \<and> last line = nl then butlast line else line)
      in if nl \<in> set s then None else Some s)"

definition search_rest :: "string \<Rightarrow> string \<Rightarrow> string option" where
  "search_rest p line = Option.bind (line_body line) (after p)"

text \<open>Groups 1 and 3 of \<^verbatim>\<open>^@@ -([0-9]+),([0-9]+) \+([0-9]+),([0-9]+) @@\<close>.\<close>

definition search_chunk_start :: "string \<Rightarrow> (string \<times> string) option" where
  "search_chunk_start line =
     do {
       s1 \<leftarrow> after ''@@ -'' line; (g1, s2) \<leftarrow> take_digits s1;
       s3 \<leftarrow> after '','' s2; (g2, s4) \<leftarrow> take_digits s3;
       s5 \<leftarrow> after '' +'' s4; (g3, s6) \<leftarrow> take_digits s5;
       s7 \<leftarrow> after '','' s6; (g4, s8) \<leftarrow> take_digits s7;
       _ \<leftarrow> after '' @@'' s8;
       Some (g1, g3)
     }"

text \<open>
  The state of the loop: \<open>patchset\<close>, whose last element is \<open>current_patch\<close>, and the place of
  \<open>current_chunk\<close> in it; a local not yet assigned is \<open>None\<close>.
\<close>

record parse_state =
  patchset :: "patch list"
  current_chunk :: "(nat \<times> nat) option"

definition on_current_patch :: "(patch \<Rightarrow> patch) \<Rightarrow> parse_state \<Rightarrow> py_exn + parse_state" where
  "on_current_patch f st =
     (if patchset st = [] then Inl AttributeError
      else Inr (st\<lparr>patchset := butlast (patchset st) @ [f (last (patchset st))]\<rparr>))"

definition on_current_chunk :: "(patch_chunk \<Rightarrow> patch_chunk) \<Rightarrow> parse_state \<Rightarrow> py_exn + parse_state" where
  "on_current_chunk f st =
     (case current_chunk st of
        None \<Rightarrow> Inl UnboundLocalError
      | Some (i, j) \<Rightarrow>
          (let p = patchset st ! i
           in Inr (st\<lparr>patchset := (patchset st)[i := p\<lparr>p_chunks := (p_chunks p)[j := f (p_chunks p ! j)]\<rparr>]\<rparr>)))"

definition start_chunk :: "string \<Rightarrow> string \<Rightarrow> parse_state \<Rightarrow> py_exn + parse_state" where
  "start_chunk g1 g3 st =
     rbind (on_current_patch (add_chunk (new_chunk (int (digits_val g1)) (int (digits_val g3)))) st)
       (\<lambda>st'. Inr (st'\<lparr>current_chunk :=
          Some (length (patchset st') - 1, length (p_chunks (last (patchset st'))) - 1)\<rparr>))"

definition parse_line :: "string \<Rightarrow> parse_state \<Rightarrow> py_exn + parse_state" where
  "parse_line line st =
     (case search_rest ''--- '' line of
        Some g \<Rightarrow> Inr (st\<lparr>patchset := patchset st @ [new_patch\<lparr>p_src := g\<rparr>]\<rparr>)
      | None \<Rightarrow>
     (case search_rest ''+++ '' line of
        Some g \<Rightarrow> on_current_patch (\<lambda>p. p\<lparr>p_dst := g\<rparr>) st
      | None \<Rightarrow>
     (case search_chunk_start line of
        Some (g1, g3) \<Rightarrow> start_chunk g1 g3 st
      | None \<Rightarrow>
     (case search_rest ''-'' line of
        Some g \<Rightarrow> on_current_chunk (add_line (set_src_line g new_line)) st
      | None \<Rightarrow>
     (case search_rest ''+'' line of
        Some g \<Rightarrow> on_current_chunk (add_line (set_dst_line g new_line)) st
      | None \<Rightarrow>
     (case search_rest '' '' line of
        Some g \<Rightarrow> on_current_chunk (add_line (set_both_line g new_line)) st
      | None \<Rightarrow> Inl (Exc '''')))))))"

fun parse_lines :: "string list \<Rightarrow> parse_state \<Rightarrow> py_exn + parse_state" where
  "parse_lines [] st = Inr st"
| "parse_lines (line # ls) st = rbind (parse_line line st) (parse_lines ls)"

definition parse_patchset :: "string list \<Rightarrow> py_exn + patch list" where
  "parse_patchset generator =
     rbind (parse_lines generator \<lparr>patchset = [], current_chunk = None\<rparr>) (\<lambda>st. Inr (patchset st))"

section \<open>remove\_trailing\_whitespace\_changes\<close>

text \<open>
  \<^verbatim>\<open>^(.*)([ \t]+)$\<close>: the first group is greedy, so the second is the last character.  The lines
  searched hold no newline.
\<close>

definition search_whitespace :: "string \<Rightarrow> (string \<times> string) option" where
  "search_whitespace s =
     (if s \<noteq> [] \<and> (last s = CHR '' '' \<or> last s = CHR 0x09) then Some (butlast s, [last s]) else None)"

text \<open>The loop over \<open>range(0,len(src))\<close>; the flag is off when \<open>dst[i]\<close> raised.\<close>

definition restore_line :: "nat \<Rightarrow> nat \<Rightarrow> patch_line list \<Rightarrow> patch_line list" where
  "restore_line s d ls =
     (case search_whitespace (pl_line (ls ! s)) of
        None \<Rightarrow> ls
      | Some (g1, g2) \<Rightarrow> (if g1 = pl_line (ls ! d) then ls[d := append_to_line g2 (ls ! d)] else ls))"

fun restore_lines :: "nat list \<Rightarrow> nat list \<Rightarrow> patch_line list \<Rightarrow> patch_line list \<times> bool" where
  "restore_lines [] dst ls = (ls, True)"
| "restore_lines (s # src) [] ls = (ls, False)"
| "restore_lines (s # src) (d # dst) ls = restore_lines src dst (restore_line s d ls)"

definition restore_chunk :: "patch_chunk \<Rightarrow> patch_chunk \<times> bool" where
  "restore_chunk c =
     (let (ls, ok) = restore_lines (chunk_src c) (chunk_dst c) (ck_lines c)
      in (c\<lparr>ck_lines := ls\<rparr>, ok))"

text \<open>The two outer loops: an exception returns the patchset as it is then.\<close>

fun restore_chunks :: "patch_chunk list \<Rightarrow> patch_chunk list \<times> bool" where
  "restore_chunks [] = ([], True)"
| "restore_chunks (c # cs) =
     (let (c', ok) = restore_chunk c
      in if ok then (let (cs', ok') = restore_chunks cs in (c' # cs', ok')) else (c' # cs, False))"

fun restore_patches :: "patch list \<Rightarrow> patch list" where
  "restore_patches [] = []"
| "restore_patches (p # ps) =
     (let (cs, ok) = restore_chunks (p_chunks p); p' = p\<lparr>p_chunks := cs\<rparr>
      in p' # (if ok then restore_patches ps else ps))"

definition remove_trailing_whitespace_changes :: "string list \<Rightarrow> py_exn + patch list" where
  "remove_trailing_whitespace_changes patch_generator =
     rbind (parse_patchset patch_generator) (\<lambda>ps. Inr (restore_patches ps))"

section \<open>What is written is read back\<close>

definition wf_line :: "patch_line \<Rightarrow> bool" where
  "wf_line l \<longleftrightarrow> pl_type l \<noteq> LineType0 \<and> nl \<notin> set (pl_line l)
     \<and> (pl_type l = SRC \<longrightarrow> \<not> startswith (pl_line l) ''-- '')
     \<and> (pl_type l = DST \<longrightarrow> \<not> startswith (pl_line l) ''++ '')"

definition wf_chunk :: "patch_chunk \<Rightarrow> bool" where
  "wf_chunk c \<longleftrightarrow> list_all wf_line (ck_lines c) \<and> 0 \<le> ck_src_pos c \<and> 0 \<le> ck_dst_pos c"

definition wf_patch :: "patch \<Rightarrow> bool" where
  "wf_patch p \<longleftrightarrow> nl \<notin> set (p_src p) \<and> nl \<notin> set (p_dst p) \<and> list_all wf_chunk (p_chunks p)"

definition write_patchset :: "patch list \<Rightarrow> py_exn + string" where
  "write_patchset ps = rbind (mapM write_patch ps) (\<lambda>ws. Inr (concat (concat ws)))"

definition read_patchset :: "string \<Rightarrow> py_exn + patch list" where
  "read_patchset text = parse_patchset (readlines text)"

definition line_str :: "patch_line \<Rightarrow> string" where
  "line_str l =
     (case pl_type l of SRC \<Rightarrow> CHR ''-'' | DST \<Rightarrow> CHR ''+'' | _ \<Rightarrow> CHR '' '') # pl_line l @ [nl]"

definition patch_strs :: "patch \<Rightarrow> string list" where
  "patch_strs p = (''--- '' @ p_src p @ [nl]) # (''+++ '' @ p_dst p @ [nl])
     # concat (map (\<lambda>c. chunk_header c # map line_str (ck_lines c)) (p_chunks p))"

lemma write_line_ok: "wf_line l \<Longrightarrow> write_line l = Inr [line_str l]"
  by (cases "pl_type l") (auto simp: wf_line_def write_line_def line_str_def)

lemma write_chunk_ok:
  "list_all wf_line (ck_lines c) \<Longrightarrow> write_chunk c = Inr (chunk_header c # map line_str (ck_lines c))"
proof -
  assume "list_all wf_line (ck_lines c)"
  then have "mapM write_line (ck_lines c) = Inr (map (\<lambda>l. [line_str l]) (ck_lines c))"
    by (intro mapM_all_ok) (simp add: list_all_iff write_line_ok)
  then show ?thesis
    by (simp add: write_chunk_def)
qed

lemma write_patch_ok: "wf_patch p \<Longrightarrow> write_patch p = Inr (patch_strs p)"
proof -
  assume "wf_patch p"
  then have "mapM write_chunk (p_chunks p)
      = Inr (map (\<lambda>c. chunk_header c # map line_str (ck_lines c)) (p_chunks p))"
    by (intro mapM_all_ok) (simp add: wf_patch_def list_all_iff wf_chunk_def write_chunk_ok)
  then show ?thesis
    by (simp add: write_patch_def patch_strs_def)
qed

lemma line_body_line [simp]: "nl \<notin> set s \<Longrightarrow> line_body (s @ [nl]) = Some s"
  by (simp add: line_body_def)

lemma line_body_Cons [simp]:
  "c \<noteq> nl \<Longrightarrow> nl \<notin> set s \<Longrightarrow> line_body (c # s @ [nl]) = Some (c # s)"
  using line_body_line [of "c # s"] by simp

lemma after_append [simp]: "after p (p @ s) = Some s"
  by (simp add: after_def)

lemma after_Cons [simp]: "after (c # p) (d # s) = (if c = d then after p s else None)"
  by (simp add: after_def startswith_def)

lemma after_Nil [simp]: "after [] s = Some s"
  by (simp add: after_def startswith_def)

lemma after_short [simp]: "after (c # p) [] = None"
  by (simp add: after_def startswith_def)

lemma after_None: "\<not> startswith s p \<Longrightarrow> after p s = None"
  by (simp add: after_def)

lemma take_digits_nat_str [simp]:
  "\<not> is_digit c \<Longrightarrow> take_digits (nat_str n @ c # s) = Some (nat_str n, c # s)"
  using takeWhile_digits [OF nat_str_digits, of c n s] by (simp add: take_digits_def)

lemma not_digits [simp]: "\<not> is_digit (CHR '','')" "\<not> is_digit (CHR '' '')"
  by (simp_all add: is_digit_def)

lemma nl_nat_str [simp]: "nl \<notin> set (nat_str n)"
proof
  assume "nl \<in> set (nat_str n)"
  then have "is_digit nl" using nat_str_digits [of n] by (simp add: list_all_iff)
  then show False by (simp add: is_digit_def)
qed

lemma search_chunk_header:
  assumes "0 \<le> ck_src_pos c" and "0 \<le> ck_dst_pos c"
  shows "search_chunk_start (chunk_header c)
    = Some (nat_str (nat (ck_src_pos c)), nat_str (nat (ck_dst_pos c)))"
  using assms by (simp add: search_chunk_start_def chunk_header_def int_str_def)

lemma search_rest_hd: "d \<noteq> c \<Longrightarrow> search_rest (c # p) (d # w) = None"
  by (auto simp: search_rest_def line_body_def Let_def)

text \<open>The state in which the last chunk of the last patch is the current chunk.\<close>

definition at_chunk :: "patch list \<Rightarrow> patch \<Rightarrow> patch_chunk list \<Rightarrow> patch_chunk \<Rightarrow> parse_state" where
  "at_chunk ps p cs c =
     \<lparr>patchset = ps @ [p\<lparr>p_chunks := cs @ [c]\<rparr>], current_chunk = Some (length ps, length cs)\<rparr>"

lemma parse_line_str:
  assumes "wf_line l"
  shows "parse_line (line_str l) (at_chunk ps p cs c) = Inr (at_chunk ps p cs (add_line l c))"
proof -
  obtain t s where l: "l = \<lparr>pl_type = t, pl_line = s\<rparr>"
    by (cases l)
  have on: "on_current_chunk f (at_chunk ps p cs c) = Inr (at_chunk ps p cs (f c))" for f
    by (simp add: on_current_chunk_def at_chunk_def)
  show ?thesis
    using assms
    by (cases t)
      (auto simp: l wf_line_def line_str_def parse_line_def search_rest_def after_None on
        search_chunk_start_def set_src_line_def set_dst_line_def set_both_line_def new_line_def)
qed

lemma parse_lines_append:
  "parse_lines (ls @ ls') st = rbind (parse_lines ls st) (parse_lines ls')"
proof (induction ls arbitrary: st)
  case (Cons l ls)
  then show ?case by (cases "parse_line l st") auto
qed simp

lemma parse_line_strs:
  "list_all wf_line ls \<Longrightarrow>
     parse_lines (map line_str ls) (at_chunk ps p cs c)
     = Inr (at_chunk ps p cs (c\<lparr>ck_lines := ck_lines c @ ls\<rparr>))"
  by (induction ls arbitrary: c) (auto simp: parse_line_str add_line_def)

lemma parse_chunk:
  assumes "wf_chunk c"
  shows "parse_lines (chunk_header c # map line_str (ck_lines c))
      \<lparr>patchset = ps @ [p\<lparr>p_chunks := cs\<rparr>], current_chunk = cur\<rparr> = Inr (at_chunk ps p cs c)"
proof -
  have pos: "0 \<le> ck_src_pos c" "0 \<le> ck_dst_pos c" and ls: "list_all wf_line (ck_lines c)"
    using assms by (simp_all add: wf_chunk_def)
  have "search_rest ''--- '' (chunk_header c) = None" "search_rest ''+++ '' (chunk_header c) = None"
    by (simp_all add: chunk_header_def search_rest_hd)
  then have "parse_line (chunk_header c) \<lparr>patchset = ps @ [p\<lparr>p_chunks := cs\<rparr>], current_chunk = cur\<rparr>
      = Inr (at_chunk ps p cs (c\<lparr>ck_lines := []\<rparr>))"
    using pos search_chunk_header [OF pos]
    by (cases c)
      (simp add: parse_line_def start_chunk_def on_current_patch_def at_chunk_def add_chunk_def new_chunk_def)
  then show ?thesis
    using parse_line_strs [OF ls, where ps = ps and p = p and cs = cs and c = "c\<lparr>ck_lines := []\<rparr>"] by simp
qed

lemma parse_chunks:
  "list_all wf_chunk new \<Longrightarrow>
     \<exists>cur'. parse_lines (concat (map (\<lambda>c. chunk_header c # map line_str (ck_lines c)) new))
        \<lparr>patchset = ps @ [p\<lparr>p_chunks := cs\<rparr>], current_chunk = cur\<rparr>
      = Inr \<lparr>patchset = ps @ [p\<lparr>p_chunks := cs @ new\<rparr>], current_chunk = cur'\<rparr>"
proof (induction new arbitrary: cs cur)
  case (Cons c new)
  then have "wf_chunk c" by simp
  note here = parse_chunk [OF this, where ps = ps and p = p and cs = cs and cur = cur]
  have "\<exists>cur'. parse_lines (concat (map (\<lambda>c. chunk_header c # map line_str (ck_lines c)) new))
        \<lparr>patchset = ps @ [p\<lparr>p_chunks := cs @ [c]\<rparr>], current_chunk = Some (length ps, length cs)\<rparr>
      = Inr \<lparr>patchset = ps @ [p\<lparr>p_chunks := (cs @ [c]) @ new\<rparr>], current_chunk = cur'\<rparr>"
    using Cons.prems by (intro Cons.IH) simp
  with here show ?case
    by (simp only: concat.simps list.map parse_lines_append rbind.simps at_chunk_def append_assoc) simp
qed auto

lemma parse_patch:
  assumes "wf_patch p"
  shows "\<exists>cur'. parse_lines (patch_strs p) \<lparr>patchset = ps, current_chunk = cur\<rparr>
    = Inr \<lparr>patchset = ps @ [p], current_chunk = cur'\<rparr>"
proof -
  have src: "nl \<notin> set (p_src p)" and dst: "nl \<notin> set (p_dst p)" and cs: "list_all wf_chunk (p_chunks p)"
    using assms by (simp_all add: wf_patch_def)
  let ?p = "\<lparr>p_src = p_src p, p_dst = p_dst p, p_chunks = []\<rparr>"
  have "parse_line (''--- '' @ p_src p @ [nl]) \<lparr>patchset = ps, current_chunk = cur\<rparr>
      = Inr \<lparr>patchset = ps @ [?p\<lparr>p_dst := ''''\<rparr>], current_chunk = cur\<rparr>"
    using src line_body_line [of "''--- '' @ p_src p"]
    by (simp add: parse_line_def search_rest_def new_patch_def)
  moreover have "parse_line (''+++ '' @ p_dst p @ [nl]) \<lparr>patchset = ps @ [?p\<lparr>p_dst := ''''\<rparr>], current_chunk = cur\<rparr>
      = Inr \<lparr>patchset = ps @ [?p], current_chunk = cur\<rparr>"
    using dst line_body_line [of "''+++ '' @ p_dst p"]
    by (simp add: parse_line_def search_rest_def on_current_patch_def)
  moreover from parse_chunks [OF cs, where ps = ps and p = ?p and cs = "[]" and cur = cur] obtain cur' where
    "parse_lines (concat (map (\<lambda>c. chunk_header c # map line_str (ck_lines c)) (p_chunks p)))
        \<lparr>patchset = ps @ [?p], current_chunk = cur\<rparr>
      = Inr \<lparr>patchset = ps @ [p], current_chunk = cur'\<rparr>"
    by auto
  ultimately show ?thesis
    unfolding patch_strs_def parse_lines.simps by (simp only: rbind.simps) blast
qed

lemma parse_patches:
  "list_all wf_patch new \<Longrightarrow>
     \<exists>cur'. parse_lines (concat (map patch_strs new)) \<lparr>patchset = ps, current_chunk = cur\<rparr>
       = Inr \<lparr>patchset = ps @ new, current_chunk = cur'\<rparr>"
proof (induction new arbitrary: ps cur)
  case (Cons p new)
  then obtain cur1 where "parse_lines (patch_strs p) \<lparr>patchset = ps, current_chunk = cur\<rparr>
      = Inr \<lparr>patchset = ps @ [p], current_chunk = cur1\<rparr>"
    using parse_patch [of p ps cur] by auto
  with Cons.IH [of "ps @ [p]" cur1] Cons.prems show ?case
    by (simp add: parse_lines_append)
qed auto

lemma is_line_written:
  assumes "wf_patch p"
  shows "list_all is_line (patch_strs p)"
proof -
  have "is_line (line_str l)" if "wf_line l" for l
    using that by (cases "pl_type l") (auto simp: is_line_def line_str_def wf_line_def butlast_append)
  moreover have "is_line (chunk_header c)" if "wf_chunk c" for c
    using that by (auto simp: is_line_def chunk_header_def wf_chunk_def int_str_def butlast_append)
  ultimately show ?thesis
    using assms by (auto simp: patch_strs_def wf_patch_def list_all_iff wf_chunk_def is_line_def butlast_append)
qed

interpretation patch_text: codec write_patchset read_patchset "list_all wf_patch"
proof unfold_locales
  fix ps assume wf: "list_all wf_patch ps"
  then have "write_patchset ps = Inr (concat (concat (map patch_strs ps)))"
    by (simp add: write_patchset_def mapM_all_ok [of ps write_patch patch_strs] write_patch_ok list_all_iff)
  moreover have "list_all is_line (concat (map patch_strs ps))"
    using wf is_line_written by (auto simp: list_all_iff)
  ultimately show "\<exists>text. write_patchset ps = Inr text \<and> read_patchset text = Inr ps"
    using parse_patches [OF wf, of "[]" None]
    by (auto simp: read_patchset_def parse_patchset_def readlines_concat)
qed

section \<open>What the restoration changes\<close>

text \<open>
  The reference: the line \<open>d\<close> after it has been compared with the line \<open>s\<close>, both as the file has
  them.
\<close>

definition restored :: "patch_line \<Rightarrow> patch_line \<Rightarrow> patch_line" where
  "restored s d =
     (if pl_line s \<noteq> [] \<and> last (pl_line s) \<in> {CHR '' '', CHR 0x09} \<and> pl_line d = butlast (pl_line s)
      then d\<lparr>pl_line := pl_line s\<rparr> else d)"

lemma restore_line_restored: "restore_line s d ls = ls[d := restored (ls ! s) (ls ! d)]"
  by (auto simp: restore_line_def restored_def search_whitespace_def append_to_line_def
      list_update_id split: option.splits)

lemma restored_self [simp]: "restored l l = l"
proof -
  have "pl_line l \<noteq> [] \<Longrightarrow> pl_line l \<noteq> butlast (pl_line l)"
    by (metis append_butlast_last_id append_self_conv not_Cons_self2)
  then show ?thesis by (auto simp: restored_def)
qed

text \<open>
  In an aligned chunk the line compared with a source line is that line or no source line: an
  unchanged line is only met against itself.
\<close>

definition aligned_lists :: "nat list \<Rightarrow> nat list \<Rightarrow> bool" where
  "aligned_lists src dst \<longleftrightarrow> (\<forall>(s, d) \<in> set (zip src dst). s = d \<or> d \<notin> set src)"

definition restored_lines :: "nat list \<Rightarrow> nat list \<Rightarrow> patch_line list \<Rightarrow> patch_line list \<times> bool \<Rightarrow> bool" where
  "restored_lines src dst ls r \<longleftrightarrow>
     snd r = (length src \<le> length dst) \<and> length (fst r) = length ls
   \<and> (\<forall>i. i \<notin> set (take (length src) dst) \<longrightarrow> fst r ! i = ls ! i)
   \<and> (\<forall>(s, d) \<in> set (zip src dst). fst r ! d = restored (ls ! s) (ls ! d))"

lemma restore_lines_spec:
  assumes "aligned_lists src dst" and "distinct dst" and "\<forall>i \<in> set src \<union> set dst. i < length ls"
  shows "restored_lines src dst ls (restore_lines src dst ls)"
  using assms
proof (induction src dst ls rule: restore_lines.induct)
  case (3 s src d dst ls)
  let ?ls = "restore_line s d ls"
  let ?r = "restore_lines src dst ?ls"
  have al: "aligned_lists src dst" "s = d \<or> d \<notin> set (s # src)" and dd: "d \<notin> set dst" "distinct dst"
    using "3.prems" by (auto simp: aligned_lists_def)
  have len: "length ?ls = length ls" by (simp add: restore_line_restored)
  have keep: "?ls ! i = ls ! i" if "i \<in> set src \<union> set dst" for i
  proof (cases "s = d")
    case True
    then show ?thesis by (simp add: restore_line_restored)
  next
    case False
    with al(2) dd(1) that have "i \<noteq> d" by auto
    then show ?thesis by (simp add: restore_line_restored)
  qed
  have bound: "\<forall>i \<in> set src \<union> set dst. i < length ?ls"
    using "3.prems"(3) len by simp
  have IH: "snd ?r = (length src \<le> length dst)" "length (fst ?r) = length ?ls"
    "\<And>i. i \<notin> set (take (length src) dst) \<Longrightarrow> fst ?r ! i = ?ls ! i"
    "\<And>x y. (x, y) \<in> set (zip src dst) \<Longrightarrow> fst ?r ! y = restored (?ls ! x) (?ls ! y)"
    using "3.IH" [OF al(1) dd(2) bound] unfolding restored_lines_def by auto
  have "d \<notin> set (take (length src) dst)" using dd(1) by (meson in_set_takeD)
  then have d: "fst ?r ! d = restored (ls ! s) (ls ! d)"
    using IH(3) "3.prems"(3) by (simp add: restore_line_restored)
  have other: "fst ?r ! i = ls ! i" if "i \<notin> set (take (length (s # src)) (d # dst))" for i
    using IH(3) that by (simp add: restore_line_restored)
  have pair: "fst ?r ! y = restored (ls ! x) (ls ! y)" if "(x, y) \<in> set (zip src dst)" for x y
    using IH(4) [OF that] keep [of x] keep [of y] set_zip_leftD [OF that] set_zip_rightD [OF that] by auto
  show ?case
    unfolding restored_lines_def restore_lines.simps using IH(1,2) len d other pair by auto
qed (auto simp: restored_lines_def)

definition aligned :: "patch_chunk \<Rightarrow> bool" where
  "aligned c \<longleftrightarrow> aligned_lists (chunk_src c) (chunk_dst c)"

lemma chunk_positions:
  "set (chunk_src c) = {i. i < length (ck_lines c) \<and> is_src (ck_lines c ! i)}"
  "set (chunk_dst c) = {i. i < length (ck_lines c) \<and> is_dst (ck_lines c ! i)}"
  "distinct (chunk_dst c)"
  by (auto simp: chunk_src_def chunk_dst_def)

text \<open>
  C15. Parsing undoes writing: for any list of patches whose lines have a type and no newline, whose
  removed lines do not begin with two dashes and a space nor its added lines with two pluses and a
  space, and whose positions are not negative, the text written is read back to the same list.
\<close>

theorem patch_write_parse:
  assumes "list_all wf_patch ps"
  shows "\<exists>text. write_patchset ps = Inr text \<and> read_patchset text = Inr ps"
  by (rule patch_text.enc_ok [OF assms])

theorem patch_write_parse_witness:
  "\<exists>text. write_patchset [\<lparr>p_src = ''a'', p_dst = ''b'', p_chunks =
     [\<lparr>ck_lines = [\<lparr>pl_type = SRC, pl_line = ''x ''\<rparr>, \<lparr>pl_type = BOTH, pl_line = ''y''\<rparr>],
       ck_src_pos = 1, ck_dst_pos = 12\<rparr>]\<rparr>] = Inr text
   \<and> read_patchset text = Inr [\<lparr>p_src = ''a'', p_dst = ''b'', p_chunks =
     [\<lparr>ck_lines = [\<lparr>pl_type = SRC, pl_line = ''x ''\<rparr>, \<lparr>pl_type = BOTH, pl_line = ''y''\<rparr>],
       ck_src_pos = 1, ck_dst_pos = 12\<rparr>]\<rparr>]"
  by (rule patch_write_parse) (simp add: wf_patch_def wf_chunk_def wf_line_def startswith_def)

text \<open>
  \<open>remove_trailing_whitespace_changes\<close> on a chunk whose removed and added lines are aligned: the
  lines that are removed or unchanged stay as they are, and the k-th line of \<open>dst()\<close> becomes the k-th
  line of \<open>src()\<close> exactly when that line is it followed by one blank or tab.  The rest of the
  patchset is abandoned exactly when the chunk has more source lines than destination lines.
\<close>

theorem restore_chunk_aligned:
  assumes "aligned c"
  shows "snd (restore_chunk c) = (src_len c \<le> dst_len c)
    \<and> length (ck_lines (fst (restore_chunk c))) = length (ck_lines c)
    \<and> (\<forall>i \<in> set (chunk_src c). ck_lines (fst (restore_chunk c)) ! i = ck_lines c ! i)
    \<and> (\<forall>(s, d) \<in> set (zip (chunk_src c) (chunk_dst c)).
         ck_lines (fst (restore_chunk c)) ! d = restored (ck_lines c ! s) (ck_lines c ! d))"
proof -
  let ?r = "restore_lines (chunk_src c) (chunk_dst c) (ck_lines c)"
  have "\<forall>i \<in> set (chunk_src c) \<union> set (chunk_dst c). i < length (ck_lines c)"
    by (auto simp: chunk_positions)
  from restore_lines_spec [OF assms [unfolded aligned_def] chunk_positions(3) this]
  have spec: "snd ?r = (length (chunk_src c) \<le> length (chunk_dst c))" "length (fst ?r) = length (ck_lines c)"
    "\<And>i. i \<notin> set (take (length (chunk_src c)) (chunk_dst c)) \<Longrightarrow> fst ?r ! i = ck_lines c ! i"
    "\<forall>(s, d) \<in> set (zip (chunk_src c) (chunk_dst c)). fst ?r ! d = restored (ck_lines c ! s) (ck_lines c ! d)"
    unfolding restored_lines_def by auto
  have "fst ?r ! i = ck_lines c ! i" if i: "i \<in> set (chunk_src c)" for i
  proof (cases "i \<in> set (take (length (chunk_src c)) (chunk_dst c))")
    case True
    then obtain k where "k < length (chunk_src c)" "k < length (chunk_dst c)" "chunk_dst c ! k = i"
      by (auto simp: in_set_conv_nth)
    then have z: "(chunk_src c ! k, i) \<in> set (zip (chunk_src c) (chunk_dst c))"
      by (auto simp: set_zip)
    with assms i have "chunk_src c ! k = i" by (auto simp: aligned_def aligned_lists_def)
    with spec(4) z show ?thesis by auto
  next
    case False
    with spec(3) show ?thesis by blast
  qed
  moreover have "restore_chunk c = (c\<lparr>ck_lines := fst ?r\<rparr>, snd ?r)"
    by (simp add: restore_chunk_def split_beta)
  ultimately show ?thesis
    using spec(1,2,4) unfolding src_len_def dst_len_def by simp
qed

theorem restore_chunk_aligned_witness:
  "let c = \<lparr>ck_lines = [\<lparr>pl_type = BOTH, pl_line = ''k ''\<rparr>, \<lparr>pl_type = SRC, pl_line = ''x ''\<rparr>,
         \<lparr>pl_type = DST, pl_line = ''x''\<rparr>], ck_src_pos = 1, ck_dst_pos = 1\<rparr>
   in aligned c \<and> chunk_src c = [0, 1] \<and> chunk_dst c = [0, 2]
      \<and> ck_lines (fst (restore_chunk c)) ! 2 = restored (ck_lines c ! 1) (ck_lines c ! 2)"
proof -
  let ?c = "\<lparr>ck_lines = [\<lparr>pl_type = BOTH, pl_line = ''k ''\<rparr>, \<lparr>pl_type = SRC, pl_line = ''x ''\<rparr>,
         \<lparr>pl_type = DST, pl_line = ''x''\<rparr>], ck_src_pos = 1, ck_dst_pos = 1\<rparr>"
  have src: "chunk_src ?c = [0, 1]" and dst: "chunk_dst ?c = [0, 2]"
    by (simp_all add: chunk_src_def chunk_dst_def is_src_def is_dst_def upt_rec)
  then have al: "aligned ?c" by (simp add: aligned_def aligned_lists_def)
  from restore_chunk_aligned [OF al] have
    "ck_lines (fst (restore_chunk ?c)) ! 2 = restored (ck_lines ?c ! 1) (ck_lines ?c ! 2)"
    unfolding src dst by auto
  with src dst al show ?thesis by (simp only: Let_def)
qed

text \<open>
  When the lists are not aligned the restoration can corrupt the patch: where a line is removed
  that is a line of context followed by a blank, and that line of context comes next, the
  blank is appended to the line of context, which the file to be patched does not have.
\<close>

theorem restore_chunk_corrupts_context:
  "restore_chunk \<lparr>ck_lines = [\<lparr>pl_type = SRC, pl_line = w @ '' ''\<rparr>, \<lparr>pl_type = BOTH, pl_line = w\<rparr>],
      ck_src_pos = a, ck_dst_pos = b\<rparr>
   = (\<lparr>ck_lines = [\<lparr>pl_type = SRC, pl_line = w @ '' ''\<rparr>, \<lparr>pl_type = BOTH, pl_line = w @ '' ''\<rparr>],
      ck_src_pos = a, ck_dst_pos = b\<rparr>, False)"
  by (simp add: restore_chunk_def chunk_src_def chunk_dst_def is_src_def is_dst_def upt_rec
      restore_line_def search_whitespace_def append_to_line_def)

end
