(* ===== verification/Check_Style.thy ===== *)
theory Check_Style
  imports Patch
begin

text \<open>
  The driver of \<^verbatim>\<open>utils/check-style.py\<close>: \<open>uncrustify_config_file\<close>, \<open>indent\<close>, \<open>indent_files\<close>,
  \<open>run_as_hg_hook\<close> and the exit status of \<open>run_as_main\<close>.  The file system is a dictionary from
  paths to contents.  The programs \<open>uncrustify\<close> and \<open>patch\<close>, \<open>difflib.unified_diff\<close> and the names
  \<open>mkstemp\<close> chooses are the parameter \<open>tools\<close>; \<open>installed\<close> says that \<open>uncrustify\<close> can be run and
  \<open>bytes_to_stderr\<close> that \<open>sys.stderr.write\<close> takes what a pipe delivers (it does in Python 2
  and raises \<open>TypeError\<close> in Python 3).
\<close>

section \<open>Temporary files and the configuration\<close>

record world =
  files :: "(string, string) dict"
  ntmp :: nat

record tools =
  uncrustify :: "string \<Rightarrow> string \<Rightarrow> string"
  unified_diff :: "string list \<Rightarrow> string list \<Rightarrow> string \<Rightarrow> string \<Rightarrow> string list"
  patch_cmd :: "string \<Rightarrow> string \<Rightarrow> string"
  tmp_name :: "nat \<Rightarrow> string"
  installed :: bool
  bytes_to_stderr :: bool

definition put :: "string \<Rightarrow> string \<Rightarrow> world \<Rightarrow> world" where
  "put path text w = w\<lparr>files := dset path text (files w)\<rparr>"

definition mkstemp :: "tools \<Rightarrow> world \<Rightarrow> string \<times> world" where
  "mkstemp T w =
     (let path = tmp_name T (ntmp w) in (path, put path '''' (w\<lparr>ntmp := ntmp w + 1\<rparr>)))"

definition open_read :: "string \<Rightarrow> world \<Rightarrow> py_exn + string" where
  "open_read path w = (case dget (files w) path of None \<Rightarrow> Inl OSError | Some text \<Rightarrow> Inr text)"

text \<open>A triple-quoted text: a newline, then the lines.\<close>

definition quoted :: "string list \<Rightarrow> string" where
  "quoted ls = nl # concat (map (\<lambda>l. l @ [nl]) ls)"

definition level0 :: "string list" where
  "level0 =
    [''sp_func_proto_paren=Add'', ''sp_func_def_paren=Add'', ''sp_func_call_paren=Add'',
     ''sp_after_semi_for=Ignore'', ''sp_before_sparen=Ignore'', ''sp_type_func=Ignore'',
     ''sp_after_type=Ignore'', ''nl_class_leave_one_liners=True'',
     ''nl_enum_leave_one_liners=True'', ''nl_func_leave_one_liners=True'',
     ''nl_assign_leave_one_liners=True'', ''#nl_collapse_empty_body=False'',
     ''nl_getset_leave_one_liners=True'', ''nl_if_leave_one_liners=True'',
     ''nl_fdef_brace=Ignore'', ''# finally, indentation configuration'', ''indent_with_tabs=0'',
     ''indent_namespace=false'', ''indent_columns=2'', ''indent_brace=2'',
     ''indent_case_brace=2'', ''indent_class=true'', ''indent_class_colon=True'', ''# alignment'',
     ''indent_align_assign=False'', ''align_left_shift=True'', ''# comment reformating disabled'',
     ''cmt_reflow_mode=1 # do not touch comments at all'',
     ''cmt_indent_multi=False # really, do not touch them'']"

definition level1 :: "string list" where
  "level1 =
    [''# extra spaces here and there'', ''sp_brace_typedef=Add'', ''sp_enum_assign=Add'',
     ''sp_before_sparen=Add'', ''sp_after_semi_for=Add'', ''sp_arith=Add'', ''sp_assign=Add'',
     ''sp_compare=Add'', ''sp_func_class_paren=Add'', ''sp_after_type=Add'', ''sp_type_func=Add'',
     ''sp_angle_paren=Add'']"

definition level2 :: "string list" where
  "level2 =
    [''nl_collapse_empty_body=False'', ''nl_if_brace=Add'', ''nl_brace_else=Add'',
     ''nl_elseif_brace=Add'', ''nl_else_brace=Add'', ''nl_while_brace=Add'', ''nl_do_brace=Add'',
     ''nl_for_brace=Add'', ''nl_brace_while=Add'', ''nl_switch_brace=Add'',
     ''nl_after_case=True'', ''nl_namespace_brace=Remove'', ''nl_after_brace_open=True'',
     ''nl_class_leave_one_liners=False'', ''nl_enum_leave_one_liners=False'',
     ''nl_func_leave_one_liners=False'', ''nl_if_leave_one_liners=False'',
     ''nl_class_colon=Ignore'', ''nl_after_access_spec=1'', ''nl_after_semicolon=True'',
     ''pos_class_colon=Lead'', ''pos_class_comma=Trail'', ''pos_bool=Lead'',
     ''nl_class_init_args=Add'', ''nl_template_class=Add'', ''nl_class_brace=Add'',
     ''# does not work very well'', ''nl_func_type_name=Ignore'', ''nl_func_scope_name=Ignore'',
     ''nl_func_type_name_class=Ignore'', ''nl_func_proto_type_name=Ignore'',
     ''# function'' @ CHR 0x5C # ''n('', ''nl_func_paren=Remove'', ''nl_fdef_brace=Add'',
     ''nl_struct_brace=Add'', ''nl_enum_brace=Add'', ''nl_union_brace=Add'',
     ''mod_full_brace_do=Add'', ''mod_full_brace_for=Add'', ''mod_full_brace_if=Add'',
     ''mod_full_brace_while=Add'', ''mod_full_brace_for=Add'',
     ''mod_remove_extra_semicolon=True'', ''# max code width'', ''#code_width=128'',
     ''#ls_for_split_full=True'', ''#ls_func_split_full=True'']"

definition config_text :: "int \<Rightarrow> string" where
  "config_text level =
     quoted level0 @ (if level \<ge> 1 then quoted level1 else '''') @ (if level \<ge> 2 then quoted level2 else '''')"

definition uncrustify_config_file :: "tools \<Rightarrow> int \<Rightarrow> world \<Rightarrow> string \<times> world" where
  "uncrustify_config_file T level w =
     (let (pathname, w) = mkstemp T w in (pathname, put pathname (config_text level) w))"

section \<open>indent\<close>

text \<open>
  What is written to \<open>final_diff\<close>: \<open>diff\<close> is a generator, which writing the initial diff in debug
  mode has already exhausted.
\<close>

definition final_diff_text :: "bool \<Rightarrow> int \<Rightarrow> string list \<Rightarrow> py_exn + string" where
  "final_diff_text debug level diff =
     (let diff = (if debug then [] else diff)
      in if level < 3
         then rbind (remove_trailing_whitespace_changes diff) (\<lambda>patchset.
                case patchset of
                  [] \<Rightarrow> Inr ''''
                | p # _ \<Rightarrow> rbind (write_patch p) (\<lambda>ls. Inr (concat ls)))
         else Inr (concat diff))"

definition indent :: "tools \<Rightarrow> string \<Rightarrow> bool \<Rightarrow> int \<Rightarrow> world \<Rightarrow> py_exn + string \<times> world" where
  "indent T source debug level w =
     (let (output, w) = mkstemp T w;
          (cfg, w) = uncrustify_config_file T level w
      in if \<not> installed T then Inl (Exc ''uncrustify not installed'')
         else
           let w = (case dget (files w) source of
                      None \<Rightarrow> w
                    | Some text \<Rightarrow> put output (uncrustify T (config_text level) text) w)
           in if debug \<and> \<not> bytes_to_stderr T then Inl TypeError
              else rbind (open_read source w) (\<lambda>src. rbind (open_read output w) (\<lambda>dst.
                let diff = unified_diff T (readlines src) (readlines dst) source output;
                    w = (if debug then (let (initial_diff, w) = mkstemp T w in put initial_diff (concat diff) w)
                         else w);
                    (final_diff, w) = mkstemp T w
                in rbind (final_diff_text debug level diff) (\<lambda>text.
                     let w = put final_diff text w;
                         w = put output src w
                     in Inr (output, put output (patch_cmd T text src) w)))))"

section \<open>indent\_files\<close>

fun indent_all :: "tools \<Rightarrow> bool \<Rightarrow> int \<Rightarrow> string list \<Rightarrow> world \<Rightarrow> py_exn + (string \<times> string) list \<times> world" where
  "indent_all T debug level [] w = Inr ([], w)"
| "indent_all T debug level (f # fs) w =
     rbind (indent T f debug level w) (\<lambda>(dst, w).
     rbind (indent_all T debug level fs w) (\<lambda>(output, w). Inr ((f, dst) # output, w)))"

fun copy_back :: "(string \<times> string) list \<Rightarrow> world \<Rightarrow> py_exn + world" where
  "copy_back [] w = Inr w"
| "copy_back ((src, dst) # output) w =
     rbind (open_read dst w) (\<lambda>text. copy_back output (put src text w))"

text \<open>\<open>filecmp.cmp\<close> is taken to compare contents: the output has just been written.\<close>

definition same_file :: "world \<Rightarrow> string \<times> string \<Rightarrow> bool" where
  "same_file w = (\<lambda>(src, dst). dget (files w) src = dget (files w) dst)"

definition report :: "tools \<Rightarrow> bool \<Rightarrow> (string \<times> string) list \<Rightarrow> world \<Rightarrow> string list" where
  "report T diff failed w =
     (if \<not> diff
      then (''Found '' @ nat_str (length failed) @ '' badly indented files:'') # map (\<lambda>(src, dst). ''  '' @ src) failed
      else concat (map (\<lambda>(src, dst).
             let s = readlines (the (dget (files w) src)); d = readlines (the (dget (files w) dst))
             in unified_diff T s d src dst) failed))"

text \<open>The result, what is printed and the files.\<close>

definition indent_files ::
    "tools \<Rightarrow> string list \<Rightarrow> bool \<Rightarrow> bool \<Rightarrow> int \<Rightarrow> bool \<Rightarrow> world \<Rightarrow> py_exn + bool \<times> string list \<times> world" where
  "indent_files T fs diff debug level inplace w =
     rbind (indent_all T debug level fs w) (\<lambda>(output, w).
       if inplace then rbind (copy_back output w) (\<lambda>w. Inr (True, [], w))
       else
         let failed = filter (\<lambda>p. \<not> same_file w p) output
         in if failed \<noteq> [] then Inr (False, report T diff failed w, w) else Inr (True, [], w))"

section \<open>run\_as\_hg\_hook, run\_as\_main\<close>

text \<open>\<open>hg_lines\<close> is the output of \<^verbatim>\<open>hg st -nma\<close>.\<close>

definition hg_modified_files :: "string list \<Rightarrow> string list" where
  "hg_modified_files hg_lines = map strip hg_lines"

definition run_as_hg_hook :: "tools \<Rightarrow> string list \<Rightarrow> world \<Rightarrow> py_exn + bool \<times> world" where
  "run_as_hg_hook T hg_lines w =
     rbind (indent_files T (hg_modified_files hg_lines) False False 0 False w) (\<lambda>(ok, _, w).
       Inr (\<not> ok, w))"

record style_options =
  o_debug :: bool
  o_level :: int
  o_hg_hook :: bool
  o_hg :: bool
  o_file :: string
  o_diff :: bool
  o_in_place :: bool

text \<open>The exit status, what is printed and the files.\<close>

definition run_as_main :: "tools \<Rightarrow> style_options \<Rightarrow> string list \<Rightarrow> world \<Rightarrow> py_exn + nat \<times> string list \<times> world" where
  "run_as_main T opts hg_lines w =
     (if o_hg_hook opts
      then rbind (indent_files T (hg_modified_files hg_lines) False (o_debug opts) (o_level opts) False w)
             (\<lambda>(ok, out, w). Inr (if \<not> ok then 1 else 0, out, w))
      else if o_hg opts
      then rbind (indent_files T (hg_modified_files hg_lines) (o_diff opts) (o_debug opts) (o_level opts)
                   (o_in_place opts) w)
             (\<lambda>(ok, out, w). Inr (0, out, w))
      else if o_file opts \<noteq> ''''
      then (if dget (files w) (o_file opts) = None
            then Inr (1, [''file '' @ o_file opts @ '' does not exist''], w)
            else rbind (indent_files T [o_file opts] (o_diff opts) (o_debug opts) (o_level opts)
                         (o_in_place opts) w)
                   (\<lambda>(ok, out, w). Inr (0, out, w)))
      else Inr (0, [], w))"

section \<open>Where indent writes\<close>

text \<open>The names \<open>mkstemp\<close> still has to give are new and different.\<close>

definition fresh :: "tools \<Rightarrow> world \<Rightarrow> bool" where
  "fresh T w \<longleftrightarrow> inj (tmp_name T) \<and> (\<forall>n \<ge> ntmp w. dget (files w) (tmp_name T n) = None)"

definition keeps :: "tools \<Rightarrow> world \<Rightarrow> world \<Rightarrow> bool" where
  "keeps T w w' \<longleftrightarrow> ntmp w \<le> ntmp w'
     \<and> (\<forall>f. f \<notin> tmp_name T ` {ntmp w..<ntmp w'} \<longrightarrow> dget (files w') f = dget (files w) f)"

lemma keeps_refl [simp]: "keeps T w w"
  by (simp add: keeps_def)

lemma keeps_trans:
  assumes "keeps T w1 w2" and "keeps T w2 w3"
  shows "keeps T w1 w3"
proof -
  have le: "ntmp w1 \<le> ntmp w2" "ntmp w2 \<le> ntmp w3" using assms by (simp_all add: keeps_def)
  then have "tmp_name T ` {ntmp w1..<ntmp w2} \<subseteq> tmp_name T ` {ntmp w1..<ntmp w3}"
    "tmp_name T ` {ntmp w2..<ntmp w3} \<subseteq> tmp_name T ` {ntmp w1..<ntmp w3}"
    by (intro image_mono; simp)+
  with assms le show ?thesis
    unfolding keeps_def by (metis (no_types, lifting) le_trans subset_iff)
qed

lemma fresh_keeps:
  assumes "fresh T w" and "keeps T w w'"
  shows "fresh T w'"
proof -
  have "dget (files w') (tmp_name T n) = None" if n: "ntmp w' \<le> n" for n
  proof -
    have "tmp_name T n \<notin> tmp_name T ` {ntmp w..<ntmp w'}"
      using assms(1) n by (auto simp: fresh_def dest: injD)
    with assms n show ?thesis by (auto simp: fresh_def keeps_def)
  qed
  with assms(1) show ?thesis by (simp add: fresh_def)
qed

lemma fresh_source: "fresh T w \<Longrightarrow> dget (files w) f = Some text \<Longrightarrow> ntmp w \<le> n \<Longrightarrow> f \<noteq> tmp_name T n"
  by (auto simp: fresh_def)

lemma keeps_existing:
  "fresh T w \<Longrightarrow> keeps T w w' \<Longrightarrow> dget (files w) f = Some text \<Longrightarrow> dget (files w') f = Some text"
  unfolding keeps_def using fresh_source by fastforce

text \<open>The text that \<open>indent\<close> leaves in the file it names, as a function of the source text.\<close>

definition indented :: "tools \<Rightarrow> bool \<Rightarrow> int \<Rightarrow> string \<Rightarrow> string \<Rightarrow> string \<Rightarrow> py_exn + string" where
  "indented T debug level source output text =
     rbind (final_diff_text debug level
              (unified_diff T (readlines text) (readlines (uncrustify T (config_text level) text)) source output))
       (\<lambda>d. Inr (patch_cmd T d text))"

lemma indent_ok:
  assumes "fresh T w" and "dget (files w) source = Some text"
    and "indent T source debug level w = Inr (d, w')"
  shows "keeps T w w' \<and> d = tmp_name T (ntmp w) \<and> ntmp w < ntmp w'
    \<and> (\<exists>r. indented T debug level source d text = Inr r \<and> dget (files w') d = Some r)"
proof -
  have new: "source \<noteq> tmp_name T n" if "ntmp w \<le> n" for n
    using fresh_source [OF assms(1,2) that] .
  have eq: "tmp_name T i = tmp_name T j \<longleftrightarrow> i = j" for i j
    using assms(1) by (auto simp: fresh_def dest: injD)
  let ?k = "if debug then ntmp w + 4 else ntmp w + 3"
  have "ntmp w' = ?k \<and> d = tmp_name T (ntmp w)
    \<and> (\<exists>r. indented T debug level source d text = Inr r \<and> dget (files w') d = Some r)
    \<and> (\<forall>f. (\<forall>n \<in> {ntmp w..<?k}. f \<noteq> tmp_name T n) \<longrightarrow> dget (files w') f = dget (files w) f)"
    using assms(2,3) new
    by (auto simp: indent_def mkstemp_def put_def uncrustify_config_file_def open_read_def Let_def
        indented_def eq split: if_splits)
  then show ?thesis
    unfolding keeps_def by (auto split: if_splits)
qed

lemma indent_all_ok:
  assumes "fresh T w" and "\<And>f. f \<in> set fs \<Longrightarrow> dget (files w) f \<noteq> None"
    and "indent_all T debug level fs w = Inr (outs, w')"
  shows "keeps T w w' \<and> map fst outs = fs
    \<and> (\<forall>(f, d) \<in> set outs. \<exists>text r. dget (files w) f = Some text
         \<and> indented T debug level f d text = Inr r \<and> dget (files w') d = Some r)"
  using assms
proof (induction fs arbitrary: w outs)
  case Nil
  then show ?case by simp
next
  case (Cons f fs)
  from Cons.prems(3) obtain d w1 outs1 where step: "indent T f debug level w = Inr (d, w1)"
    "indent_all T debug level fs w1 = Inr (outs1, w')" "outs = (f, d) # outs1"
    by auto
  obtain txt0 where f: "dget (files w) f = Some txt0" using Cons.prems(2) by fastforce
  from indent_ok [OF Cons.prems(1) f step(1)] obtain r where ind: "keeps T w w1"
    "indented T debug level f d txt0 = Inr r" "dget (files w1) d = Some r"
    by blast
  note fresh1 = fresh_keeps [OF Cons.prems(1) ind(1)]
  have "dget (files w1) g \<noteq> None" if "g \<in> set fs" for g
    using keeps_existing [OF Cons.prems(1) ind(1)] Cons.prems(2) [of g] that by fastforce
  from Cons.IH [OF fresh1 this step(2)] have IH: "keeps T w1 w'" "map fst outs1 = fs"
    "\<forall>(g, e) \<in> set outs1. \<exists>text r. dget (files w1) g = Some text
       \<and> indented T debug level g e text = Inr r \<and> dget (files w') e = Some r"
    by auto
  have "\<exists>text r. dget (files w) g = Some text \<and> indented T debug level g e text = Inr r
       \<and> dget (files w') e = Some r" if ge: "(g, e) \<in> set outs1" for g e
  proof -
    from IH(3) ge obtain text' r' where t: "dget (files w1) g = Some text'"
      "indented T debug level g e text' = Inr r'" "dget (files w') e = Some r'"
      by auto
    have "g \<in> set fs" using ge IH(2) by force
    then obtain t0 where "dget (files w) g = Some t0" using Cons.prems(2) [of g] by auto
    with keeps_existing [OF Cons.prems(1) ind(1)] t show ?thesis by auto
  qed
  moreover have "dget (files w') d = Some r"
    using keeps_existing [OF fresh1 IH(1) ind(3)] .
  ultimately show ?case
    using step(3) f ind(2) IH(2) keeps_trans [OF ind(1) IH(1)] by auto
qed

section \<open>Properties\<close>

text \<open>
  C23. \<open>indent_files\<close> without the in-place flag, when it does not raise: no file that existed is
  changed, and the verdict is True exactly when every file equals its indented text, which depends
  on nothing but that file and the names in the diff.
\<close>

theorem indent_files_verdict:
  assumes "fresh T w" and "list_all (\<lambda>f. dget (files w) f \<noteq> None) fs"
    and "indent_files T fs diff debug level False w = Inr (ok, out, w')"
  shows "(\<forall>f. dget (files w) f \<noteq> None \<longrightarrow> dget (files w') f = dget (files w) f)
    \<and> (\<exists>dsts. length dsts = length fs
         \<and> ok = list_all (\<lambda>(f, d). \<exists>text. dget (files w) f = Some text
                  \<and> indented T debug level f d text = Inr text) (zip fs dsts))"
proof -
  from assms(3) obtain outs where o: "indent_all T debug level fs w = Inr (outs, w')"
    "ok = (filter (\<lambda>p. \<not> same_file w' p) outs = [])"
    by (auto simp: indent_files_def Let_def split: if_splits)
  from indent_all_ok [OF assms(1) _ o(1)] assms(2) have ind: "keeps T w w'" "map fst outs = fs"
    "\<forall>(f, d) \<in> set outs. \<exists>text r. dget (files w) f = Some text
       \<and> indented T debug level f d text = Inr r \<and> dget (files w') d = Some r"
    by (auto simp: list_all_iff)
  note same = keeps_existing [OF assms(1) ind(1)]
  have "same_file w' p \<longleftrightarrow> (case p of (f, d) \<Rightarrow> \<exists>text. dget (files w) f = Some text
       \<and> indented T debug level f d text = Inr text)" if p: "p \<in> set outs" for p
  proof -
    obtain f d where fd: "p = (f, d)" by force
    with ind(3) p obtain txt0 r where "dget (files w) f = Some txt0"
      "indented T debug level f d txt0 = Inr r" "dget (files w') d = Some r"
      by auto
    with same [of f txt0] fd show ?thesis by (auto simp: same_file_def)
  qed
  moreover have "zip fs (map snd outs) = outs"
    using ind(2) by (metis zip_map_fst_snd)
  ultimately have "ok = list_all (\<lambda>(f, d). \<exists>text. dget (files w) f = Some text
       \<and> indented T debug level f d text = Inr text) (zip fs (map snd outs))"
    unfolding o(2) by (simp add: filter_empty_conv list_all_iff)
  moreover have "length (map snd outs) = length fs" using ind(2) by auto
  moreover have "dget (files w') f = dget (files w) f" if "dget (files w) f \<noteq> None" for f
    using same that by fastforce
  ultimately show ?thesis by blast
qed

text \<open>Tools that find every file well indented but those that hold a blank.\<close>

definition toy_tools :: tools where
  "toy_tools = \<lparr>uncrustify = (\<lambda>cfg s. filter (\<lambda>c. c \<noteq> CHR '' '') s),
     unified_diff = (\<lambda>s d f t. if s = d then [] else [''--- a'' @ [nl], ''+++ b'' @ [nl]]),
     patch_cmd = (\<lambda>d s. if d = [] then s else filter (\<lambda>c. c \<noteq> CHR '' '') s),
     tmp_name = (\<lambda>n. CHR ''t'' # replicate n (CHR ''x'')), installed = True, bytes_to_stderr = True\<rparr>"

definition toy_world :: world where
  "toy_world = \<lparr>files = [(''f'', ''a b''), (''g'', ''c'')], ntmp = 0\<rparr>"

lemma fresh_toy: "fresh toy_tools toy_world"
  by (auto simp: fresh_def toy_tools_def toy_world_def inj_def)

theorem indent_files_verdict_witness:
  "\<exists>out w'. indent_files toy_tools [''f'', ''g''] False False 3 False toy_world = Inr (False, out, w')
     \<and> dget (files w') ''f'' = Some ''a b''"
proof -
  have "\<exists>out w'. indent_files toy_tools [''f'', ''g''] False False 3 False toy_world = Inr (False, out, w')"
    by (simp add: indent_files_def indent_def mkstemp_def put_def uncrustify_config_file_def
        open_read_def Let_def toy_tools_def toy_world_def final_diff_text_def same_file_def)
  then obtain out w' where r:
    "indent_files toy_tools [''f'', ''g''] False False 3 False toy_world = Inr (False, out, w')"
    by blast
  have "list_all (\<lambda>f. dget (files toy_world) f \<noteq> None) [''f'', ''g'']"
    by (simp add: toy_world_def)
  from indent_files_verdict [OF fresh_toy this r] r show ?thesis
    by (auto simp: toy_world_def)
qed

text \<open>
  The debug flag defeats the check below level 3: with a \<open>patch\<close> that an empty diff leaves
  without effect, \<open>indent\<close> raises \<open>TypeError\<close> where a text stream does not take bytes, and
  where it does, the text it returns is the source text, whatever \<open>uncrustify\<close> says.
\<close>

theorem debug_defeats_check:
  assumes "fresh T w" and "dget (files w) source = Some text" and "level < 3"
    and "installed T" and "patch_cmd T '''' text = text"
  shows "if bytes_to_stderr T
         then \<exists>d w'. indent T source True level w = Inr (d, w') \<and> dget (files w') d = Some text
         else indent T source True level w = Inl TypeError"
proof (cases "bytes_to_stderr T")
  case False
  with assms(4) show ?thesis
    by (simp add: indent_def mkstemp_def uncrustify_config_file_def Let_def)
next
  case True
  have new: "source \<noteq> tmp_name T n" if "ntmp w \<le> n" for n
    using fresh_source [OF assms(1,2) that] .
  have "final_diff_text True level diff = Inr ''''" for diff
    using assms(3) by (simp add: final_diff_text_def remove_trailing_whitespace_changes_def parse_patchset_def)
  with True assms(2,4,5) new show ?thesis
    by (simp add: indent_def mkstemp_def put_def uncrustify_config_file_def open_read_def Let_def)
qed

theorem debug_defeats_check_witness:
  "\<exists>d w'. indent toy_tools ''f'' True 0 toy_world = Inr (d, w') \<and> dget (files w') d = Some ''a b''"
proof -
  have "dget (files toy_world) ''f'' = Some ''a b''" by (simp add: toy_world_def)
  from debug_defeats_check [OF fresh_toy this, of 0] show ?thesis
    by (simp add: toy_tools_def)
qed

text \<open>
  The exit status of the script is not zero only for a named file that does not exist and, in
  hook mode, for a file that is badly indented; checking a file or the files Mercurial lists
  without the hook ends with 0 whatever \<open>indent_files\<close> returns.
\<close>

theorem run_as_main_status:
  assumes "run_as_main T opts hg_lines w = Inr (status, out, w')"
  shows "status \<noteq> 0 \<longleftrightarrow>
     (if o_hg_hook opts
      then \<exists>o1 w1. indent_files T (hg_modified_files hg_lines) False (o_debug opts) (o_level opts) False w
             = Inr (False, o1, w1)
      else \<not> o_hg opts \<and> o_file opts \<noteq> '''' \<and> dget (files w) (o_file opts) = None)"
  using assms by (auto simp: run_as_main_def split: if_splits)

theorem run_as_main_status_witness:
  "\<exists>out w'. run_as_main toy_tools \<lparr>o_debug = False, o_level = 3, o_hg_hook = False, o_hg = True,
       o_file = '''', o_diff = False, o_in_place = False\<rparr> [''f''] toy_world = Inr (0, out, w')
     \<and> (\<exists>o1 w1. indent_files toy_tools [''f''] False False 3 False toy_world = Inr (False, o1, w1))"
proof -
  have bad: "\<exists>o1 w1. indent_files toy_tools [''f''] False False 3 False toy_world = Inr (False, o1, w1)"
    by (simp add: indent_files_def indent_def mkstemp_def put_def uncrustify_config_file_def
        open_read_def Let_def toy_tools_def toy_world_def final_diff_text_def same_file_def)
  then obtain status out w' where r: "run_as_main toy_tools \<lparr>o_debug = False, o_level = 3,
       o_hg_hook = False, o_hg = True, o_file = '''', o_diff = False, o_in_place = False\<rparr> [''f''] toy_world
     = Inr (status, out, w')"
    by (auto simp: run_as_main_def hg_modified_files_def strip_id is_space_def)
  from run_as_main_status [OF r] have "status = 0" by simp
  with r bad show ?thesis by blast
qed

end
