(* ===== verification/Py_Path.thy ===== *)
theory Py_Path
  imports Prelude "HOL-Library.Sublist"
begin

text \<open>
  The functions of Python's \<open>os.path\<close> (POSIX) that the scripts call, on strings: \<open>join\<close>, \<open>split\<close>,
  \<open>basename\<close>, \<open>splitext\<close>, \<open>normpath\<close>, \<open>abspath\<close> and \<open>relpath\<close>.  \<open>abspath\<close> and \<open>relpath\<close> take the current
  directory as an argument.
\<close>

abbreviation slash :: char where
  "slash \<equiv> CHR ''/''"

definition path_join :: "string \<Rightarrow> string \<Rightarrow> string" where
  "path_join a b =
     (if startswith b [slash] then b
      else if a = [] \<or> last a = slash then a @ b
      else a @ slash # b)"

text \<open>\<open>os.path.split\<close>\<close>

definition path_split :: "string \<Rightarrow> string \<times> string" where
  "path_split p =
     (let last_part = rev (takeWhile (\<lambda>c. c \<noteq> CHR ''/'') (rev p)); dir = take (length p - length last_part) p
      in (if list_all (\<lambda>c. c = CHR ''/'') dir then dir else rev (dropWhile (\<lambda>c. c = CHR ''/'') (rev dir)), last_part))"

definition basename :: "string \<Rightarrow> string" where
  "basename p = last (split_on slash p)"

text \<open>\<open>os.path.splitext\<close>: leading dots of the last component do not begin an extension.\<close>

definition splitext :: "string \<Rightarrow> string \<times> string" where
  "splitext p =
     (let base = basename p; k = Suc (length (takeWhile (\<lambda>c. c \<noteq> CHR ''.'') (rev base)))
      in if list_all (\<lambda>c. c = CHR ''.'') (take (length base - k) base) then (p, [])
         else (take (length p - k) p, drop (length p - k) p))"

text \<open>
  The components that \<open>normpath\<close> keeps, innermost first: a parent step cancels a name, is kept
  at the start of a relative path and dropped at the root.
\<close>

fun norm_parts :: "bool \<Rightarrow> string list \<Rightarrow> string list \<Rightarrow> string list" where
  "norm_parts rooted kept [] = kept"
| "norm_parts rooted kept (c # cs) =
     (if c = [] \<or> c = ''.'' then norm_parts rooted kept cs
      else if c \<noteq> ''..'' then norm_parts rooted (c # kept) cs
      else case kept of
             [] \<Rightarrow> (if rooted then norm_parts rooted [] cs else norm_parts rooted [c] cs)
           | k # ks \<Rightarrow> (if k = ''..'' then norm_parts rooted (c # kept) cs
                         else norm_parts rooted ks cs))"

definition normpath :: "string \<Rightarrow> string" where
  "normpath p =
     (let rooted = startswith p [slash];
          p' = (if startswith p [slash, slash] \<and> \<not> startswith p [slash, slash, slash] then [slash, slash]
                else if rooted then [slash] else []) @ join [slash] (rev (norm_parts rooted [] (split_on slash p)))
      in if p' = [] then ''.'' else p')"

definition abspath :: "string \<Rightarrow> string \<Rightarrow> string" where
  "abspath cwd p = normpath (if startswith p [slash] then p else path_join cwd p)"

text \<open>The names on an absolute normalised path.\<close>

definition path_names :: "string \<Rightarrow> string list" where
  "path_names p = filter (\<lambda>c. c \<noteq> []) (split_on slash p)"

definition rel_names :: "string list \<Rightarrow> string list \<Rightarrow> string list" where
  "rel_names start path =
     (let i = length (longest_common_prefix start path)
      in replicate (length start - i) ''..'' @ drop i path)"

definition relpath :: "string \<Rightarrow> string \<Rightarrow> string \<Rightarrow> py_exn + string" where
  "relpath cwd path start =
     (if path = [] then Inl ValueError
      else
        let rel = rel_names (path_names (abspath cwd (if start = [] then ''.'' else start)))
                    (path_names (abspath cwd path))
        in Inr (if rel = [] then ''.'' else join [slash] rel))"

lemma path_join_relative [simp]:
  "\<not> startswith b [slash] \<Longrightarrow> a \<noteq> [] \<Longrightarrow> last a \<noteq> slash \<Longrightarrow> path_join a b = a @ slash # b"
  by (simp add: path_join_def)

lemma split_on_append_sep: "split_on c (a @ c # b) = split_on c a @ split_on c b"
proof (induction a)
  case (Cons x a)
  obtain w ws where "split_on c a = w # ws" by (metis list.exhaust split_on_nonempty)
  with Cons show ?case by auto
qed simp

lemma basename_join: "basename (a @ slash # b) = basename b"
  by (simp add: basename_def split_on_append_sep)

lemma split_on_no_sep: "c \<notin> set s \<Longrightarrow> split_on c s = [s]"
  by (induction s) auto

lemma split_on_parts: "w \<in> set (split_on c s) \<Longrightarrow> c \<notin> set w"
proof (induction s arbitrary: w)
  case (Cons x s)
  obtain v vs where v: "split_on c s = v # vs" by (metis list.exhaust split_on_nonempty)
  with Cons.IH have "c \<notin> set v" "u \<in> set vs \<Longrightarrow> c \<notin> set u" for u by auto
  with Cons.prems v show ?case by (auto split: if_splits)
qed simp

lemma basename_name: "slash \<notin> set b \<Longrightarrow> basename b = b"
  by (simp add: basename_def split_on_no_sep)

text \<open>A relative path leads from the start to the path.\<close>

lemma rel_names_leads:
  assumes "''..'' \<notin> set start" and "[] \<notin> set start" and "''.'' \<notin> set start"
    and "''..'' \<notin> set path" and "[] \<notin> set path" and "''.'' \<notin> set path"
  shows "norm_parts True (rev start) (rel_names start path) = rev path"
proof -
  let ?l = "longest_common_prefix start path"
  obtain s where s: "start = ?l @ s" by (metis longest_common_prefix_prefix1 prefixE)
  obtain p where p: "path = ?l @ p" by (metis longest_common_prefix_prefix2 prefixE)
  have down: "norm_parts True kept p' = rev p' @ kept"
    if "''..'' \<notin> set p'" "[] \<notin> set p'" "''.'' \<notin> set p'" for kept p'
    using that by (induction p' arbitrary: kept) auto
  have up: "norm_parts True (rev (l @ s')) (replicate (length s') ''..'' @ p') = norm_parts True (rev l) p'"
    if "''..'' \<notin> set s'" for l s' p'
    using that
  proof (induction s' rule: rev_induct)
    case (snoc x xs)
    then show ?case by (cases "x = ''..''") simp_all
  qed simp
  have "rel_names start path = replicate (length s) ''..'' @ p"
    using s p by (metis add_diff_cancel_left' append_eq_conv_conj length_append rel_names_def)
  moreover have "''..'' \<notin> set s" using assms(1) s by (metis UnI2 set_append)
  moreover have "''..'' \<notin> set p" "[] \<notin> set p" "''.'' \<notin> set p"
    using assms(4-6) p by (metis UnI2 set_append)+
  ultimately have "norm_parts True (rev start) (rel_names start path) = rev p @ rev ?l"
    using up [of s ?l p] down [of p "rev ?l"] s by simp
  with p show ?thesis by (metis rev_append)
qed

text \<open>The parts of a path: one name, and a name below a directory.\<close>

definition part :: "string \<Rightarrow> bool" where
  "part c \<longleftrightarrow> c \<noteq> [] \<and> CHR ''/'' \<notin> set c"

lemma part_solid: "part c \<Longrightarrow> c \<noteq> [] \<and> last c \<noteq> CHR ''/''"
  by (metis last_in_set part_def)

lemma path_split_last:
  assumes "CHR ''/'' \<notin> set c"
  shows "path_split (d @ ''/'' @ c) =
           (if list_all (\<lambda>c. c = CHR ''/'') d then d @ ''/'' else rev (dropWhile (\<lambda>c. c = CHR ''/'') (rev d)), c)"
proof -
  have "takeWhile (\<lambda>c. c \<noteq> CHR ''/'') (rev (d @ ''/'' @ c)) = rev c"
    using assms takeWhile_append2 [of "rev c" "\<lambda>c. c \<noteq> CHR ''/''" "CHR ''/'' # rev d"] by auto
  then show ?thesis by (simp add: path_split_def)
qed

lemma path_split_part: "part c \<Longrightarrow> path_split c = ([], c)"
proof -
  assume "part c"
  then have t: "takeWhile (\<lambda>c. c \<noteq> CHR ''/'') (rev c) = rev c"
    by (auto simp: takeWhile_eq_all_conv part_def)
  show ?thesis by (simp only: path_split_def t) simp
qed

text \<open>A directory whose last character is no slash is found again.\<close>

lemma path_split_solid:
  assumes "part c" and "d \<noteq> []" and "last d \<noteq> CHR ''/''"
  shows "path_split (d @ ''/'' @ c) = (d, c)"
proof -
  obtain d' x where d: "d = d' @ [x]" using assms(2) by (cases d rule: rev_exhaust) auto
  with assms show ?thesis using path_split_last [of c d] by (simp add: part_def)
qed

lemma path_split_prefix: "\<exists>us. p = fst (path_split p) @ us @ snd (path_split p)"
proof -
  define t where "t = rev (takeWhile (\<lambda>c. c \<noteq> CHR ''/'') (rev p))"
  define d where "d = take (length p - length t) p"
  obtain x where x: "p = x @ t"
    unfolding t_def by (metis rev_append rev_rev_ident takeWhile_dropWhile_id)
  then have p: "p = d @ t" by (simp add: d_def)
  have split: "path_split p = (if list_all (\<lambda>c. c = CHR ''/'') d then d else rev (dropWhile (\<lambda>c. c = CHR ''/'') (rev d)), t)"
    by (simp add: path_split_def t_def d_def Let_def)
  obtain us where us: "d = rev (dropWhile (\<lambda>c. c = CHR ''/'') (rev d)) @ us"
    by (metis rev_append rev_rev_ident takeWhile_dropWhile_id)
  show ?thesis
  proof (cases "list_all (\<lambda>c. c = CHR ''/'') d")
    case True
    with split p show ?thesis by (intro exI [of _ "[]"]) simp
  next
    case False
    have "p = rev (dropWhile (\<lambda>c. c = CHR ''/'') (rev d)) @ us @ t"
      using p us by (metis append.assoc)
    with split False show ?thesis by (intro exI [of _ us]) simp
  qed
qed

text \<open>The head of a split is empty, has no slash at its end, or is all slashes; joining a name to it and splitting gives it back.\<close>

lemma path_split_head:
  "fst (path_split p) = [] \<or> last (fst (path_split p)) \<noteq> CHR ''/'' \<or> list_all (\<lambda>c. c = CHR ''/'') (fst (path_split p))"
proof -
  define d where "d = take (length p - length (rev (takeWhile (\<lambda>c. c \<noteq> CHR ''/'') (rev p)))) p"
  have head: "fst (path_split p) = (if list_all (\<lambda>c. c = CHR ''/'') d then d else rev (dropWhile (\<lambda>c. c = CHR ''/'') (rev d)))"
    by (simp add: path_split_def d_def Let_def)
  show ?thesis
  proof (cases "list_all (\<lambda>c. c = CHR ''/'') d")
    case False
    then have "dropWhile (\<lambda>c. c = CHR ''/'') (rev d) \<noteq> []" by (auto simp: list_all_iff)
    from hd_dropWhile [OF this] have "last (rev (dropWhile (\<lambda>c. c = CHR ''/'') (rev d))) \<noteq> CHR ''/''"
      by (simp add: last_rev)
    with False head show ?thesis by simp
  qed (simp add: head)
qed

lemma path_split_join:
  assumes "d = fst (path_split p)" and "part c"
  shows "path_split (path_join d c) = (d, c)"
proof -
  have c: "\<not> startswith c [slash]" using assms(2) by (cases c) (auto simp: startswith_def part_def)
  consider "d = []" | "d \<noteq> []" "last d \<noteq> slash" | "d \<noteq> []" "list_all (\<lambda>c. c = CHR ''/'') d"
    using path_split_head [of p] assms(1) by auto
  then show ?thesis
  proof cases
    case 1
    with c assms(2) show ?thesis by (simp add: path_join_def path_split_part)
  next
    case 2
    with c path_split_solid [OF assms(2) 2] show ?thesis by (simp add: path_join_def)
  next
    case 3
    then obtain e where e: "d = e @ ''/''" "list_all (\<lambda>c. c = CHR ''/'') e"
      by (cases d rule: rev_exhaust) auto
    with c path_split_last [of c e] assms(2) show ?thesis by (simp add: path_join_def part_def)
  qed
qed

end
