(* ===== verification/Testpy_Job.thy ===== *)
theory Testpy_Job
  imports Complex_Main Py_Path
begin

text \<open>
  \<^verbatim>\<open>test.py\<close>, first part: the class \<open>Job\<close>, \<open>run_job_synchronously\<close>, and the part of \<open>run_tests\<close>
  that chooses the test suites and examples and builds the jobs put on the input queue.  What the
  test runner prints, the programs run and the conditions written in the files
  \<^verbatim>\<open>examples-to-run.py\<close> are parameters.
\<close>

section \<open>Job\<close>

text \<open>The initial \<open>returncode\<close> is \<open>False\<close>, the integer 0.\<close>

record job =
  is_break :: bool
  is_skip :: bool
  skip_reason :: string
  is_example :: bool
  is_pyexample :: bool
  shell_command :: string
  display_name :: string
  basedir :: string
  tempdir :: string
  job_cwd :: string
  tmp_file_name :: string
  returncode :: int
  elapsed_time :: rat
  build_path :: string

definition new_job :: job where
  "new_job = \<lparr>is_break = False, is_skip = False, skip_reason = '''', is_example = False,
     is_pyexample = False, shell_command = '''', display_name = '''', basedir = '''', tempdir = '''',
     job_cwd = '''', tmp_file_name = '''', returncode = 0, elapsed_time = 0, build_path = ''''\<rparr>"

definition set_is_break :: "bool \<Rightarrow> job \<Rightarrow> job" where
  "set_is_break b j = j\<lparr>is_break := b\<rparr>"

definition set_skip :: "string \<Rightarrow> job \<Rightarrow> job" where
  "set_skip reason j = j\<lparr>is_skip := True, skip_reason := reason\<rparr>"

text \<open>The options, less those that only affect what is printed.\<close>

record options =
  o_buildpath :: string
  o_constrain :: string
  o_example :: string
  o_pyexample :: string
  o_suite :: string
  o_fullness :: string
  o_update_data :: bool
  o_valgrind :: bool
  o_multiple :: bool
  o_kinds :: bool
  o_list :: bool
  o_nowaf :: bool

text \<open>The configuration items that \<open>read_waf_config\<close> sets.\<close>

record config =
  ns3_basedir :: string
  ns3_builddir :: string
  python :: "string list"
  appname :: string
  version :: string
  build_profile :: string
  nsc_enabled :: bool
  enable_examples :: bool
  enable_python_bindings :: bool

definition build_profile_suffix :: "config \<Rightarrow> string" where
  "build_profile_suffix cfg =
     (if build_profile cfg = ''release'' then '''' else ''-'' @ build_profile cfg)"

definition program_name :: "config \<Rightarrow> string \<Rightarrow> string" where
  "program_name cfg name = appname cfg @ version cfg @ ''-'' @ name @ build_profile_suffix cfg"

definition test_runner :: "config \<Rightarrow> string" where
  "test_runner cfg = program_name cfg ''test-runner''"

section \<open>run\_job\_synchronously\<close>

definition job_command :: "config \<Rightarrow> string \<Rightarrow> bool \<Rightarrow> bool \<Rightarrow> string \<Rightarrow> py_exn + string" where
  "job_command cfg command valgrind is_python bpath =
     rbind (if is_python
            then rbind (py_get (python cfg) 0) (\<lambda>py. Inr (py @ '' '' @ path_join (ns3_basedir cfg) command))
            else Inr (path_join (if bpath \<noteq> '''' then bpath else ns3_builddir cfg) command))
       (\<lambda>path_cmd. Inr (if valgrind
          then ''valgrind --suppressions='' @ path_join (ns3_basedir cfg) ''testpy.supp''
                 @ '' --leak-check=full --show-reachable=yes --error-exitcode=2 --errors-for-leak-kinds=all ''
                 @ path_cmd
          else path_cmd))"

text \<open>
  What a process leaves: its return code, its two outputs (\<open>None\<close> when they cannot be decoded,
  which turns the return value into 1) and the time it took.
\<close>

record popen_result =
  proc_returncode :: int
  proc_stdout :: "string option"
  proc_stderr :: "string option"
  proc_time :: rat

definition run_job_synchronously ::
    "(string \<Rightarrow> string \<Rightarrow> popen_result) \<Rightarrow> config \<Rightarrow> string \<Rightarrow> string \<Rightarrow> bool \<Rightarrow> bool \<Rightarrow> string
     \<Rightarrow> py_exn + int \<times> string option \<times> string option \<times> rat" where
  "run_job_synchronously popen cfg command directory valgrind is_python bpath =
     rbind (job_command cfg command valgrind is_python bpath) (\<lambda>cmd.
       let r = popen cmd directory;
           retval = proc_returncode r;
           retval = (if proc_stdout r = None then 1 else retval);
           retval = (if proc_stderr r = None then 1 else retval)
       in Inr (retval, proc_stdout r, proc_stderr r, proc_time r))"

text \<open>The work a thread does on a job that is neither a break nor skipped.\<close>

definition run_job :: "(string \<Rightarrow> string \<Rightarrow> popen_result) \<Rightarrow> config \<Rightarrow> options \<Rightarrow> job \<Rightarrow> py_exn + job" where
  "run_job popen cfg opts j =
     rbind (if is_example j \<or> is_pyexample j
            then run_job_synchronously popen cfg (shell_command j) (job_cwd j) (o_valgrind opts)
                   (is_pyexample j) (build_path j)
            else run_job_synchronously popen cfg
                   (shell_command j @ '' --xml --tempdir='' @ tempdir j @ '' --out='' @ tmp_file_name j
                      @ '' '' @ (if o_update_data opts then ''--update-data'' else ''''))
                   (job_cwd j) (o_valgrind opts) False '''')
       (\<lambda>(rc, _, _, et). Inr (j\<lparr>returncode := rc, elapsed_time := et\<rparr>))"

section \<open>The suites to run\<close>

text \<open>How \<open>run_tests\<close> can end early: \<open>sys.exit\<close>, a \<open>return\<close>, or an exception.\<close>

datatype stop = SysExit int | Returned "int option" | Raised py_exn

text \<open>
  \<open>runner\<close> maps the command line given to the test runner to its output; output that cannot be
  decoded raises when it is decoded again.
\<close>

definition ask_runner :: "(string \<Rightarrow> string option) \<Rightarrow> config \<Rightarrow> string \<Rightarrow> stop + string" where
  "ask_runner runner cfg args =
     (case runner (path_join ''utils'' (test_runner cfg @ args)) of
        None \<Rightarrow> Inl (Raised ValueError) | Some s \<Rightarrow> Inr s)"

definition requested_suites :: "(string \<Rightarrow> string option) \<Rightarrow> config \<Rightarrow> options \<Rightarrow> stop + string \<times> bool" where
  "requested_suites runner cfg opts =
     (if o_suite opts \<noteq> ''''
      then rbind (ask_runner runner cfg '' --print-test-name-list'') (\<lambda>suites.
             if o_suite opts \<in> set (split_on nl suites) then Inr (o_suite opts @ [nl], True)
             else Inl (SysExit 2))
      else if o_example opts = '''' \<and> o_pyexample opts = ''''
      then rbind (ask_runner runner cfg
                    (if o_constrain opts \<noteq> ''''
                     then '' --print-test-name-list --test-type='' @ o_constrain opts
                     else '' --print-test-name-list''))
             (\<lambda>suites. Inr (suites, False))
      else Inr ('''', False))"

definition remove_tests :: "string list \<Rightarrow> string list \<Rightarrow> string list" where
  "remove_tests tests suite_list =
     fold (\<lambda>t ls. if t \<in> set ls then remove1 t ls else ls) tests suite_list"

definition suite_list :: "(string \<Rightarrow> string option) \<Rightarrow> config \<Rightarrow> options \<Rightarrow> stop + string list" where
  "suite_list runner cfg opts =
     rbind (requested_suites runner cfg opts) (\<lambda>(suites, single_suite).
       let suite_list = split_on nl suites
       in if \<not> single_suite \<and> o_constrain opts \<noteq> ''performance''
          then rbind (ask_runner runner cfg '' --print-test-name-list --test-type=performance'')
                 (\<lambda>performance_tests. Inr (remove_tests (split_on nl performance_tests) suite_list))
          else Inr suite_list)"

section \<open>The jobs dispatched\<close>

definition core_valgrind_skip_tests :: "string list" where
  "core_valgrind_skip_tests =
     [''ns3-tcp-cwnd'', ''nsc-tcp-loss'', ''ns3-tcp-interoperability'', ''routing-click'',
      ''lte-rr-ff-mac-scheduler'', ''lte-tdmt-ff-mac-scheduler'', ''lte-fdmt-ff-mac-scheduler'',
      ''lte-pf-ff-mac-scheduler'', ''lte-tta-ff-mac-scheduler'', ''lte-fdbet-ff-mac-scheduler'',
      ''lte-ttbet-ff-mac-scheduler'', ''lte-fdtbfq-ff-mac-scheduler'', ''lte-tdtbfq-ff-mac-scheduler'',
      ''lte-pss-ff-mac-scheduler'']"

definition core_nsc_missing_skip_tests :: "string list" where
  "core_nsc_missing_skip_tests = [''ns3-tcp-cwnd'', ''nsc-tcp-loss'', ''ns3-tcp-interoperability'']"

text \<open>The directories are the current one and that of the results.\<close>

record dirs =
  cwd :: string
  output_dir :: string

definition suite_job :: "config \<Rightarrow> options \<Rightarrow> dirs \<Rightarrow> string \<Rightarrow> job" where
  "suite_job cfg opts d test =
     (let multiple = (if o_multiple opts then '''' else '' --stop-on-failure'');
          fullness = '' --fullness='' @ (if o_fullness opts \<noteq> '''' then map upper_char (o_fullness opts) else ''QUICK'');
          j = new_job\<lparr>display_name := test, tmp_file_name := path_join (output_dir d) (test @ ''.xml''),
                job_cwd := cwd d, basedir := cwd d, tempdir := output_dir d,
                shell_command := path_join ''utils''
                  (test_runner cfg @ '' --test-name='' @ test @ multiple @ fullness)\<rparr>;
          j = (if o_valgrind opts \<and> test \<in> set core_valgrind_skip_tests
               then set_skip ''crashes valgrind'' j else j)
      in if \<not> nsc_enabled cfg \<and> test \<in> set core_nsc_missing_skip_tests
         then set_skip ''requires NSC'' j else j)"

definition suite_jobs :: "config \<Rightarrow> options \<Rightarrow> dirs \<Rightarrow> string list \<Rightarrow> job list" where
  "suite_jobs cfg opts d suites = map (suite_job cfg opts d) (filter (\<lambda>t. t \<noteq> '''') (map strip suites))"

definition programs_dictionary :: "string list \<Rightarrow> (string, string) dict" where
  "programs_dictionary programs = fold (\<lambda>p. dset (basename p) p) programs []"

text \<open>What \<open>run_tests\<close> knows of the examples; \<open>holds\<close> evaluates a condition.\<close>

record examples =
  runnable_programs :: "(string, string) dict"
  runnable_scripts :: "string list"
  example_tests :: "(string \<times> string \<times> string \<times> string) list"
  python_tests :: "(string \<times> string) list"
  holds :: "string \<Rightarrow> bool"

definition test_basename :: "string \<Rightarrow> string" where
  "test_basename test = basename (fst (split1 (CHR '' '') test))"

definition example_job :: "options \<Rightarrow> dirs \<Rightarrow> string \<Rightarrow> string \<Rightarrow> job" where
  "example_job opts d name test =
     new_job\<lparr>is_example := True, display_name := name, job_cwd := output_dir d, basedir := cwd d,
       tempdir := output_dir d, shell_command := test, build_path := o_buildpath opts\<rparr>"

definition all_examples :: "examples \<Rightarrow> options \<Rightarrow> dirs \<Rightarrow> job list" where
  "all_examples ex opts d =
     map (\<lambda>(name, test, do_run, do_valgrind_run).
            let j = example_job opts d name test
            in if o_valgrind opts \<and> \<not> holds ex do_valgrind_run
               then set_skip ''skip in valgrind runs'' j else j)
       (filter (\<lambda>(name, test, do_run, do_valgrind_run).
            dget (runnable_programs ex) (test_basename test) \<noteq> None \<and> holds ex do_run)
          (example_tests ex))"

definition one_example :: "config \<Rightarrow> examples \<Rightarrow> options \<Rightarrow> dirs \<Rightarrow> job list" where
  "one_example cfg ex opts d =
     (case dget (runnable_programs ex) (program_name cfg (o_example opts)) of
        None \<Rightarrow> []
      | Some path \<Rightarrow> [example_job opts d (abspath (cwd d) path) (abspath (cwd d) path)])"

definition example_jobs :: "config \<Rightarrow> examples \<Rightarrow> options \<Rightarrow> dirs \<Rightarrow> job list" where
  "example_jobs cfg ex opts d =
     (if o_suite opts = '''' \<and> o_example opts = '''' \<and> o_pyexample opts = ''''
      then (if (o_constrain opts = '''' \<or> o_constrain opts = ''example'') \<and> enable_examples cfg
            then all_examples ex opts d else [])
      else if o_example opts \<noteq> '''' then one_example cfg ex opts d
      else [])"

definition pyexample_job :: "dirs \<Rightarrow> string \<Rightarrow> job" where
  "pyexample_job d test =
     new_job\<lparr>is_pyexample := True, display_name := test, job_cwd := output_dir d, basedir := cwd d,
       tempdir := output_dir d, shell_command := test\<rparr>"

definition all_pyexamples :: "config \<Rightarrow> examples \<Rightarrow> options \<Rightarrow> dirs \<Rightarrow> job list" where
  "all_pyexamples cfg ex opts d =
     map (\<lambda>(test, do_run).
            let j = pyexample_job d test;
                j = (if o_valgrind opts then set_skip ''skip in valgrind runs'' j else j)
            in if \<not> enable_python_bindings cfg then set_skip ''requires Python bindings'' j else j)
       (filter (\<lambda>(test, do_run). test_basename test \<in> set (runnable_scripts ex) \<and> holds ex do_run)
          (python_tests ex))"

definition one_pyexample :: "examples \<Rightarrow> options \<Rightarrow> dirs \<Rightarrow> job list" where
  "one_pyexample ex opts d =
     (if basename (o_pyexample opts) \<notin> set (runnable_scripts ex) then []
      else [pyexample_job d (o_pyexample opts)])"

definition pyexample_jobs :: "config \<Rightarrow> examples \<Rightarrow> options \<Rightarrow> dirs \<Rightarrow> job list" where
  "pyexample_jobs cfg ex opts d =
     (if o_suite opts = '''' \<and> o_example opts = '''' \<and> o_pyexample opts = ''''
      then (if (o_constrain opts = '''' \<or> o_constrain opts = ''pyexample'') \<and> enable_examples cfg
            then all_pyexamples cfg ex opts d else [])
      else if o_pyexample opts \<noteq> '''' then one_pyexample ex opts d
      else [])"

text \<open>The jobs in the order in which they are put on the input queue.\<close>

definition dispatched ::
    "(string \<Rightarrow> string option) \<Rightarrow> config \<Rightarrow> examples \<Rightarrow> options \<Rightarrow> dirs \<Rightarrow> stop + job list" where
  "dispatched runner cfg ex opts d =
     rbind (suite_list runner cfg opts) (\<lambda>suites.
       Inr (suite_jobs cfg opts d suites @ example_jobs cfg ex opts d @ pyexample_jobs cfg ex opts d))"

section \<open>Which jobs are dispatched\<close>

lemma remove_tests_Nil [simp]: "remove_tests [] ls = ls"
  by (simp add: remove_tests_def)

lemma remove_tests_Cons [simp]: "remove_tests (t # ts) ls = remove_tests ts (remove1 t ls)"
  by (simp add: remove_tests_def remove1_idem)

lemma set_remove_tests: "set (remove_tests ts ls) \<subseteq> set ls"
  by (induction ts arbitrary: ls) (auto dest: set_remove1_subset [THEN subsetD])

lemma remove_tests_distinct:
  "distinct ls \<Longrightarrow> distinct (remove_tests ts ls) \<and> set (remove_tests ts ls) = set ls - set ts"
  by (induction ts arbitrary: ls) auto

lemma strip_Nil [simp]: "strip [] = []"
  by (simp add: strip_def)

lemma suite_jobs_names: "map display_name (suite_jobs cfg opts d suites) = filter (\<lambda>t. t \<noteq> '''') (map strip suites)"
proof -
  have "display_name (suite_job cfg opts d t) = t" for t
    by (simp add: suite_job_def Let_def set_skip_def)
  then show ?thesis by (simp add: suite_jobs_def comp_def)
qed

lemma suite_jobs_blank: "set suites \<subseteq> {''''} \<Longrightarrow> suite_jobs cfg opts d suites = []"
  by (auto simp: suite_jobs_def filter_empty_conv)

definition is_suite :: "job \<Rightarrow> bool" where
  "is_suite j \<longleftrightarrow> \<not> is_example j \<and> \<not> is_pyexample j"

lemma suite_job_kind [simp]: "is_suite (suite_job cfg opts d t)"
  by (simp add: suite_job_def Let_def set_skip_def is_suite_def new_job_def)

lemma example_jobs_kind: "j \<in> set (example_jobs cfg ex opts d) \<Longrightarrow> is_example j \<and> \<not> is_pyexample j"
  by (auto simp: example_jobs_def all_examples_def one_example_def example_job_def set_skip_def
      new_job_def Let_def split: if_splits option.splits)

lemma pyexample_jobs_kind: "j \<in> set (pyexample_jobs cfg ex opts d) \<Longrightarrow> is_pyexample j \<and> \<not> is_example j"
  by (auto simp: pyexample_jobs_def all_pyexamples_def one_pyexample_def pyexample_job_def set_skip_def
      new_job_def Let_def split: if_splits)

lemma filter_suites:
  "filter is_suite (suite_jobs cfg opts d suites @ example_jobs cfg ex opts d @ pyexample_jobs cfg ex opts d)
     = suite_jobs cfg opts d suites"
proof -
  have "filter is_suite (example_jobs cfg ex opts d) = []" "filter is_suite (pyexample_jobs cfg ex opts d) = []"
    using example_jobs_kind pyexample_jobs_kind unfolding filter_empty_conv is_suite_def by blast+
  then show ?thesis by (auto simp: suite_jobs_def)
qed

text \<open>
  C22. A named suite is run alone: when \<open>run_tests\<close> dispatches jobs at all (it exits with 2 for a
  name the test runner does not list), the suite jobs are the one of that name; when only an
  example is named there are none; and the examples are run in full only when neither a suite
  nor an example is named.
\<close>

theorem dispatched_as_requested:
  assumes "dispatched runner cfg ex opts d = Inr jobs"
  shows "(o_suite opts \<noteq> '''' \<longrightarrow> strip (o_suite opts) \<noteq> '''' \<longrightarrow>
           map display_name (filter is_suite jobs) = [strip (o_suite opts)])
    \<and> (o_suite opts = '''' \<longrightarrow> o_example opts \<noteq> '''' \<or> o_pyexample opts \<noteq> '''' \<longrightarrow> filter is_suite jobs = [])
    \<and> (o_suite opts \<noteq> '''' \<or> o_example opts \<noteq> '''' \<or> o_pyexample opts \<noteq> '''' \<longrightarrow>
         length (filter (\<lambda>j. \<not> is_suite j) jobs)
           \<le> (if o_example opts \<noteq> '''' then 1 else 0) + (if o_pyexample opts \<noteq> '''' then 1 else 0))"
proof -
  from assms obtain suites where s: "suite_list runner cfg opts = Inr suites"
    and j: "jobs = suite_jobs cfg opts d suites @ example_jobs cfg ex opts d @ pyexample_jobs cfg ex opts d"
    by (auto simp: dispatched_def)
  have f: "filter is_suite jobs = suite_jobs cfg opts d suites"
    unfolding j by (rule filter_suites)
  have "map display_name (filter is_suite jobs) = [strip (o_suite opts)]"
    if o: "o_suite opts \<noteq> ''''" "strip (o_suite opts) \<noteq> ''''"
  proof -
    from s o obtain lines where known: "o_suite opts \<in> set (split_on nl lines)"
      and suites: "suites = split_on nl (o_suite opts @ [nl])"
      by (auto simp: suite_list_def requested_suites_def Let_def split: if_splits)
    from split_on_parts [OF known] have "suites = [o_suite opts, '''']"
      using split_on_append_sep [of nl "o_suite opts" "[]"] by (simp add: suites split_on_no_sep)
    with o f show ?thesis by (simp add: suite_jobs_names)
  qed
  moreover have "filter is_suite jobs = []"
    if "o_suite opts = ''''" "o_example opts \<noteq> '''' \<or> o_pyexample opts \<noteq> ''''"
  proof -
    from s that have "set suites \<subseteq> {''''}"
      using set_remove_tests by (fastforce simp: suite_list_def requested_suites_def Let_def split: if_splits)
    with f show ?thesis by (simp add: suite_jobs_blank)
  qed
  moreover have "length (filter (\<lambda>j. \<not> is_suite j) jobs)
      \<le> (if o_example opts \<noteq> '''' then 1 else 0) + (if o_pyexample opts \<noteq> '''' then 1 else 0)"
    if "o_suite opts \<noteq> '''' \<or> o_example opts \<noteq> '''' \<or> o_pyexample opts \<noteq> ''''"
  proof -
    have "length (example_jobs cfg ex opts d) \<le> (if o_example opts \<noteq> '''' then 1 else 0)"
      "length (pyexample_jobs cfg ex opts d) \<le> (if o_pyexample opts \<noteq> '''' then 1 else 0)"
      using that by (auto simp: example_jobs_def one_example_def pyexample_jobs_def one_pyexample_def
          split: option.splits)
    then have len: "length (filter P (example_jobs cfg ex opts d)) \<le> (if o_example opts \<noteq> '''' then 1 else 0)"
      "length (filter P (pyexample_jobs cfg ex opts d)) \<le> (if o_pyexample opts \<noteq> '''' then 1 else 0)" for P
      by (blast intro: order_trans [OF length_filter_le])+
    have "filter (\<lambda>j. \<not> is_suite j) (suite_jobs cfg opts d suites) = []"
      by (auto simp: suite_jobs_def filter_empty_conv)
    then show ?thesis
      unfolding j filter_append length_append by (simp only: list.size add_0 add_mono [OF len])
  qed
  ultimately show ?thesis by blast
qed

text \<open>
  Performance suites are run on request only: when the test runner lists every suite once and no
  suite is named, the suites dispatched are those listed (under the constraint, if any) that it
  does not list as performance tests.
\<close>

theorem performance_excluded:
  assumes "o_suite opts = ''''" and "o_example opts = ''''" and "o_pyexample opts = ''''"
    and "o_constrain opts \<noteq> ''performance''"
    and "requested_suites runner cfg opts = Inr (listed, single)" and "distinct (split_on nl listed)"
    and "ask_runner runner cfg '' --print-test-name-list --test-type=performance'' = Inr performance"
    and "dispatched runner cfg ex opts d = Inr jobs"
  shows "set (map display_name (filter is_suite jobs))
    = strip ` (set (split_on nl listed) - set (split_on nl performance)) - {''''}"
proof -
  have "single = False"
    using assms(1-3,5) by (auto simp: requested_suites_def)
  with assms(4,5,7) have s: "suite_list runner cfg opts
      = Inr (remove_tests (split_on nl performance) (split_on nl listed))"
    by (simp add: suite_list_def Let_def)
  with assms(8) have j: "jobs = suite_jobs cfg opts d (remove_tests (split_on nl performance) (split_on nl listed))
      @ example_jobs cfg ex opts d @ pyexample_jobs cfg ex opts d"
    by (simp add: dispatched_def)
  show ?thesis
    unfolding j filter_suites suite_jobs_names
    using remove_tests_distinct [OF assms(6)] by auto
qed

text \<open>A configuration with two unit suites and a performance suite, for the examples.\<close>

definition small_cfg :: config where
  "small_cfg = \<lparr>ns3_basedir = ''/n'', ns3_builddir = ''/n/build'', python = [''python3''], appname = ''ns'',
     version = ''3'', build_profile = ''debug'', nsc_enabled = False, enable_examples = True,
     enable_python_bindings = False\<rparr>"

definition small_opts :: options where
  "small_opts = \<lparr>o_buildpath = '''', o_constrain = '''', o_example = '''', o_pyexample = '''', o_suite = '''',
     o_fullness = ''QUICK'', o_update_data = False, o_valgrind = False, o_multiple = False, o_kinds = False,
     o_list = False, o_nowaf = True\<rparr>"

definition small_examples :: examples where
  "small_examples = \<lparr>runnable_programs = [(''ns3-e-debug'', ''build/ns3-e-debug'')], runnable_scripts = [''p.py''],
     example_tests = [(''e'', ''/n/build/ns3-e-debug'', ''True'', ''True'')], python_tests = [(''x/p.py'', ''True'')],
     holds = (\<lambda>c. c = ''True'')\<rparr>"

definition small_dirs :: dirs where
  "small_dirs = \<lparr>cwd = ''/n'', output_dir = ''out''\<rparr>"

definition small_runner :: "string \<Rightarrow> string option" where
  "small_runner cmd = Some (if length cmd > 60 then ''perf'' @ [nl] else ''ns3-tcp-cwnd'' @ [nl] @ ''b'' @ [nl] @ ''perf'' @ [nl])"

lemmas small_defs = small_cfg_def small_opts_def small_examples_def small_dirs_def small_runner_def

theorem dispatched_as_requested_witness:
  "\<exists>jobs. dispatched small_runner small_cfg small_examples (small_opts\<lparr>o_suite := ''b''\<rparr>) small_dirs = Inr jobs
     \<and> map display_name (filter is_suite jobs) = [''b'']"
proof -
  have s: "strip ''b'' = ''b''" by (simp add: strip_id is_space_def)
  obtain jobs where j: "dispatched small_runner small_cfg small_examples (small_opts\<lparr>o_suite := ''b''\<rparr>) small_dirs
      = Inr jobs"
    by (simp add: dispatched_def suite_list_def requested_suites_def ask_runner_def small_defs
        path_join_def startswith_def test_runner_def program_name_def build_profile_suffix_def)
  from dispatched_as_requested [OF j] j show ?thesis
    by (auto simp: small_defs s)
qed

theorem performance_excluded_witness:
  "\<exists>jobs. dispatched small_runner small_cfg small_examples small_opts small_dirs = Inr jobs
     \<and> set (map display_name (filter is_suite jobs)) = {''ns3-tcp-cwnd'', ''b''}"
proof -
  have s: "strip ''b'' = ''b''" "strip ''ns3-tcp-cwnd'' = ''ns3-tcp-cwnd''"
    by (simp_all add: strip_id is_space_def)
  note run = requested_suites_def ask_runner_def small_defs path_join_def startswith_def test_runner_def
    program_name_def build_profile_suffix_def
  have r: "requested_suites small_runner small_cfg small_opts
      = Inr (''ns3-tcp-cwnd'' @ [nl] @ ''b'' @ [nl] @ ''perf'' @ [nl], False)"
    by (simp add: run)
  have p: "ask_runner small_runner small_cfg '' --print-test-name-list --test-type=performance''
      = Inr (''perf'' @ [nl])"
    by (simp add: run)
  have c: "o_constrain small_opts \<noteq> ''performance''" by (simp add: small_opts_def)
  obtain jobs where j: "dispatched small_runner small_cfg small_examples small_opts small_dirs = Inr jobs"
    using c by (auto simp: dispatched_def suite_list_def r Let_def p)
  have "o_suite small_opts = ''''" "o_example small_opts = ''''" "o_pyexample small_opts = ''''"
    "o_constrain small_opts \<noteq> ''performance''"
    "distinct (split_on nl (''ns3-tcp-cwnd'' @ [nl] @ ''b'' @ [nl] @ ''perf'' @ [nl]))"
    by (simp_all add: small_opts_def)
  note names = performance_excluded [OF this(1-4) r this(5) p j]
  have "set (split_on nl (''ns3-tcp-cwnd'' @ [nl] @ ''b'' @ [nl] @ ''perf'' @ [nl])) - set (split_on nl (''perf'' @ [nl]))
      = {''ns3-tcp-cwnd'', ''b''}"
    by (simp add: insert_Diff_if)
  then have "set (map display_name (filter is_suite jobs)) = strip ` {''ns3-tcp-cwnd'', ''b''} - {''''}"
    using names by (simp only:)
  also have "\<dots> = {''ns3-tcp-cwnd'', ''b''}"
    by (simp only: image_insert image_empty s) simp
  finally show ?thesis using j by blast
qed

end
