(* ===== verification/Testpy_Workers.thy ===== *)
theory Testpy_Workers
  imports Testpy_Job
begin

text \<open>
  \<^verbatim>\<open>test.py\<close>, second part: the worker threads and the main thread of \<open>run_tests\<close>, from the start of
  the threads to the last \<open>join\<close>, as a step relation.  A step is an operation of one thread: a
  \<open>put\<close> or \<open>get\<close> on one of the two queues, the test of \<open>thread_exit\<close>, the end of a job, a \<open>join\<close>;
  or the signal handler.  Any interleaving is a run.  \<open>run\<close> is the work on one job
  (\<open>run_job popen cfg opts\<close>); a thread in which it raises is dead.
\<close>

section \<open>FIFO queues\<close>

text \<open>What the threads rely on in \<open>queue.Queue(0)\<close>; \<open>get\<close> blocks where it is \<open>None\<close>.\<close>

locale fifo =
  fixes put :: "'a \<Rightarrow> 'q \<Rightarrow> 'q" and get :: "'q \<Rightarrow> ('a \<times> 'q) option" and contents :: "'q \<Rightarrow> 'a list"
  assumes contents_put: "contents (put x q) = contents q @ [x]"
    and get_blocks: "get q = None \<longleftrightarrow> contents q = []"
    and contents_get: "get q = Some (x, q') \<Longrightarrow> contents q = x # contents q'"
begin

lemma get_ready: "contents q \<noteq> [] \<Longrightarrow> \<exists>x q'. get q = Some (x, q')"
  using get_blocks by fastforce

lemma get_first:
  assumes "contents q = x # xs"
  shows "\<exists>q'. get q = Some (x, q') \<and> contents q' = xs"
proof -
  from assms get_ready [of q] obtain y q' where y: "get q = Some (y, q')" by auto
  with contents_get [OF y] assms show ?thesis by simp
qed

lemma mset_get: "get q = Some (x, q') \<Longrightarrow> mset (contents q) = add_mset x (mset (contents q'))"
  using contents_get by fastforce

end

definition queue_put :: "'a \<Rightarrow> 'a list \<Rightarrow> 'a list" where
  "queue_put x q = q @ [x]"

definition queue_get :: "'a list \<Rightarrow> ('a \<times> 'a list) option" where
  "queue_get q = (case q of [] \<Rightarrow> None | x # q' \<Rightarrow> Some (x, q'))"

interpretation queue: fifo queue_put queue_get "\<lambda>q. q"
  by unfold_locales (auto simp: queue_put_def queue_get_def split: list.splits)

section \<open>Threads\<close>

text \<open>
  A worker waits for a job, holds one before it has read \<open>thread_exit\<close>, runs one, has returned, or
  has died of an exception.
\<close>

datatype worker = Idle | Holding job | Running job | Exited | Dead job

text \<open>The main thread: jobs still to put, results still to get, threads joined so far.\<close>

datatype main_pc = Putting "job list" | Collecting nat | Joining nat | Finished

record system =
  input_queue :: "job list"
  output_queue :: "job list"
  workers :: "worker list"
  main :: main_pc
  jobs :: nat
  collected :: "job list"
  thread_exit :: bool

definition break_job :: job where
  "break_job = set_is_break True new_job"

definition start :: "nat \<Rightarrow> job list \<Rightarrow> system" where
  "start processors js =
     \<lparr>input_queue = [], output_queue = [], workers = replicate processors Idle,
      main = Putting (js @ replicate processors break_job), jobs = length js, collected = [],
      thread_exit = False\<rparr>"

definition set_worker :: "nat \<Rightarrow> worker \<Rightarrow> system \<Rightarrow> system" where
  "set_worker i w s = s\<lparr>workers := (workers s)[i := w]\<rparr>"

text \<open>\<open>self.output_queue.put(job)\<close>, and back to the top of the loop.\<close>

definition put_back :: "nat \<Rightarrow> job \<Rightarrow> system \<Rightarrow> system" where
  "put_back i j s = set_worker i Idle s\<lparr>output_queue := queue_put j (output_queue s)\<rparr>"

definition stopped :: "worker \<Rightarrow> bool" where
  "stopped w \<longleftrightarrow> (case w of Exited \<Rightarrow> True | Dead _ \<Rightarrow> True | _ \<Rightarrow> False)"

inductive step :: "(job \<Rightarrow> py_exn + job) \<Rightarrow> system \<Rightarrow> system \<Rightarrow> bool" for run where
  put_job: "main s = Putting (j # js) \<Longrightarrow>
     step run s (s\<lparr>input_queue := queue_put j (input_queue s), main := Putting js\<rparr>)"
| put_end: "main s = Putting [] \<Longrightarrow> step run s (s\<lparr>main := Collecting (jobs s)\<rparr>)"
| collect: "main s = Collecting (Suc k) \<Longrightarrow> queue_get (output_queue s) = Some (j, q) \<Longrightarrow>
     step run s (s\<lparr>output_queue := q, collected := collected s @ [j], main := Collecting k\<rparr>)"
| collect_end: "main s = Collecting 0 \<Longrightarrow> step run s (s\<lparr>main := Joining 0\<rparr>)"
| join_thread: "main s = Joining i \<Longrightarrow> i < length (workers s) \<Longrightarrow> stopped (workers s ! i) \<Longrightarrow>
     step run s (s\<lparr>main := Joining (Suc i)\<rparr>)"
| join_end: "main s = Joining (length (workers s)) \<Longrightarrow> step run s (s\<lparr>main := Finished\<rparr>)"
| fetch_break: "i < length (workers s) \<Longrightarrow> workers s ! i = Idle \<Longrightarrow>
     queue_get (input_queue s) = Some (j, q) \<Longrightarrow> is_break j \<Longrightarrow>
     step run s (set_worker i Exited s\<lparr>input_queue := q\<rparr>)"
| fetch_job: "i < length (workers s) \<Longrightarrow> workers s ! i = Idle \<Longrightarrow>
     queue_get (input_queue s) = Some (j, q) \<Longrightarrow> \<not> is_break j \<Longrightarrow>
     step run s (set_worker i (Holding j) s\<lparr>input_queue := q\<rparr>)"
| throw_back: "i < length (workers s) \<Longrightarrow> workers s ! i = Holding j \<Longrightarrow> thread_exit s \<Longrightarrow>
     step run s (put_back i (set_is_break True j) s)"
| skip_job: "i < length (workers s) \<Longrightarrow> workers s ! i = Holding j \<Longrightarrow> \<not> thread_exit s \<Longrightarrow> is_skip j \<Longrightarrow>
     step run s (put_back i j s)"
| launch: "i < length (workers s) \<Longrightarrow> workers s ! i = Holding j \<Longrightarrow> \<not> thread_exit s \<Longrightarrow> \<not> is_skip j \<Longrightarrow>
     step run s (set_worker i (Running j) s)"
| job_done: "i < length (workers s) \<Longrightarrow> workers s ! i = Running j \<Longrightarrow> run j = Inr j' \<Longrightarrow>
     step run s (put_back i j' s)"
| job_raises: "i < length (workers s) \<Longrightarrow> workers s ! i = Running j \<Longrightarrow> run j = Inl e \<Longrightarrow>
     step run s (set_worker i (Dead j) s)"
| sigint_hook: "\<not> thread_exit s \<Longrightarrow> step run s (s\<lparr>thread_exit := True\<rparr>)"

inductive_simps step_from: "step run s s'"

section \<open>Every run is finite\<close>

fun worker_weight :: "worker \<Rightarrow> nat" where
  "worker_weight Idle = 0"
| "worker_weight (Holding j) = 4"
| "worker_weight (Running j) = 3"
| "worker_weight Exited = 0"
| "worker_weight (Dead j) = 0"

fun main_weight :: "nat \<Rightarrow> main_pc \<Rightarrow> nat" where
  "main_weight n (Putting js) = 6 * length js + n + 3"
| "main_weight n (Collecting k) = n + 2"
| "main_weight n (Joining i) = n + 1 - i"
| "main_weight n Finished = 0"

definition weight :: "system \<Rightarrow> nat" where
  "weight s = main_weight (length (workers s)) (main s) + 5 * length (input_queue s)
     + sum_list (map worker_weight (workers s)) + 2 * length (output_queue s)
     + (if thread_exit s then 0 else 1)"

lemma worker_weight_update:
  "i < length ws \<Longrightarrow> sum_list (map worker_weight (ws[i := w])) + worker_weight (ws ! i)
     = sum_list (map worker_weight ws) + worker_weight w"
proof (induction ws arbitrary: i)
  case (Cons v ws)
  then show ?case by (cases i) auto
qed simp

lemma queue_get_Some: "queue_get q = Some (x, q') \<longleftrightarrow> q = x # q'"
  by (auto simp: queue_get_def split: list.splits)

lemma step_weight: "step run s s' \<Longrightarrow> weight s' < weight s"
proof (induction rule: step.induct)
  case (fetch_break i s j q)
  then show ?case
    using worker_weight_update [of i "workers s" Exited] by (simp add: weight_def set_worker_def queue_get_Some)
next
  case (fetch_job i s j q)
  then show ?case
    using worker_weight_update [of i "workers s" "Holding j"] by (simp add: weight_def set_worker_def queue_get_Some)
next
  case (throw_back i s j)
  then show ?case
    using worker_weight_update [of i "workers s" Idle]
    by (simp add: weight_def set_worker_def put_back_def queue_put_def)
next
  case (skip_job i s j)
  then show ?case
    using worker_weight_update [of i "workers s" Idle]
    by (simp add: weight_def set_worker_def put_back_def queue_put_def)
next
  case (launch i s j)
  then show ?case
    using worker_weight_update [of i "workers s" "Running j"] by (simp add: weight_def set_worker_def)
next
  case (job_done i s j j')
  then show ?case
    using worker_weight_update [of i "workers s" Idle]
    by (simp add: weight_def set_worker_def put_back_def queue_put_def)
next
  case (job_raises i s j e)
  then show ?case
    using worker_weight_update [of i "workers s" "Dead j"] by (simp add: weight_def set_worker_def)
qed (auto simp: weight_def queue_put_def queue_get_Some)

lemma no_infinite_run: "\<not> (\<forall>k. step run (f k) (f (Suc k)))"
proof
  assume run: "\<forall>k. step run (f k) (f (Suc k))"
  have "(f (Suc k), f k) \<in> measure weight" for k
    using step_weight [OF run [rule_format, of k]] by simp
  then show False
    using wf_measure [of weight] unfolding wf_iff_no_infinite_down_chain by blast
qed

section \<open>The invariant\<close>

text \<open>The job a thread has in its hands; what is reported of a job that is not thrown back.\<close>

fun job_of :: "worker \<Rightarrow> job multiset" where
  "job_of (Holding j) = {#j#}"
| "job_of (Running j) = {#j#}"
| "job_of (Dead j) = {#j#}"
| "job_of Idle = {#}"
| "job_of Exited = {#}"

definition in_hands :: "worker list \<Rightarrow> job multiset" where
  "in_hands ws = sum_list (map job_of ws)"

lemma in_hands_update:
  "i < length ws \<Longrightarrow> in_hands (ws[i := w]) + job_of (ws ! i) = in_hands ws + job_of w"
proof (induction ws arbitrary: i)
  case (Cons v ws)
  show ?case
  proof (cases i)
    case 0
    then show ?thesis by (simp add: in_hands_def union_commute union_lcomm)
  next
    case (Suc k)
    with Cons show ?thesis by (simp add: in_hands_def union_assoc)
  qed
qed simp

lemma in_hands_member: "j \<in># in_hands ws \<longleftrightarrow> (\<exists>i < length ws. j \<in># job_of (ws ! i))"
proof (induction ws)
  case (Cons w ws)
  then show ?case by (auto simp: in_hands_def less_Suc_eq_0_disj)
qed (simp add: in_hands_def)

definition outcome :: "(job \<Rightarrow> py_exn + job) \<Rightarrow> job \<Rightarrow> job" where
  "outcome run j = (if is_skip j then j else case run j of Inr j' \<Rightarrow> j' | Inl e \<Rightarrow> j)"

definition reported :: "(job \<Rightarrow> py_exn + job) \<Rightarrow> bool \<Rightarrow> job \<Rightarrow> job \<Rightarrow> bool" where
  "reported run interrupted j r \<longleftrightarrow>
     r = outcome run j \<and> (is_skip j \<or> (\<exists>j'. run j = Inr j'))
   \<or> interrupted \<and> r = set_is_break True j"

text \<open>
  \<open>Q\<close> are the jobs not yet fetched and \<open>H\<close> the list that pairs every job handed back with what
  was handed back: each of the jobs is in exactly one of the queue, a thread, or \<open>H\<close>.
\<close>

definition still_to_put :: "system \<Rightarrow> job list" where
  "still_to_put s = (case main s of Putting js \<Rightarrow> js | _ \<Rightarrow> [])"

definition exits :: "worker list \<Rightarrow> nat" where
  "exits ws = length (filter (\<lambda>w. w = Exited) ws)"

definition accounts ::
    "(job \<Rightarrow> py_exn + job) \<Rightarrow> nat \<Rightarrow> job list \<Rightarrow> system \<Rightarrow> job list \<Rightarrow> nat \<Rightarrow> (job \<times> job) list \<Rightarrow> bool" where
  "accounts run n js s Q b H \<longleftrightarrow>
     input_queue s @ still_to_put s = Q @ replicate b break_job
   \<and> b + exits (workers s) = n \<and> (b < n \<longrightarrow> Q = [])
   \<and> mset js = mset Q + in_hands (workers s) + mset (map fst H)
   \<and> map snd H = collected s @ output_queue s
   \<and> (\<forall>(j, r) \<in> set H. reported run (thread_exit s) j r)"

definition phase_ok :: "job list \<Rightarrow> system \<Rightarrow> bool" where
  "phase_ok js s \<longleftrightarrow> (\<forall>j. Running j \<in> set (workers s) \<longrightarrow> \<not> is_skip j)
   \<and> (case main s of
        Putting _ \<Rightarrow> collected s = []
      | Collecting k \<Rightarrow> k + length (collected s) = length js
      | Joining i \<Rightarrow> length (collected s) = length js \<and> i \<le> length (workers s) \<and> (\<forall>k < i. stopped (workers s ! k))
      | Finished \<Rightarrow> length (collected s) = length js \<and> (\<forall>k < length (workers s). stopped (workers s ! k)))"

definition inv :: "(job \<Rightarrow> py_exn + job) \<Rightarrow> nat \<Rightarrow> job list \<Rightarrow> system \<Rightarrow> bool" where
  "inv run n js s \<longleftrightarrow> length (workers s) = n \<and> jobs s = length js
   \<and> (\<exists>Q b H. accounts run n js s Q b H) \<and> phase_ok js s"

lemma reported_mono: "reported run b j r \<Longrightarrow> reported run True j r"
  by (auto simp: reported_def)

lemma exits_update:
  "i < length ws \<Longrightarrow> exits (ws[i := w]) + (if ws ! i = Exited then 1 else 0)
     = exits ws + (if w = Exited then 1 else 0)"
proof (induction ws arbitrary: i)
  case (Cons v ws)
  show ?case
  proof (cases i)
    case 0
    then show ?thesis by (simp add: exits_def)
  next
    case (Suc k)
    with Cons.IH [of k] Cons.prems show ?thesis by (auto simp: exits_def)
  qed
qed simp

lemma exits_none: "exits (replicate n Idle) = 0"
  by (simp add: exits_def)

lemma in_hands_none: "in_hands (replicate n Idle) = {#}"
  by (induction n) (auto simp: in_hands_def)

lemma inv_start: "inv run n js (start n js)"
  unfolding inv_def accounts_def
  by (auto simp: start_def still_to_put_def exits_none in_hands_none phase_ok_def
      intro!: exI [of _ js] exI [of _ n] exI [of _ "[]"])

lemma phase_worker:
  assumes "phase_ok js s" and "i < length (workers s)" and "\<not> stopped (workers s ! i)"
    and "main s' = main s" and "collected s' = collected s" and "workers s' = (workers s)[i := w]"
    and "\<And>j. w = Running j \<Longrightarrow> \<not> is_skip j"
  shows "phase_ok js s'"
proof -
  have "\<not> is_skip j" if "Running j \<in> set (workers s')" for j
    using that assms(1,6,7) set_update_subset_insert [of "workers s" i w] by (auto simp: phase_ok_def)
  with assms(1-6) show ?thesis
    by (auto simp: phase_ok_def nth_list_update split: main_pc.splits)
qed

lemma running_not_stopped [simp]: "\<not> stopped Idle" "\<not> stopped (Holding j)" "\<not> stopped (Running j)"
  "stopped Exited" "stopped (Dead j)"
  by (simp_all add: stopped_def)

text \<open>A job handed back moves from the hands of a thread to \<open>H\<close>.\<close>

lemma accounts_put_back:
  assumes "accounts run n js s Q b H" and "i < length (workers s)"
    and "job_of (workers s ! i) = {#j#}" and "workers s ! i \<noteq> Exited"
    and "reported run (thread_exit s) j r"
  shows "accounts run n js (put_back i r s) Q b (H @ [(j, r)])"
proof -
  have "in_hands ((workers s)[i := Idle]) + {#j#} = in_hands (workers s)"
    using in_hands_update [OF assms(2), of Idle] assms(3) by simp
  moreover have "exits ((workers s)[i := Idle]) = exits (workers s)"
    using exits_update [OF assms(2), of Idle] assms(4) by simp
  ultimately show ?thesis
    using assms(1,5)
    by (auto simp: accounts_def put_back_def set_worker_def queue_put_def still_to_put_def)
qed

lemma accounts_keep:
  assumes "accounts run n js s Q b H" and "i < length (workers s)"
    and "job_of w = job_of (workers s ! i)" and "workers s ! i \<noteq> Exited" and "w \<noteq> Exited"
  shows "accounts run n js (set_worker i w s) Q b H"
proof -
  have "in_hands ((workers s)[i := w]) = in_hands (workers s)"
    using in_hands_update [OF assms(2), of w] assms(3) by simp
  moreover have "exits ((workers s)[i := w]) = exits (workers s)"
    using exits_update [OF assms(2), of w] assms(4,5) by simp
  ultimately show ?thesis
    using assms(1) by (simp add: accounts_def set_worker_def still_to_put_def)
qed

lemma is_break_break_job [simp]: "is_break break_job"
  by (simp add: break_job_def set_is_break_def)

lemma accounts_fetch:
  assumes acc: "accounts run n js s Q b H" and i: "i < length (workers s)" "workers s ! i = Idle"
    and q: "input_queue s = j # q" and nb: "\<forall>j \<in> set js. \<not> is_break j"
  shows "\<exists>Q' b'. accounts run n js
     (set_worker i (if is_break j then Exited else Holding j) s\<lparr>input_queue := q\<rparr>) Q' b' H"
proof -
  let ?w = "if is_break j then Exited else Holding j"
  have shape: "j # q @ still_to_put s = Q @ replicate b break_job"
    and Q: "mset js = mset Q + in_hands (workers s) + mset (map fst H)"
    and n: "b + exits (workers s) = n" "b < n \<longrightarrow> Q = []"
    using acc q by (auto simp: accounts_def)
  have hands: "in_hands ((workers s)[i := ?w]) = in_hands (workers s) + job_of ?w"
    using in_hands_update [OF i(1), of ?w] i(2) by simp
  have ex: "exits ((workers s)[i := ?w]) = exits (workers s) + (if is_break j then 1 else 0)"
    using exits_update [OF i(1), of ?w] i(2) by auto
  show ?thesis
  proof (cases Q)
    case Nil
    with shape obtain b' where b: "b = Suc b'" "j = break_job" "q @ still_to_put s = replicate b' break_job"
      by (cases b) auto
    then have "accounts run n js (set_worker i ?w s\<lparr>input_queue := q\<rparr>) [] b' H"
      using acc hands ex Nil n by (auto simp: accounts_def set_worker_def still_to_put_def)
    then show ?thesis by blast
  next
    case (Cons j' Q')
    with shape have j: "j' = j" "q @ still_to_put s = Q' @ replicate b break_job" by auto
    have "j \<in># mset js" using Q Cons j(1) by simp
    then have "\<not> is_break j" using nb by simp
    then have "accounts run n js (set_worker i ?w s\<lparr>input_queue := q\<rparr>) Q' b H"
      using acc hands ex Cons n j
      by (auto simp: accounts_def set_worker_def still_to_put_def)
    then show ?thesis by blast
  qed
qed

lemma inv_step:
  assumes "step run s s'" and "inv run n js s" and nb: "\<forall>j \<in> set js. \<not> is_break j"
  shows "inv run n js s'"
proof -
  obtain Q b H where acc: "accounts run n js s Q b H" and len: "length (workers s) = n" "jobs s = length js"
    and ph: "phase_ok js s"
    using assms(2) by (auto simp: inv_def)
  have H: "length H = length (collected s) + length (output_queue s)"
    using acc by (metis accounts_def length_append length_map)
  from assms(1) show ?thesis
  proof cases
    case (put_job j ks)
    then have "accounts run n js s' Q b H" "phase_ok js s'"
      using acc ph by (auto simp: accounts_def still_to_put_def queue_put_def phase_ok_def)
    with put_job len show ?thesis by (auto simp: inv_def)
  next
    case put_end
    then have "accounts run n js s' Q b H" "phase_ok js s'"
      using acc ph len by (auto simp: accounts_def still_to_put_def phase_ok_def)
    with put_end len show ?thesis by (auto simp: inv_def)
  next
    case (collect k j q)
    then have "accounts run n js s' Q b H" "phase_ok js s'"
      using acc ph by (auto simp: accounts_def still_to_put_def phase_ok_def queue_get_Some)
    with collect len show ?thesis by (auto simp: inv_def)
  next
    case collect_end
    then have "accounts run n js s' Q b H" "phase_ok js s'"
      using acc ph by (auto simp: accounts_def still_to_put_def phase_ok_def)
    with collect_end len show ?thesis by (auto simp: inv_def)
  next
    case (join_thread i)
    then have "accounts run n js s' Q b H" "phase_ok js s'"
      using acc ph by (auto simp: accounts_def still_to_put_def phase_ok_def less_Suc_eq)
    with join_thread len show ?thesis by (auto simp: inv_def)
  next
    case join_end
    then have "accounts run n js s' Q b H" "phase_ok js s'"
      using acc ph by (auto simp: accounts_def still_to_put_def phase_ok_def)
    with join_end len show ?thesis by (auto simp: inv_def)
  next
    case (fetch_break i j q)
    then have "phase_ok js s'" "length (workers s') = n" "jobs s' = length js"
      using phase_worker [OF ph, of i s']  len by (auto simp: set_worker_def)
    with accounts_fetch [OF acc fetch_break(2,3) _ nb, of j q] fetch_break show ?thesis
      by (auto simp: inv_def queue_get_Some)
  next
    case (fetch_job i j q)
    then have "phase_ok js s'" "length (workers s') = n" "jobs s' = length js"
      using phase_worker [OF ph, of i s']  len by (auto simp: set_worker_def)
    with accounts_fetch [OF acc fetch_job(2,3) _ nb, of j q] fetch_job show ?thesis
      by (auto simp: inv_def queue_get_Some)
  next
    case (throw_back i j)
    then have "phase_ok js s'" "length (workers s') = n" "jobs s' = length js"
      using phase_worker [OF ph, of i s']  len by (auto simp: set_worker_def put_back_def)
    moreover have "accounts run n js s' Q b (H @ [(j, set_is_break True j)])"
      unfolding throw_back(1)
      by (rule accounts_put_back [OF acc throw_back(2)]) (use throw_back in \<open>auto simp: reported_def\<close>)
    ultimately show ?thesis by (auto simp: inv_def)
  next
    case (skip_job i j)
    then have "phase_ok js s'" "length (workers s') = n" "jobs s' = length js"
      using phase_worker [OF ph, of i s']  len by (auto simp: set_worker_def put_back_def)
    moreover have "accounts run n js s' Q b (H @ [(j, j)])"
      unfolding skip_job(1)
      by (rule accounts_put_back [OF acc skip_job(2)]) (use skip_job in \<open>auto simp: reported_def outcome_def\<close>)
    ultimately show ?thesis by (auto simp: inv_def)
  next
    case (launch i j)
    then have "phase_ok js s'" "length (workers s') = n" "jobs s' = length js"
      using phase_worker [OF ph, of i s']  len by (auto simp: set_worker_def)
    moreover have "accounts run n js s' Q b H"
      unfolding launch(1) by (rule accounts_keep [OF acc launch(2)]) (use launch in auto)
    ultimately show ?thesis by (auto simp: inv_def)
  next
    case (job_done i j j')
    then have skip: "\<not> is_skip j"
      using ph by (metis nth_mem phase_ok_def)
    from job_done have "phase_ok js s'" "length (workers s') = n" "jobs s' = length js"
      using phase_worker [OF ph, of i s']  len by (auto simp: set_worker_def put_back_def)
    moreover have "accounts run n js s' Q b (H @ [(j, j')])"
      unfolding job_done(1)
      by (rule accounts_put_back [OF acc job_done(2)]) (use job_done skip in \<open>auto simp: reported_def outcome_def\<close>)
    ultimately show ?thesis by (auto simp: inv_def)
  next
    case (job_raises i j e)
    then have "phase_ok js s'" "length (workers s') = n" "jobs s' = length js"
      using phase_worker [OF ph, of i s']  len by (auto simp: set_worker_def)
    moreover have "accounts run n js s' Q b H"
      unfolding job_raises(1) by (rule accounts_keep [OF acc job_raises(2)]) (use job_raises in auto)
    ultimately show ?thesis by (auto simp: inv_def)
  next
    case sigint_hook
    then have "accounts run n js s' Q b H" "phase_ok js s'"
      using acc ph
      by (auto simp: accounts_def still_to_put_def phase_ok_def intro: reported_mono split: main_pc.splits)
    with sigint_hook len show ?thesis by (auto simp: inv_def)
  qed
qed

lemma inv_reachable:
  assumes "(step run)\<^sup>*\<^sup>* (start n js) s" and "\<forall>j \<in> set js. \<not> is_break j"
  shows "inv run n js s"
  using assms by (induction rule: rtranclp_induct) (auto intro: inv_start inv_step)

section \<open>Progress\<close>

text \<open>A thread that has a job, or that waits while the queue is not empty, can take a step.\<close>

definition can_step :: "(job \<Rightarrow> py_exn + job) \<Rightarrow> system \<Rightarrow> bool" where
  "can_step run s \<longleftrightarrow> (\<exists>s'. step run s s' \<and> thread_exit s' = thread_exit s)"

lemma worker_can_step:
  assumes "i < length (workers s)" and "\<not> stopped (workers s ! i)"
    and "workers s ! i = Idle \<Longrightarrow> input_queue s \<noteq> []"
  shows "can_step run s"
proof (cases "workers s ! i")
  case Idle
  then obtain j q where "queue_get (input_queue s) = Some (j, q)"
    using assms(3) queue.get_ready by blast
  with assms(1) Idle step.fetch_break [of i s j q run] step.fetch_job [of i s j q run] show ?thesis
    unfolding can_step_def by (cases "is_break j") (fastforce simp: set_worker_def)+
next
  case (Holding j)
  have "\<exists>s'. step run s s' \<and> thread_exit s' = thread_exit s"
  proof (cases "thread_exit s")
    case True
    with assms(1) Holding step.throw_back [of i s j run] show ?thesis
      by (fastforce simp: put_back_def set_worker_def)
  next
    case False
    with assms(1) Holding step.skip_job [of i s j run] step.launch [of i s j run] show ?thesis
      by (cases "is_skip j") (fastforce simp: put_back_def set_worker_def)+
  qed
  then show ?thesis by (simp add: can_step_def)
next
  case (Running j)
  have "\<exists>s'. step run s s' \<and> thread_exit s' = thread_exit s"
  proof (cases "run j")
    case (Inl e)
    with assms(1) Running step.job_raises [of i s j run e] show ?thesis
      by (fastforce simp: set_worker_def)
  next
    case (Inr j')
    with assms(1) Running step.job_done [of i s j run j'] show ?thesis
      by (fastforce simp: put_back_def set_worker_def)
  qed
  then show ?thesis by (simp add: can_step_def)
qed (use assms(2) in auto)

lemma exits_all: "exits ws < length ws \<longleftrightarrow> (\<exists>i < length ws. ws ! i \<noteq> Exited)"
proof -
  have "exits ws < length ws \<longleftrightarrow> (\<exists>w \<in> set ws. w \<noteq> Exited)"
  proof
    assume less: "exits ws < length ws"
    show "\<exists>w \<in> set ws. w \<noteq> Exited"
    proof (rule ccontr)
      assume "\<not> (\<exists>w \<in> set ws. w \<noteq> Exited)"
      then have "filter (\<lambda>w. w = Exited) ws = ws" by (intro filter_True) blast
      with less show False by (simp add: exits_def)
    qed
  next
    assume "\<exists>w \<in> set ws. w \<noteq> Exited"
    then obtain w where "w \<in> set ws" "w \<noteq> Exited" by blast
    then show "exits ws < length ws"
      unfolding exits_def by (rule length_filter_less)
  qed
  then show ?thesis unfolding Bex_def in_set_conv_nth by blast
qed

text \<open>No thread dies when \<open>run\<close> does not raise.\<close>

definition none_dead :: "system \<Rightarrow> bool" where
  "none_dead s \<longleftrightarrow> (\<forall>j. Dead j \<notin> set (workers s))"

lemma none_dead_step:
  assumes "step run s s'" and "inv run n js s" and "none_dead s"
    and total: "\<forall>j \<in> set js. is_skip j \<or> (\<exists>r. run j = Inr r)"
  shows "none_dead s'"
proof -
  from assms(1) show ?thesis
  proof cases
    case (job_raises i j e)
    obtain Q b H where "accounts run n js s Q b H" using assms(2) by (auto simp: inv_def)
    moreover have "j \<in># in_hands (workers s)"
      using job_raises by (auto simp: in_hands_member intro!: exI [of _ i])
    ultimately have "j \<in> set js"
      by (metis accounts_def set_mset_mset union_iff)
    moreover have "\<not> is_skip j"
      using assms(2) job_raises by (metis inv_def nth_mem phase_ok_def)
    ultimately show ?thesis
      using total job_raises by auto
  qed (use assms(3) in \<open>auto simp: none_dead_def set_worker_def put_back_def
      dest!: set_update_subset_insert [THEN subsetD]\<close>)
qed

lemma progress:
  assumes inv: "inv run n js s" and "0 < n" and "none_dead s" and "main s \<noteq> Finished"
  shows "can_step run s"
proof -
  obtain Q b H where acc: "accounts run n js s Q b H" and len: "length (workers s) = n" "jobs s = length js"
    and ph: "phase_ok js s"
    using inv by (auto simp: inv_def)
  have all: "length js = length Q + size (in_hands (workers s)) + length H"
    using acc by (metis accounts_def length_map size_mset size_union)
  have H: "length H = length (collected s) + length (output_queue s)"
    using acc by (metis accounts_def length_append length_map)
  have b: "b + exits (workers s) = n" "b < n \<longrightarrow> Q = []"
    and shape: "input_queue s @ still_to_put s = Q @ replicate b break_job"
    using acc by (auto simp: accounts_def)
  have free: "can_step run s" if "i < n" "workers s ! i \<noteq> Exited" "still_to_put s = []" for i
  proof (rule worker_can_step)
    show "i < length (workers s)" using that(1) len by simp
    then show "\<not> stopped (workers s ! i)"
      using that(2) assms(3) by (auto simp: none_dead_def stopped_def split: worker.splits dest: nth_mem)
    have "0 < b"
      using b(1) exits_all [of "workers s"] that(1,2) len(1) by auto
    with shape that(3) show "input_queue s \<noteq> []" by (cases b) auto
  qed
  show ?thesis
  proof (cases "main s")
    case (Putting ks)
    then show ?thesis
      unfolding can_step_def
      by (cases ks) (use step.put_job [of s] step.put_end [of s] in fastforce)+
  next
    case (Collecting k)
    show ?thesis
    proof (cases k)
      case 0
      with Collecting step.collect_end [of s run] show ?thesis unfolding can_step_def by fastforce
    next
      case (Suc k')
      show ?thesis
      proof (cases "output_queue s = []")
        case False
        then obtain j q where "queue_get (output_queue s) = Some (j, q)"
          using queue.get_ready by blast
        with Collecting Suc step.collect [of s k' j q run] show ?thesis unfolding can_step_def by fastforce
      next
        case True
        have "Q \<noteq> [] \<or> in_hands (workers s) \<noteq> {#}"
          using all H ph Collecting Suc True by (auto simp: phase_ok_def)
        moreover have "\<exists>i < n. workers s ! i \<noteq> Exited" if "in_hands (workers s) \<noteq> {#}"
        proof -
          from that obtain j where "j \<in># in_hands (workers s)" by blast
          then obtain i where "i < n" "j \<in># job_of (workers s ! i)" using len(1) by (auto simp: in_hands_member)
          then show ?thesis by force
        qed
        moreover have "workers s ! 0 \<noteq> Exited" if "Q \<noteq> []"
        proof -
          from that b have "exits (workers s) = 0" by auto
          then have "\<forall>w \<in> set (workers s). w \<noteq> Exited"
            by (auto simp: exits_def filter_empty_conv)
          with assms(2) len(1) show ?thesis by auto
        qed
        moreover have "still_to_put s = []" using Collecting by (simp add: still_to_put_def)
        ultimately show ?thesis using free assms(2) by blast
      qed
    qed
  next
    case (Joining i)
    then have "i \<le> n" using ph len(1) by (simp add: phase_ok_def)
    then consider "i = n" | "i < n" "workers s ! i = Exited" | "i < n" "workers s ! i \<noteq> Exited"
      by linarith
    then show ?thesis
    proof cases
      case 1
      with Joining len(1) step.join_end [of s run] show ?thesis unfolding can_step_def by fastforce
    next
      case 2
      with Joining len(1) step.join_thread [of s i run] show ?thesis unfolding can_step_def by fastforce
    next
      case 3
      then show ?thesis using free Joining by (simp add: still_to_put_def)
    qed
  qed (use assms(4) in simp)
qed

text \<open>So there is a run to the end that the signal handler does not disturb.\<close>

lemma run_to_end:
  assumes "0 < n" and "\<forall>j \<in> set js. \<not> is_break j"
    and "\<forall>j \<in> set js. is_skip j \<or> (\<exists>r. run j = Inr r)"
    and "inv run n js s" and "none_dead s"
  shows "\<exists>s'. (step run)\<^sup>*\<^sup>* s s' \<and> main s' = Finished \<and> thread_exit s' = thread_exit s"
  using assms(4,5)
proof (induction "weight s" arbitrary: s rule: less_induct)
  case less
  show ?case
  proof (cases "main s = Finished")
    case False
    with progress [OF less.prems(1) assms(1) less.prems(2)] obtain s1 where
      s1: "step run s s1" "thread_exit s1 = thread_exit s"
      by (auto simp: can_step_def)
    from less.hyps [OF step_weight [OF s1(1)] inv_step [OF s1(1) less.prems(1) assms(2)]
        none_dead_step [OF s1(1) less.prems assms(3)]]
    obtain s' where "(step run)\<^sup>*\<^sup>* s1 s'" "main s' = Finished" "thread_exit s' = thread_exit s1" by blast
    with s1 show ?thesis by (metis converse_rtranclp_into_rtranclp)
  qed blast
qed

lemma run_from_start:
  assumes "0 < n" and "\<forall>j \<in> set js. \<not> is_break j"
    and "\<forall>j \<in> set js. is_skip j \<or> (\<exists>r. run j = Inr r)"
  shows "\<exists>s. (step run)\<^sup>*\<^sup>* (start n js) s \<and> main s = Finished \<and> \<not> thread_exit s"
proof -
  have "none_dead (start n js)" by (simp add: none_dead_def start_def)
  from run_to_end [OF assms inv_start this] show ?thesis by (simp add: start_def)
qed

lemma workers_results_facts:
  assumes "(step run)\<^sup>*\<^sup>* (start n js) s" and "\<forall>j \<in> set js. \<not> is_break j" and "main s = Finished"
  shows "list_all (\<lambda>w. w = Exited) (workers s)
    \<and> (\<exists>H. mset (map fst H) = mset js \<and> map snd H = collected s
         \<and> (\<forall>(j, r) \<in> set H. reported run (thread_exit s) j r))"
    and "\<not> thread_exit s \<Longrightarrow> j \<in> set js \<Longrightarrow> is_skip j \<or> (\<exists>r. run j = Inr r)"
    and "\<not> thread_exit s \<Longrightarrow> mset (collected s) = image_mset (outcome run) (mset js)"
proof -
  from inv_reachable [OF assms(1,2)] obtain Q b H where acc: "accounts run n js s Q b H"
    and len: "length (workers s) = n" and ph: "phase_ok js s"
    by (auto simp: inv_def)
  have "length js = length Q + size (in_hands (workers s)) + length H"
    using acc by (metis accounts_def length_map size_mset size_union)
  moreover have "length H = length (collected s) + length (output_queue s)"
    using acc by (metis accounts_def length_append length_map)
  moreover have "length (collected s) = length js" "\<forall>k < n. stopped (workers s ! k)"
    using ph assms(3) len by (auto simp: phase_ok_def)
  ultimately have empty: "Q = []" "in_hands (workers s) = {#}" "output_queue s = []"
    and stop: "\<forall>k < n. stopped (workers s ! k)"
    by auto
  have H: "mset (map fst H) = mset js" "map snd H = collected s"
    "\<forall>(j, r) \<in> set H. reported run (thread_exit s) j r"
    using acc empty by (auto simp: accounts_def)
  have "workers s ! k = Exited" if "k < n" for k
  proof (cases "workers s ! k")
    case (Dead j)
    then have "j \<in># in_hands (workers s)"
      using that len by (auto simp: in_hands_member intro!: exI [of _ k])
    with empty(2) show ?thesis by simp
  qed (use stop that in \<open>force simp: stopped_def\<close>)+
  then have "list_all (\<lambda>w. w = Exited) (workers s)"
    using len by (simp add: list_all_length)
  with H show "list_all (\<lambda>w. w = Exited) (workers s)
    \<and> (\<exists>H. mset (map fst H) = mset js \<and> map snd H = collected s
         \<and> (\<forall>(j, r) \<in> set H. reported run (thread_exit s) j r))"
    by blast
  show "is_skip j \<or> (\<exists>r. run j = Inr r)" if "\<not> thread_exit s" "j \<in> set js"
  proof -
    have "j \<in> set (map fst H)" using H(1) that(2) by (metis set_mset_mset)
    with H(3) that(1) show ?thesis by (auto simp: reported_def)
  qed
  show "mset (collected s) = image_mset (outcome run) (mset js)" if "\<not> thread_exit s"
  proof -
    have "map snd H = map (outcome run) (map fst H)"
      using H(3) that by (auto simp: reported_def)
    then have "mset (collected s) = mset (map (outcome run) (map fst H))"
      using H(2) by simp
    then show ?thesis using H(1) by (simp only: mset_map)
  qed
qed


section \<open>Properties\<close>

text \<open>
  C1. When the main thread has joined the workers, all of them have returned (a thread that died of an
  exception keeps the script from ending), and the results collected are, up to their
  order, one for each job dispatched: its outcome (the job as it is when it is skipped, with return
  code and time when it has run), or after an interrupt possibly the job marked as a break.
  Without an interrupt the results are the outcomes, whatever the interleaving.
\<close>

theorem workers_results:
  assumes "(step run)\<^sup>*\<^sup>* (start n js) s" and "\<forall>j \<in> set js. \<not> is_break j" and "main s = Finished"
  shows "list_all (\<lambda>w. w = Exited) (workers s)
    \<and> (\<exists>H. mset (map fst H) = mset js \<and> map snd H = collected s
         \<and> (\<forall>(j, r) \<in> set H. reported run (thread_exit s) j r))
    \<and> (\<not> thread_exit s \<longrightarrow> mset (collected s) = image_mset (outcome run) (mset js))"
  using workers_results_facts [OF assms] by blast

theorem workers_results_witness:
  "\<exists>s :: system. main s = Finished \<and> mset (collected s) = {#new_job\<lparr>returncode := 1\<rparr>, new_job\<lparr>is_skip := True\<rparr>#}"
proof -
  let ?run = "\<lambda>j. Inr (j\<lparr>returncode := 1\<rparr>) :: py_exn + job" and ?js = "[new_job, new_job\<lparr>is_skip := True\<rparr>]"
  have js: "\<forall>j \<in> set ?js. \<not> is_break j" "\<forall>j \<in> set ?js. is_skip j \<or> (\<exists>r. ?run j = Inr r)"
    by (simp_all add: new_job_def)
  obtain s where s: "(step ?run)\<^sup>*\<^sup>* (start 2 ?js) s" "main s = Finished" "\<not> thread_exit s"
    using run_from_start [OF _ js, of 2] by auto
  have "image_mset (outcome ?run) (mset ?js) = {#new_job\<lparr>returncode := 1\<rparr>, new_job\<lparr>is_skip := True\<rparr>#}"
    by (simp add: outcome_def new_job_def)
  moreover have "mset (collected s) = image_mset (outcome ?run) (mset ?js)"
    using workers_results [OF s(1) js(1) s(2)] s(3) by (elim conjE) (erule mp)
  ultimately have "mset (collected s) = {#new_job\<lparr>returncode := 1\<rparr>, new_job\<lparr>is_skip := True\<rparr>#}"
    by (rule trans [rotated])
  with s(2) show ?thesis by blast
qed

text \<open>
  C2. The threads neither deadlock nor run for ever: with at least one worker and jobs whose work does
  not raise, there is no infinite run, and in every state reached before the end some thread can
  take a step that is not the signal handler's.
\<close>

theorem workers_live:
  assumes "0 < n" and "\<forall>j \<in> set js. \<not> is_break j"
    and "\<forall>j \<in> set js. is_skip j \<or> (\<exists>r. run j = Inr r)"
  shows "\<not> (\<exists>f. f 0 = start n js \<and> (\<forall>k. step run (f k) (f (Suc k))))
    \<and> (\<forall>s. (step run)\<^sup>*\<^sup>* (start n js) s \<longrightarrow> main s \<noteq> Finished \<longrightarrow>
         (\<exists>s'. step run s s' \<and> thread_exit s' = thread_exit s))"
proof (intro conjI allI impI)
  show "\<not> (\<exists>f. f 0 = start n js \<and> (\<forall>k. step run (f k) (f (Suc k))))"
    using no_infinite_run by blast
next
  fix s assume s: "(step run)\<^sup>*\<^sup>* (start n js) s" "main s \<noteq> Finished"
  from s(1) have "inv run n js s \<and> none_dead s"
  proof (induction rule: rtranclp_induct)
    case base
    have "none_dead (start n js)" by (simp add: none_dead_def start_def)
    with inv_start show ?case by blast
  next
    case (step s1 s2)
    then show ?case using inv_step none_dead_step assms(2,3) by blast
  qed
  with progress assms(1) s(2) show "\<exists>s'. step run s s' \<and> thread_exit s' = thread_exit s"
    unfolding can_step_def by blast
qed

theorem workers_live_witness:
  "\<exists>s'. step Inr (start 2 [new_job]) s' \<and> \<not> thread_exit s'"
proof -
  have "\<forall>j \<in> set [new_job]. \<not> is_break j" "\<forall>j \<in> set [new_job]. is_skip j \<or> (\<exists>r. Inr j = (Inr r :: py_exn + job))"
    by (simp_all add: new_job_def)
  from workers_live [OF _ this, of 2]
  have "\<forall>s. (step Inr)\<^sup>*\<^sup>* (start 2 [new_job]) s \<longrightarrow> main s \<noteq> Finished \<longrightarrow>
      (\<exists>s'. step Inr s s' \<and> thread_exit s' = thread_exit s)"
    by simp
  moreover have "(step Inr)\<^sup>*\<^sup>* (start 2 [new_job]) (start 2 [new_job])" by (rule rtranclp.rtrancl_refl)
  moreover have "main (start 2 [new_job]) \<noteq> Finished" "\<not> thread_exit (start 2 [new_job])"
    by (simp_all add: start_def)
  ultimately show ?thesis by metis
qed

end
