(* ===== verification/Testpy_Report.thy ===== *)
theory Testpy_Report
  imports Testpy_Workers "HOL-Library.Char_ord" "HOL-Library.List_Lexorder"
begin

text \<open>
  \<^verbatim>\<open>test.py\<close>, third part: the loop of \<open>run_tests\<close> over the results the workers hand back, the
  results file, the summary and the exit status.  \<open>show_time\<close> is the format \<^verbatim>\<open>%.3f\<close> and
  \<open>tmp_text\<close> the contents of the file a test suite has written, if it exists.
\<close>

section \<open>Code\<close>

record summary =
  passed_tests :: nat
  failed_testnames :: "string list"
  crashed_testnames :: "string list"
  valgrind_testnames :: "string list"
  skipped_testnames :: "string list"
  printed :: "string list"
  xml_results :: string

text \<open>
  The counters \<open>failed_tests\<close>, \<open>crashed_tests\<close>, \<open>valgrind_errors\<close> and \<open>skipped_tests\<close> are raised
  together with the append to the list of names: they are the lengths of the lists.
\<close>

definition status_of :: "job \<Rightarrow> string" where
  "status_of j =
     (if is_skip j then ''SKIP''
      else if returncode j = 0 then ''PASS''
      else if returncode j = 1 then ''FAIL''
      else if returncode j = 2 then ''VALGR''
      else ''CRASH'')"

definition count_result :: "job \<Rightarrow> summary \<Rightarrow> summary" where
  "count_result j r =
     (if is_skip j
      then r\<lparr>skipped_testnames := skipped_testnames r @ [display_name j @ '' ('' @ skip_reason j @ '')'']\<rparr>
      else if returncode j = 0 then r\<lparr>passed_tests := passed_tests r + 1\<rparr>
      else if returncode j = 1 then r\<lparr>failed_testnames := failed_testnames r @ [display_name j]\<rparr>
      else if returncode j = 2 then r\<lparr>valgrind_testnames := valgrind_testnames r @ [display_name j]\<rparr>
      else r\<lparr>crashed_testnames := crashed_testnames r @ [display_name j]\<rparr>)"

definition result_line :: "(rat \<Rightarrow> string) \<Rightarrow> bool \<Rightarrow> job \<Rightarrow> string" where
  "result_line show_time timed j =
     status_of j @ (if timed then '' ('' @ show_time (elapsed_time j) @ '')'' else '''') @ '': ''
     @ (if is_example j \<or> is_pyexample j then ''Example'' else ''TestSuite'') @ '' '' @ display_name j"

definition line :: "string \<Rightarrow> string" where
  "line s = s @ [nl]"

definition quote :: char where
  "quote = CHR 0x22"

definition example_xml :: "(rat \<Rightarrow> string) \<Rightarrow> job \<Rightarrow> string" where
  "example_xml show_time j =
     line ''<Example>'' @ line (''  <Name>'' @ display_name j @ ''</Name>'')
     @ line (''  <Result>'' @ status_of j @ ''</Result>'')
     @ line (''  <Time real='' @ [quote] @ show_time (elapsed_time j) @ [quote] @ ''/>'')
     @ line ''</Example>''"

definition skip_xml :: "job \<Rightarrow> string" where
  "skip_xml j =
     line ''<Test>'' @ line (''  <Name>'' @ display_name j @ ''</Name>'') @ line ''  <Result>SKIP</Result>''
     @ line (''  <Reason>'' @ skip_reason j @ ''</Reason>'') @ line ''</Test>''"

definition crash_xml :: "job \<Rightarrow> string" where
  "crash_xml j =
     line ''<Test>'' @ line (''  <Name>'' @ display_name j @ ''</Name>'') @ line ''  <Result>CRASH</Result>''
     @ line ''</Test>''"

definition result_xml :: "(rat \<Rightarrow> string) \<Rightarrow> (string \<Rightarrow> py_exn + string) \<Rightarrow> job \<Rightarrow> py_exn + string" where
  "result_xml show_time tmp_text j =
     (if is_example j \<or> is_pyexample j then Inr (example_xml show_time j)
      else if is_skip j then Inr (skip_xml j)
      else if returncode j = 0 \<or> returncode j = 1 \<or> returncode j = 2 then tmp_text (tmp_file_name j)
      else Inr (crash_xml j))"

definition process_result ::
    "(rat \<Rightarrow> string) \<Rightarrow> (string \<Rightarrow> py_exn + string) \<Rightarrow> bool \<Rightarrow> job \<Rightarrow> summary \<Rightarrow> py_exn + summary" where
  "process_result show_time tmp_text timed j r =
     (if is_break j then Inr r
      else
        let r = count_result j r; r = r\<lparr>printed := printed r @ [result_line show_time timed j]\<rparr>
        in rbind (result_xml show_time tmp_text j) (\<lambda>x. Inr (r\<lparr>xml_results := xml_results r @ x\<rparr>)))"

fun process_results ::
    "(rat \<Rightarrow> string) \<Rightarrow> (string \<Rightarrow> py_exn + string) \<Rightarrow> bool \<Rightarrow> job list \<Rightarrow> summary \<Rightarrow> py_exn + summary" where
  "process_results show_time tmp_text timed [] r = Inr r"
| "process_results show_time tmp_text timed (j # js) r =
     rbind (process_result show_time tmp_text timed j r) (process_results show_time tmp_text timed js)"

definition empty_summary :: summary where
  "empty_summary = \<lparr>passed_tests = 0, failed_testnames = [], crashed_testnames = [], valgrind_testnames = [],
     skipped_testnames = [], printed = [],
     xml_results = line (''<?xml version='' @ [quote] @ ''1.0'' @ [quote] @ ''?>'') @ line ''<Results>''\<rparr>"

definition summary_line :: "nat \<Rightarrow> summary \<Rightarrow> string" where
  "summary_line total_tests r =
     nat_str (passed_tests r) @ '' of '' @ nat_str total_tests @ '' tests passed (''
     @ nat_str (passed_tests r) @ '' passed, '' @ nat_str (length (skipped_testnames r)) @ '' skipped, ''
     @ nat_str (length (failed_testnames r)) @ '' failed, '' @ nat_str (length (crashed_testnames r))
     @ '' crashed, '' @ nat_str (length (valgrind_testnames r)) @ '' valgrind errors)''"

definition name_list :: "string \<Rightarrow> string list \<Rightarrow> string list" where
  "name_list title names =
     (if names = [] then [] else [title @ [nl] @ ''    '' @ join ([nl] @ ''    '') (sort names)])"

definition print_summary :: "nat \<Rightarrow> summary \<Rightarrow> string list" where
  "print_summary total_tests r =
     [summary_line total_tests r]
     @ name_list ''List of SKIPped tests:'' (skipped_testnames r)
     @ name_list ''List of FAILed tests:'' (failed_testnames r)
     @ name_list ''List of CRASHed tests:'' (crashed_testnames r)
     @ name_list ''List of VALGR failures:'' (valgrind_testnames r)"

definition exit_status :: "nat \<Rightarrow> summary \<Rightarrow> int" where
  "exit_status total_tests r =
     (if passed_tests r + length (skipped_testnames r) = total_tests then 0 else 1)"

text \<open>What the main thread does from the first \<open>get\<close> on: exit status, summary and results file.\<close>

definition conclude ::
    "(rat \<Rightarrow> string) \<Rightarrow> (string \<Rightarrow> py_exn + string) \<Rightarrow> bool \<Rightarrow> system
     \<Rightarrow> py_exn + int \<times> string list \<times> string" where
  "conclude show_time tmp_text timed s =
     rbind (process_results show_time tmp_text timed (collected s) empty_summary) (\<lambda>r.
       Inr (exit_status (jobs s) r, print_summary (jobs s) r, xml_results r @ line ''</Results>''))"

section \<open>What the summary counts\<close>

definition named :: "string \<Rightarrow> job list \<Rightarrow> job list" where
  "named status js = filter (\<lambda>j. \<not> is_break j \<and> status_of j = status) js"

lemma named_simps [simp]:
  "named st [] = []"
  "named st (j # js) = (if \<not> is_break j \<and> status_of j = st then j # named st js else named st js)"
  by (simp_all add: named_def)

lemma process_results_counts:
  assumes "process_results show_time tmp_text timed js r = Inr r'"
  shows "passed_tests r' = passed_tests r + length (named ''PASS'' js)
    \<and> failed_testnames r' = failed_testnames r @ map display_name (named ''FAIL'' js)
    \<and> crashed_testnames r' = crashed_testnames r @ map display_name (named ''CRASH'' js)
    \<and> valgrind_testnames r' = valgrind_testnames r @ map display_name (named ''VALGR'' js)
    \<and> skipped_testnames r' = skipped_testnames r
        @ map (\<lambda>j. display_name j @ '' ('' @ skip_reason j @ '')'') (named ''SKIP'' js)"
  using assms
proof (induction js arbitrary: r)
  case Nil
  then show ?case by (simp add: named_def)
next
  case (Cons j js)
  then obtain r1 where r1: "process_result show_time tmp_text timed j r = Inr r1"
    "process_results show_time tmp_text timed js r1 = Inr r'"
    by auto
  note IH = Cons.IH [OF r1(2)]
  show ?case
  proof (cases "is_break j")
    case True
    with r1(1) IH show ?thesis by (simp add: process_result_def)
  next
    case False
    with r1(1) obtain x where "r1 = count_result j r
        \<lparr>printed := printed (count_result j r) @ [result_line show_time timed j],
          xml_results := xml_results (count_result j r) @ x\<rparr>"
      by (auto simp: process_result_def Let_def)
    moreover consider "is_skip j" | "\<not> is_skip j" "returncode j = 0" | "\<not> is_skip j" "returncode j = 1"
      | "\<not> is_skip j" "returncode j = 2"
      | "\<not> is_skip j" "returncode j \<noteq> 0" "returncode j \<noteq> 1" "returncode j \<noteq> 2"
      by blast
    ultimately show ?thesis
      using IH False by cases (simp_all add: count_result_def status_of_def)
  qed
qed

lemma length_named:
  "length (filter (\<lambda>j. \<not> is_break j) js)
     = length (named ''PASS'' js) + length (named ''FAIL'' js) + length (named ''VALGR'' js)
       + length (named ''CRASH'' js) + length (named ''SKIP'' js)"
  by (induction js) (auto simp: named_def status_of_def)

lemma good_results:
  "length (named ''PASS'' js) + length (named ''SKIP'' js) = length js
     \<longleftrightarrow> list_all (\<lambda>j. \<not> is_break j \<and> (is_skip j \<or> returncode j = 0)) js"
proof -
  have "length (named ''PASS'' js) + length (named ''SKIP'' js)
      = length (filter (\<lambda>j. \<not> is_break j \<and> (is_skip j \<or> returncode j = 0)) js)"
    by (induction js) (auto simp: named_def status_of_def)
  moreover have "length (filter P js) = length js \<longleftrightarrow> list_all P js" for P
    by (induction js) (auto simp: le_imp_less_Suc less_imp_neq)
  ultimately show ?thesis by simp
qed

lemma results_mset:
  assumes "mset js = mset js'"
  shows "length (named st js) = length (named st js')"
    and "mset (map f (named st js)) = mset (map f (named st js'))"
  using assms by (simp_all add: named_def flip: size_mset)

lemma name_list_mset: "mset xs = mset ys \<Longrightarrow> name_list title xs = name_list title ys"
proof -
  assume m: "mset xs = mset ys"
  then have "sort xs = sort ys"
    by (intro properties_for_sort) simp_all
  moreover have "xs = [] \<longleftrightarrow> ys = []" using m by (metis mset_zero_iff)
  ultimately show ?thesis by (simp add: name_list_def)
qed

lemma print_summary_mset:
  assumes "process_results f t b js empty_summary = Inr r" and "process_results f t b js' empty_summary = Inr r'"
    and "mset js = mset js'"
  shows "print_summary n r = print_summary n r'" and "exit_status n r = exit_status n r'"
proof -
  note len = results_mset(1) [OF assms(3)] and names = results_mset(2) [OF assms(3)]
  note c = process_results_counts [OF assms(1)] process_results_counts [OF assms(2)]
  have lens: "passed_tests r = passed_tests r'" "length (skipped_testnames r) = length (skipped_testnames r')"
    "length (failed_testnames r) = length (failed_testnames r')"
    "length (crashed_testnames r) = length (crashed_testnames r')"
    "length (valgrind_testnames r) = length (valgrind_testnames r')"
    using c len [of "''PASS''"] len [of "''SKIP''"] len [of "''FAIL''"] len [of "''CRASH''"] len [of "''VALGR''"]
    by (simp_all add: empty_summary_def)
  moreover have "mset (skipped_testnames r) = mset (skipped_testnames r')"
    "mset (failed_testnames r) = mset (failed_testnames r')"
    "mset (crashed_testnames r) = mset (crashed_testnames r')"
    "mset (valgrind_testnames r) = mset (valgrind_testnames r')"
    using c names by (simp_all only: empty_summary_def summary.simps append_Nil)
  ultimately show "print_summary n r = print_summary n r'" "exit_status n r = exit_status n r'"
    by (simp_all only: print_summary_def summary_line_def exit_status_def
        name_list_mset [of "skipped_testnames r" "skipped_testnames r'"]
        name_list_mset [of "failed_testnames r" "failed_testnames r'"]
        name_list_mset [of "crashed_testnames r" "crashed_testnames r'"]
        name_list_mset [of "valgrind_testnames r" "valgrind_testnames r'"])
qed

lemma run_job_keeps: "run_job popen cfg opts j = Inr r \<Longrightarrow> is_break r = is_break j \<and> is_skip r = is_skip j"
  by (auto simp: run_job_def split: if_splits)

text \<open>Where every file can be read the results are concluded.\<close>

lemma conclude_total:
  assumes "\<And>f. \<exists>t. tmp_text f = Inr t"
  shows "\<exists>status out xml. conclude show_time tmp_text timed s = Inr (status, out, xml)"
proof -
  have one: "\<exists>r'. process_result show_time tmp_text timed j r = Inr r'" for j r
  proof -
    have "\<exists>x. result_xml show_time tmp_text j = Inr x"
      using assms [of "tmp_file_name j"] by (simp add: result_xml_def)
    then obtain x where "result_xml show_time tmp_text j = Inr x" by blast
    then show ?thesis by (simp add: process_result_def Let_def)
  qed
  have "\<exists>r'. process_results show_time tmp_text timed js r = Inr r'" for js r
  proof (induction js arbitrary: r)
    case (Cons j js)
    obtain r1 where "process_result show_time tmp_text timed j r = Inr r1" using one by blast
    with Cons.IH [of r1] show ?case by auto
  qed simp
  then show ?thesis by (force simp: conclude_def)
qed

text \<open>A job that runs an example, and programs that all return 0.\<close>

definition small_job :: job where
  "small_job = new_job\<lparr>is_example := True, display_name := ''e'', shell_command := ''e''\<rparr>"

definition ok_popen :: "string \<Rightarrow> string \<Rightarrow> popen_result" where
  "ok_popen cmd d = \<lparr>proc_returncode = 0, proc_stdout = Some '''', proc_stderr = Some '''', proc_time = 1\<rparr>"

lemma small_run: "\<exists>r. run_job ok_popen small_cfg small_opts small_job = Inr r \<and> returncode r = 0"
  by (simp add: run_job_def run_job_synchronously_def job_command_def small_job_def new_job_def ok_popen_def Let_def)

lemma small_system:
  assumes "0 < n"
  shows "\<exists>s. (step (run_job ok_popen small_cfg small_opts))\<^sup>*\<^sup>* (start n [small_job]) s \<and> main s = Finished
    \<and> \<not> thread_exit s"
  by (rule run_from_start [OF assms]) (use small_run in \<open>auto simp: small_job_def new_job_def\<close>)

lemma exit_status_facts:
  assumes "(step (run_job popen cfg opts))\<^sup>*\<^sup>* (start n js) s" and "\<forall>j \<in> set js. \<not> is_break j"
    and "main s = Finished" and "conclude show_time tmp_text timed s = Inr (status, out, xml)"
  shows "status \<in> {0, 1}
    \<and> (status = 0 \<longleftrightarrow> list_all (\<lambda>r. \<not> is_break r \<and> (is_skip r \<or> returncode r = 0)) (collected s))
    \<and> (\<not> thread_exit s \<longrightarrow>
         (status = 0 \<longleftrightarrow> (\<forall>j \<in> set js. is_skip j
            \<or> (\<exists>r. run_job popen cfg opts j = Inr r \<and> returncode r = 0))))"
proof -
  let ?run = "run_job popen cfg opts"
  let ?good = "\<lambda>r. \<not> is_break r \<and> (is_skip r \<or> returncode r = 0)"
  note res = workers_results_facts [OF assms(1-3)]
  from assms(4) obtain r where r: "process_results show_time tmp_text timed (collected s) empty_summary = Inr r"
    "status = exit_status (jobs s) r"
    by (auto simp: conclude_def)
  have jobs: "jobs s = length (collected s)"
    using inv_reachable [OF assms(1,2)] assms(3) by (auto simp: inv_def phase_ok_def)
  have st: "status \<in> {0, 1}" "status = 0 \<longleftrightarrow> list_all ?good (collected s)"
    using process_results_counts [OF r(1)] good_results [of "collected s"] r(2) jobs
    by (auto simp: exit_status_def empty_summary_def)
  have "list_all ?good (collected s) \<longleftrightarrow>
      (\<forall>j \<in> set js. is_skip j \<or> (\<exists>r. ?run j = Inr r \<and> returncode r = 0))" if "\<not> thread_exit s"
  proof -
    from res(3) that have "mset (collected s) = mset (map (outcome ?run) js)" by simp
    then have "set (collected s) = outcome ?run ` set js"
      by (metis image_set set_mset_mset)
    then have "list_all ?good (collected s) \<longleftrightarrow> (\<forall>j \<in> set js. ?good (outcome ?run j))"
      by (simp add: list_all_iff)
    also have "\<dots> \<longleftrightarrow> (\<forall>j \<in> set js. is_skip j \<or> (\<exists>r. ?run j = Inr r \<and> returncode r = 0))"
    proof (rule ball_cong [OF refl])
      fix j assume j: "j \<in> set js"
      have "is_skip j \<or> (\<exists>r. ?run j = Inr r)"
        using res(2) that j by blast
      then show "?good (outcome ?run j) \<longleftrightarrow> is_skip j \<or> (\<exists>r. ?run j = Inr r \<and> returncode r = 0)"
        using assms(2) j run_job_keeps [of popen cfg opts j] by (auto simp: outcome_def)
    qed
    finally show ?thesis .
  qed
  with st show ?thesis by blast
qed

section \<open>Properties\<close>

text \<open>
  C3. The exit status of \<open>run_tests\<close>, however the threads have been scheduled: it is 0 or 1, and 0
  exactly when every result is that of a skipped job or of one with return code 0 (none thrown
  back).  Without an interrupt this is so exactly when every job dispatched is to be skipped or ends
  with return code 0.
\<close>

theorem exit_status_correct:
  assumes "(step (run_job popen cfg opts))\<^sup>*\<^sup>* (start n js) s" and "\<forall>j \<in> set js. \<not> is_break j"
    and "main s = Finished" and "conclude show_time tmp_text timed s = Inr (status, out, xml)"
  shows "status \<in> {0, 1}
    \<and> (status = 0 \<longleftrightarrow> list_all (\<lambda>r. \<not> is_break r \<and> (is_skip r \<or> returncode r = 0)) (collected s))
    \<and> (\<not> thread_exit s \<longrightarrow>
         (status = 0 \<longleftrightarrow> (\<forall>j \<in> set js. is_skip j
            \<or> (\<exists>r. run_job popen cfg opts j = Inr r \<and> returncode r = 0))))"
  using exit_status_facts [OF assms] by blast

theorem exit_status_correct_witness:
  "\<exists>s :: system. \<exists>out xml. main s = Finished
     \<and> conclude (\<lambda>_. ''0.000'') (\<lambda>_. Inr '''') False s = Inr (0, out, xml)"
proof -
  obtain s where s: "(step (run_job ok_popen small_cfg small_opts))\<^sup>*\<^sup>* (start 2 [small_job]) s"
    "main s = Finished" "\<not> thread_exit s"
    using small_system [of 2] by auto
  obtain status out xml where c: "conclude (\<lambda>_. ''0.000'') (\<lambda>_. Inr '''') False s = Inr (status, out, xml)"
    using conclude_total [of "\<lambda>_. Inr ''''"] by blast
  have "\<forall>j \<in> set [small_job]. \<not> is_break j" by (simp add: small_job_def new_job_def)
  from exit_status_correct [OF s(1) this s(2) c] s(3) small_run have "status = 0" by auto
  with s(2) c show ?thesis by blast
qed

text \<open>
  C21. The summary does not depend on the scheduling: two runs over the same jobs that are not
  interrupted, with any numbers of worker threads, print the same counts and the same sorted
  lists of names and end with the same status.
\<close>

theorem summary_schedule_independent:
  assumes "(step (run_job popen cfg opts))\<^sup>*\<^sup>* (start n1 js) s1" and "main s1 = Finished" and "\<not> thread_exit s1"
    and "(step (run_job popen cfg opts))\<^sup>*\<^sup>* (start n2 js) s2" and "main s2 = Finished" and "\<not> thread_exit s2"
    and "\<forall>j \<in> set js. \<not> is_break j"
    and "conclude show_time tmp_text timed s1 = Inr (status1, out1, xml1)"
    and "conclude show_time tmp_text timed s2 = Inr (status2, out2, xml2)"
  shows "status1 = status2 \<and> out1 = out2"
proof -
  have m: "mset (collected s1) = mset (collected s2)"
    using workers_results_facts(3) [OF assms(1,7,2)] workers_results_facts(3) [OF assms(4,7,5)] assms(3,6)
    by simp
  moreover have "jobs s1 = length js" "jobs s2 = length js"
    using inv_reachable [OF assms(1,7)] inv_reachable [OF assms(4,7)] by (simp_all add: inv_def)
  moreover obtain r1 r2 where
    "process_results show_time tmp_text timed (collected s1) empty_summary = Inr r1"
    "status1 = exit_status (jobs s1) r1" "out1 = print_summary (jobs s1) r1"
    "process_results show_time tmp_text timed (collected s2) empty_summary = Inr r2"
    "status2 = exit_status (jobs s2) r2" "out2 = print_summary (jobs s2) r2"
    using assms(8,9) by (auto simp: conclude_def)
  ultimately show ?thesis
    using print_summary_mset by metis
qed

theorem summary_schedule_independent_witness:
  "\<exists>s1 s2 :: system. \<exists>status out xml1 xml2. length (workers s1) = 1 \<and> length (workers s2) = 2
     \<and> conclude (\<lambda>_. ''0.000'') (\<lambda>_. Inr '''') False s1 = Inr (status, out, xml1)
     \<and> conclude (\<lambda>_. ''0.000'') (\<lambda>_. Inr '''') False s2 = Inr (status, out, xml2)"
proof -
  let ?c = "conclude (\<lambda>_. ''0.000'') (\<lambda>_. Inr '''') False"
  obtain s1 where s1: "(step (run_job ok_popen small_cfg small_opts))\<^sup>*\<^sup>* (start 1 [small_job]) s1"
    "main s1 = Finished" "\<not> thread_exit s1"
    using small_system [of 1] by auto
  obtain s2 where s2: "(step (run_job ok_popen small_cfg small_opts))\<^sup>*\<^sup>* (start 2 [small_job]) s2"
    "main s2 = Finished" "\<not> thread_exit s2"
    using small_system [of 2] by auto
  have nb: "\<forall>j \<in> set [small_job]. \<not> is_break j" by (simp add: small_job_def new_job_def)
  obtain st1 o1 x1 st2 o2 x2 where c: "?c s1 = Inr (st1, o1, x1)" "?c s2 = Inr (st2, o2, x2)"
    using conclude_total [of "\<lambda>_. Inr ''''" "\<lambda>_. ''0.000''" False s1]
      conclude_total [of "\<lambda>_. Inr ''''" "\<lambda>_. ''0.000''" False s2] by blast
  from summary_schedule_independent [OF s1 s2 nb c] have "st1 = st2 \<and> o1 = o2" .
  moreover have "length (workers s1) = 1" "length (workers s2) = 2"
    using inv_reachable [OF s1(1) nb] inv_reachable [OF s2(1) nb] by (simp_all add: inv_def)
  ultimately show ?thesis using c by blast
qed

end
