(* ===== verification/Testpy_Translate.thy ===== *)
theory Testpy_Translate
  imports Prelude
begin

text \<open>
  \<^verbatim>\<open>test.py\<close>, fourth part: \<open>read_test\<close>, \<open>node_to_text\<close>, \<open>translate_to_text\<close> and
  \<open>translate_to_html\<close>, over the element tree that \<open>xml.etree.ElementTree\<close> makes of the results
  file.  An element whose text is missing has the text \<open>None\<close>; reading a child that is not there
  raises \<open>AttributeError\<close>.
\<close>

section \<open>Elements\<close>

datatype xml = Elem (xtag: string) (attrs: "(string, string) dict") (xtext: "string option") (kids: "xml list")

definition xfind :: "string \<Rightarrow> xml \<Rightarrow> xml option" where
  "xfind t e = List.find (\<lambda>c. xtag c = t) (kids e)"

definition findall :: "string \<Rightarrow> xml \<Rightarrow> xml list" where
  "findall t e = filter (\<lambda>c. xtag c = t) (kids e)"

definition find_text :: "string \<Rightarrow> xml \<Rightarrow> py_exn + string option" where
  "find_text t e = (case xfind t e of None \<Rightarrow> Inl AttributeError | Some c \<Rightarrow> Inr (xtext c))"

text \<open>\<^verbatim>\<open>'%s' % x\<close>\<close>

definition shown :: "string option \<Rightarrow> string" where
  "shown x = (case x of None \<Rightarrow> ''None'' | Some s \<Rightarrow> s)"

definition time_real :: "xml \<Rightarrow> string option" where
  "time_real e = (case xfind ''Time'' e of None \<Rightarrow> Some '''' | Some t \<Rightarrow> dget (attrs t) ''real'')"

record test_info =
  ti_result :: "string option"
  ti_name :: "string option"
  ti_reason :: "string option"
  ti_time :: "string option"

definition read_test :: "xml \<Rightarrow> py_exn + test_info" where
  "read_test test =
     rbind (find_text ''Result'' test) (\<lambda>result.
     rbind (find_text ''Name'' test) (\<lambda>name.
       let reason = (case xfind ''Reason'' test of None \<Rightarrow> Some '''' | Some r \<Rightarrow> xtext r)
       in Inr \<lparr>ti_result = result, ti_name = name, ti_reason = reason, ti_time = time_real test\<rparr>))"

section \<open>The text report\<close>

definition dquote :: char where
  "dquote = CHR 0x22"

definition test_line :: "test_info \<Rightarrow> string" where
  "test_line i =
     shown (ti_result i) @ '': Test Suite '' @ [dquote] @ shown (ti_name i) @ [dquote] @ '' (''
     @ shown (ti_time i) @ '')''
     @ (if ti_reason i = None \<or> ti_reason i = Some '''' then '''' else '' ('' @ shown (ti_reason i) @ '')'')
     @ [nl]"

definition details_lines :: "xml \<Rightarrow> py_exn + string list" where
  "details_lines details =
     rbind (mapM (\<lambda>(title, t). rbind (find_text t details) (\<lambda>s. Inr (''      '' @ title @ shown s @ [nl])))
              [(''Message:   '', ''Message''), (''Condition: '', ''Condition''), (''Actual:    '', ''Actual''),
               (''Limit:     '', ''Limit''), (''File:      '', ''File''), (''Line:      '', ''Line'')])
       (\<lambda>ls. Inr ((''    Details:'' @ [nl]) # ls))"

lemma mapM_cong [fundef_cong]:
  "xs = ys \<Longrightarrow> (\<And>x. x \<in> set ys \<Longrightarrow> f x = g x) \<Longrightarrow> mapM f xs = mapM g ys"
  by (induction ys arbitrary: xs) auto

lemma findall_size: "c \<in> set (findall t e) \<Longrightarrow> size c < size e"
proof -
  assume "c \<in> set (findall t e)"
  then have "c \<in> set (kids e)" by (simp add: findall_def)
  then have "size c \<le> size_list size (kids e)" by (rule size_list_estimation' [OF _ order_refl])
  then show ?thesis by (cases e) simp
qed

function node_to_text :: "xml \<Rightarrow> py_exn + string list" where
  "node_to_text test =
     rbind (read_test test) (\<lambda>i.
     rbind (mapM details_lines (findall ''FailureDetails'' test)) (\<lambda>details.
     rbind (mapM node_to_text (findall ''Test'' test)) (\<lambda>children.
       Inr (test_line i # concat details @ concat children))))"
  by pat_completeness auto
termination
  by (relation "measure size") (auto dest: findall_size)

declare node_to_text.simps [simp del]

definition example_line :: "xml \<Rightarrow> py_exn + string list" where
  "example_line example =
     rbind (find_text ''Result'' example) (\<lambda>result.
     rbind (find_text ''Name'' example) (\<lambda>name.
       Inr [shown result @ '': Example '' @ [dquote] @ shown name @ [dquote] @ '' ('' @ shown (time_real example)
            @ '')'' @ [nl]]))"

definition translate_to_text :: "xml \<Rightarrow> py_exn + string list" where
  "translate_to_text et =
     rbind (mapM node_to_text (findall ''Test'' et)) (\<lambda>tests.
     rbind (mapM example_line (findall ''Example'' et)) (\<lambda>exs. Inr (concat tests @ concat exs)))"

section \<open>The HTML report\<close>

text \<open>
  The report is written in pieces: start tags with their attributes, end tags and texts; newlines belong to the texts.
  The texts taken from the results are written as they are, without escaping.
\<close>

datatype html = Start string string | End string | Txt string

definition render_piece :: "html \<Rightarrow> string" where
  "render_piece p =
     (case p of
        Start t as \<Rightarrow> ''<'' @ t @ as @ ''>''
      | End t \<Rightarrow> ''</'' @ t @ ''>''
      | Txt s \<Rightarrow> s)"

definition render :: "html list \<Rightarrow> string" where
  "render ps = concat (map render_piece ps)"

definition colored :: "string \<Rightarrow> string \<Rightarrow> string \<Rightarrow> html list" where
  "colored t color s =
     [Start t ('' style='' @ [dquote] @ ''color:'' @ color @ [dquote]), Txt s, End t, Txt [nl]]"

definition elem :: "string \<Rightarrow> string \<Rightarrow> html list" where
  "elem t s = [Start t '''', Txt s, End t, Txt [nl]]"

definition open_tag :: "string \<Rightarrow> html list" where
  "open_tag t = [Start t '''', Txt [nl]]"

definition close_tag :: "string \<Rightarrow> html list" where
  "close_tag t = [End t, Txt [nl]]"

definition open_table :: "html list" where
  "open_table = [Start ''table'' ('' border='' @ [dquote] @ ''1'' @ [dquote]), Txt [nl]]"

definition suite_header :: "test_info \<Rightarrow> html list" where
  "suite_header i =
     (let r = shown (ti_result i); n = shown (ti_name i); t = shown (ti_time i)
      in if ti_result i = Some ''PASS'' then colored ''h3'' ''green'' (r @ '': '' @ n @ '' ('' @ t @ '')'')
         else if ti_result i = Some ''SKIP''
         then colored ''h3'' ''#ff6600'' (r @ '': '' @ n @ '' ('' @ t @ '') ('' @ shown (ti_reason i) @ '')'')
         else colored ''h3'' ''red'' (r @ '': '' @ n @ '' ('' @ t @ '')''))"

text \<open>The cell of failure details: six labelled texts, and the tags that follow them.\<close>

definition labelled :: "xml \<Rightarrow> string \<Rightarrow> string \<Rightarrow> py_exn + html list" where
  "labelled details t after_text =
     rbind (find_text t details) (\<lambda>s. Inr [Start ''b'' '''', Txt (t @ '': ''), End ''b'', Txt (shown s @ after_text)])"

definition details_row :: "test_info \<Rightarrow> bool \<Rightarrow> xml \<Rightarrow> py_exn + html list" where
  "details_row i first_row details =
     rbind (mapM (\<lambda>(t, a). labelled details t a)
              [(''Message'', '', ''), (''Condition'', '', ''), (''Actual'', '', ''), (''Limit'', '', ''),
               (''File'', '', ''), (''Line'', '''')])
       (\<lambda>cells. Inr (open_tag ''tr''
          @ (if first_row
             then colored ''td'' ''red'' (shown (ti_result i)) @ elem ''td'' (shown (ti_name i))
                  @ elem ''td'' (shown (ti_time i))
             else elem ''td'' '''' @ elem ''td'' '''' @ elem ''td'' '''')
          @ [Start ''td'' ''''] @ concat cells @ close_tag ''td''
          @ close_tag ''td''))"

fun details_rows :: "test_info \<Rightarrow> bool \<Rightarrow> xml list \<Rightarrow> py_exn + html list" where
  "details_rows i first_row [] = Inr []"
| "details_rows i first_row (d # ds) =
     rbind (details_row i first_row d) (\<lambda>r. rbind (details_rows i False ds) (\<lambda>rs. Inr (r @ rs)))"

definition case_rows :: "xml \<Rightarrow> py_exn + html list" where
  "case_rows c =
     rbind (read_test c) (\<lambda>i.
       if ti_result i = Some ''FAIL'' then details_rows i True (findall ''FailureDetails'' c)
       else Inr (open_tag ''tr'' @ colored ''td'' ''green'' (shown (ti_result i)) @ elem ''td'' (shown (ti_name i))
              @ elem ''td'' (shown (ti_time i)) @ elem ''td'' (shown (ti_reason i)) @ close_tag ''tr''))"

definition suite_html :: "xml \<Rightarrow> py_exn + html list" where
  "suite_html suite =
     rbind (read_test suite) (\<lambda>i.
       let head = suite_header i @ open_table @ elem ''th'' '' Result ''
       in if ti_result i \<in> {Some ''CRASH'', Some ''SKIP'', Some ''VALGR''}
          then Inr (head @ open_tag ''tr''
                 @ colored ''td'' (if ti_result i = Some ''SKIP'' then ''#ff6600'' else ''red'') (shown (ti_result i))
                 @ close_tag ''tr'' @ close_tag ''table'')
          else rbind (mapM case_rows (findall ''Test'' suite)) (\<lambda>rows.
                 Inr (head @ elem ''th'' ''Test Case Name'' @ elem ''th'' '' Time ''
                   @ (if ti_result i = Some ''FAIL'' then elem ''th'' ''Failure Details'' else [])
                   @ concat rows @ close_tag ''table'')))"

definition example_html :: "xml \<Rightarrow> py_exn + html list" where
  "example_html example =
     rbind (read_test example) (\<lambda>i.
       Inr (open_tag ''tr''
         @ (if ti_result i = Some ''PASS'' then colored ''td'' ''green'' (shown (ti_result i))
            else if ti_result i = Some ''SKIP''
            then [Start ''td'' ('' style='' @ [dquote] @ ''color:#ff6600'' @ [dquote]), Txt (shown (ti_result i)),
                  End ''fd'', Txt [nl]]
            else colored ''td'' ''red'' (shown (ti_result i)))
         @ elem ''td'' (shown (ti_name i)) @ elem ''td'' (shown (ti_time i)) @ elem ''td'' (shown (ti_reason i))
         @ close_tag ''tr''))"

definition html_pieces :: "xml \<Rightarrow> py_exn + html list" where
  "html_pieces et =
     rbind (mapM suite_html (findall ''Test'' et)) (\<lambda>suites.
     rbind (mapM example_html (findall ''Example'' et)) (\<lambda>exs.
       Inr (open_tag ''html'' @ open_tag ''body''
         @ [Start ''center'' '''', Start ''h1'' '''', Txt ''ns-3 Test Results'', End ''h1'', End ''center'', Txt [nl]]
         @ elem ''h2'' ''Test Suites'' @ concat suites @ elem ''h2'' ''Examples'' @ open_table
         @ elem ''th'' '' Result '' @ elem ''th'' ''Example Name'' @ elem ''th'' ''Elapsed Time''
         @ elem ''th'' ''Details'' @ concat exs @ close_tag ''table'' @ close_tag ''body'' @ close_tag ''html'')))"

definition translate_to_html :: "xml \<Rightarrow> py_exn + string" where
  "translate_to_html et = rbind (html_pieces et) (\<lambda>ps. Inr (render ps))"

section \<open>Reading the tags of a report\<close>

text \<open>
  The tags in a text, as a browser finds them: \<^verbatim>\<open><\<close> begins one when a letter, a slash, \<^verbatim>\<open>!\<close> or \<^verbatim>\<open>?\<close> follows, and the tag goes to the
  next \<^verbatim>\<open>>\<close>.  Names are compared in lower case.  Declarations and comments have no name.
\<close>

definition begins_tag :: "string \<Rightarrow> bool" where
  "begins_tag s = (case s of [] \<Rightarrow> False | c # _ \<Rightarrow> is_letter c \<or> c \<in> {CHR ''/'', CHR ''!'', CHR ''?''})"

definition in_name :: "char \<Rightarrow> bool" where
  "in_name c \<longleftrightarrow> \<not> is_space c \<and> c \<noteq> CHR ''/''"

definition tag_name :: "string \<Rightarrow> string" where
  "tag_name s = map to_lower (takeWhile in_name s)"

definition tag_of :: "string \<Rightarrow> html" where
  "tag_of s =
     (case s of
        [] \<Rightarrow> Txt []
      | c # t \<Rightarrow>
          if c = CHR ''/'' then End (tag_name t)
          else if is_letter c then Start (tag_name s) (dropWhile in_name s)
          else Txt s)"

function markup :: "string \<Rightarrow> html list" where
  "markup [] = []"
| "markup (c # s) =
     (if c = CHR ''<'' \<and> begins_tag s
      then if CHR ''>'' \<in> set s
           then tag_of (takeWhile (\<lambda>d. d \<noteq> CHR ''>'') s) # markup (tl (dropWhile (\<lambda>d. d \<noteq> CHR ''>'') s))
           else []
      else markup s)"
  by pat_completeness auto
termination
proof (relation "measure length")
  fix c s
  have "length (dropWhile (\<lambda>d. d \<noteq> CHR ''>'') s) \<le> length s" by (rule length_dropWhile_le)
  then show "(tl (dropWhile (\<lambda>d. d \<noteq> CHR ''>'') s), c # s) \<in> measure length" by simp
qed simp_all

section \<open>Balanced tags\<close>

text \<open>The tags still open after a list of pieces, innermost first; \<open>None\<close> after a wrong end tag.\<close>

fun nest :: "html list \<Rightarrow> string list \<Rightarrow> string list option" where
  "nest [] st = Some st"
| "nest (Start t a # ps) st = nest ps (t # st)"
| "nest (End t # ps) st = (case st of [] \<Rightarrow> None | u # us \<Rightarrow> if u = t then nest ps us else None)"
| "nest (Txt s # ps) st = nest ps st"

definition well_nested :: "string \<Rightarrow> bool" where
  "well_nested report \<longleftrightarrow> nest (markup report) [] = Some []"

text \<open>A text in which no tag begins, whatever follows it.\<close>

fun inert :: "string \<Rightarrow> bool" where
  "inert [] = True"
| "inert (c # s) = ((c = CHR ''<'' \<longrightarrow> s \<noteq> [] \<and> \<not> begins_tag s) \<and> inert s)"

lemma begins_tag_append [simp]: "s \<noteq> [] \<Longrightarrow> begins_tag (s @ t) = begins_tag s"
  by (cases s) (simp_all add: begins_tag_def)

lemma markup_inert: "inert s \<Longrightarrow> markup (s @ t) = markup t"
  by (induction s) auto

lemma inert_append: "inert s \<Longrightarrow> inert t \<Longrightarrow> inert (s @ t)"
  by (induction s) auto

text \<open>A piece that is read back as it was written.\<close>

definition tag_word :: "string \<Rightarrow> bool" where
  "tag_word t \<longleftrightarrow> t \<noteq> [] \<and> list_all (\<lambda>c. is_letter c \<or> is_digit c) t \<and> is_letter (hd t) \<and> map to_lower t = t"

fun piece_ok :: "html \<Rightarrow> bool" where
  "piece_ok (Start t as) \<longleftrightarrow> tag_word t \<and> (as = [] \<or> hd as = CHR '' '') \<and> CHR ''>'' \<notin> set as"
| "piece_ok (End t) \<longleftrightarrow> tag_word t"
| "piece_ok (Txt s) \<longleftrightarrow> inert s"

lemma tag_word_chars:
  assumes "tag_word t"
  shows "takeWhile in_name (t @ as) = t @ takeWhile in_name as" "dropWhile in_name (t @ as) = dropWhile in_name as"
    "CHR ''>'' \<notin> set t" "CHR ''/'' \<notin> set t" "takeWhile in_name t = t"
proof -
  have "\<forall>c \<in> set t. is_letter c \<or> is_digit c" using assms by (simp add: tag_word_def list_all_iff)
  then have "\<forall>c \<in> set t. in_name c \<and> c \<noteq> CHR ''>''"
    by (auto simp: in_name_def is_letter_def is_digit_def is_space_def)
  then show "takeWhile in_name (t @ as) = t @ takeWhile in_name as" "dropWhile in_name (t @ as) = dropWhile in_name as"
    "CHR ''>'' \<notin> set t" "CHR ''/'' \<notin> set t" "takeWhile in_name t = t"
    by (auto simp: in_name_def)
qed

lemma markup_tag:
  "CHR ''>'' \<notin> set s \<Longrightarrow> begins_tag s \<Longrightarrow> markup (CHR ''<'' # s @ CHR ''>'' # t) = tag_of s # markup t"
proof -
  assume gt: "CHR ''>'' \<notin> set s" and b: "begins_tag s"
  from b have "s \<noteq> []" by (auto simp: begins_tag_def)
  moreover have "takeWhile (\<lambda>d. d \<noteq> CHR ''>'') (s @ CHR ''>'' # t) = s" "dropWhile (\<lambda>d. d \<noteq> CHR ''>'') (s @ CHR ''>'' # t) = CHR ''>'' # t"
    using gt by (subst takeWhile_append2 dropWhile_append2; auto)+
  ultimately show ?thesis using b by (simp only: markup.simps) simp
qed

lemma markup_piece:
  assumes "piece_ok p"
  shows "nest (markup (render_piece p @ s)) st = nest (p # markup s) st"
proof (cases p)
  case (Start t as)
  with assms have t: "tag_word t" "as = [] \<or> hd as = CHR '' ''" "CHR ''>'' \<notin> set as" by auto
  obtain c u where c: "t = c # u" "is_letter c" "c \<noteq> CHR ''/''"
    using t(1) tag_word_chars(4) [OF t(1)] by (cases t) (auto simp: tag_word_def)
  have "tag_of (t @ as) = Start (tag_name (t @ as)) (dropWhile in_name (t @ as))" using c by (simp add: tag_of_def)
  moreover have "takeWhile in_name as = []" "dropWhile in_name as = as"
    using t(2) by (cases as; simp add: in_name_def is_space_def)+
  moreover have "map to_lower t = t" using t(1) by (simp add: tag_word_def)
  ultimately have "tag_of (t @ as) = Start t as" by (simp add: tag_name_def tag_word_chars [OF t(1)])
  moreover have "markup (CHR ''<'' # (t @ as) @ CHR ''>'' # s) = tag_of (t @ as) # markup s"
    using c t(3) tag_word_chars(3) [OF t(1)] by (intro markup_tag) (auto simp: begins_tag_def)
  ultimately show ?thesis by (simp add: Start render_piece_def)
next
  case (End t)
  with assms have t: "tag_word t" by simp
  then have "tag_of (CHR ''/'' # t) = End t"
    by (simp add: tag_of_def tag_name_def tag_word_chars(5)) (simp add: tag_word_def)
  moreover have "markup (CHR ''<'' # (CHR ''/'' # t) @ CHR ''>'' # s) = tag_of (CHR ''/'' # t) # markup s"
    using tag_word_chars(3) [OF t] by (intro markup_tag) (auto simp: begins_tag_def)
  ultimately show ?thesis by (simp add: End render_piece_def)
qed (use assms in \<open>simp add: render_piece_def markup_inert\<close>)

lemma nest_append: "nest (ps @ qs) st = Option.bind (nest ps st) (nest qs)"
  by (induction ps st rule: nest.induct) (auto split: list.splits)

lemma nest_Cons: "nest (p # ps) st = Option.bind (nest [p] st) (nest ps)"
  using nest_append [of "[p]" ps st] by simp

lemma markup_render: "list_all piece_ok ps \<Longrightarrow> nest (markup (render ps)) st = nest ps st"
proof (induction ps arbitrary: st)
  case (Cons p ps)
  have "nest (markup (render (p # ps))) st = nest (p # markup (render ps)) st"
    using Cons.prems by (simp add: render_def markup_piece)
  also have "\<dots> = Option.bind (nest [p] st) (nest (markup (render ps)))" by (rule nest_Cons)
  also have "\<dots> = Option.bind (nest [p] st) (nest ps)" using Cons by (intro Option.bind_cong) simp_all
  finally show ?case by (simp add: nest_Cons [of p ps])
qed (simp add: render_def)

text \<open>A block is neutral when it leaves every stack as it is, and broken when it fails on every stack.\<close>

definition neutral :: "html list \<Rightarrow> bool" where
  "neutral ps \<longleftrightarrow> (\<forall>st. nest ps st = Some st)"

definition broken :: "html list \<Rightarrow> bool" where
  "broken ps \<longleftrightarrow> (\<forall>st. nest ps st = None)"

lemma neutral_concat: "(\<And>p. p \<in> set pss \<Longrightarrow> neutral p) \<Longrightarrow> neutral (concat pss)"
  by (induction pss) (auto simp: neutral_def nest_append)

lemma broken_concat:
  assumes "\<And>p. p \<in> set pss \<Longrightarrow> neutral p \<or> broken p" and "\<exists>p \<in> set pss. broken p"
  shows "broken (concat pss)"
  using assms
proof (induction pss)
  case (Cons p pss)
  show ?case
  proof (cases "broken p")
    case True
    then show ?thesis by (simp add: broken_def nest_append)
  next
    case False
    with Cons.prems have "neutral p" "\<exists>q \<in> set pss. broken q" by auto
    with Cons show ?thesis by (auto simp: broken_def neutral_def nest_append)
  qed
qed simp

lemma neutral_simps [simp]:
  "neutral []" "neutral (elem t s)" "neutral (colored t c s)" "neutral [Txt s]"
  by (simp_all add: neutral_def elem_def colored_def)

lemma nest_neutral: "neutral ps \<Longrightarrow> nest (ps @ qs) st = nest qs st"
  by (simp add: neutral_def nest_append)

lemma neutral_append: "neutral ps \<Longrightarrow> neutral qs \<Longrightarrow> neutral (ps @ qs)"
  by (simp add: neutral_def nest_append)

text \<open>An element around pieces is neutral or broken as they are.\<close>

lemma around:
  assumes "nest opening = (\<lambda>st. Some (t # st))"
  shows "neutral ps \<Longrightarrow> neutral (opening @ ps @ close_tag t)"
    and "broken ps \<Longrightarrow> broken (opening @ ps @ qs)"
  using assms by (simp_all add: neutral_def broken_def nest_append close_tag_def)

lemma nest_open [simp]:
  "nest (open_tag t) = (\<lambda>st. Some (t # st))" "nest open_table = (\<lambda>st. Some (''table'' # st))"
  "nest [Start t a] = (\<lambda>st. Some (t # st))"
  by (auto simp: open_tag_def open_table_def)

lemma nest_pieces [simp]:
  "nest (elem t s) st = Some st" "nest (colored t c s) st = Some st"
  "nest (close_tag t) (u # st) = (if u = t then Some st else None)"
  by (simp_all add: elem_def colored_def close_tag_def)

lemma neutral_then_broken: "neutral ps \<Longrightarrow> broken qs \<Longrightarrow> broken (ps @ qs)"
  by (simp add: neutral_def broken_def nest_append)

lemma broken_then: "broken ps \<Longrightarrow> broken (ps @ qs)"
  by (simp add: broken_def nest_append)

lemma labelled_neutral: "labelled d t a = Inr ps \<Longrightarrow> neutral ps"
  by (auto simp: labelled_def neutral_def)

text \<open>A row of failure details ends with the wrong tag.\<close>

lemma details_row_broken:
  assumes "details_row i b d = Inr ps"
  shows "broken ps"
proof -
  from assms obtain cells where cells: "mapM (\<lambda>(t, a). labelled d t a)
      [(''Message'', '', ''), (''Condition'', '', ''), (''Actual'', '', ''), (''Limit'', '', ''),
       (''File'', '', ''), (''Line'', '''')] = Inr cells"
    and ps: "ps = open_tag ''tr''
          @ (if b then colored ''td'' ''red'' (shown (ti_result i)) @ elem ''td'' (shown (ti_name i))
                  @ elem ''td'' (shown (ti_time i))
             else elem ''td'' '''' @ elem ''td'' '''' @ elem ''td'' '''')
          @ [Start ''td'' ''''] @ concat cells @ close_tag ''td'' @ close_tag ''td''"
    unfolding details_row_def rbind_eq_Inr by blast
  have "neutral c" if "c \<in> set cells" for c
    using that labelled_neutral unfolding mapM_Inr_set [OF cells] by auto
  then have "neutral (concat cells)" by (rule neutral_concat)
  then have "neutral ([Start ''td'' ''''] @ concat cells @ close_tag ''td'')"
    by (intro around(1)) auto
  then have "nest ([Start ''td'' ''''] @ concat cells @ close_tag ''td'' @ close_tag ''td'') st
      = nest (close_tag ''td'') st" for st
    using nest_neutral [of "[Start ''td'' ''''] @ concat cells @ close_tag ''td''" "close_tag ''td''" st] by simp
  moreover have "neutral (if b then colored ''td'' ''red'' (shown (ti_result i)) @ elem ''td'' (shown (ti_name i))
                  @ elem ''td'' (shown (ti_time i))
             else elem ''td'' '''' @ elem ''td'' '''' @ elem ''td'' '''')"
    by (auto intro!: neutral_append)
  ultimately show ?thesis
    unfolding ps broken_def by (simp add: nest_append neutral_def close_tag_def del: append.simps)
qed

lemma details_rows_broken:
  "details_rows i b ds = Inr ps \<Longrightarrow> if ds = [] then neutral ps else broken ps"
  by (cases ds) (auto dest!: details_row_broken intro: broken_then)

definition result_of :: "xml \<Rightarrow> string option" where
  "result_of e = (case xfind ''Result'' e of None \<Rightarrow> None | Some c \<Rightarrow> xtext c)"

lemma read_test_result: "read_test e = Inr i \<Longrightarrow> ti_result i = result_of e"
  by (auto simp: read_test_def find_text_def result_of_def Let_def split: option.splits)

definition failing_case :: "xml \<Rightarrow> bool" where
  "failing_case c \<longleftrightarrow> result_of c = Some ''FAIL'' \<and> findall ''FailureDetails'' c \<noteq> []"

lemma case_rows_nest:
  assumes "case_rows c = Inr ps"
  shows "if failing_case c then broken ps else neutral ps"
proof -
  from assms obtain i where i: "read_test c = Inr i"
    "(if ti_result i = Some ''FAIL'' then details_rows i True (findall ''FailureDetails'' c)
      else Inr (open_tag ''tr'' @ (colored ''td'' ''green'' (shown (ti_result i)) @ elem ''td'' (shown (ti_name i))
              @ elem ''td'' (shown (ti_time i)) @ elem ''td'' (shown (ti_reason i))) @ close_tag ''tr'')) = Inr ps"
    unfolding case_rows_def rbind_eq_Inr append_assoc by blast
  show ?thesis
  proof (cases "ti_result i = Some ''FAIL''")
    case True
    with i details_rows_broken [of i True "findall ''FailureDetails'' c" ps] read_test_result [OF i(1)]
    show ?thesis by (simp add: failing_case_def split: if_splits)
  next
    case False
    with i(2) have "neutral ps" by (auto simp: neutral_def nest_append)
    with False read_test_result [OF i(1)] show ?thesis by (simp add: failing_case_def)
  qed
qed

definition broken_suite :: "xml \<Rightarrow> bool" where
  "broken_suite s \<longleftrightarrow> result_of s \<notin> {Some ''CRASH'', Some ''SKIP'', Some ''VALGR''}
     \<and> list_ex failing_case (findall ''Test'' s)"

lemma suite_header_neutral [simp]: "neutral (suite_header i)"
  by (simp add: suite_header_def Let_def)

lemma suite_html_nest:
  assumes "suite_html s = Inr ps"
  shows "if broken_suite s then broken ps else neutral ps"
proof -
  obtain i where i: "read_test s = Inr i" using assms by (auto simp: suite_html_def)
  note r = read_test_result [OF i]
  have th: "neutral (elem ''th'' x)" for x by simp
  show ?thesis
  proof (cases "ti_result i \<in> {Some ''CRASH'', Some ''SKIP'', Some ''VALGR''}")
    case True
    let ?c = "colored ''td'' (if ti_result i = Some ''SKIP'' then ''#ff6600'' else ''red'') (shown (ti_result i))"
    have "neutral (suite_header i @ open_table @ (elem ''th'' '' Result '' @ (open_tag ''tr'' @ ?c @ close_tag ''tr''))
        @ close_tag ''table'')"
      using nest_neutral [OF suite_header_neutral] by (simp add: neutral_def nest_append)
    moreover have "ps = suite_header i @ open_table @ (elem ''th'' '' Result '' @ (open_tag ''tr'' @ ?c @ close_tag ''tr''))
        @ close_tag ''table''"
      using assms True i by (simp add: suite_html_def Let_def)
    ultimately show ?thesis using True r by (simp add: broken_suite_def)
  next
    case False
    let ?f = "if ti_result i = Some ''FAIL'' then elem ''th'' ''Failure Details'' else []"
    obtain rows where rows: "mapM case_rows (findall ''Test'' s) = Inr rows"
      and ps: "ps = suite_header i @ open_table @ ((elem ''th'' '' Result '' @ elem ''th'' ''Test Case Name''
        @ elem ''th'' '' Time '' @ ?f) @ concat rows) @ close_tag ''table''"
      using assms False i by (auto simp: suite_html_def Let_def)
    have head: "neutral (elem ''th'' '' Result '' @ elem ''th'' ''Test Case Name'' @ elem ''th'' '' Time '' @ ?f)"
      by (simp add: neutral_def nest_append)
    have kinds: "neutral q \<or> broken q" if "q \<in> set rows" for q
    proof -
      from that obtain c where "case_rows c = Inr q" unfolding mapM_Inr_set [OF rows] by blast
      from case_rows_nest [OF this] show ?thesis by (auto split: if_splits)
    qed
    show ?thesis
    proof (cases "list_ex failing_case (findall ''Test'' s)")
      case True
      then obtain c where c: "c \<in> set (findall ''Test'' s)" "failing_case c" by (auto simp: list_ex_iff)
      then obtain q where q: "case_rows c = Inr q" using mapM_Inr_each [OF rows] by blast
      then have "q \<in> set rows" using c(1) unfolding mapM_Inr_set [OF rows] by blast
      with c case_rows_nest [OF q] have "\<exists>q \<in> set rows. broken q" by auto
      with kinds have "broken (concat rows)" by (rule broken_concat)
      then have "broken ((elem ''th'' '' Result '' @ elem ''th'' ''Test Case Name'' @ elem ''th'' '' Time '' @ ?f) @ concat rows)"
        by (rule neutral_then_broken [OF head])
      then have "broken ps"
        unfolding ps by (rule neutral_then_broken [OF suite_header_neutral around(2) [OF nest_open(2)]])
      with True False r show ?thesis by (simp add: broken_suite_def)
    next
      case none: False
      have "neutral q" if "q \<in> set rows" for q
      proof -
        from that obtain c where "c \<in> set (findall ''Test'' s)" "case_rows c = Inr q"
          unfolding mapM_Inr_set [OF rows] by blast
        with case_rows_nest [of c q] none show ?thesis by (auto simp: list_ex_iff)
      qed
      then have "neutral (concat rows)" by (rule neutral_concat)
      then have "neutral ps"
        unfolding ps
        by (rule neutral_append [OF suite_header_neutral around(1) [OF nest_open(2) neutral_append [OF head]]])
      with none show ?thesis by (simp add: broken_suite_def)
    qed
  qed
qed

lemma example_html_nest:
  assumes "example_html e = Inr ps"
  shows "if result_of e = Some ''SKIP'' then broken ps else neutral ps"
proof -
  obtain i where i: "read_test e = Inr i" using assms by (auto simp: example_html_def)
  note r = read_test_result [OF i]
  let ?rest = "elem ''td'' (shown (ti_name i)) @ elem ''td'' (shown (ti_time i)) @ elem ''td'' (shown (ti_reason i))"
  show ?thesis
  proof (cases "ti_result i = Some ''SKIP''")
    case True
    then have "broken ps"
      using assms i by (auto simp: example_html_def broken_def nest_append)
    with True r show ?thesis by simp
  next
    case False
    then have ps: "ps = open_tag ''tr'' @ (colored ''td'' (if ti_result i = Some ''PASS'' then ''green'' else ''red'')
        (shown (ti_result i)) @ ?rest) @ close_tag ''tr''"
      using assms i by (auto simp: example_html_def)
    have "neutral ps"
      unfolding ps by (simp add: neutral_def nest_append)
    with False r show ?thesis by simp
  qed
qed

section \<open>The texts of the results\<close>

text \<open>All the strings of a results file that can come into a report: the texts of the elements and the values of the attributes.\<close>

function strings_of :: "xml \<Rightarrow> string list" where
  "strings_of (Elem t as x ks) =
     map snd as @ (case x of None \<Rightarrow> [] | Some s \<Rightarrow> [s]) @ concat (map strings_of ks)"
  by pat_completeness auto
termination by (relation "measure size") (auto simp: less_Suc_eq_le size_list_estimation')

lemma strings_of_kid: "c \<in> set (kids e) \<Longrightarrow> set (strings_of c) \<subseteq> set (strings_of e)"
  by (cases e) auto

lemma strings_of_parts: "xtext e = Some s \<Longrightarrow> s \<in> set (strings_of e)" "dget (attrs e) k = Some s \<Longrightarrow> s \<in> set (strings_of e)"
proof -
  show "xtext e = Some s \<Longrightarrow> s \<in> set (strings_of e)" by (cases e) simp
  assume "dget (attrs e) k = Some s"
  then have "(k, s) \<in> set (attrs e)" by (rule map_of_SomeD)
  then have "s \<in> snd ` set (attrs e)" by (auto intro: rev_image_eqI)
  then show "s \<in> set (strings_of e)" by (cases e) simp
qed

definition plain :: "xml \<Rightarrow> bool" where
  "plain e \<longleftrightarrow> (\<forall>s \<in> set (strings_of e). inert s)"

lemma plain_kid: "plain e \<Longrightarrow> c \<in> set (kids e) \<Longrightarrow> plain c"
  using strings_of_kid [of c e] by (auto simp: plain_def)

lemma plain_findall: "plain e \<Longrightarrow> c \<in> set (findall t e) \<Longrightarrow> plain c"
  by (rule plain_kid [of e]) (auto simp: findall_def)

lemma plain_xfind: "plain e \<Longrightarrow> xfind t e = Some c \<Longrightarrow> plain c"
  by (rule plain_kid) (auto simp: xfind_def find_Some_iff in_set_conv_nth)

lemma shown_Some: "shown (Some s) = s"
  by (simp add: shown_def)

lemma inert_shown: "(\<And>s. x = Some s \<Longrightarrow> inert s) \<Longrightarrow> inert (shown x)"
  by (cases x) (simp_all add: shown_def)

lemma plain_xtext: "plain e \<Longrightarrow> inert (shown (xtext e))"
  by (rule inert_shown) (auto simp: plain_def dest: strings_of_parts)

lemma plain_find_text: "plain e \<Longrightarrow> find_text t e = Inr x \<Longrightarrow> inert (shown x)"
  using plain_xtext plain_xfind by (fastforce simp: find_text_def split: option.splits)

lemma plain_time: "plain e \<Longrightarrow> inert (shown (time_real e))"
proof (rule inert_shown)
  fix s
  assume e: "plain e" and s: "time_real e = Some s"
  show "inert s"
  proof (cases "xfind ''Time'' e")
    case None
    with s show ?thesis by (simp add: time_real_def)
  next
    case (Some t)
    with e s plain_xfind [OF e Some] show ?thesis by (auto simp: time_real_def plain_def dest: strings_of_parts)
  qed
qed

lemma plain_read_test:
  assumes "plain e" and "read_test e = Inr i"
  shows "inert (shown (ti_result i))" "inert (shown (ti_name i))" "inert (shown (ti_reason i))" "inert (shown (ti_time i))"
proof -
  from assms(2) obtain r n where r: "find_text ''Result'' e = Inr r" "find_text ''Name'' e = Inr n"
    and i: "i = \<lparr>ti_result = r, ti_name = n,
      ti_reason = (case xfind ''Reason'' e of None \<Rightarrow> Some [] | Some r \<Rightarrow> xtext r), ti_time = time_real e\<rparr>"
    by (auto simp: read_test_def Let_def)
  from r i plain_find_text [OF assms(1)] plain_time [OF assms(1)]
  show "inert (shown (ti_result i))" "inert (shown (ti_name i))" "inert (shown (ti_time i))" by auto
  show "inert (shown (ti_reason i))"
    using i plain_xtext [OF plain_xfind [OF assms(1)]] by (cases "xfind ''Reason'' e") (simp_all add: shown_def)
qed

text \<open>The pieces written for plain results are read back as they were written.\<close>

definition pieces_ok :: "html list \<Rightarrow> bool" where
  "pieces_ok ps \<longleftrightarrow> list_all piece_ok ps"

lemma pieces_ok_append [simp]:
  "pieces_ok []" "pieces_ok (ps @ qs) \<longleftrightarrow> pieces_ok ps \<and> pieces_ok qs" "pieces_ok (p # ps) \<longleftrightarrow> piece_ok p \<and> pieces_ok ps"
  "pieces_ok (concat pss) \<longleftrightarrow> (\<forall>ps \<in> set pss. pieces_ok ps)"
  by (auto simp: pieces_ok_def list_all_iff)

lemma pieces_ok_mapM:
  assumes "mapM f xs = Inr pss" and "\<And>x ps. x \<in> set xs \<Longrightarrow> f x = Inr ps \<Longrightarrow> pieces_ok ps"
  shows "pieces_ok (concat pss)"
proof -
  have "pieces_ok ps" if "ps \<in> set pss" for ps
    using that assms(2) unfolding mapM_Inr_set [OF assms(1)] by blast
  then show ?thesis by simp
qed

lemma tag_words [simp]:
  "tag_word ''html''" "tag_word ''body''" "tag_word ''center''" "tag_word ''h1''" "tag_word ''h2''" "tag_word ''h3''"
  "tag_word ''table''" "tag_word ''th''" "tag_word ''tr''" "tag_word ''td''" "tag_word ''fd''" "tag_word ''b''"
  by code_simp+

lemma blocks_ok [simp]:
  "tag_word t \<Longrightarrow> pieces_ok (elem t s) \<longleftrightarrow> inert s"
  "tag_word t \<Longrightarrow> CHR ''>'' \<notin> set c \<Longrightarrow> pieces_ok (colored t c s) \<longleftrightarrow> inert s"
  "tag_word t \<Longrightarrow> pieces_ok (open_tag t)" "tag_word t \<Longrightarrow> pieces_ok (close_tag t)" "pieces_ok open_table"
  by (simp_all add: elem_def colored_def open_tag_def close_tag_def open_table_def dquote_def)

lemma labelled_ok: "plain d \<Longrightarrow> labelled d t a = Inr ps \<Longrightarrow> inert (t @ '': '') \<Longrightarrow> inert a \<Longrightarrow> pieces_ok ps"
  by (auto simp: labelled_def intro: inert_append [OF plain_find_text])

lemma details_row_ok:
  assumes "plain d" and "inert (shown (ti_result i))" "inert (shown (ti_name i))" "inert (shown (ti_time i))"
    and "details_row i b d = Inr ps"
  shows "pieces_ok ps"
proof -
  let ?ls = "[(''Message'', '', ''), (''Condition'', '', ''), (''Actual'', '', ''), (''Limit'', '', ''),
       (''File'', '', ''), (''Line'', [])]"
  from assms(5) obtain cells where cells: "mapM (\<lambda>(t, a). labelled d t a) ?ls = Inr cells"
    and ps: "ps = open_tag ''tr''
          @ (if b then colored ''td'' ''red'' (shown (ti_result i)) @ elem ''td'' (shown (ti_name i))
                  @ elem ''td'' (shown (ti_time i))
             else elem ''td'' [] @ elem ''td'' [] @ elem ''td'' [])
          @ [Start ''td'' []] @ concat cells @ close_tag ''td'' @ close_tag ''td''"
    unfolding details_row_def rbind_eq_Inr by blast
  have "list_all (\<lambda>(t, a). inert (t @ '': '') \<and> inert a) ?ls" by code_simp
  then have "pieces_ok c" if "c \<in> set cells" for c
    using that labelled_ok [OF assms(1)] unfolding mapM_Inr_set [OF cells] by (auto simp: list_all_iff)
  with assms(2-4) show ?thesis by (simp add: ps)
qed

lemma details_rows_ok:
  assumes "\<forall>d \<in> set ds. plain d" and "inert (shown (ti_result i))" "inert (shown (ti_name i))" "inert (shown (ti_time i))"
    and "details_rows i b ds = Inr ps"
  shows "pieces_ok ps"
  using assms
proof (induction i b ds arbitrary: ps rule: details_rows.induct)
  case (2 i b d ds)
  from 2(6) obtain r rs where r: "details_row i b d = Inr r" "details_rows i False ds = Inr rs" "ps = r @ rs" by auto
  with 2 details_row_ok [of d i b r] show ?case by simp
qed simp

lemma case_rows_ok:
  assumes "plain c" and "case_rows c = Inr ps"
  shows "pieces_ok ps"
proof -
  obtain i where i: "read_test c = Inr i" using assms(2) by (auto simp: case_rows_def)
  note in_i = plain_read_test [OF assms(1) i]
  show ?thesis
  proof (cases "ti_result i = Some ''FAIL''")
    case True
    with assms(2) i have "details_rows i True (findall ''FailureDetails'' c) = Inr ps" by (simp add: case_rows_def)
    with in_i plain_findall [OF assms(1)] show ?thesis by (intro details_rows_ok) auto
  next
    case False
    with assms(2) i have "ps = open_tag ''tr'' @ colored ''td'' ''green'' (shown (ti_result i)) @ elem ''td'' (shown (ti_name i))
              @ elem ''td'' (shown (ti_time i)) @ elem ''td'' (shown (ti_reason i)) @ close_tag ''tr''"
      by (simp add: case_rows_def)
    with in_i show ?thesis by simp
  qed
qed

lemma suite_html_ok:
  assumes "plain e" and "suite_html e = Inr ps"
  shows "pieces_ok ps"
proof -
  obtain i where i: "read_test e = Inr i" using assms(2) by (auto simp: suite_html_def)
  note in_i = plain_read_test [OF assms(1) i]
  have "pieces_ok (suite_header i)"
    using in_i by (simp add: suite_header_def Let_def begins_tag_def is_letter_def inert_append shown_Some)
  moreover have "pieces_ok (concat rows)" if "mapM case_rows (findall ''Test'' e) = Inr rows" for rows
    using that by (rule pieces_ok_mapM) (rule case_rows_ok [OF plain_findall [OF assms(1)]])
  ultimately show ?thesis
    using assms(2) i in_i by (auto simp: suite_html_def Let_def shown_Some begins_tag_def is_letter_def split: if_splits)
qed

lemma example_html_ok: "plain e \<Longrightarrow> example_html e = Inr ps \<Longrightarrow> pieces_ok ps"
  using plain_read_test by (auto simp: example_html_def dquote_def shown_Some split: if_splits)

lemma html_pieces_ok:
  assumes "plain et" and "html_pieces et = Inr ps"
  shows "pieces_ok ps"
proof -
  from assms obtain suites exs where suites: "mapM suite_html (findall ''Test'' et) = Inr suites"
    and exs: "mapM example_html (findall ''Example'' et) = Inr exs"
    and ps: "ps = open_tag ''html'' @ open_tag ''body''
         @ [Start ''center'' [], Start ''h1'' [], Txt ''ns-3 Test Results'', End ''h1'', End ''center'', Txt [nl]]
         @ elem ''h2'' ''Test Suites'' @ concat suites @ elem ''h2'' ''Examples'' @ open_table
         @ elem ''th'' '' Result '' @ elem ''th'' ''Example Name'' @ elem ''th'' ''Elapsed Time''
         @ elem ''th'' ''Details'' @ concat exs @ close_tag ''table'' @ close_tag ''body'' @ close_tag ''html''"
    unfolding html_pieces_def rbind_eq_Inr by auto
  have "pieces_ok (concat suites)"
    using suites by (rule pieces_ok_mapM) (rule suite_html_ok [OF plain_findall [OF assms(1)]])
  moreover have "pieces_ok (concat exs)"
    using exs by (rule pieces_ok_mapM) (rule example_html_ok [OF plain_findall [OF assms(1)]])
  ultimately show ?thesis by (simp add: ps del: pieces_ok_append(4))
qed

lemma pieces_nested:
  assumes "html_pieces et = Inr ps"
  shows "nest ps [] = Some [] \<longleftrightarrow> \<not> (\<exists>s \<in> set (findall ''Test'' et). broken_suite s)
      \<and> \<not> (\<exists>e \<in> set (findall ''Example'' et). result_of e = Some ''SKIP'')"
proof -
  from assms obtain suites exs where suites: "mapM suite_html (findall ''Test'' et) = Inr suites"
    and exs: "mapM example_html (findall ''Example'' et) = Inr exs"
    and ps: "ps = open_tag ''html'' @ open_tag ''body''
         @ [Start ''center'' [], Start ''h1'' [], Txt ''ns-3 Test Results'', End ''h1'', End ''center'', Txt [nl]]
         @ elem ''h2'' ''Test Suites'' @ concat suites @ elem ''h2'' ''Examples'' @ open_table
         @ elem ''th'' '' Result '' @ elem ''th'' ''Example Name'' @ elem ''th'' ''Elapsed Time''
         @ elem ''th'' ''Details'' @ concat exs @ close_tag ''table'' @ close_tag ''body'' @ close_tag ''html''"
    unfolding html_pieces_def rbind_eq_Inr by auto
  have s: "if \<exists>s \<in> set (findall ''Test'' et). broken_suite s then broken (concat suites) else neutral (concat suites)"
  proof (cases "\<exists>s \<in> set (findall ''Test'' et). broken_suite s")
    case True
    then obtain x q where x: "x \<in> set (findall ''Test'' et)" "broken_suite x" "suite_html x = Inr q"
      using mapM_Inr_each [OF suites] by blast
    have "q \<in> set suites" using x(1,3) unfolding mapM_Inr_set [OF suites] by blast
    then have "\<exists>q \<in> set suites. broken q"
      using x(2) suite_html_nest [OF x(3)] by auto
    moreover have "neutral q \<or> broken q" if "q \<in> set suites" for q
      using that suite_html_nest unfolding mapM_Inr_set [OF suites] by (metis (full_types))
    ultimately have "broken (concat suites)" by (intro broken_concat)
    with True show ?thesis by simp
  next
    case False
    have "neutral q" if "q \<in> set suites" for q
      using that False suite_html_nest unfolding mapM_Inr_set [OF suites] by (metis (full_types))
    then have "neutral (concat suites)" by (rule neutral_concat)
    with False show ?thesis by simp
  qed
  have e: "if \<exists>e \<in> set (findall ''Example'' et). result_of e = Some ''SKIP'' then broken (concat exs) else neutral (concat exs)"
  proof (cases "\<exists>e \<in> set (findall ''Example'' et). result_of e = Some ''SKIP''")
    case True
    then obtain x q where x: "x \<in> set (findall ''Example'' et)" "result_of x = Some ''SKIP''" "example_html x = Inr q"
      using mapM_Inr_each [OF exs] by blast
    have "q \<in> set exs" using x(1,3) unfolding mapM_Inr_set [OF exs] by blast
    then have "\<exists>q \<in> set exs. broken q"
      using x(2) example_html_nest [OF x(3)] by auto
    moreover have "neutral q \<or> broken q" if "q \<in> set exs" for q
      using that example_html_nest unfolding mapM_Inr_set [OF exs] by (metis (full_types))
    ultimately have "broken (concat exs)" by (intro broken_concat)
    with True show ?thesis by simp
  next
    case False
    have "neutral q" if "q \<in> set exs" for q
      using that False example_html_nest unfolding mapM_Inr_set [OF exs] by (metis (full_types))
    then have "neutral (concat exs)" by (rule neutral_concat)
    with False show ?thesis by simp
  qed
  have "nest ps [] = (if broken (concat suites) \<or> broken (concat exs) then None else Some [])"
    unfolding ps using s e
    by (auto simp: nest_append neutral_def broken_def elem_def open_table_def open_tag_def close_tag_def split: if_splits)
  moreover have "\<not> (neutral x \<and> broken x)" for x by (auto simp: neutral_def broken_def)
  ultimately show ?thesis
    using s e by (auto split: if_splits)
qed

text \<open>
  C35. The HTML report, as a browser reads it, is well nested exactly when no test case that failed with details is listed
  and no example was skipped: the rows of failure details end with an end tag of a cell in place of one of a
  row, and the cell of a skipped example with an unknown end tag.  This is for results in whose texts no tag begins; texts are written
  into the report as they are, and \<open>type_name_not_nested\<close> below shows what becomes of a name with a type in it.
\<close>

theorem html_balanced_iff:
  assumes "\<forall>text \<in> set (strings_of et). inert text" and "translate_to_html et = Inr report"
  shows "well_nested report \<longleftrightarrow>
     (\<forall>s \<in> set (findall ''Test'' et). result_of s \<in> {Some ''CRASH'', Some ''SKIP'', Some ''VALGR''}
        \<or> (\<forall>c \<in> set (findall ''Test'' s). result_of c = Some ''FAIL'' \<longrightarrow> findall ''FailureDetails'' c = []))
   \<and> (\<forall>e \<in> set (findall ''Example'' et). result_of e \<noteq> Some ''SKIP'')"
proof -
  from assms(2) obtain pieces where pieces: "html_pieces et = Inr pieces" and report: "report = render pieces"
    by (auto simp: translate_to_html_def)
  have "pieces_ok pieces" by (rule html_pieces_ok [OF _ pieces]) (simp add: plain_def assms(1))
  then have read: "nest (markup report) [] = nest pieces []" by (simp add: report pieces_ok_def markup_render)
  have "nest pieces [] = Some [] \<longleftrightarrow> \<not> (\<exists>s \<in> set (findall ''Test'' et). broken_suite s)
      \<and> \<not> (\<exists>e \<in> set (findall ''Example'' et). result_of e = Some ''SKIP'')"
    by (rule pieces_nested [OF pieces])
  then show ?thesis
    by (auto simp: well_nested_def read broken_suite_def failing_case_def list_ex_iff)
qed

definition small_results :: xml where
  "small_results = Elem ''Results'' [] None
     [Elem ''Test'' [] None [Elem ''Result'' [] (Some ''PASS'') [], Elem ''Name'' [] (Some ''a'') []],
      Elem ''Example'' [] None [Elem ''Result'' [] (Some ''SKIP'') [], Elem ''Name'' [] (Some ''e'') []]]"

theorem html_balanced_iff_witness:
  "\<exists>report. translate_to_html small_results = Inr report \<and> \<not> well_nested report"
proof -
  have "\<exists>report. translate_to_html small_results = Inr report"
    by (simp add: translate_to_html_def html_pieces_def small_results_def findall_def suite_html_def example_html_def
        read_test_def find_text_def xfind_def Let_def)
  then obtain report where report: "translate_to_html small_results = Inr report" by blast
  have "list_all inert (strings_of small_results)" by code_simp
  then have "\<forall>text \<in> set (strings_of small_results). inert text" by (simp add: list_all_iff)
  from html_balanced_iff [OF this report] report show ?thesis
    by (auto simp: small_results_def findall_def result_of_def xfind_def)
qed

text \<open>The results of a test suite of the repository that has passed (\<^verbatim>\<open>src/core/test/object-test-suite.cc\<close>): the name of its case
  looks like a tag in the report.\<close>

definition object_results :: xml where
  "object_results = Elem ''Results'' [] None
     [Elem ''Test'' [] None [Elem ''Result'' [] (Some ''PASS'') [], Elem ''Name'' [] (Some ''object'') [],
        Elem ''Test'' [] None [Elem ''Result'' [] (Some ''PASS'') [],
          Elem ''Name'' [] (Some ''Check CreateObject<Type> template function'') []]]]"

lemma type_name_not_nested:
  "map_sum id well_nested (translate_to_html object_results) = Inr False"
  by code_simp

end
