(* ===== verification/Ns3_Config.thy ===== *)
theory Ns3_Config
  imports Py_Path
begin

text \<open>
  How the scripts read their configuration: \<open>get_list_from_file\<close>, \<open>get_bool_from_file\<close> and
  \<open>read_config_file\<close> of \<^verbatim>\<open>utils.py\<close>; \<open>parse_examples_to_run_file\<close> and \<open>make_paths\<close> of
  \<^verbatim>\<open>test.py\<close>.  \<open>fs\<close> maps the path of a file to its text, \<open>None\<close> where there is no file;
  \<open>eval_list\<close>, \<open>eval_bool\<close> and the like stand for the builtin \<open>eval\<close> on an expression of the
  file.
\<close>

section \<open>utils.py\<close>

definition contains :: "string \<Rightarrow> string \<Rightarrow> bool" where
  "contains p s \<longleftrightarrow> list_ex (\<lambda>i. startswith (drop i s) p) [0..<Suc (length s)]"

definition cut_comment :: "string \<Rightarrow> string" where
  "cut_comment line = fst (split1 (CHR ''#'') line)"

text \<open>\<^verbatim>\<open>eval(s.split('=', 1)[1].strip())\<close>\<close>

definition eval_right :: "(string \<Rightarrow> py_exn + 'v) \<Rightarrow> string \<Rightarrow> py_exn + 'v" where
  "eval_right eval s =
     (case snd (split1 (CHR ''='') s) of None \<Rightarrow> Inl IndexError | Some r \<Rightarrow> eval (strip r))"

text \<open>The loop: \<open>list_string\<close> and \<open>parsing_multiline_list\<close>, and the list when the file ends.\<close>

fun scan_list :: "(string \<Rightarrow> py_exn + 'v list) \<Rightarrow> string \<Rightarrow> string list \<Rightarrow> string \<Rightarrow> bool \<Rightarrow> py_exn + 'v list" where
  "scan_list eval list_name [] list_string parsing = Inr []"
| "scan_list eval list_name (l # ls) list_string parsing =
     (let l = cut_comment l
      in if contains list_name l \<or> parsing
         then (let list_string = list_string @ l
               in if CHR '']'' \<notin> set list_string then scan_list eval list_name ls list_string True
                  else eval_right eval list_string)
         else scan_list eval list_name ls list_string parsing)"

definition get_list_from_file ::
    "(string \<Rightarrow> py_exn + 'v list) \<Rightarrow> (string \<Rightarrow> string option) \<Rightarrow> string \<Rightarrow> string \<Rightarrow> py_exn + 'v list" where
  "get_list_from_file eval fs file_path list_name =
     (case fs file_path of
        None \<Rightarrow> Inr []
      | Some txt \<Rightarrow> scan_list eval list_name (readlines txt) '''' False)"

fun scan_bool :: "(string \<Rightarrow> py_exn + bool) \<Rightarrow> string \<Rightarrow> string list \<Rightarrow> py_exn + bool option" where
  "scan_bool eval bool_name [] = Inr None"
| "scan_bool eval bool_name (l # ls) =
     (let l = cut_comment l
      in if contains bool_name l then rbind (eval_right eval l) (\<lambda>b. Inr (Some b))
         else scan_bool eval bool_name ls)"

text \<open>\<open>bool_found\<close> is assigned only when the file exists.\<close>

definition get_bool_from_file ::
    "(string \<Rightarrow> py_exn + bool) \<Rightarrow> (string \<Rightarrow> string option) \<Rightarrow> string \<Rightarrow> string \<Rightarrow> bool \<Rightarrow> py_exn + bool" where
  "get_bool_from_file eval fs file_path bool_name value_if_missing =
     (case fs file_path of
        None \<Rightarrow> Inl UnboundLocalError
      | Some txt \<Rightarrow>
          rbind (scan_bool eval bool_name (readlines txt)) (\<lambda>found.
            Inr (case found of None \<Rightarrow> value_if_missing | Some b \<Rightarrow> b)))"

text \<open>\<open>home\<close> is \<^verbatim>\<open>os.path.expanduser('~/')\<close>.\<close>

definition read_config_file ::
    "(string \<Rightarrow> py_exn + string list) \<Rightarrow> (string \<Rightarrow> py_exn + bool) \<Rightarrow> (string \<Rightarrow> string option) \<Rightarrow> string
     \<Rightarrow> py_exn + bool \<times> string list \<times> bool \<times> bool" where
  "read_config_file eval_list eval_bool fs home =
     (let path = (if fs ''.ns3rc'' \<noteq> None then ''.ns3rc'' else home @ ''.ns3rc'')
      in if fs path = None then Inr (False, [''all_modules''], False, False)
         else rbind (get_list_from_file eval_list fs path ''modules_enabled'') (\<lambda>modules.
              rbind (get_bool_from_file eval_bool fs path ''examples_enabled'' False) (\<lambda>examples.
              rbind (get_bool_from_file eval_bool fs path ''tests_enabled'' False) (\<lambda>tests.
                Inr (True, if modules = [] then [''all_modules''] else modules, examples, tests)))))"

section \<open>parse\_examples\_to\_run\_file\<close>

definition split_arguments :: "string \<Rightarrow> string \<times> string option" where
  "split_arguments example_name = split1 (CHR '' '') example_name"

definition add_arguments :: "string option \<Rightarrow> string \<Rightarrow> string" where
  "add_arguments args s = (case args of None \<Rightarrow> s | Some a \<Rightarrow> s @ '' '' @ a)"

record example_lists =
  ex_tests :: "(string \<times> string \<times> string \<times> string) list"
  ex_names_original :: "string list"
  ex_python_tests :: "(string \<times> string) list"

text \<open>The globals of \<^verbatim>\<open>test.py\<close> it uses: \<open>APPNAME\<close>, \<open>VERSION\<close>, \<open>BUILD_PROFILE_SUFFIX\<close>, \<open>NS3_BUILDDIR\<close>.\<close>

record build_names =
  bn_appname :: string
  bn_version :: string
  bn_suffix :: string
  bn_builddir :: string
  bn_cwd :: string

definition add_cpp_example ::
    "build_names \<Rightarrow> (string \<Rightarrow> bool) \<Rightarrow> string \<Rightarrow> string \<times> string \<times> string \<Rightarrow> example_lists
     \<Rightarrow> py_exn + example_lists" where
  "add_cpp_example bn exists cpp_executable_dir ex st =
     (let (example_name_original, do_run, do_valgrind_run) = ex;
          (name, args) = split_arguments example_name_original;
          example_path = path_join cpp_executable_dir (bn_appname bn @ bn_version bn @ ''-'' @ name @ bn_suffix bn)
      in rbind (relpath (bn_cwd bn) cpp_executable_dir (bn_builddir bn)) (\<lambda>rel.
           let example_name = path_join rel name
           in Inr (if exists example_path
                   then st\<lparr>ex_tests := ex_tests st
                             @ [(add_arguments args example_name, add_arguments args example_path, do_run, do_valgrind_run)],
                           ex_names_original := ex_names_original st @ [example_name_original]\<rparr>
                   else st)))"

definition add_python_example ::
    "(string \<Rightarrow> bool) \<Rightarrow> string \<Rightarrow> string \<times> string \<Rightarrow> example_lists \<Rightarrow> example_lists" where
  "add_python_example exists python_script_dir ex st =
     (let (example_name, do_run) = ex;
          (name, args) = split_arguments example_name;
          example_path = path_join python_script_dir name
      in if exists example_path
         then st\<lparr>ex_python_tests := ex_python_tests st @ [(add_arguments args example_path, do_run)]\<rparr>
         else st)"

definition parse_examples_to_run_file ::
    "(string \<Rightarrow> py_exn + (string \<times> string \<times> string) list) \<Rightarrow> (string \<Rightarrow> py_exn + (string \<times> string) list)
     \<Rightarrow> (string \<Rightarrow> string option) \<Rightarrow> build_names \<Rightarrow> string \<Rightarrow> string \<Rightarrow> string \<Rightarrow> example_lists
     \<Rightarrow> py_exn + example_lists" where
  "parse_examples_to_run_file eval3 eval2 fs bn examples_to_run_path cpp_executable_dir python_script_dir st =
     (let exists = (\<lambda>p. fs p \<noteq> None)
      in if \<not> exists examples_to_run_path then Inr st
         else rbind (get_list_from_file eval3 fs examples_to_run_path ''cpp_examples'') (\<lambda>cpp_examples.
              rbind (foldM (add_cpp_example bn exists cpp_executable_dir) cpp_examples st) (\<lambda>st.
              rbind (get_list_from_file eval2 fs examples_to_run_path ''python_examples'') (\<lambda>python_examples.
                Inr (fold (add_python_example exists python_script_dir) python_examples st)))))"

text \<open>
  The three loops of \<open>run_tests\<close> that call it: for the directories under \<^verbatim>\<open>examples\<close> and for the
  modules under \<^verbatim>\<open>src\<close> and \<^verbatim>\<open>contrib\<close>, whose names lose the prefix \<^verbatim>\<open>ns3-\<close>.
\<close>

definition example_dir_paths :: "string \<Rightarrow> string \<Rightarrow> string \<times> string \<times> string" where
  "example_dir_paths builddir d =
     (let dir = path_join ''examples'' d
      in (path_join dir ''examples-to-run.py'', path_join builddir dir, dir))"

definition module_paths :: "string \<Rightarrow> string \<Rightarrow> string \<Rightarrow> string \<times> string \<times> string" where
  "module_paths builddir root name =
     (let module_dir = path_join root (drop (length ''ns3-'') name);
          dir = path_join module_dir ''examples''
      in (path_join (path_join module_dir ''test'') ''examples-to-run.py'', path_join builddir dir, dir))"

definition collect_examples ::
    "(string \<Rightarrow> py_exn + (string \<times> string \<times> string) list) \<Rightarrow> (string \<Rightarrow> py_exn + (string \<times> string) list)
     \<Rightarrow> (string \<Rightarrow> string option) \<Rightarrow> build_names \<Rightarrow> string list \<Rightarrow> string list \<Rightarrow> string list
     \<Rightarrow> py_exn + example_lists" where
  "collect_examples eval3 eval2 fs bn example_directories enabled_modules contributed_modules =
     foldM (\<lambda>(f, c, p). parse_examples_to_run_file eval3 eval2 fs bn f c p)
       (map (example_dir_paths (bn_builddir bn)) example_directories
        @ map (module_paths (bn_builddir bn) ''src'') enabled_modules
        @ map (module_paths (bn_builddir bn) ''contrib'') contributed_modules)
       \<lparr>ex_tests = [], ex_names_original = [], ex_python_tests = []\<rparr>"

section \<open>make\_paths\<close>

text \<open>\<open>os.environ[key] += sep + path\<close> for every module path, after a missing key has been set.\<close>

definition append_paths :: "string \<Rightarrow> string \<Rightarrow> string list \<Rightarrow> (string, string) dict \<Rightarrow> (string, string) dict" where
  "append_paths key sep paths env =
     (let old = (case dget env key of None \<Rightarrow> '''' | Some v \<Rightarrow> v)
      in dset key (old @ concat (map (\<lambda>p. sep @ p) paths)) env)"

definition make_paths ::
    "string \<Rightarrow> string \<Rightarrow> string list \<Rightarrow> (string, string) dict \<Rightarrow> (string, string) dict" where
  "make_paths platform builddir ns3_module_path env =
     (let have_PYTHONPATH = (dget env ''PYTHONPATH'' \<noteq> None);
          pypath = path_join (path_join builddir ''bindings'') ''python'';
          env = dset ''PYTHONPATH'' pypath env;
          env = (if \<not> have_PYTHONPATH then dset ''PYTHONPATH'' pypath env
                 else dset ''PYTHONPATH'' (the (dget env ''PYTHONPATH'') @ '':'' @ pypath) env)
      in if platform = ''darwin'' then append_paths ''DYLD_LIBRARY_PATH'' '':'' ns3_module_path env
         else if platform = ''win32'' then append_paths ''PATH'' '';'' ns3_module_path env
         else if platform = ''cygwin'' then append_paths ''PATH'' '':'' ns3_module_path env
         else append_paths ''LD_LIBRARY_PATH'' '':'' ns3_module_path env)"

section \<open>Finding a definition\<close>

lemma scan_list_skip:
  "\<forall>l \<in> set pre. \<not> contains name (cut_comment l) \<Longrightarrow>
     scan_list eval name (pre @ ls) acc False = scan_list eval name ls acc False"
  by (induction pre) (auto simp: Let_def)

lemma scan_list_body:
  assumes "body \<noteq> []" and "parsing \<or> contains name (cut_comment (hd body))"
    and "CHR '']'' \<notin> set acc" and "\<forall>l \<in> set (butlast body). CHR '']'' \<notin> set (cut_comment l)"
    and "CHR '']'' \<in> set (cut_comment (last body))"
  shows "scan_list eval name (body @ post) acc parsing = eval_right eval (acc @ concat (map cut_comment body))"
  using assms
proof (induction body arbitrary: acc parsing)
  case (Cons l body)
  show ?case
  proof (cases body)
    case Nil
    with Cons.prems show ?thesis by (auto simp: Let_def)
  next
    case (Cons m ms)
    with Cons.prems Cons.IH [of True "acc @ cut_comment l"] show ?thesis by (auto simp: Let_def)
  qed
qed simp

text \<open>
  \<open>get_list_from_file\<close>: in a file where no line before the definition mentions the name (comments
  aside), and where the definition runs from the first line that mentions it to the first one with
  a closing bracket, the result is the value of what follows the first equals sign of those
  lines joined, their comments dropped.  Without a line that mentions the name, or without a file,
  it is the empty list.
\<close>

theorem get_list_from_file_finds:
  assumes "list_all is_line (pre @ body @ post)"
    and "fs path = Some (concat (pre @ body @ post))"
    and "\<forall>l \<in> set pre. \<not> contains name (cut_comment l)"
    and "\<forall>l \<in> set (butlast body). CHR '']'' \<notin> set (cut_comment l)"
    and "if body = [] then \<forall>l \<in> set post. \<not> contains name (cut_comment l)
         else contains name (cut_comment (hd body)) \<and> CHR '']'' \<in> set (cut_comment (last body))"
  shows "get_list_from_file eval fs path name
    = (if body = [] then Inr [] else eval_right eval (concat (map cut_comment body)))"
proof -
  have "get_list_from_file eval fs path name = scan_list eval name (pre @ body @ post) '''' False"
    by (simp only: get_list_from_file_def assms(2) option.case readlines_concat [OF assms(1)])
  also have "\<dots> = scan_list eval name (body @ post) '''' False"
    by (rule scan_list_skip [OF assms(3)])
  also have "\<dots> = (if body = [] then Inr [] else eval_right eval (concat (map cut_comment body)))"
  proof (cases "body = []")
    case True
    with assms(5) scan_list_skip [of post name eval "[]" "''''"] show ?thesis by simp
  next
    case False
    with assms(4,5) show ?thesis
      by (subst scan_list_body) auto
  qed
  finally show ?thesis .
qed

definition small_file :: "string list" where
  "small_file = [''# no modules'' @ [nl], ''modules = [1, # one'' @ [nl], ''2]'' @ [nl]]"

theorem get_list_from_file_finds_witness:
  "get_list_from_file (\<lambda>s. Inr [s]) (\<lambda>p. if p = ''f'' then Some (concat small_file) else None) ''f'' ''modules''
     = eval_right (\<lambda>s. Inr [s]) (''modules = [1, 2]'' @ [nl])"
proof -
  let ?fs = "\<lambda>p. if p = ''f'' then Some (concat small_file) else None"
  let ?pre = "[''# no modules'' @ [nl]]" and ?body = "[''modules = [1, # one'' @ [nl], ''2]'' @ [nl]]"
  have cut: "cut_comment (''# no modules'' @ [nl]) = ''''" "cut_comment (''modules = [1, # one'' @ [nl]) = ''modules = [1, ''"
    "cut_comment (''2]'' @ [nl]) = ''2]'' @ [nl]"
    by (simp_all add: cut_comment_def split1_def)
  have "list_all is_line (?pre @ ?body @ [])" by (simp add: is_line_def)
  moreover have "?fs ''f'' = Some (concat (?pre @ ?body @ []))" by (simp add: small_file_def)
  moreover have "\<forall>l \<in> set ?pre. \<not> contains ''modules'' (cut_comment l)"
    using cut(1) by (simp add: contains_def startswith_def)
  moreover have "\<forall>l \<in> set (butlast ?body). CHR '']'' \<notin> set (cut_comment l)"
    using cut(2) by simp
  moreover have "if ?body = [] then \<forall>l \<in> set []. \<not> contains ''modules'' (cut_comment l)
      else contains ''modules'' (cut_comment (hd ?body)) \<and> CHR '']'' \<in> set (cut_comment (last ?body))"
    using cut(2,3) by (simp add: contains_def startswith_def)
  ultimately have "get_list_from_file (\<lambda>s. Inr [s]) ?fs ''f'' ''modules''
      = eval_right (\<lambda>s. Inr [s]) (concat (map cut_comment ?body))"
    using get_list_from_file_finds [of ?pre ?body "[]" ?fs "''f''" "''modules''" "\<lambda>s. Inr [s]"] by simp
  then show ?thesis using cut(2,3) by simp
qed

section \<open>The examples collected\<close>

lemma foldM_map_concat:
  assumes "\<And>x s. x \<in> set xs \<Longrightarrow> f x s = Inr (g x s)"
  shows "foldM f xs s = Inr (fold g xs s)"
  using assms by (induction xs arbitrary: s) auto

text \<open>
  \<open>parse_examples_to_run_file\<close> appends, in the order of the file, an entry for every C++ example
  whose executable exists in the build directory, under its name relative to the build root and with
  its arguments, and an entry for every Python example whose script exists; it changes nothing else.
\<close>

theorem parse_examples_appends:
  assumes "fs file \<noteq> None" and "get_list_from_file eval3 fs file ''cpp_examples'' = Inr cpp"
    and "get_list_from_file eval2 fs file ''python_examples'' = Inr py"
    and "relpath (bn_cwd bn) cdir (bn_builddir bn) = Inr rel"
  shows "parse_examples_to_run_file eval3 eval2 fs bn file cdir pdir st = Inr
    (let built = filter (\<lambda>(n, _). fs (path_join cdir
           (bn_appname bn @ bn_version bn @ ''-'' @ fst (split_arguments n) @ bn_suffix bn)) \<noteq> None) cpp
     in \<lparr>ex_tests = ex_tests st @ map (\<lambda>(n, r, v).
            (add_arguments (snd (split_arguments n)) (path_join rel (fst (split_arguments n))),
             add_arguments (snd (split_arguments n)) (path_join cdir
               (bn_appname bn @ bn_version bn @ ''-'' @ fst (split_arguments n) @ bn_suffix bn)), r, v)) built,
         ex_names_original = ex_names_original st @ map fst built,
         ex_python_tests = ex_python_tests st @ map (\<lambda>(n, r).
            (add_arguments (snd (split_arguments n)) (path_join pdir (fst (split_arguments n))), r))
           (filter (\<lambda>(n, _). fs (path_join pdir (fst (split_arguments n))) \<noteq> None) py)\<rparr>)"
proof -
  let ?exists = "\<lambda>p. fs p \<noteq> None"
  let ?path = "\<lambda>n. path_join cdir (bn_appname bn @ bn_version bn @ ''-'' @ fst (split_arguments n) @ bn_suffix bn)"
  let ?entry = "\<lambda>(n, r, v). (add_arguments (snd (split_arguments n)) (path_join rel (fst (split_arguments n))),
     add_arguments (snd (split_arguments n)) (?path n), r, v)"
  have cpp: "foldM (add_cpp_example bn ?exists cdir) ex st
      = Inr (st\<lparr>ex_tests := ex_tests st @ map ?entry (filter (\<lambda>(n, _). fs (?path n) \<noteq> None) ex),
           ex_names_original := ex_names_original st @ map fst (filter (\<lambda>(n, _). fs (?path n) \<noteq> None) ex)\<rparr>)"
    for ex st
  proof (induction ex arbitrary: st)
    case (Cons e ex)
    obtain n r v where e: "e = (n, r, v)" by (cases e)
    have "add_cpp_example bn ?exists cdir e st = Inr (if fs (?path n) \<noteq> None
        then st\<lparr>ex_tests := ex_tests st @ [?entry e], ex_names_original := ex_names_original st @ [n]\<rparr> else st)"
      by (simp add: add_cpp_example_def e assms(4) split_beta Let_def)
    with Cons.IH e show ?case by simp
  qed simp
  have py: "fold (add_python_example ?exists pdir) ex st
      = st\<lparr>ex_python_tests := ex_python_tests st @ map (\<lambda>(n, r).
            (add_arguments (snd (split_arguments n)) (path_join pdir (fst (split_arguments n))), r))
           (filter (\<lambda>(n, _). fs (path_join pdir (fst (split_arguments n))) \<noteq> None) ex)\<rparr>"
    for ex st
  proof (induction ex arbitrary: st)
    case (Cons e ex)
    obtain n r where e: "e = (n, r)" by (cases e)
    with Cons.IH show ?case
      by (simp add: add_python_example_def split_beta Let_def)
  qed simp
  show ?thesis
    using assms(1)
    by (cases st) (simp add: parse_examples_to_run_file_def assms(2,3) cpp py Let_def del: not_None_eq)
qed

definition small_fs :: "string \<Rightarrow> string option" where
  "small_fs p =
     (if p = ''r.py'' then Some (''cpp_examples = []'' @ [nl] @ ''python_examples = []'' @ [nl])
      else if p = ''/b/x/ns3-e'' then Some '''' else None)"

theorem parse_examples_appends_witness:
  "parse_examples_to_run_file (\<lambda>s. Inr [(''e --n=1'', ''True'', ''False''), (''f'', ''True'', ''True'')]) (\<lambda>s. Inr [])
     small_fs \<lparr>bn_appname = ''ns'', bn_version = ''3'', bn_suffix = '''', bn_builddir = ''/b'', bn_cwd = ''/''\<rparr>
     ''r.py'' ''/b/x'' ''x'' \<lparr>ex_tests = [], ex_names_original = [], ex_python_tests = []\<rparr>
   = Inr \<lparr>ex_tests = [(''x/e --n=1'', ''/b/x/ns3-e --n=1'', ''True'', ''False'')],
          ex_names_original = [''e --n=1''], ex_python_tests = []\<rparr>"
proof -
  let ?e3 = "\<lambda>s. Inr [(''e --n=1'', ''True'', ''False''), (''f'', ''True'', ''True'')]"
  let ?bn = "\<lparr>bn_appname = ''ns'', bn_version = ''3'', bn_suffix = '''', bn_builddir = ''/b'', bn_cwd = ''/''\<rparr>"
  have f: "small_fs ''r.py'' \<noteq> None" by (simp add: small_fs_def)
  have c: "get_list_from_file ?e3 small_fs ''r.py'' ''cpp_examples''
      = Inr [(''e --n=1'', ''True'', ''False''), (''f'', ''True'', ''True'')]"
    by code_simp
  have p: "get_list_from_file (\<lambda>s. Inr []) small_fs ''r.py'' ''python_examples'' = (Inr [] :: py_exn + (string \<times> string) list)"
    by code_simp
  have r: "relpath (bn_cwd ?bn) ''/b/x'' (bn_builddir ?bn) = Inr ''x''"
    by code_simp
  show ?thesis
    unfolding parse_examples_appends [OF f c p r]
    by (simp add: small_fs_def split_arguments_def split1_def path_join_def startswith_def add_arguments_def)
qed

text \<open>
  \<open>make_paths\<close>: whatever the platform and the environment, a \<open>PYTHONPATH\<close> the user had set is
  lost (the value becomes the bindings directory, twice), while the library path of Linux keeps
  the value it had and is followed by every module path; no other variable changes there.
\<close>

theorem make_paths_environment:
  "let env' = make_paths platform builddir module_path env;
       pypath = path_join (path_join builddir ''bindings'') ''python''
   in dget env' ''PYTHONPATH'' = Some (if dget env ''PYTHONPATH'' = None then pypath else pypath @ '':'' @ pypath)
    \<and> (if platform \<in> {''darwin'', ''win32'', ''cygwin''} then True
       else dget env' ''LD_LIBRARY_PATH'' = Some ((case dget env ''LD_LIBRARY_PATH'' of None \<Rightarrow> '''' | Some v \<Rightarrow> v)
              @ concat (map (\<lambda>p. '':'' @ p) module_path))
          \<and> (\<forall>k. k = ''PYTHONPATH'' \<or> k = ''LD_LIBRARY_PATH'' \<or> dget env' k = dget env k))"
proof -
  have "((@) '':'') = (#) (CHR '':'')" by (rule ext) simp
  then show ?thesis by (auto simp: make_paths_def append_paths_def Let_def)
qed

end
