(* ===== verification/Testpy_Main.thy ===== *)
theory Testpy_Main
  imports Testpy_Report Testpy_Translate Ns3_Config
begin

text \<open>
  \<^verbatim>\<open>test.py\<close>, put together: \<open>read_waf_config\<close> and the part of \<open>run_tests\<close> before the threads start
  (build, early exits, listing), the number of threads, the workers and the report.  The world is the
  parameter \<open>site\<close>: the files, the programs (\<open>launch cmd dir\<close>), the builtins \<open>eval\<close> and \<open>exec\<close>.
\<close>

section \<open>read\_waf\_config\<close>

record site =
  platform :: string
  fs :: "string \<Rightarrow> string option"
  launch :: "string \<Rightarrow> string \<Rightarrow> popen_result"
  waf :: "string \<Rightarrow> int"
  eval_string :: "string \<Rightarrow> py_exn + string"
  eval_strings :: "string \<Rightarrow> py_exn + string list"
  eval_pairs :: "string \<Rightarrow> py_exn + (string \<times> string) list"
  eval_triples :: "string \<Rightarrow> py_exn + (string \<times> string \<times> string) list"
  eval_condition :: "string \<Rightarrow> bool"
  sysconf_processors :: "int option"
  sysctl :: popen_result

definition interesting_config_items :: "string list" where
  "interesting_config_items =
     [''NS3_ENABLED_MODULES'', ''NS3_ENABLED_CONTRIBUTED_MODULES'', ''NS3_MODULE_PATH'', ''NSC_ENABLED'',
      ''ENABLE_REAL_TIME'', ''ENABLE_THREADING'', ''ENABLE_EXAMPLES'', ''ENABLE_TESTS'', ''EXAMPLE_DIRECTORIES'',
      ''ENABLE_PYTHON_BINDINGS'', ''NSCLICK'', ''ENABLE_BRITE'', ''ENABLE_OPENFLOW'', ''APPNAME'',
      ''BUILD_PROFILE'', ''VERSION'', ''PYTHON'', ''VALGRIND_FOUND'']"

text \<open>\<^verbatim>\<open>key, val = line.split('=')\<close>, then \<^verbatim>\<open>eval(val.strip())\<close>\<close>

definition eval_assignment :: "(string \<Rightarrow> py_exn + string) \<Rightarrow> string \<Rightarrow> py_exn + string" where
  "eval_assignment eval l =
     (case split_on (CHR ''='') l of [key, val] \<Rightarrow> eval (strip val) | _ \<Rightarrow> Inl ValueError)"

fun scan_dirs ::
    "(string \<Rightarrow> py_exn + string) \<Rightarrow> string list \<Rightarrow> string option \<times> string option \<Rightarrow> py_exn + string option \<times> string option" where
  "scan_dirs eval [] ds = Inr ds"
| "scan_dirs eval (l # ls) (top_dir, out_dir) =
     rbind (if startswith l ''top_dir ='' then rbind (eval_assignment eval l) (\<lambda>v. Inr (Some v)) else Inr top_dir) (\<lambda>top_dir.
     rbind (if startswith l ''out_dir ='' then rbind (eval_assignment eval l) (\<lambda>v. Inr (Some v)) else Inr out_dir) (\<lambda>out_dir.
       scan_dirs eval ls (top_dir, out_dir)))"

text \<open>The two directories and the lines given to \<open>exec\<close>, in order.\<close>

definition read_waf_config :: "site \<Rightarrow> stop + string \<times> string \<times> string list" where
  "read_waf_config w =
     (let lock = (case fs w (''.lock-waf_'' @ platform w @ ''_build'') of
                    Some txt \<Rightarrow> Some txt | None \<Rightarrow> fs w ''.lock-waf_linux2_build'')
      in case lock of
           None \<Rightarrow> Inl (SysExit 2)
         | Some txt \<Rightarrow>
             (case scan_dirs (eval_string w) (readlines txt) (None, None) of
                Inl e \<Rightarrow> Inl (Raised e)
              | Inr (Some top_dir, Some out_dir) \<Rightarrow>
                  (case fs w (out_dir @ ''/c4che/_cache.py'') of
                     None \<Rightarrow> Inl (Raised OSError)
                   | Some cache \<Rightarrow>
                       Inr (top_dir, out_dir,
                         concat (map (\<lambda>l. replicate (length (filter (startswith l) interesting_config_items)) l)
                           (readlines cache))))
              | _ \<Rightarrow> Inl (Raised UnboundLocalError)))"

section \<open>Before the threads start\<close>

definition core_kinds :: "string list" where
  "core_kinds = [''bvt'', ''core'', ''performance'', ''system'', ''unit'']"

definition waf_command :: "options \<Rightarrow> string" where
  "waf_command opts =
     (if o_kinds opts \<or> o_list opts \<or> (o_constrain opts \<noteq> '''' \<and> o_constrain opts \<in> set core_kinds)
      then ''./waf --target=test-runner''
      else if o_example opts \<noteq> '''' then ''./waf --target='' @ basename (o_example opts)
      else ''./waf'')"

definition build :: "site \<Rightarrow> options \<Rightarrow> stop + unit" where
  "build w opts =
     (if o_nowaf opts then Inr ()
      else let rc = waf w (waf_command opts) in if rc \<noteq> 0 then Inl (Returned (Some rc)) else Inr ())"

definition lift_exn :: "py_exn + 'a \<Rightarrow> stop + 'a" where
  "lift_exn r = (case r of Inl e \<Rightarrow> Inl (Raised e) | Inr x \<Rightarrow> Inr x)"

definition names_of :: "config \<Rightarrow> dirs \<Rightarrow> build_names" where
  "names_of cfg d =
     \<lparr>bn_appname = appname cfg, bn_version = version cfg, bn_suffix = build_profile_suffix cfg,
      bn_builddir = ns3_builddir cfg, bn_cwd = cwd d\<rparr>"

text \<open>
  The build status file and the examples; \<open>dirs3\<close> are \<open>EXAMPLE_DIRECTORIES\<close>, \<open>NS3_ENABLED_MODULES\<close>
  and \<open>NS3_ENABLED_CONTRIBUTED_MODULES\<close>.  The result has the original example names beside.
\<close>

definition known_examples ::
    "site \<Rightarrow> config \<Rightarrow> string list \<times> string list \<times> string list \<Rightarrow> dirs \<Rightarrow> stop + examples \<times> string list" where
  "known_examples w cfg dirs3 d =
     (let file = path_join (ns3_builddir cfg) ''build-status.py''
      in if fs w file = None then Inl (SysExit 2)
         else rbind (lift_exn (get_list_from_file (eval_strings w) (fs w) file ''ns3_runnable_programs'')) (\<lambda>programs.
              rbind (lift_exn (get_list_from_file (eval_strings w) (fs w) file ''ns3_runnable_scripts'')) (\<lambda>scripts.
              rbind (lift_exn (case dirs3 of (exdirs, modules, contributed) \<Rightarrow>
                       collect_examples (eval_triples w) (eval_pairs w) (fs w) (names_of cfg d) exdirs modules contributed))
                (\<lambda>found.
                Inr (\<lparr>runnable_programs = programs_dictionary programs, runnable_scripts = scripts,
                       example_tests = ex_tests found, python_tests = ex_python_tests found,
                       holds = eval_condition w\<rparr>, ex_names_original found)))))"

definition ask :: "site \<Rightarrow> config \<Rightarrow> dirs \<Rightarrow> string \<Rightarrow> popen_result" where
  "ask w cfg d cmd = launch w (path_join (ns3_builddir cfg) cmd) (cwd d)"

definition runner_of :: "site \<Rightarrow> config \<Rightarrow> dirs \<Rightarrow> string \<Rightarrow> string option" where
  "runner_of w cfg d cmd = proc_stdout (ask w cfg d cmd)"

text \<open>
  \<^verbatim>\<open>--kinds\<close> and \<^verbatim>\<open>--list\<close>.  \<open>run_job_synchronously\<close> has decoded the output: \<open>decode\<close> of the kinds raises
  \<open>AttributeError\<close>, unless the output could not be decoded and is still bytes, whose \<open>decode\<close> raises
  \<open>UnicodeDecodeError\<close>, a \<open>ValueError\<close>.  What is printed is the result when \<open>run_tests\<close> returns nothing.
\<close>

definition list_tests :: "site \<Rightarrow> config \<Rightarrow> options \<Rightarrow> dirs \<Rightarrow> string list \<Rightarrow> stop + string list" where
  "list_tests w cfg opts d example_names =
     (let cmd = path_join ''utils'' (test_runner cfg @ '' --print-test-name-list --print-test-types''
                  @ (if o_constrain opts \<noteq> '''' then '' --test-type='' @ o_constrain opts else ''''));
          r = ask w cfg d cmd;
          rc = (if proc_stdout r = None \<or> proc_stderr r = None then 1 else proc_returncode r)
      in if rc \<noteq> 0
         then Inr [''test.py error:  test-runner return code returned '' @ int_str rc,
                   ''To debug, try running '' @ [CHR 0x27] @ ''./waf --run '' @ [quote]
                     @ ''test-runner --print-test-name-list'' @ [quote, CHR 0x27, nl]]
         else Inr ([''Test Type    Test Name'', ''---------    ---------'']
                @ filter (\<lambda>item. strip item \<noteq> '''') (sort (split_on nl (the (proc_stdout r))))
                @ map (\<lambda>item. ''example      '' @ item) (sort example_names) @ ['''']))"

definition early_options :: "site \<Rightarrow> config \<Rightarrow> options \<Rightarrow> dirs \<Rightarrow> string list \<Rightarrow> stop + string list" where
  "early_options w cfg opts d example_names =
     (if o_kinds opts
      then Inl (Raised (if runner_of w cfg d (path_join ''utils'' (test_runner cfg @ '' --print-test-type-list'')) = None
                        then ValueError else AttributeError))
      else if o_list opts then list_tests w cfg opts d example_names else Inr [])"

text \<open>\<open>int\<close> of a string, less numerals with underscores.\<close>

definition parse_int :: "string \<Rightarrow> py_exn + int" where
  "parse_int s =
     (let s = strip s; t = (if s \<noteq> '''' \<and> hd s \<in> {CHR ''-'', CHR ''+''} then tl s else s)
      in if t \<noteq> '''' \<and> list_all is_digit t
         then Inr (if hd s = CHR ''-'' then - int (digits_val t) else int (digits_val t))
         else Inl ValueError)"

text \<open>The number of threads, of which there are none when \<open>range\<close> is given a negative number.\<close>

definition processors :: "site \<Rightarrow> py_exn + nat" where
  "processors w =
     (if platform w = ''win32'' then Inr 1
      else case sysconf_processors w of
             Some n \<Rightarrow> Inr (nat n)
           | None \<Rightarrow>
               (case (proc_stdout (sysctl w), proc_stderr (sysctl w)) of
                  (Some s, Some e) \<Rightarrow>
                    (if e \<noteq> '''' then Inr 1 else rbind (parse_int s) (\<lambda>n. Inr (nat n)))
                | _ \<Rightarrow> Inl ValueError))"

text \<open>What \<open>run_tests\<close> has when it starts the threads: their number and the jobs it will put.\<close>

definition prepare ::
    "site \<Rightarrow> config \<Rightarrow> string list \<times> string list \<times> string list \<Rightarrow> options \<Rightarrow> dirs \<Rightarrow> stop + nat \<times> job list" where
  "prepare w cfg dirs3 opts d =
     rbind (build w opts) (\<lambda>_.
     rbind (known_examples w cfg dirs3 d) (\<lambda>(ex, original).
     rbind (early_options w cfg opts d original) (\<lambda>_.
       if o_kinds opts \<or> o_list opts then Inl (Returned None)
       else rbind (suite_list (runner_of w cfg d) cfg opts) (\<lambda>_.
            rbind (lift_exn (processors w)) (\<lambda>n.
            rbind (dispatched (runner_of w cfg d) cfg ex opts d) (\<lambda>js. Inr (n, js)))))))"

section \<open>After the summary\<close>

text \<open>The files written for \<^verbatim>\<open>--html\<close>, \<^verbatim>\<open>--text\<close> and \<^verbatim>\<open>--xml\<close>; \<open>parse_xml\<close> is \<open>ElementTree.parse\<close>.\<close>

datatype written = Html string | Lines "string list" | Raw string

definition write_results ::
    "(string \<Rightarrow> py_exn + xml) \<Rightarrow> string \<times> string \<times> string \<Rightarrow> string \<Rightarrow> py_exn + (string \<times> written) list" where
  "write_results parse_xml outs results =
     (case outs of (html, txt, xml) \<Rightarrow>
        rbind (if html \<noteq> '''' then rbind (parse_xml results) (\<lambda>et.
                 rbind (translate_to_html et) (\<lambda>h. Inr [(html @ ''.html'', Html h)])) else Inr []) (\<lambda>h.
        rbind (if txt \<noteq> '''' then rbind (parse_xml results) (\<lambda>et.
                 rbind (translate_to_text et) (\<lambda>t. Inr [(txt @ ''.txt'', Lines t)])) else Inr []) (\<lambda>t.
          Inr (h @ t @ (if xml \<noteq> '''' then [(xml @ ''.xml'', Raw results)] else [])))))"

text \<open>The notes printed last.\<close>

definition final_notes :: "bool \<Rightarrow> bool \<Rightarrow> bool \<Rightarrow> bool \<Rightarrow> string list" where
  "final_notes enable_tests enable_ex valgrind valgrind_found =
     (if \<not> enable_tests \<or> \<not> enable_ex
      then [''''] @ (if \<not> enable_tests
              then [''***  Note: ns-3 tests are currently disabled. Enable them by adding'',
                    ''***  '' @ [quote] @ ''--enable-tests'' @ [quote] @ '' to ./waf configure or modifying your .ns3rc file.'', '''']
              else [])
           @ (if \<not> enable_ex
              then [''***  Note: ns-3 examples are currently disabled. Enable them by adding'',
                    ''***  '' @ [quote] @ ''--enable-examples'' @ [quote] @ '' to ./waf configure or modifying your .ns3rc file.'', '''']
              else [])
      else [])
     @ (if valgrind \<and> \<not> valgrind_found
        then ['''', ''***  Note: you are trying to use valgrind, but valgrind could not be found'',
              ''***  on your machine.  All tests and examples will crash or be skipped.'', '''']
        else [])"

text \<open>The status \<open>sys.exit\<close> turns the result of \<open>main\<close> into; an exception ends the script with 1.\<close>

definition process_status :: "stop \<Rightarrow> int" where
  "process_status r =
     (case r of SysExit n \<Rightarrow> n | Returned None \<Rightarrow> 0 | Returned (Some n) \<Rightarrow> n | Raised e \<Rightarrow> 1)"

section \<open>How the script ends\<close>

lemma build_ok: "build w opts = Inr () \<Longrightarrow> o_nowaf opts \<or> waf w (waf_command opts) = 0"
  by (auto simp: build_def Let_def split: if_splits)

lemma lift_exn_simps [simp]: "lift_exn (Inr x) = Inr x" "lift_exn (Inl e) = Inl (Raised e)"
  by (simp_all add: lift_exn_def)

lemma list_tests_returns: "\<exists>out. list_tests w cfg opts d names = Inr out"
  by (simp add: list_tests_def Let_def)

text \<open> The ends of \<open>run_tests\<close> before any job is queued.  A failed build ends it with the code of waf and a
  missing build status file with 2.  Past these, \<open>--kinds\<close> always ends in an exception (the output has
  been decoded and is decoded again), \<open>--list\<close> always ends with status 0, even when the test
  runner has failed, and a suite that the test runner does not list ends it with 2.\<close>

theorem run_tests_early_ends:
  "(build w opts \<noteq> Inr () \<longrightarrow> prepare w cfg dirs3 opts d = Inl (Returned (Some (waf w (waf_command opts))))
       \<and> waf w (waf_command opts) \<noteq> 0)
   \<and> (build w opts = Inr () \<longrightarrow> fs w (path_join (ns3_builddir cfg) ''build-status.py'') = None \<longrightarrow>
        prepare w cfg dirs3 opts d = Inl (SysExit 2))
   \<and> (build w opts = Inr () \<longrightarrow> known_examples w cfg dirs3 d = Inr known \<longrightarrow>
        (o_kinds opts \<longrightarrow> prepare w cfg dirs3 opts d \<in> {Inl (Raised ValueError), Inl (Raised AttributeError)})
      \<and> (\<not> o_kinds opts \<and> o_list opts \<longrightarrow>
           prepare w cfg dirs3 opts d = Inl (Returned None) \<and> process_status (Returned None) = 0)
      \<and> (\<not> o_kinds opts \<and> \<not> o_list opts \<and> o_suite opts \<noteq> ''''
           \<and> ask_runner (runner_of w cfg d) cfg '' --print-test-name-list'' = Inr listed
           \<and> o_suite opts \<notin> set (split_on nl listed) \<longrightarrow>
           prepare w cfg dirs3 opts d = Inl (SysExit 2)))"
proof (intro conjI impI)
  assume "build w opts \<noteq> Inr ()"
  then show "prepare w cfg dirs3 opts d = Inl (Returned (Some (waf w (waf_command opts))))"
    "waf w (waf_command opts) \<noteq> 0"
    by (auto simp: prepare_def build_def Let_def split: if_splits)
next
  assume "build w opts = Inr ()" "fs w (path_join (ns3_builddir cfg) ''build-status.py'') = None"
  then show "prepare w cfg dirs3 opts d = Inl (SysExit 2)"
    by (simp add: prepare_def known_examples_def Let_def)
next
  assume b: "build w opts = Inr ()" "known_examples w cfg dirs3 d = Inr known"
  obtain ex names where k: "known = (ex, names)" by (cases known)
  note start = prepare_def b k early_options_def
  show "prepare w cfg dirs3 opts d \<in> {Inl (Raised ValueError), Inl (Raised AttributeError)}" if "o_kinds opts"
    using that by (simp add: start)
  show "prepare w cfg dirs3 opts d = Inl (Returned None)" if "\<not> o_kinds opts \<and> o_list opts"
    using that list_tests_returns [of w cfg opts d names] by (auto simp: start)
  show "process_status (Returned None) = 0" by (simp add: process_status_def)
  show "prepare w cfg dirs3 opts d = Inl (SysExit 2)"
    if "\<not> o_kinds opts \<and> \<not> o_list opts \<and> o_suite opts \<noteq> ''''
      \<and> ask_runner (runner_of w cfg d) cfg '' --print-test-name-list'' = Inr listed
      \<and> o_suite opts \<notin> set (split_on nl listed)"
    using that by (simp add: start suite_list_def requested_suites_def)
qed

text \<open>A site where waf and the test runner succeed and there is a build status file but no example.\<close>

definition small_site :: site where
  "small_site =
     \<lparr>platform = ''linux'', fs = (\<lambda>p. if p = ''/n/build/build-status.py'' then Some '''' else None),
      launch = (\<lambda>cmd d. \<lparr>proc_returncode = (if length cmd > 80 then 0 else 3), proc_stdout = Some (''a'' @ [nl] @ ''b'' @ [nl]),
         proc_stderr = Some '''', proc_time = 1\<rparr>),
      waf = (\<lambda>_. 0), eval_string = (\<lambda>s. Inr s), eval_strings = (\<lambda>_. Inr []), eval_pairs = (\<lambda>_. Inr []),
      eval_triples = (\<lambda>_. Inr []), eval_condition = (\<lambda>_. True), sysconf_processors = Some 2,
      sysctl = \<lparr>proc_returncode = 0, proc_stdout = None, proc_stderr = None, proc_time = 0\<rparr>\<rparr>"

definition no_examples :: examples where
  "no_examples = \<lparr>runnable_programs = [], runnable_scripts = [], example_tests = [], python_tests = [],
     holds = (\<lambda>_. True)\<rparr>"

lemma small_known: "known_examples small_site small_cfg ([], [], []) small_dirs = Inr (no_examples, [])"
  by (simp add: known_examples_def small_site_def small_cfg_def path_join_def startswith_def
      get_list_from_file_def collect_examples_def programs_dictionary_def no_examples_def)

theorem run_tests_early_ends_witness:
  "prepare small_site small_cfg ([], [], []) (small_opts\<lparr>o_nowaf := False, o_list := True\<rparr>) small_dirs
     = Inl (Returned None)
   \<and> prepare small_site small_cfg ([], [], []) (small_opts\<lparr>o_suite := ''x''\<rparr>) small_dirs = Inl (SysExit 2)"
proof -
  have b: "build small_site (small_opts\<lparr>o_nowaf := False, o_list := True\<rparr>) = Inr ()"
    "build small_site (small_opts\<lparr>o_suite := ''x''\<rparr>) = Inr ()"
    by (simp_all add: build_def small_site_def small_opts_def)
  have "ask_runner (runner_of small_site small_cfg small_dirs) small_cfg '' --print-test-name-list''
      = Inr (''a'' @ [nl] @ ''b'' @ [nl])"
    by (simp add: ask_runner_def runner_of_def ask_def small_site_def)
  moreover have "''x'' \<notin> set (split_on nl (''a'' @ [nl] @ ''b'' @ [nl]))" by code_simp
  ultimately show ?thesis
    using run_tests_early_ends [of small_site "small_opts\<lparr>o_nowaf := False, o_list := True\<rparr>" small_cfg "([], [], [])"
        small_dirs "(no_examples, [])" "''a'' @ [nl] @ ''b'' @ [nl]"]
      run_tests_early_ends [of small_site "small_opts\<lparr>o_suite := ''x''\<rparr>" small_cfg "([], [], [])" small_dirs
        "(no_examples, [])" "''a'' @ [nl] @ ''b'' @ [nl]"]
      b small_known
    by (simp add: small_opts_def)
qed

text \<open>The jobs of \<^verbatim>\<open>--suite\<close> alone.\<close>

lemma dispatched_suite:
  assumes "dispatched runner cfg ex opts d = Inr js" and "o_suite opts \<noteq> ''''" and "strip (o_suite opts) = o_suite opts"
    and "o_example opts = ''''" and "o_pyexample opts = ''''"
  shows "js = [suite_job cfg opts d (o_suite opts)]"
proof -
  from assms(1,2) obtain lines where known: "o_suite opts \<in> set (split_on nl lines)"
    and js: "js = suite_jobs cfg opts d (split_on nl (o_suite opts @ [nl]))
        @ example_jobs cfg ex opts d @ pyexample_jobs cfg ex opts d"
    by (auto simp: dispatched_def suite_list_def requested_suites_def Let_def split: if_splits)
  have "split_on nl (o_suite opts @ [nl]) = [o_suite opts, '''']"
    using split_on_parts [OF known] split_on_append_sep [of nl "o_suite opts" "[]"] by (simp add: split_on_no_sep)
  with js assms(2-5) show ?thesis
    by (simp add: suite_jobs_def example_jobs_def pyexample_jobs_def)
qed

text \<open>The command of a suite, as the shell gets it.\<close>

definition suite_command :: "config \<Rightarrow> options \<Rightarrow> dirs \<Rightarrow> string" where
  "suite_command cfg opts d =
     (let j = suite_job cfg opts d (o_suite opts)
      in case job_command cfg (shell_command j @ '' --xml --tempdir='' @ tempdir j @ '' --out='' @ tmp_file_name j
                @ '' '' @ (if o_update_data opts then ''--update-data'' else '''')) (o_valgrind opts) False '''' of
           Inl e \<Rightarrow> '''' | Inr cmd \<Rightarrow> cmd)"

definition succeeds :: "popen_result \<Rightarrow> bool" where
  "succeeds r \<longleftrightarrow> proc_returncode r = 0 \<and> proc_stdout r \<noteq> None \<and> proc_stderr r \<noteq> None"

lemma run_suite:
  "(\<exists>r. run_job popen cfg opts (suite_job cfg opts d (o_suite opts)) = Inr r \<and> returncode r = 0)
     \<longleftrightarrow> succeeds (popen (suite_command cfg opts d) (cwd d))"
proof -
  let ?j = "suite_job cfg opts d (o_suite opts)"
  have "\<not> is_example ?j" "\<not> is_pyexample ?j" "job_cwd ?j = cwd d"
    by (simp_all add: suite_job_def Let_def set_skip_def new_job_def)
  then show ?thesis
    by (auto simp: run_job_def run_job_synchronously_def suite_command_def job_command_def Let_def succeeds_def)
qed

text \<open>C4.  \<^verbatim>\<open>test.py --suite=NAME\<close> from end to end.  When \<open>run_tests\<close> gets to the threads, however many there
  are and however they are scheduled, and is not interrupted, its status is 0 exactly when the suite is one of those
  skipped (under valgrind, or without NSC), or the one process launched for it, the test runner with
  the command line of the suite in the current directory, returns 0 and its outputs can be decoded.\<close>

theorem single_suite_status:
  assumes "prepare w cfg dirs3 opts d = Inr (n, js)"
    and "o_suite opts \<noteq> ''''" and "strip (o_suite opts) = o_suite opts"
    and "o_example opts = ''''" and "o_pyexample opts = ''''"
    and "(step (run_job (launch w) cfg opts))\<^sup>*\<^sup>* (start n js) s" and "main s = Finished" and "\<not> thread_exit s"
    and "conclude show_time tmp_text timed s = Inr (status, out, xml)"
  shows "status = 0 \<longleftrightarrow>
     o_valgrind opts \<and> o_suite opts \<in> set core_valgrind_skip_tests
     \<or> \<not> nsc_enabled cfg \<and> o_suite opts \<in> set core_nsc_missing_skip_tests
     \<or> succeeds (launch w (suite_command cfg opts d) (cwd d))"
proof -
  let ?j = "suite_job cfg opts d (o_suite opts)"
  from assms(1) obtain ex where "dispatched (runner_of w cfg d) cfg ex opts d = Inr js"
    by (auto simp: prepare_def split: if_splits)
  from dispatched_suite [OF this assms(2-5)] have js: "js = [?j]" .
  have "is_skip ?j \<longleftrightarrow> o_valgrind opts \<and> o_suite opts \<in> set core_valgrind_skip_tests
     \<or> \<not> nsc_enabled cfg \<and> o_suite opts \<in> set core_nsc_missing_skip_tests"
    by (simp add: suite_job_def Let_def set_skip_def new_job_def)
  moreover have nb: "\<forall>j \<in> set js. \<not> is_break j"
    by (simp add: js suite_job_def Let_def set_skip_def new_job_def)
  ultimately show ?thesis
    using exit_status_facts [OF assms(6) nb assms(7,9)] assms(8) run_suite [of "launch w" cfg opts d]
    by (auto simp: js)
qed

theorem single_suite_status_witness:
  "\<exists>s :: system. \<exists>out xml. main s = Finished
     \<and> conclude (\<lambda>_. ''0.000'') (\<lambda>_. Inr '''') False s = Inr (0, out, xml)"
proof -
  let ?o = "small_opts\<lparr>o_suite := ''a''\<rparr>" and ?w = small_site
  let ?j = "suite_job small_cfg ?o small_dirs ''a''"
  have o: "o_suite ?o = ''a''" "o_example ?o = ''''" "o_pyexample ?o = ''''" "o_constrain ?o = ''''" "o_kinds ?o = False"
    "o_list ?o = False" "o_nowaf ?o = True"
    by (simp_all add: small_opts_def)
  have a: "strip ''a'' = ''a''" by (simp add: strip_id is_space_def)
  have r: "ask_runner (runner_of ?w small_cfg small_dirs) small_cfg args = Inr (''a'' @ [nl] @ ''b'' @ [nl])" for args
    by (simp add: ask_runner_def runner_of_def ask_def small_site_def)
  have sl: "suite_list (runner_of ?w small_cfg small_dirs) small_cfg ?o = Inr [''a'', '''']"
    by (simp add: suite_list_def requested_suites_def r o)
  have js: "dispatched (runner_of ?w small_cfg small_dirs) small_cfg no_examples ?o small_dirs = Inr [?j]"
    by (simp add: dispatched_def sl suite_jobs_def a example_jobs_def pyexample_jobs_def o)
  have p: "prepare ?w small_cfg ([], [], []) ?o small_dirs = Inr (2, [?j])"
    using js sl small_known
    by (simp add: prepare_def build_def early_options_def o processors_def small_site_def)
  have nb: "\<forall>j \<in> set [?j]. \<not> is_break j"
    by (simp add: suite_job_def Let_def set_skip_def new_job_def)
  have cmd: "succeeds (launch ?w (suite_command small_cfg ?o small_dirs) (cwd small_dirs))"
    by code_simp
  then have run: "\<exists>r. run_job (launch ?w) small_cfg ?o ?j = Inr r"
    using run_suite [of "launch ?w" small_cfg ?o small_dirs] by (auto simp: o)
  obtain s where s: "(step (run_job (launch ?w) small_cfg ?o))\<^sup>*\<^sup>* (start 2 [?j]) s" "main s = Finished" "\<not> thread_exit s"
    using run_from_start [OF _ nb, of 2 "run_job (launch ?w) small_cfg ?o"] run by auto
  obtain status out xml where c: "conclude (\<lambda>_. ''0.000'') (\<lambda>_. Inr '''') False s = Inr (status, out, xml)"
    using conclude_total [of "\<lambda>_. Inr ''''"] by blast
  have "status = 0"
    using single_suite_status [OF p _ _ _ _ s c] a cmd by (simp add: o)
  with s(2) c show ?thesis by blast
qed

end
