(* ===== verification/Shellcmd.thy ===== *)
theory Shellcmd
  imports Py_Path
begin

text \<open>
  \<^verbatim>\<open>waf-tools/shellcmd.py\<close>: the parser of command lines \<open>Pipeline.parse\<close>, with \<open>shlex.split\<close> that
  cuts the line into tokens, \<open>get_abbreviated_command\<close> and \<open>Pipeline.run\<close>.  The processes are a
  parameter: \<open>popen n p\<close> is the exit code of the process \<open>p\<close> launched as number \<open>n\<close>, or the exception
  \<open>Popen\<close> raises, and \<open>opens f\<close> says whether the file \<open>f\<close> can be opened.
\<close>

section \<open>Nodes\<close>

text \<open>Where an output goes: a file, \<open>Command.PIPE\<close> or \<open>Command.STDOUT\<close>.\<close>

datatype redirect = To string | PIPE | STDOUT

record command =
  cmd_name :: string
  argv :: "string list"
  cmd_stdin :: "string option"
  cmd_stdout :: "redirect option"
  cmd_stderr :: "redirect option"
  env_vars :: "(string, string) dict"

definition new_command :: "string \<Rightarrow> command" where
  "new_command name = \<lparr>cmd_name = name, argv = [name], cmd_stdin = None, cmd_stdout = None,
     cmd_stderr = None, env_vars = []\<rparr>"

datatype node = Command command | Chdir "string option" | Pipe | And | Or

section \<open>shlex.split\<close>

datatype lex_state = Blank | Word | Quoted char | Escape lex_state

definition shell_blank :: "char \<Rightarrow> bool" where
  "shell_blank c \<longleftrightarrow> c \<in> {CHR '' '', CHR 0x09, CHR 0x0D, CHR 0x0A}"

definition is_quote :: "char \<Rightarrow> bool" where
  "is_quote c \<longleftrightarrow> c \<in> {CHR 0x22, CHR 0x27}"

text \<open>The token so far and whether it has a quoted part, which makes an empty token count.\<close>

fun lex :: "lex_state \<Rightarrow> string \<Rightarrow> bool \<Rightarrow> string \<Rightarrow> py_exn + string list" where
  "lex (Quoted q) tok quoted [] = Inl ValueError"
| "lex (Escape st) tok quoted [] = Inl ValueError"
| "lex Blank tok quoted [] = Inr []"
| "lex Word tok quoted [] = Inr (if tok \<noteq> [] \<or> quoted then [tok] else [])"
| "lex (Quoted q) tok quoted (c # cs) =
     (if c = q then lex Word tok True cs
      else if c = CHR 0x5C \<and> q = CHR 0x22 then lex (Escape (Quoted q)) tok True cs
      else lex (Quoted q) (tok @ [c]) True cs)"
| "lex (Escape st) tok quoted (c # cs) =
     (case st of
        Quoted q \<Rightarrow> lex st (tok @ (if c \<noteq> CHR 0x5C \<and> c \<noteq> q then [CHR 0x5C, c] else [c])) quoted cs
      | _ \<Rightarrow> lex Word (tok @ [c]) quoted cs)"
| "lex Blank tok quoted (c # cs) =
     (if shell_blank c then lex Blank [] False cs
      else if c = CHR 0x5C then lex (Escape Word) [] False cs
      else if is_quote c then lex (Quoted c) [] False cs
      else lex Word [c] False cs)"
| "lex Word tok quoted (c # cs) =
     (if shell_blank c
      then (if tok \<noteq> [] \<or> quoted then rbind (lex Blank [] False cs) (\<lambda>ts. Inr (tok # ts))
            else lex Blank [] False cs)
      else if is_quote c then lex (Quoted c) tok quoted cs
      else if c = CHR 0x5C then lex (Escape Word) tok quoted cs
      else lex Word (tok @ [c]) quoted cs)"

definition shlex_split :: "string \<Rightarrow> py_exn + string list" where
  "shlex_split s = lex Blank [] False s"

section \<open>Pipeline.parse\<close>

definition key_char :: "char \<Rightarrow> bool" where
  "key_char c \<longleftrightarrow> (let n = (of_char c :: nat)
     in 48 \<le> n \<and> n \<le> 57 \<or> 65 \<le> n \<and> n \<le> 90 \<or> 97 \<le> n \<and> n \<le> 122 \<or> n = 95)"

text \<open>\<^verbatim>\<open>^([a-zA-Z0-9_]+)=(\S+)$\<close>; the dollar also matches before a final newline.\<close>

definition env_var_match :: "string \<Rightarrow> (string \<times> string) option" where
  "env_var_match token =
     (case split1 (CHR ''='') token of
        (k, None) \<Rightarrow> None
      | (k, Some v) \<Rightarrow>
          (let v = (if v \<noteq> [] \<and> last v = nl then butlast v else v)
           in if k \<noteq> [] \<and> list_all key_char k \<and> v \<noteq> [] \<and> list_all (\<lambda>c. \<not> is_space c) v
              then Some (k, v) else None))"

datatype parse_pc = BEGIN | COMMAND | CHDIR | S_STDERR | S_STDOUT | S_STDIN

text \<open>\<open>current\<close> is \<open>current_command\<close>, a command or a directory change.\<close>

record parser =
  pc :: parse_pc
  current :: "node option"
  pipeline :: "node list"
  p_env :: "(string, string) dict"

definition commit_command :: "parser \<Rightarrow> py_exn + parser" where
  "commit_command p =
     (case current p of
        None \<Rightarrow> Inl AssertionError
      | Some n \<Rightarrow> Inr (p\<lparr>pipeline := pipeline p @ [n], current := None\<rparr>))"

definition commit_op :: "node \<Rightarrow> parser \<Rightarrow> py_exn + parser" where
  "commit_op op p = rbind (commit_command p) (\<lambda>p. Inr (p\<lparr>pipeline := pipeline p @ [op], pc := BEGIN\<rparr>))"

definition set_current :: "command \<Rightarrow> parse_pc \<Rightarrow> parser \<Rightarrow> parser" where
  "set_current c st p = p\<lparr>current := Some (Command c), pc := st\<rparr>"

definition parse_begin :: "string \<Rightarrow> parser \<Rightarrow> py_exn + parser" where
  "parse_begin token p =
     (case env_var_match token of
        Some (k, v) \<Rightarrow> Inr (p\<lparr>p_env := dset k v (p_env p)\<rparr>)
      | None \<Rightarrow>
          if current p \<noteq> None then Inl AssertionError
          else if token = ''cd''
          then (if p_env p \<noteq> [] then Inl AssertionError
                else Inr (p\<lparr>current := Some (Chdir None), pc := CHDIR\<rparr>))
          else Inr ((set_current ((new_command token)\<lparr>env_vars := p_env p\<rparr>) COMMAND p)\<lparr>p_env := []\<rparr>))"

definition parse_command :: "string \<Rightarrow> command \<Rightarrow> parser \<Rightarrow> py_exn + parser" where
  "parse_command token c p =
     (if token = ''>'' then Inr (p\<lparr>pc := S_STDOUT\<rparr>)
      else if token = ''2>'' then Inr (p\<lparr>pc := S_STDERR\<rparr>)
      else if token = ''2>&1''
      then (if cmd_stderr c \<noteq> None then Inl AssertionError
            else Inr (set_current (c\<lparr>cmd_stderr := Some STDOUT\<rparr>) COMMAND p))
      else if token = ''<'' then Inr (p\<lparr>pc := S_STDIN\<rparr>)
      else if token = ''|''
      then (if cmd_stdout c \<noteq> None then Inl AssertionError
            else commit_op Pipe (set_current (c\<lparr>cmd_stdout := Some PIPE\<rparr>) COMMAND p))
      else if token = ''&&'' then commit_op And p
      else if token = ''||'' then commit_op Or p
      else Inr (set_current (c\<lparr>argv := argv c @ [token]\<rparr>) COMMAND p))"

text \<open>
  One round of the loop.  Outside \<open>BEGIN\<close> and \<open>CHDIR\<close> the current node is a command, in \<open>CHDIR\<close> a
  directory change; the other cases are attributes the object does not have.
\<close>

definition parse_token :: "string \<Rightarrow> parser \<Rightarrow> py_exn + parser" where
  "parse_token token p =
     (case pc p of
        BEGIN \<Rightarrow> parse_begin token p
      | CHDIR \<Rightarrow>
          (if token = ''&&'' then commit_op And p
           else case current p of
                  Some (Chdir None) \<Rightarrow> Inr (p\<lparr>current := Some (Chdir (Some token))\<rparr>)
                | Some (Chdir (Some d)) \<Rightarrow> Inl AssertionError
                | _ \<Rightarrow> Inl AttributeError)
      | st \<Rightarrow>
          (case current p of
             Some (Command c) \<Rightarrow>
               (case st of
                  S_STDOUT \<Rightarrow> if cmd_stdout c \<noteq> None then Inl AssertionError
                              else Inr (set_current (c\<lparr>cmd_stdout := Some (To token)\<rparr>) COMMAND p)
                | S_STDERR \<Rightarrow> if cmd_stderr c \<noteq> None then Inl AssertionError
                              else Inr (set_current (c\<lparr>cmd_stderr := Some (To token)\<rparr>) COMMAND p)
                | S_STDIN \<Rightarrow> if cmd_stdin c \<noteq> None then Inl AssertionError
                             else Inr (set_current (c\<lparr>cmd_stdin := Some token\<rparr>) COMMAND p)
                | _ \<Rightarrow> parse_command token c p)
           | _ \<Rightarrow> Inl AttributeError))"

fun parse_tokens :: "string list \<Rightarrow> parser \<Rightarrow> py_exn + parser" where
  "parse_tokens [] p = Inr p"
| "parse_tokens (t # ts) p = rbind (parse_token t p) (parse_tokens ts)"

definition parse :: "string list \<Rightarrow> py_exn + node list" where
  "parse tokens =
     rbind (parse_tokens tokens \<lparr>pc = BEGIN, current = None, pipeline = [], p_env = []\<rparr>) (\<lambda>p.
     rbind (commit_command p) (\<lambda>p. Inr (pipeline p)))"

definition parse_string :: "string \<Rightarrow> py_exn + node list" where
  "parse_string s = rbind (shlex_split s) parse"

section \<open>get\_abbreviated\_command\<close>

text \<open>The last branch tests \<open>And\<close> again, so \<open>Or\<close> adds nothing.\<close>

definition abbreviate :: "node \<Rightarrow> string list" where
  "abbreviate n =
     (case n of
        Command c \<Rightarrow> [cmd_name c]
      | Chdir d \<Rightarrow> [''cd '' @ (case d of None \<Rightarrow> ''None'' | Some s \<Rightarrow> s)]
      | Pipe \<Rightarrow> [''|'']
      | And \<Rightarrow> [''&&'']
      | Or \<Rightarrow> [])"

definition get_abbreviated_command :: "node list \<Rightarrow> string" where
  "get_abbreviated_command ns = join '' '' (concat (map abbreviate ns))"

section \<open>Pipeline.run\<close>

datatype stream = Inherit | Previous | FromFile string | ToFile string | NewPipe | SameAsStdout

record process =
  pr_argv :: "string list"
  pr_stdin :: stream
  pr_stdout :: stream
  pr_stderr :: stream
  pr_env :: "(string, string) dict"
  pr_cwd :: "string option"

record runner =
  popen :: "nat \<Rightarrow> process \<Rightarrow> py_exn + int"
  opens :: "string \<Rightarrow> bool"

definition open_stream :: "runner \<Rightarrow> string \<Rightarrow> stream \<Rightarrow> py_exn + stream" where
  "open_stream R f s = (if opens R f then Inr s else Inl OSError)"

definition open_out_file :: "runner \<Rightarrow> string \<Rightarrow> py_exn + stream" where
  "open_out_file R f = (if f \<in> {''NUL:'', ''/dev/null''} then Inr (ToFile f) else open_stream R f (ToFile f))"

definition out_stream :: "runner \<Rightarrow> redirect option \<Rightarrow> py_exn + stream" where
  "out_stream R r =
     (case r of
        None \<Rightarrow> Inr Inherit
      | Some PIPE \<Rightarrow> Inr NewPipe
      | Some STDOUT \<Rightarrow> Inr SameAsStdout
      | Some (To f) \<Rightarrow> open_out_file R f)"

text \<open>The process made of a command: \<open>piped\<close> is the state \<open>PIPE\<close>.\<close>

definition process_of :: "runner \<Rightarrow> bool \<Rightarrow> string \<Rightarrow> command \<Rightarrow> py_exn + process" where
  "process_of R piped cwd c =
     rbind (if piped then Inr Previous
            else case cmd_stdin c of None \<Rightarrow> Inr Inherit | Some f \<Rightarrow> open_stream R f (FromFile f)) (\<lambda>i.
     rbind (if cmd_stdout c = Some STDOUT then Inl TypeError else out_stream R (cmd_stdout c)) (\<lambda>out.
     rbind (out_stream R (cmd_stderr c)) (\<lambda>e.
       Inr \<lparr>pr_argv = argv c, pr_stdin = i, pr_stdout = out, pr_stderr = e, pr_env = env_vars c,
             pr_cwd = (if cwd = ''.'' then None else Some cwd)\<rparr>)))"

text \<open>The exit codes of the processes of a pipe.\<close>

definition exec_piped_commands :: "int list \<Rightarrow> int" where
  "exec_piped_commands retvals = (if list_ex (\<lambda>r. r \<noteq> 0) retvals then last retvals else 0)"

text \<open>
  The loop.  \<open>codes\<close> are the exit codes of \<open>piped_commands\<close>, \<open>launched\<close> all processes so far.  The result
  is \<open>None\<close> when the loop ends without a return.  In verbose mode the operators print the local
  \<open>retval\<close>, which is not assigned then.
\<close>

fun run_nodes ::
    "runner \<Rightarrow> bool \<Rightarrow> node list \<Rightarrow> bool \<Rightarrow> int list \<Rightarrow> string \<Rightarrow> process list
     \<Rightarrow> process list \<times> (py_exn + int option)" where
  "run_nodes R verbose [] piped codes cwd launched = (launched, Inr None)"
| "run_nodes R verbose [Chdir d] piped codes cwd launched = (launched, Inl IndexError)"
| "run_nodes R verbose (Chdir d # op # ns) piped codes cwd launched =
     (if op \<noteq> And then (launched, Inl AssertionError)
      else case d of
             None \<Rightarrow> (launched, Inl TypeError)
           | Some s \<Rightarrow> run_nodes R verbose ns piped codes (path_join cwd s) launched)"
| "run_nodes R verbose [Command c] piped codes cwd launched =
     (case process_of R piped cwd c of
        Inl e \<Rightarrow> (launched, Inl e)
      | Inr p \<Rightarrow>
          (case popen R (length launched) p of
             Inl e \<Rightarrow> (launched, Inl e)
           | Inr code \<Rightarrow> (launched @ [p], Inr (Some (exec_piped_commands (codes @ [code]))))))"
| "run_nodes R verbose (Command c # next_node # ns) piped codes cwd launched =
     (case process_of R piped cwd c of
        Inl e \<Rightarrow> (launched, Inl e)
      | Inr p \<Rightarrow>
          (case popen R (length launched) p of
             Inl e \<Rightarrow> (launched, Inl e)
           | Inr code \<Rightarrow>
               (let launched = launched @ [p]; codes = codes @ [code]; this_retval = exec_piped_commands codes
                in case next_node of
                     Pipe \<Rightarrow> run_nodes R verbose ns True codes cwd launched
                   | Or \<Rightarrow>
                       (if verbose then (launched, Inl UnboundLocalError)
                        else if this_retval = 0 then (launched, Inr (Some this_retval))
                        else run_nodes R verbose ns False [] cwd launched)
                   | And \<Rightarrow>
                       (if verbose then (launched, Inl UnboundLocalError)
                        else if this_retval \<noteq> 0 then (launched, Inr (Some this_retval))
                        else run_nodes R verbose ns False [] cwd launched)
                   | _ \<Rightarrow> run_nodes R verbose ns piped codes cwd launched)))"
| "run_nodes R verbose (Pipe # ns) piped codes cwd launched = (launched, Inl AssertionError)"
| "run_nodes R verbose (And # ns) piped codes cwd launched = (launched, Inl AssertionError)"
| "run_nodes R verbose (Or # ns) piped codes cwd launched = (launched, Inl AssertionError)"

definition run_pipeline :: "runner \<Rightarrow> bool \<Rightarrow> node list \<Rightarrow> process list \<times> (py_exn + int option)" where
  "run_pipeline R verbose ns = run_nodes R verbose ns False [] ''.'' []"

section \<open>Writing a pipeline as tokens\<close>

definition operators :: "string set" where
  "operators = {''>'', ''2>'', ''2>&1'', ''<'', ''|'', ''&&'', ''||''}"

definition env_tokens :: "(string, string) dict \<Rightarrow> string list" where
  "env_tokens env = map (\<lambda>(k, v). k @ ''='' @ v) env"

definition command_tokens :: "command \<Rightarrow> string list" where
  "command_tokens c =
     env_tokens (env_vars c) @ [cmd_name c] @ tl (argv c)
     @ (case cmd_stdin c of None \<Rightarrow> [] | Some f \<Rightarrow> [''<'', f])
     @ (case cmd_stdout c of Some (To f) \<Rightarrow> [''>'', f] | _ \<Rightarrow> [])
     @ (case cmd_stderr c of Some (To f) \<Rightarrow> [''2>'', f] | Some STDOUT \<Rightarrow> [''2>&1''] | _ \<Rightarrow> [])"

fun node_tokens :: "node \<Rightarrow> string list" where
  "node_tokens (Command c) = command_tokens c"
| "node_tokens (Chdir d) = ''cd'' # (case d of None \<Rightarrow> [] | Some s \<Rightarrow> [s])"
| "node_tokens Pipe = [''|'']"
| "node_tokens And = [''&&'']"
| "node_tokens Or = [''||'']"

definition unparse :: "node list \<Rightarrow> py_exn + string list" where
  "unparse ns = Inr (concat (map node_tokens ns))"

definition wf_command :: "command \<Rightarrow> bool" where
  "wf_command c \<longleftrightarrow>
     env_var_match (cmd_name c) = None \<and> cmd_name c \<noteq> ''cd''
   \<and> argv c = cmd_name c # tl (argv c) \<and> set (tl (argv c)) \<inter> operators = {}
   \<and> wf_dict (env_vars c) \<and> list_all (\<lambda>(k, v). env_var_match (k @ ''='' @ v) = Some (k, v)) (env_vars c)
   \<and> cmd_stdout c \<noteq> Some STDOUT \<and> cmd_stderr c \<noteq> Some PIPE"

fun wf_nodes :: "node list \<Rightarrow> bool" where
  "wf_nodes [Command c] \<longleftrightarrow> wf_command c \<and> cmd_stdout c \<noteq> Some PIPE"
| "wf_nodes [Chdir (Some d)] \<longleftrightarrow> d \<noteq> ''&&''"
| "wf_nodes (Command c # Pipe # ns) \<longleftrightarrow> wf_command c \<and> cmd_stdout c = Some PIPE \<and> wf_nodes ns"
| "wf_nodes (Command c # And # ns) \<longleftrightarrow> wf_command c \<and> cmd_stdout c \<noteq> Some PIPE \<and> wf_nodes ns"
| "wf_nodes (Command c # Or # ns) \<longleftrightarrow> wf_command c \<and> cmd_stdout c \<noteq> Some PIPE \<and> wf_nodes ns"
| "wf_nodes (Chdir (Some d) # And # ns) \<longleftrightarrow> d \<noteq> ''&&'' \<and> wf_nodes ns"
| "wf_nodes _ \<longleftrightarrow> False"

lemma parse_tokens_append:
  "parse_tokens (ts @ us) p = rbind (parse_tokens ts p) (parse_tokens us)"
proof (induction ts arbitrary: p)
  case (Cons t ts)
  then show ?case by (cases "parse_token t p") auto
qed simp

lemma parse_tokens_then: "parse_tokens ts p = Inr p1 \<Longrightarrow> parse_tokens (ts @ us) p = parse_tokens us p1"
  by (simp add: parse_tokens_append)

definition begin_at :: "node list \<Rightarrow> (string, string) dict \<Rightarrow> parser" where
  "begin_at ns env = \<lparr>pc = BEGIN, current = None, pipeline = ns, p_env = env\<rparr>"

definition in_command :: "node list \<Rightarrow> command \<Rightarrow> parser" where
  "in_command ns c = \<lparr>pc = COMMAND, current = Some (Command c), pipeline = ns, p_env = []\<rparr>"

lemma parse_env:
  assumes "list_all (\<lambda>(k, v). env_var_match (k @ ''='' @ v) = Some (k, v)) env" and "wf_dict (old @ env)"
  shows "parse_tokens (env_tokens env) (begin_at ns old) = Inr (begin_at ns (old @ env))"
  using assms
proof (induction env arbitrary: old)
  case Nil
  then show ?case by (simp add: env_tokens_def)
next
  case (Cons e env)
  obtain k v where e: "e = (k, v)" by force
  with Cons.prems have "k \<notin> fst ` set old" by (auto simp: wf_dict_def)
  then have "dset k v old = old @ [(k, v)]" by (rule dset_new)
  then have "parse_token (k @ ''='' @ v) (begin_at ns old) = Inr (begin_at ns (old @ [e]))"
    using Cons.prems(1) e by (simp add: parse_token_def parse_begin_def begin_at_def)
  moreover have "parse_tokens (env_tokens env) (begin_at ns (old @ [e])) = Inr (begin_at ns ((old @ [e]) @ env))"
    using Cons.prems by (intro Cons.IH) auto
  ultimately show ?case by (simp add: env_tokens_def e)
qed

lemma parse_name:
  assumes "env_var_match name = None" and "name \<noteq> ''cd''"
  shows "parse_token name (begin_at ns env) = Inr (in_command ns ((new_command name)\<lparr>env_vars := env\<rparr>))"
  using assms by (simp add: parse_token_def parse_begin_def begin_at_def in_command_def set_current_def)

lemma parse_args:
  "set args \<inter> operators = {} \<Longrightarrow>
     parse_tokens args (in_command ns c) = Inr (in_command ns (c\<lparr>argv := argv c @ args\<rparr>))"
proof (induction args arbitrary: c)
  case (Cons a args)
  then have "parse_token a (in_command ns c) = Inr (in_command ns (c\<lparr>argv := argv c @ [a]\<rparr>))"
    by (auto simp: parse_token_def parse_command_def in_command_def set_current_def operators_def)
  with Cons show ?case by simp
qed simp

lemma parse_redirects:
  "parse_tokens [''<'', f] (in_command ns c)
     = (if cmd_stdin c = None then Inr (in_command ns (c\<lparr>cmd_stdin := Some f\<rparr>)) else Inl AssertionError)"
  "parse_tokens [''>'', f] (in_command ns c)
     = (if cmd_stdout c = None then Inr (in_command ns (c\<lparr>cmd_stdout := Some (To f)\<rparr>)) else Inl AssertionError)"
  "parse_tokens [''2>'', f] (in_command ns c)
     = (if cmd_stderr c = None then Inr (in_command ns (c\<lparr>cmd_stderr := Some (To f)\<rparr>)) else Inl AssertionError)"
  "parse_tokens [''2>&1''] (in_command ns c)
     = (if cmd_stderr c = None then Inr (in_command ns (c\<lparr>cmd_stderr := Some STDOUT\<rparr>)) else Inl AssertionError)"
  by (auto simp: parse_token_def parse_command_def in_command_def set_current_def)

lemma parse_command_tokens:
  assumes "wf_command c"
  shows "parse_tokens (command_tokens c) (begin_at ns [])
    = Inr (in_command ns (c\<lparr>cmd_stdout := (if cmd_stdout c = Some PIPE then None else cmd_stdout c)\<rparr>))"
proof -
  obtain name av0 i out err env where c0: "c = \<lparr>cmd_name = name, argv = av0, cmd_stdin = i, cmd_stdout = out,
      cmd_stderr = err, env_vars = env\<rparr>" by (cases c)
  with assms obtain args where "av0 = name # args" by (auto simp: wf_command_def)
  with c0 have c: "c = \<lparr>cmd_name = name, argv = name # args, cmd_stdin = i, cmd_stdout = out,
      cmd_stderr = err, env_vars = env\<rparr>" by simp
  have wf: "env_var_match name = None" "name \<noteq> ''cd''" "set args \<inter> operators = {}"
    "wf_dict env" "list_all (\<lambda>(k, v). env_var_match (k @ ''='' @ v) = Some (k, v)) env"
    "out \<noteq> Some STDOUT" "err \<noteq> Some PIPE"
    using assms by (simp_all add: c wf_command_def)
  let ?c = "\<lambda>i out err. \<lparr>cmd_name = name, argv = name # args, cmd_stdin = i, cmd_stdout = out, cmd_stderr = err, env_vars = env\<rparr>"
  have 1: "parse_tokens (env_tokens env) (begin_at ns []) = Inr (begin_at ns env)"
    using parse_env [OF wf(5), of "[]" ns] wf(4) by simp
  have 2: "parse_tokens [name] (begin_at ns env) = Inr (in_command ns ((new_command name)\<lparr>env_vars := env\<rparr>))"
    using parse_name [OF wf(1,2), of ns env] by simp
  have 3: "parse_tokens args (in_command ns ((new_command name)\<lparr>env_vars := env\<rparr>))
      = Inr (in_command ns (?c None None None))"
    using parse_args [OF wf(3), of ns] by (simp add: new_command_def)
  have 4: "parse_tokens (case i of None \<Rightarrow> [] | Some f \<Rightarrow> [''<'', f]) (in_command ns (?c None None None))
      = Inr (in_command ns (?c i None None))"
    by (cases i) (simp_all add: parse_redirects del: parse_tokens.simps(2))
  have 5: "parse_tokens (case out of Some (To f) \<Rightarrow> [''>'', f] | _ \<Rightarrow> []) (in_command ns (?c i None None))
      = Inr (in_command ns (?c i (if out = Some PIPE then None else out) None))"
    using wf(6) by (auto simp: parse_redirects simp del: parse_tokens.simps(2) split: option.splits redirect.splits)
  have 6: "parse_tokens (case err of Some (To f) \<Rightarrow> [''2>'', f] | Some STDOUT \<Rightarrow> [''2>&1''] | _ \<Rightarrow> [])
        (in_command ns (?c i (if out = Some PIPE then None else out) None))
      = Inr (in_command ns (?c i (if out = Some PIPE then None else out) err))"
    using wf(7) by (auto simp: parse_redirects simp del: parse_tokens.simps(2) split: option.splits redirect.splits)
  note go = parse_tokens_then [OF 1] parse_tokens_then [OF 2] parse_tokens_then [OF 3] parse_tokens_then [OF 4]
    parse_tokens_then [OF 5] 6
  show ?thesis
    unfolding command_tokens_def c by (simp only: command.simps list.sel go)
qed

text \<open>What follows a command commits it.\<close>

lemma parse_ops:
  "parse_token ''|'' (in_command ns c) = (if cmd_stdout c \<noteq> None then Inl AssertionError
     else Inr (begin_at (ns @ [Command (c\<lparr>cmd_stdout := Some PIPE\<rparr>), Pipe]) []))"
  "parse_token ''&&'' (in_command ns c) = Inr (begin_at (ns @ [Command c, And]) [])"
  "parse_token ''||'' (in_command ns c) = Inr (begin_at (ns @ [Command c, Or]) [])"
  by (simp_all add: parse_token_def parse_command_def in_command_def commit_op_def commit_command_def
      set_current_def begin_at_def)

lemma parse_cd:
  assumes "d \<noteq> ''&&''"
  shows "parse_tokens [''cd'', d] (begin_at ns [])
    = Inr \<lparr>pc = CHDIR, current = Some (Chdir (Some d)), pipeline = ns, p_env = []\<rparr>"
  using assms by (simp add: parse_token_def parse_begin_def begin_at_def env_var_match_def split1_def)

lemma parse_nodes:
  assumes "wf_nodes ms"
  shows "\<exists>p. parse_tokens (concat (map node_tokens ms)) (begin_at ns []) = Inr p
    \<and> commit_command p = Inr (p\<lparr>pipeline := ns @ ms, current := None\<rparr>)"
  using assms
proof (induction ms arbitrary: ns rule: wf_nodes.induct)
  case (1 c)
  then have "parse_tokens (command_tokens c) (begin_at ns []) = Inr (in_command ns c)"
    using parse_command_tokens [of c ns] by (cases c) simp
  then show ?case by (simp add: in_command_def commit_command_def)
next
  case (2 d)
  with parse_cd [of d ns] show ?case
    by (simp add: commit_command_def del: parse_tokens.simps(2))
next
  case (3 c ms)
  then have "parse_tokens (command_tokens c) (begin_at ns []) = Inr (in_command ns (c\<lparr>cmd_stdout := None\<rparr>))"
    using parse_command_tokens [of c ns] by simp
  moreover have "c\<lparr>cmd_stdout := Some PIPE\<rparr> = c" using 3(2) by (cases c) simp
  moreover obtain p where "parse_tokens (concat (map node_tokens ms)) (begin_at (ns @ [Command c, Pipe]) []) = Inr p"
    "commit_command p = Inr (p\<lparr>pipeline := (ns @ [Command c, Pipe]) @ ms, current := None\<rparr>)"
    using 3 by (metis wf_nodes.simps(3))
  ultimately show ?case by (simp add: parse_tokens_append parse_ops)
next
  case (4 c ms)
  then have "parse_tokens (command_tokens c) (begin_at ns []) = Inr (in_command ns c)"
    using parse_command_tokens [of c ns] by (cases c) simp
  moreover obtain p where "parse_tokens (concat (map node_tokens ms)) (begin_at (ns @ [Command c, And]) []) = Inr p"
    "commit_command p = Inr (p\<lparr>pipeline := (ns @ [Command c, And]) @ ms, current := None\<rparr>)"
    using 4 by (metis wf_nodes.simps(4))
  ultimately show ?case by (simp add: parse_tokens_append parse_ops)
next
  case (5 c ms)
  then have "parse_tokens (command_tokens c) (begin_at ns []) = Inr (in_command ns c)"
    using parse_command_tokens [of c ns] by (cases c) simp
  moreover obtain p where "parse_tokens (concat (map node_tokens ms)) (begin_at (ns @ [Command c, Or]) []) = Inr p"
    "commit_command p = Inr (p\<lparr>pipeline := (ns @ [Command c, Or]) @ ms, current := None\<rparr>)"
    using 5 by (metis wf_nodes.simps(5))
  ultimately show ?case by (simp add: parse_tokens_append parse_ops)
next
  case (6 d ms)
  then obtain p where p: "parse_tokens (concat (map node_tokens ms)) (begin_at (ns @ [Chdir (Some d), And]) []) = Inr p"
    "commit_command p = Inr (p\<lparr>pipeline := (ns @ [Chdir (Some d), And]) @ ms, current := None\<rparr>)"
    by (metis wf_nodes.simps(6))
  have "parse_tokens ([''cd'', d] @ [''&&'']) (begin_at ns []) = Inr (begin_at (ns @ [Chdir (Some d), And]) [])"
    using 6(2) by (subst parse_tokens_then [OF parse_cd])
      (auto simp: parse_token_def commit_op_def commit_command_def begin_at_def)
  from parse_tokens_then [OF this, of "concat (map node_tokens ms)"] p(1)
  have "parse_tokens (concat (map node_tokens (Chdir (Some d) # And # ms))) (begin_at ns []) = Inr p"
    by (simp del: parse_tokens.simps)
  moreover from p(2) have "commit_command p = Inr (p\<lparr>pipeline := ns @ Chdir (Some d) # And # ms, current := None\<rparr>)"
    by simp
  ultimately show ?case by blast
qed auto

interpretation tokens: codec unparse parse wf_nodes
proof unfold_locales
  fix ns assume "wf_nodes ns"
  from parse_nodes [OF this, of "[]"] show "\<exists>ts. unparse ns = Inr ts \<and> parse ts = Inr ns"
    by (auto simp: unparse_def parse_def begin_at_def)
qed

text \<open>C16.  Parsing the tokens of a well-formed pipeline gives the pipeline back: environment settings,
  arguments, the three redirections, \<open>|\<close>, \<open>&&\<close>, \<open>||\<close> and \<open>cd DIR &&\<close> each survive
  \<open>Pipeline.parse\<close>, in order, and with the standard output of a command before a \<open>|\<close> set to the pipe.\<close>

theorem parse_unparse: "wf_nodes ns \<Longrightarrow> \<exists>ts. unparse ns = Inr ts \<and> parse ts = Inr ns"
  by (rule tokens.enc_ok)

definition small_pipeline :: "node list" where
  "small_pipeline =
     [Chdir (Some ''build''), And,
      Command ((new_command ''foo'')\<lparr>argv := [''foo'', ''-v''], env_vars := [(''A'', ''1'')], cmd_stdout := Some PIPE,
        cmd_stderr := Some STDOUT\<rparr>), Pipe,
      Command ((new_command ''cat'')\<lparr>cmd_stdout := Some (To ''log'')\<rparr>), Or, Command (new_command ''ls'')]"

theorem parse_unparse_witness: "\<exists>ts. unparse small_pipeline = Inr ts \<and> parse ts = Inr small_pipeline"
  by (rule parse_unparse) code_simp

section \<open>How the operators associate\<close>

text \<open>A pipe of commands, and the processes it launches.\<close>

fun pipe_nodes :: "command list \<Rightarrow> node list" where
  "pipe_nodes [] = []"
| "pipe_nodes [c] = [Command c]"
| "pipe_nodes (c # cs) = Command c # Pipe # pipe_nodes cs"

fun pipe_processes :: "bool \<Rightarrow> string \<Rightarrow> command list \<Rightarrow> runner \<Rightarrow> py_exn + process list" where
  "pipe_processes piped cwd [] R = Inr []"
| "pipe_processes piped cwd (c # cs) R =
     rbind (process_of R piped cwd c) (\<lambda>p. rbind (pipe_processes True cwd cs R) (\<lambda>ps. Inr (p # ps)))"

lemma exec_piped_commands_last: "codes \<noteq> [] \<Longrightarrow> exec_piped_commands codes = last codes"
  by (cases codes rule: rev_cases) (auto simp: exec_piped_commands_def list_ex_iff)

definition launches :: "runner \<Rightarrow> (process \<Rightarrow> int) \<Rightarrow> bool" where
  "launches R code \<longleftrightarrow> (\<forall>n p. popen R n p = Inr (code p))"

lemma run_pipe_then:
  assumes "launches R code" "pipe_processes piped cwd cs R = Inr ps" "cs \<noteq> []" "op \<in> {And, Or}"
  shows "run_nodes R False (pipe_nodes cs @ op # ns) piped codes cwd launched
     = (let r = code (last ps)
        in if (r = 0) = (op = Or) then (launched @ ps, Inr (Some r))
           else run_nodes R False ns False [] cwd (launched @ ps))"
  using assms(2,3)
proof (induction cs arbitrary: piped codes launched ps rule: pipe_nodes.induct)
  case (2 c)
  then obtain p where p: "process_of R piped cwd c = Inr p" and ps: "ps = [p]" by (auto simp: rbind_eq_Inr)
  with assms(1,4) show ?case
    by (auto simp: launches_def exec_piped_commands_last Let_def)
next
  case (3 c d cs)
  from 3(2) obtain p qs where p: "process_of R piped cwd c = Inr p"
    and qs: "pipe_processes True cwd (d # cs) R = Inr qs" and ps: "ps = p # qs"
    by (simp only: pipe_processes.simps(2) [of piped cwd c] rbind_eq_Inr) blast
  from qs have "qs \<noteq> []" by (auto simp: rbind_eq_Inr)
  with 3(1) [OF qs, of "codes @ [code p]" "launched @ [p]"] p assms(1) show ?case
    by (simp add: ps launches_def Let_def)
qed simp

lemma run_pipe_last:
  assumes "launches R code" "pipe_processes piped cwd cs R = Inr ps" "cs \<noteq> []"
  shows "run_nodes R v (pipe_nodes cs) piped codes cwd launched = (launched @ ps, Inr (Some (code (last ps))))"
  using assms(2,3)
proof (induction cs arbitrary: piped codes launched ps rule: pipe_nodes.induct)
  case (2 c)
  then obtain p where p: "process_of R piped cwd c = Inr p" and ps: "ps = [p]" by (auto simp: rbind_eq_Inr)
  with assms(1) show ?case by (simp add: launches_def exec_piped_commands_last)
next
  case (3 c d cs)
  from 3(2) obtain p qs where p: "process_of R piped cwd c = Inr p"
    and qs: "pipe_processes True cwd (d # cs) R = Inr qs" and ps: "ps = p # qs"
    by (simp only: pipe_processes.simps(2) [of piped cwd c] rbind_eq_Inr) blast
  from qs have "qs \<noteq> []" by (auto simp: rbind_eq_Inr)
  with 3(1) [OF qs, of "codes @ [code p]" "launched @ [p]"] p assms(1) show ?case
    by (simp add: ps launches_def Let_def)
qed simp


text \<open>
  A command line read to the right: an operator has a pipe on its left and the whole rest of the line
  on its right.  \<open>line_result\<close> is what such a line does: the processes it launches and its exit code.
\<close>

datatype command_line =
    Single "command list"
  | AndThen "command list" command_line
  | OrElse "command list" command_line
  | InDir string command_line

fun line_nodes :: "command_line \<Rightarrow> node list" where
  "line_nodes (Single cs) = pipe_nodes cs"
| "line_nodes (AndThen cs l) = pipe_nodes cs @ And # line_nodes l"
| "line_nodes (OrElse cs l) = pipe_nodes cs @ Or # line_nodes l"
| "line_nodes (InDir d l) = Chdir (Some d) # And # line_nodes l"

fun no_empty_pipe :: "command_line \<Rightarrow> bool" where
  "no_empty_pipe (Single cs) \<longleftrightarrow> cs \<noteq> []"
| "no_empty_pipe (AndThen cs l) \<longleftrightarrow> cs \<noteq> [] \<and> no_empty_pipe l"
| "no_empty_pipe (OrElse cs l) \<longleftrightarrow> cs \<noteq> [] \<and> no_empty_pipe l"
| "no_empty_pipe (InDir d l) \<longleftrightarrow> no_empty_pipe l"

fun line_result :: "runner \<Rightarrow> (process \<Rightarrow> int) \<Rightarrow> string \<Rightarrow> command_line \<Rightarrow> py_exn + (process list \<times> int)" where
  "line_result R code cwd (Single cs) = rbind (pipe_processes False cwd cs R) (\<lambda>ps. Inr (ps, code (last ps)))"
| "line_result R code cwd (AndThen cs l) =
     rbind (pipe_processes False cwd cs R) (\<lambda>ps.
       if code (last ps) \<noteq> 0 then Inr (ps, code (last ps))
       else rbind (line_result R code cwd l) (\<lambda>(qs, r). Inr (ps @ qs, r)))"
| "line_result R code cwd (OrElse cs l) =
     rbind (pipe_processes False cwd cs R) (\<lambda>ps.
       if code (last ps) = 0 then Inr (ps, code (last ps))
       else rbind (line_result R code cwd l) (\<lambda>(qs, r). Inr (ps @ qs, r)))"
| "line_result R code cwd (InDir d l) = line_result R code (path_join cwd d) l"

lemma run_line:
  assumes "launches R code" "no_empty_pipe l" "line_result R code cwd l = Inr (ps, r)"
  shows "run_nodes R False (line_nodes l) False [] cwd launched = (launched @ ps, Inr (Some r))"
  using assms(2,3)
proof (induction l arbitrary: cwd ps r launched)
  case (Single cs)
  then obtain "pipe_processes False cwd cs R = Inr ps" "r = code (last ps)" by (auto simp: rbind_eq_Inr)
  with run_pipe_last [OF assms(1)] Single.prems(1) show ?case by simp
next
  case (AndThen cs l)
  then obtain qs where qs: "pipe_processes False cwd cs R = Inr qs" by (auto simp: rbind_eq_Inr)
  from AndThen.prems(1) have cs: "cs \<noteq> []" and l: "no_empty_pipe l" by auto
  note run = run_pipe_then [OF assms(1) qs cs, of And]
  show ?case
  proof (cases "code (last qs) = 0")
    case True
    with AndThen.prems(2) qs obtain us where us: "line_result R code cwd l = Inr (us, r)" "ps = qs @ us"
      by (auto simp: rbind_eq_Inr)
    from True run AndThen.IH [OF l us(1)] us(2) show ?thesis by simp
  next
    case False
    with AndThen.prems(2) qs run show ?thesis by (auto simp: Let_def)
  qed
next
  case (OrElse cs l)
  then obtain qs where qs: "pipe_processes False cwd cs R = Inr qs" by (auto simp: rbind_eq_Inr)
  from OrElse.prems(1) have cs: "cs \<noteq> []" and l: "no_empty_pipe l" by auto
  note run = run_pipe_then [OF assms(1) qs cs, of Or]
  show ?case
  proof (cases "code (last qs) = 0")
    case False
    with OrElse.prems(2) qs obtain us where us: "line_result R code cwd l = Inr (us, r)" "ps = qs @ us"
      by (auto simp: rbind_eq_Inr)
    from False run OrElse.IH [OF l us(1)] us(2) show ?thesis by simp
  next
    case True
    with OrElse.prems(2) qs run show ?thesis by (auto simp: Let_def)
  qed
qed simp

text \<open>C20.  \<open>Pipeline.run\<close> reads \<open>&&\<close> and \<open>||\<close> to the right: the pipe on the left of an operator decides,
  by the exit code of its last process, whether the whole rest of the line runs or its code is returned
  at once.  \<open>cd D &&\<close> changes the directory of all that follows; exactly the processes of the pipes
  reached are launched, in order.  So \<open>A && B || C\<close> does not run \<open>C\<close> when \<open>A\<close> fails, unlike a shell.  The hypothesis on
  \<open>popen\<close> says that every process can be launched and that its exit code depends on the process only.\<close>

theorem run_pipeline_associates_right:
  assumes "launches R code" and "no_empty_pipe l" and "line_result R code ''.'' l = Inr (ps, r)"
  shows "run_pipeline R False (line_nodes l) = (ps, Inr (Some r))"
  using run_line [OF assms, of "[]"] by (simp add: run_pipeline_def)

definition shell_runner :: runner where
  "shell_runner = \<lparr>popen = (\<lambda>n p. Inr (if pr_argv p = [''a''] then 1 else 0)), opens = (\<lambda>f. True)\<rparr>"

definition small_process :: process where
  "small_process = \<lparr>pr_argv = [''a''], pr_stdin = Inherit, pr_stdout = Inherit, pr_stderr = Inherit, pr_env = [],
     pr_cwd = Some ''./build''\<rparr>"

theorem run_pipeline_associates_right_witness:
  "run_pipeline shell_runner False [Chdir (Some ''build''), And, Command (new_command ''a''), And,
       Command (new_command ''b''), Or, Command (new_command ''c'')]
     = ([small_process], Inr (Some 1))"
proof -
  let ?l = "InDir ''build'' (AndThen [new_command ''a''] (OrElse [new_command ''b''] (Single [new_command ''c''])))"
  have 1: "launches shell_runner (\<lambda>p. if pr_argv p = [''a''] then 1 else 0)"
    by (simp add: launches_def shell_runner_def)
  have 2: "line_result shell_runner (\<lambda>p. if pr_argv p = [''a''] then 1 else 0) ''.'' ?l = Inr ([small_process], 1)"
    by code_simp
  from run_pipeline_associates_right [OF 1 _ 2] show ?thesis by simp
qed

end
