(* ===== verification/Grid_Data.thy ===== *)
theory Grid_Data
  imports Complex_Main Prelude
begin

text \<open>
  \<^verbatim>\<open>utils/grid.py\<close>, its data: ranges, events, \<open>TimelineDataRange\<close>, \<open>TimelineEvent\<close>, \<open>Timeline\<close> and
  \<open>Timelines\<close>.  The program is written for Python 2, for which alone its user interface library exists:
  \<open>sort\<close> takes a comparison and \<open>/\<close> on integers rounds down.  Times are integers in the data and
  floats in the interface; here they are rationals.
\<close>

type_synonym time = rat

record data_range =
  dr_start :: time
  dr_end :: time
  dr_value :: string

datatype event_value = Str string | Num nat

record event =
  ev_at :: time
  ev_value :: event_value

section \<open>The binary searches\<close>

text \<open>Where a key is with respect to an element.\<close>

datatype side = Below | Here | Above

text \<open>The loop of the two methods \<open>__search\<close>: the index found, or the final \<open>l\<close>.\<close>

function bisect :: "('e \<Rightarrow> side) \<Rightarrow> 'e list \<Rightarrow> int \<Rightarrow> int \<Rightarrow> int + int" where
  "bisect probe xs l u =
     (if l \<le> u
      then let i = (l + u) div 2
           in case probe (xs ! nat i) of
                Here \<Rightarrow> Inl i
              | Below \<Rightarrow> bisect probe xs l (i - 1)
              | Above \<Rightarrow> bisect probe xs (i + 1) u
      else Inr l)"
  by pat_completeness auto
termination
  by (relation "measure (\<lambda>(probe, xs, l, u). nat (u + 1 - l))") auto

declare bisect.simps [simp del]

definition bisection_search :: "('e \<Rightarrow> side) \<Rightarrow> 'e list \<Rightarrow> int + int" where
  "bisection_search probe xs = bisect probe xs 0 (int (length xs) - 1)"

definition range_probe :: "time \<Rightarrow> data_range \<Rightarrow> side" where
  "range_probe key r =
     (if key \<ge> dr_start r \<and> key \<le> dr_end r then Here else if key < dr_start r then Below else Above)"

definition range_search :: "data_range list \<Rightarrow> time \<Rightarrow> int" where
  "range_search rs key = (case bisection_search (range_probe key) rs of Inl i \<Rightarrow> i | Inr _ \<Rightarrow> - 1)"

definition event_probe :: "time \<Rightarrow> event \<Rightarrow> side" where
  "event_probe key e = (if key = ev_at e then Here else if key < ev_at e then Below else Above)"

definition event_search :: "event list \<Rightarrow> time \<Rightarrow> int" where
  "event_search es key = (case bisection_search (event_probe key) es of Inl i \<Rightarrow> i | Inr l \<Rightarrow> l)"

section \<open>TimelineDataRange and TimelineEvent\<close>

definition get_ranges :: "data_range list \<Rightarrow> time \<Rightarrow> time \<Rightarrow> data_range list" where
  "get_ranges rs start end =
     (let s = range_search rs start; e = range_search rs end
      in if s = - 1 \<and> e = - 1 then []
         else if s = - 1 then slice rs 0 (e + 1)
         else if e = - 1 then slice rs s (int (length rs))
         else slice rs s (e + 1))"

definition get_ranges_bounds :: "data_range list \<Rightarrow> time \<Rightarrow> time \<Rightarrow> int \<times> int" where
  "get_ranges_bounds rs start end =
     (let s = range_search rs start; e = range_search rs end
      in if s = - 1 \<and> e = - 1 then (0, 0)
         else if s = - 1 then (0, e + 1)
         else if e = - 1 then (s, int (length rs))
         else (s, e + 1))"

definition get_events :: "event list \<Rightarrow> time \<Rightarrow> time \<Rightarrow> event list" where
  "get_events es start end = slice es (event_search es start) (event_search es end + 1)"

definition get_events_bounds :: "event list \<Rightarrow> time \<Rightarrow> time \<Rightarrow> int \<times> int" where
  "get_events_bounds es start end = (event_search es start, event_search es end + 1)"

definition range_bounds :: "data_range list \<Rightarrow> time \<times> time" where
  "range_bounds rs = (if rs \<noteq> [] then (dr_start (hd rs), dr_end (last rs)) else (0, 0))"

definition event_bounds :: "event list \<Rightarrow> time \<times> time" where
  "event_bounds es = (if es \<noteq> [] then (ev_at (hd es), ev_at (last es)) else (0, 0))"

text \<open>
  \<open>list.sort\<close> with a comparison, which is stable: an element is put before the first one it does not
  compare greater than.
\<close>

definition ranges_cmp :: "data_range \<Rightarrow> data_range \<Rightarrow> int" where
  "ranges_cmp a b =
     (let diff = dr_start a - dr_start b in if diff < 0 then - 1 else if diff > 0 then 1 else 0)"

definition events_cmp :: "event \<Rightarrow> event \<Rightarrow> int" where
  "events_cmp a b =
     (let diff = ev_at a - ev_at b in if diff < 0 then - 1 else if diff > 0 then 1 else 0)"

fun insert_cmp :: "('a \<Rightarrow> 'a \<Rightarrow> int) \<Rightarrow> 'a \<Rightarrow> 'a list \<Rightarrow> 'a list" where
  "insert_cmp cmp x [] = [x]"
| "insert_cmp cmp x (y # ys) = (if cmp x y \<le> 0 then x # y # ys else y # insert_cmp cmp x ys)"

definition sort_cmp :: "('a \<Rightarrow> 'a \<Rightarrow> int) \<Rightarrow> 'a list \<Rightarrow> 'a list" where
  "sort_cmp cmp xs = foldr (insert_cmp cmp) xs []"

definition sort_ranges :: "data_range list \<Rightarrow> data_range list" where
  "sort_ranges rs = sort_cmp ranges_cmp rs"

definition sort_events :: "event list \<Rightarrow> event list" where
  "sort_events es = sort_cmp events_cmp es"

lemma sort_cmp_key: "(\<And>x y. cmp x y \<le> 0 \<longleftrightarrow> key x \<le> key y) \<Longrightarrow> sort_cmp cmp xs = sort_key key xs"
proof -
  assume c: "\<And>x y. cmp x y \<le> 0 \<longleftrightarrow> key x \<le> key y"
  have "insert_cmp cmp x ys = insort_key key x ys" for x ys
    by (induction ys) (auto simp: c)
  then have "insert_cmp cmp = insort_key key" by (intro ext)
  then show ?thesis by (simp add: sort_cmp_def sort_key_def)
qed

lemma sort_ranges_key: "sort_ranges = sort_key dr_start"
  by (rule ext) (auto simp: sort_ranges_def ranges_cmp_def Let_def intro!: sort_cmp_key split: if_splits)

lemma sort_events_key: "sort_events = sort_key ev_at"
  by (rule ext) (auto simp: sort_events_def events_cmp_def Let_def intro!: sort_cmp_key split: if_splits)

section \<open>Timeline and Timelines\<close>

record range_line =
  rl_name :: string
  rl_ranges :: "data_range list"

record event_line =
  el_name :: string
  el_events :: "event list"

record timeline =
  tl_name :: string
  tl_ranges :: "range_line list"
  tl_event_str :: "event_line list"
  tl_event_int :: "event_line list"

text \<open>
  \<open>get_range\<close>, \<open>get_event_str\<close>, \<open>get_event_int\<close> and \<open>Timelines.get\<close> return the first object of a name, made
  and appended when there is none, and the caller changes this object: \<open>f\<close> is the change.
\<close>

fun update_named :: "('a \<Rightarrow> string) \<Rightarrow> (string \<Rightarrow> 'a) \<Rightarrow> string \<Rightarrow> ('a \<Rightarrow> 'a) \<Rightarrow> 'a list \<Rightarrow> 'a list" where
  "update_named name new n f [] = [f (new n)]"
| "update_named name new n f (x # xs) =
     (if name x = n then f x # xs else x # update_named name new n f xs)"

definition new_range_line :: "string \<Rightarrow> range_line" where
  "new_range_line n = \<lparr>rl_name = n, rl_ranges = []\<rparr>"

definition new_event_line :: "string \<Rightarrow> event_line" where
  "new_event_line n = \<lparr>el_name = n, el_events = []\<rparr>"

definition new_timeline :: "string \<Rightarrow> timeline" where
  "new_timeline n = \<lparr>tl_name = n, tl_ranges = [], tl_event_str = [], tl_event_int = []\<rparr>"

definition add_range :: "string \<Rightarrow> data_range \<Rightarrow> timeline \<Rightarrow> timeline" where
  "add_range n r t = t\<lparr>tl_ranges :=
     update_named rl_name new_range_line n (\<lambda>l. l\<lparr>rl_ranges := rl_ranges l @ [r]\<rparr>) (tl_ranges t)\<rparr>"

definition add_event_str :: "string \<Rightarrow> event \<Rightarrow> timeline \<Rightarrow> timeline" where
  "add_event_str n e t = t\<lparr>tl_event_str :=
     update_named el_name new_event_line n (\<lambda>l. l\<lparr>el_events := el_events l @ [e]\<rparr>) (tl_event_str t)\<rparr>"

definition add_event_int :: "string \<Rightarrow> event \<Rightarrow> timeline \<Rightarrow> timeline" where
  "add_event_int n e t = t\<lparr>tl_event_int :=
     update_named el_name new_event_line n (\<lambda>l. l\<lparr>el_events := el_events l @ [e]\<rparr>) (tl_event_int t)\<rparr>"

definition on_timeline :: "string \<Rightarrow> (timeline \<Rightarrow> timeline) \<Rightarrow> timeline list \<Rightarrow> timeline list" where
  "on_timeline n f tls = update_named tl_name new_timeline n f tls"

definition sort_timeline :: "timeline \<Rightarrow> timeline" where
  "sort_timeline t =
     t\<lparr>tl_ranges := map (\<lambda>l. l\<lparr>rl_ranges := sort_ranges (rl_ranges l)\<rparr>) (tl_ranges t),
        tl_event_int := map (\<lambda>l. l\<lparr>el_events := sort_events (el_events l)\<rparr>) (tl_event_int t),
        tl_event_str := map (\<lambda>l. l\<lparr>el_events := sort_events (el_events l)\<rparr>) (tl_event_str t)\<rparr>"

definition sort_timelines :: "timeline list \<Rightarrow> timeline list" where
  "sort_timelines tls = map sort_timeline tls"

definition widen :: "time \<times> time \<Rightarrow> time \<times> time \<Rightarrow> time \<times> time" where
  "widen b lohi =
     (case (b, lohi) of ((b_lo, b_hi), (lo, hi)) \<Rightarrow> (if b_lo < lo then b_lo else lo, if b_hi > hi then b_hi else hi))"

definition timeline_bounds :: "timeline \<Rightarrow> time \<times> time" where
  "timeline_bounds t =
     fold widen (map (\<lambda>l. range_bounds (rl_ranges l)) (tl_ranges t)
       @ map (\<lambda>l. event_bounds (el_events l)) (tl_event_str t)
       @ map (\<lambda>l. event_bounds (el_events l)) (tl_event_int t)) (0, 0)"

definition timelines_bounds :: "timeline list \<Rightarrow> time \<times> time" where
  "timelines_bounds tls = fold widen (map timeline_bounds tls) (0, 0)"

text \<open>The keys of a Python 2 dictionary come in an arbitrary order; here it is the order of the first insertion.\<close>

definition all_range_values :: "timeline list \<Rightarrow> string list" where
  "all_range_values tls =
     rev (remdups (rev (concat (map (\<lambda>t. concat (map (\<lambda>l. map dr_value (rl_ranges l)) (tl_ranges t))) tls))))"

section \<open>What a bisection finds\<close>

lemma filter_prefix:
  assumes "n \<le> length xs" and "\<And>i. i < length xs \<Longrightarrow> P (xs ! i) \<longleftrightarrow> i < n"
  shows "filter P xs = take n xs"
proof -
  have "filter P (take n xs) = take n xs"
    using assms by (auto simp: filter_id_conv in_set_conv_nth)
  moreover have "filter P (drop n xs) = []"
    using assms by (auto simp: filter_empty_conv in_set_conv_nth)
  ultimately show ?thesis by (metis append_Nil2 append_take_drop_id filter_append)
qed

lemma filter_suffix:
  assumes "n \<le> length xs" and "\<And>i. i < length xs \<Longrightarrow> P (xs ! i) \<longleftrightarrow> n \<le> i"
  shows "filter P xs = drop n xs"
proof -
  have "filter P (take n xs) = []"
    using assms by (auto simp: filter_empty_conv in_set_conv_nth)
  moreover have "filter P (drop n xs) = drop n xs"
    using assms by (auto simp: filter_id_conv in_set_conv_nth)
  ultimately show ?thesis by (metis append_Nil append_take_drop_id filter_append)
qed

text \<open>
  The contract of the two searches: in an ordered list the elements a key is above come first and those
  it is below last.
\<close>

locale bisection =
  fixes probe :: "'k \<Rightarrow> 'e \<Rightarrow> side" and ordered :: "'e list \<Rightarrow> bool"
  assumes Below_up: "ordered xs \<Longrightarrow> i < j \<Longrightarrow> j < length xs \<Longrightarrow> probe k (xs ! i) \<noteq> Above \<Longrightarrow> probe k (xs ! j) = Below"
    and Above_down: "ordered xs \<Longrightarrow> i < j \<Longrightarrow> j < length xs \<Longrightarrow> probe k (xs ! j) \<noteq> Below \<Longrightarrow> probe k (xs ! i) = Above"
begin

lemma bisect_spec:
  assumes "ordered xs" and "0 \<le> l" and "u < int (length xs)" and "l \<le> u + 1"
    and "\<forall>i. i < nat l \<longrightarrow> i < length xs \<longrightarrow> probe k (xs ! i) = Above"
    and "\<forall>i. u < int i \<longrightarrow> i < length xs \<longrightarrow> probe k (xs ! i) = Below"
  shows "case bisect (probe k) xs l u of
      Inl i \<Rightarrow> 0 \<le> i \<and> nat i < length xs \<and> probe k (xs ! nat i) = Here
    | Inr n \<Rightarrow> 0 \<le> n \<and> nat n \<le> length xs \<and> (\<forall>i < length xs. probe k (xs ! i) = (if i < nat n then Above else Below))"
  using assms
proof (induction "probe k" xs l u rule: bisect.induct)
  case (1 xs l u)
  show ?case
  proof (cases "l \<le> u")
    case False
    with "1.prems" have "l = u + 1" by simp
    with "1.prems" show ?thesis by (subst bisect.simps) auto
  next
    case True
    define i where "i = (l + u) div 2"
    with True "1.prems" have i: "l \<le> i" "i \<le> u" "nat i < length xs" by auto
    show ?thesis
    proof (cases "probe k (xs ! nat i)")
      case Here
      with True i "1.prems" show ?thesis by (subst bisect.simps) (auto simp: Let_def i_def [symmetric])
    next
      case Below
      have "probe k (xs ! j) = Below" if "i - 1 < int j" "j < length xs" for j
      proof (cases "j = nat i")
        case False
        with that i "1.prems"(2) have "nat i < j" by linarith
        with Below that Below_up [OF "1.prems"(1), of "nat i" j k] show ?thesis by simp
      qed (simp add: Below)
      with 1(1) [OF True i_def] Below True i "1.prems"
      show ?thesis by (subst bisect.simps) (simp add: Let_def i_def [symmetric])
    next
      case Above
      have "probe k (xs ! j) = Above" if "j < nat (i + 1)" for j
      proof (cases "j = nat i")
        case False
        with that i "1.prems"(2) have "j < nat i" by linarith
        with Above i Above_down [OF "1.prems"(1), of j "nat i" k] show ?thesis by simp
      qed (simp add: Above)
      with 1(2) [OF True i_def] Above True i "1.prems"
      show ?thesis by (subst bisect.simps) (simp add: Let_def i_def [symmetric])
    qed
  qed
qed

lemma found:
  assumes "ordered xs" and "bisection_search (probe k) xs = Inl i"
  shows "0 \<le> i \<and> nat i < length xs \<and> probe k (xs ! nat i) = Here
    \<and> (\<forall>j < length xs. probe k (xs ! j) = (if j < nat i then Above else if j = nat i then Here else Below))
    \<and> filter (\<lambda>x. probe k x \<noteq> Below) xs = take (nat i + 1) xs \<and> filter (\<lambda>x. probe k x \<noteq> Above) xs = drop (nat i) xs"
proof -
  have i: "0 \<le> i" "nat i < length xs" "probe k (xs ! nat i) = Here"
    using bisect_spec [OF assms(1), of 0 "int (length xs) - 1" k] assms(2)
    by (auto simp: bisection_search_def)
  have "probe k (xs ! j) = (if j < nat i then Above else if j = nat i then Here else Below)" if "j < length xs" for j
    using Below_up [OF assms(1), of "nat i" j k] Above_down [OF assms(1), of j "nat i" k] i that
    by (cases j "nat i" rule: linorder_cases) auto
  with i show ?thesis
    by (auto intro!: filter_prefix filter_suffix split: if_splits)
qed

lemma missing:
  assumes "ordered xs" and "bisection_search (probe k) xs = Inr n"
  shows "0 \<le> n \<and> nat n \<le> length xs \<and> (\<forall>x \<in> set xs. probe k x \<noteq> Here)
    \<and> (\<forall>j < length xs. probe k (xs ! j) = (if j < nat n then Above else Below))
    \<and> filter (\<lambda>x. probe k x = Above) xs = take (nat n) xs \<and> filter (\<lambda>x. probe k x = Below) xs = drop (nat n) xs"
proof -
  have n: "0 \<le> n" "nat n \<le> length xs" "\<forall>i < length xs. probe k (xs ! i) = (if i < nat n then Above else Below)"
    using bisect_spec [OF assms(1), of 0 "int (length xs) - 1" k] assms(2)
    by (auto simp: bisection_search_def)
  have "probe k (xs ! i) \<noteq> Here" if "i < length xs" for i
    using n(3) that by (cases "i < nat n") simp_all
  then have "\<forall>x \<in> set xs. probe k x \<noteq> Here" by (auto simp: in_set_conv_nth)
  with n show ?thesis
    by (auto intro!: filter_prefix filter_suffix split: if_splits)
qed

lemma finds:
  assumes "ordered xs"
  shows "(\<exists>i. bisection_search (probe k) xs = Inl i) \<longleftrightarrow> (\<exists>x \<in> set xs. probe k x = Here)"
proof
  assume "\<exists>i. bisection_search (probe k) xs = Inl i"
  with found [OF assms] show "\<exists>x \<in> set xs. probe k x = Here" by (meson nth_mem)
next
  assume here: "\<exists>x \<in> set xs. probe k x = Here"
  show "\<exists>i. bisection_search (probe k) xs = Inl i"
  proof (cases "bisection_search (probe k) xs")
    case (Inr n)
    with missing [OF assms this] here show ?thesis by blast
  qed simp
qed

end

text \<open>Ranges that follow one another, and events at increasing times.\<close>

definition ranges_ordered :: "data_range list \<Rightarrow> bool" where
  "ranges_ordered rs \<longleftrightarrow> list_all (\<lambda>r. dr_start r \<le> dr_end r) rs \<and> sorted_wrt (\<lambda>r r'. dr_end r < dr_start r') rs"

definition events_ordered :: "event list \<Rightarrow> bool" where
  "events_ordered es \<longleftrightarrow> sorted_wrt (\<lambda>e e'. ev_at e < ev_at e') es"

interpretation ranges: bisection range_probe ranges_ordered
proof unfold_locales
  fix xs :: "data_range list" and i j k
  assume o: "ranges_ordered xs" and ij: "i < j" "j < length xs"
  then have "dr_end (xs ! i) < dr_start (xs ! j)" "dr_start (xs ! i) \<le> dr_end (xs ! i)" "dr_start (xs ! j) \<le> dr_end (xs ! j)"
    by (auto simp: ranges_ordered_def list_all_length sorted_wrt_iff_nth_less)
  then show "range_probe k (xs ! i) \<noteq> Above \<Longrightarrow> range_probe k (xs ! j) = Below"
    "range_probe k (xs ! j) \<noteq> Below \<Longrightarrow> range_probe k (xs ! i) = Above"
    by (auto simp: range_probe_def split: if_splits)
qed

interpretation events: bisection event_probe events_ordered
proof unfold_locales
  fix xs :: "event list" and i j k
  assume "events_ordered xs" and "i < j" "j < length xs"
  then have "ev_at (xs ! i) < ev_at (xs ! j)"
    by (auto simp: events_ordered_def sorted_wrt_iff_nth_less)
  then show "event_probe k (xs ! i) \<noteq> Above \<Longrightarrow> event_probe k (xs ! j) = Below"
    "event_probe k (xs ! j) \<noteq> Below \<Longrightarrow> event_probe k (xs ! i) = Above"
    by (auto simp: event_probe_def split: if_splits)
qed

section \<open>What the viewer sees of a window\<close>

lemma event_sides:
  "event_probe k e = Above \<longleftrightarrow> ev_at e < k" "event_probe k e = Below \<longleftrightarrow> k < ev_at e" "event_probe k e = Here \<longleftrightarrow> k = ev_at e"
  by (auto simp: event_probe_def)

lemma range_sides:
  "range_probe k r = Above \<longleftrightarrow> dr_start r \<le> k \<and> dr_end r < k" "range_probe k r = Below \<longleftrightarrow> k < dr_start r"
  "range_probe k r = Here \<longleftrightarrow> dr_start r \<le> k \<and> k \<le> dr_end r"
  by (auto simp: range_probe_def)

lemma event_search_from:
  assumes "events_ordered es"
  shows "0 \<le> event_search es k \<and> nat (event_search es k) \<le> length es
    \<and> (\<forall>i < length es. k \<le> ev_at (es ! i) \<longleftrightarrow> nat (event_search es k) \<le> i)"
proof (cases "bisection_search (event_probe k) es")
  case (Inl n)
  from events.found [OF assms Inl] have "0 \<le> n" "nat n < length es"
    and "\<forall>i < length es. event_probe k (es ! i) \<noteq> Above \<longleftrightarrow> nat n \<le> i"
    by (auto split: if_splits)
  with Inl show ?thesis by (simp add: event_search_def event_sides not_less)
next
  case (Inr n)
  from events.missing [OF assms Inr] have "0 \<le> n" "nat n \<le> length es"
    and "\<forall>i < length es. event_probe k (es ! i) \<noteq> Above \<longleftrightarrow> nat n \<le> i"
    by (auto split: if_splits)
  with Inr show ?thesis by (simp add: event_search_def event_sides not_less)
qed

lemma event_search_to:
  assumes "events_ordered es"
  shows "take (nat (event_search es k + 1)) es = filter (\<lambda>e. ev_at e \<le> k) es
    @ (if \<exists>e \<in> set es. ev_at e = k then [] else take 1 (filter (\<lambda>e. k < ev_at e) es))"
proof (cases "bisection_search (event_probe k) es")
  case (Inl i)
  with events.finds [OF assms, of k] have "\<exists>e \<in> set es. ev_at e = k"
    by (auto simp: event_sides)
  moreover from events.found [OF assms Inl] have "0 \<le> i" "filter (\<lambda>e. ev_at e \<le> k) es = take (nat i + 1) es"
    by (auto simp: event_sides not_less)
  ultimately show ?thesis using Inl by (simp add: event_search_def nat_add_distrib)
next
  case (Inr n)
  from events.missing [OF assms Inr]
  have n: "0 \<le> n" "\<forall>e \<in> set es. ev_at e \<noteq> k" "filter (\<lambda>e. ev_at e < k) es = take (nat n) es"
    "filter (\<lambda>e. k < ev_at e) es = drop (nat n) es"
    by (auto simp: event_sides)
  have "filter (\<lambda>e. ev_at e \<le> k) es = filter (\<lambda>e. ev_at e < k) es"
    using n(2) by (intro filter_cong) auto
  moreover have "take (Suc (nat n)) es = take (nat n) es @ take 1 (drop (nat n) es)"
    using take_add [of "nat n" 1 es] by simp
  ultimately show ?thesis
    using n Inr by (auto simp: event_search_def nat_add_distrib)
qed

lemma slice_drop_take: "0 \<le> a \<Longrightarrow> 0 \<le> b \<Longrightarrow> slice xs a b = drop (nat a) (take (nat b) xs)"
  by (simp add: slice_nonneg)

lemma event_search_window:
  assumes "events_ordered es" and "a \<le> b"
  shows "get_events es a b = filter (\<lambda>e. a \<le> ev_at e \<and> ev_at e \<le> b) es
    @ (if \<exists>e \<in> set es. ev_at e = b then [] else take 1 (filter (\<lambda>e. b < ev_at e) es))"
proof -
  let ?m = "nat (event_search es b + 1)" and ?n = "nat (event_search es a)"
  note from_a = event_search_from [OF assms(1), of a] and from_b = event_search_from [OF assms(1), of b]
  have "get_events es a b = drop ?n (take ?m es)"
    using from_a from_b by (simp add: get_events_def slice_drop_take)
  also have "\<dots> = filter (\<lambda>e. a \<le> ev_at e) (take ?m es)"
  proof (cases "?n \<le> ?m")
    case True
    then show ?thesis using from_a by (intro filter_suffix [symmetric]) auto
  next
    case False
    then have "filter (\<lambda>e. a \<le> ev_at e) (take ?m es) = []"
      using from_a by (auto simp: filter_empty_conv in_set_conv_nth)
    with False show ?thesis by simp
  qed
  also have "\<dots> = filter (\<lambda>e. a \<le> ev_at e \<and> ev_at e \<le> b) es
    @ (if \<exists>e \<in> set es. ev_at e = b then [] else take 1 (filter (\<lambda>e. b < ev_at e) es))"
  proof -
    have "filter (\<lambda>e. a \<le> ev_at e) (take 1 (filter (\<lambda>e. b < ev_at e) es)) = take 1 (filter (\<lambda>e. b < ev_at e) es)"
      using assms(2) by (auto simp: filter_id_conv dest: in_set_takeD)
    then show ?thesis
      unfolding event_search_to [OF assms(1)] by (simp add: conj_commute)
  qed
  finally show ?thesis .
qed

text \<open>C7.  \<open>TimelineEvent.get_events\<close> on events at increasing times: the events of the window from \<open>a\<close> to \<open>b\<close>, both
  included; when no event is at \<open>b\<close> itself, followed by the first event after \<open>b\<close>, which is outside
  the window.\<close>

theorem get_events_window:
  assumes "events_ordered es" and "a \<le> b"
  shows "get_events es a b = filter (\<lambda>e. a \<le> ev_at e \<and> ev_at e \<le> b) es
    @ (if \<exists>e \<in> set es. ev_at e = b then [] else take 1 (filter (\<lambda>e. b < ev_at e) es))"
  using event_search_window [OF assms] .

definition small_events :: "event list" where
  "small_events = map (\<lambda>n. \<lparr>ev_at = of_nat n, ev_value = Num n\<rparr>) [1, 4, 6, 9]"

theorem get_events_window_witness:
  "map ev_value (get_events small_events 2 5) = [Num 4, Num 6] \<and> map ev_value (get_events small_events 2 6) = [Num 4, Num 6]"
proof -
  have "events_ordered small_events" by (simp add: events_ordered_def small_events_def)
  from get_events_window [OF this, of 2 5] get_events_window [OF this, of 2 6] show ?thesis
    by (simp add: small_events_def)
qed

lemma range_search_cases:
  assumes "ranges_ordered rs"
  shows "(\<exists>r \<in> set rs. dr_start r \<le> k \<and> k \<le> dr_end r) \<and> 0 \<le> range_search rs k \<and> nat (range_search rs k) < length rs
      \<and> take (nat (range_search rs k) + 1) rs = filter (\<lambda>r. dr_start r \<le> k) rs
      \<and> (\<forall>i < length rs. k \<le> dr_end (rs ! i) \<longleftrightarrow> nat (range_search rs k) \<le> i)
    \<or> \<not> (\<exists>r \<in> set rs. dr_start r \<le> k \<and> k \<le> dr_end r) \<and> range_search rs k = - 1"
proof (cases "bisection_search (range_probe k) rs")
  case (Inl i)
  with ranges.finds [OF assms, of k] have "\<exists>r \<in> set rs. dr_start r \<le> k \<and> k \<le> dr_end r"
    by (auto simp: range_sides)
  moreover from ranges.found [OF assms Inl] have i: "0 \<le> i" "nat i < length rs"
    and side: "\<forall>j < length rs. range_probe k (rs ! j) = (if j < nat i then Above else if j = nat i then Here else Below)"
    and f: "filter (\<lambda>r. range_probe k r \<noteq> Below) rs = take (nat i + 1) rs" by auto
  moreover have "k \<le> dr_end (rs ! j) \<longleftrightarrow> nat i \<le> j" if "j < length rs" for j
  proof -
    have "dr_start (rs ! j) \<le> dr_end (rs ! j)"
      using assms that by (auto simp: ranges_ordered_def list_all_length)
    moreover have "range_probe k (rs ! j) \<noteq> Above \<longleftrightarrow> nat i \<le> j" using side that by auto
    ultimately show ?thesis by (auto simp: range_sides not_less)
  qed
  ultimately show ?thesis using Inl by (simp add: range_search_def range_sides not_less)
next
  case (Inr n)
  with ranges.finds [OF assms, of k] have "\<not> (\<exists>r \<in> set rs. dr_start r \<le> k \<and> k \<le> dr_end r)"
    by (auto simp: range_sides)
  with Inr show ?thesis by (simp add: range_search_def)
qed

text \<open>\<open>TimelineDataRange.get_ranges\<close> on ranges that follow one another.  When the window begins and ends
  inside ranges, these are exactly the ranges that meet it.  When only its end is inside a range they are all
  ranges that begin by then, when only its beginning is, all that end from then on: ranges before
  or behind the window too.  When neither is inside a range there are none, whatever lies between.\<close>

theorem get_ranges_window:
  assumes "ranges_ordered rs" and "a \<le> b"
  defines "inside k \<equiv> \<exists>r \<in> set rs. dr_start r \<le> k \<and> k \<le> dr_end r"
  shows "get_ranges rs a b =
    (if inside a \<and> inside b then filter (\<lambda>r. a \<le> dr_end r \<and> dr_start r \<le> b) rs
     else if inside b then filter (\<lambda>r. dr_start r \<le> b) rs
     else if inside a then filter (\<lambda>r. a \<le> dr_end r) rs
     else [])"
proof -
  let ?s = "range_search rs a" and ?e = "range_search rs b"
  note A = range_search_cases [OF assms(1), of a, folded inside_def]
    and B = range_search_cases [OF assms(1), of b, folded inside_def]
  have from_a: "drop (nat ?s) ys = filter (\<lambda>r. a \<le> dr_end r) ys"
    if "inside a" "\<exists>m. ys = take m rs" for ys
  proof (cases "nat ?s \<le> length ys")
    case True
    with A that show ?thesis by (intro filter_suffix [symmetric]) auto
  next
    case False
    then have "filter (\<lambda>r. a \<le> dr_end r) ys = []"
      using A that by (auto simp: filter_empty_conv in_set_conv_nth)
    with False show ?thesis by simp
  qed
  show ?thesis
  proof (cases "inside a"; cases "inside b")
    assume i: "inside a" "inside b"
    have "get_ranges rs a b = drop (nat ?s) (take (nat ?e + 1) rs)"
      using A B i by (auto simp: get_ranges_def Let_def slice_drop_take nat_add_distrib)
    also have "\<dots> = filter (\<lambda>r. a \<le> dr_end r) (filter (\<lambda>r. dr_start r \<le> b) rs)"
      using from_a [OF i(1)] B i(2) by metis
    finally show ?thesis using i by (simp add: conj_commute)
  next
    assume i: "inside a" "\<not> inside b"
    have "get_ranges rs a b = drop (nat ?s) (take (length rs) rs)"
      using A B i by (auto simp: get_ranges_def Let_def slice_drop_take)
    with i from_a [OF i(1), of rs] show ?thesis by (metis take_all order_refl)
  next
    assume i: "\<not> inside a" "inside b"
    have "get_ranges rs a b = take (nat ?e + 1) rs"
      using A B i by (auto simp: get_ranges_def Let_def slice_drop_take nat_add_distrib)
    with B i show ?thesis by simp
  next
    assume i: "\<not> inside a" "\<not> inside b"
    with A B show ?thesis by (auto simp: get_ranges_def Let_def)
  qed
qed

definition small_ranges :: "data_range list" where
  "small_ranges = map (\<lambda>(a, b). \<lparr>dr_start = of_nat a, dr_end = of_nat b, dr_value = ''v''\<rparr>) [(0, 2), (4, 6), (8, 9)]"

theorem get_ranges_window_witness:
  "get_ranges small_ranges 3 7 = [] \<and> map dr_start (get_ranges small_ranges 5 7) = [4, 8]"
proof -
  have "ranges_ordered small_ranges" by (simp add: ranges_ordered_def small_ranges_def)
  from get_ranges_window [OF this, of 3 7] get_ranges_window [OF this, of 5 7] show ?thesis
    by (simp add: small_ranges_def)
qed

lemma get_ranges_bounds: "slice rs (fst (get_ranges_bounds rs a b)) (snd (get_ranges_bounds rs a b)) = get_ranges rs a b"
  by (simp add: get_ranges_bounds_def get_ranges_def Let_def slice_nonneg)

end
