(* ===== verification/Grid_Read.thy ===== *)
theory Grid_Read
  imports Grid_Data
begin

text \<open>
  \<^verbatim>\<open>utils/grid.py\<close>: \<open>Color\<close> and \<open>read_data\<close>.  The regular expressions have groups of non-blank characters
  separated by single blanks, so a line matches in at most one way: its words are those \<open>split_on\<close> gives.
\<close>

section \<open>read\_data\<close>

record color =
  red :: rat
  green :: rat
  blue :: rat

datatype entry =
    Range_entry string string data_range
  | Str_entry string string event
  | Int_entry string string event
  | Color_entry string color

definition digits :: "string \<Rightarrow> bool" where
  "digits w \<longleftrightarrow> w \<noteq> [] \<and> list_all is_digit w"

definition leading_digits :: "string \<Rightarrow> bool" where
  "leading_digits w \<longleftrightarrow> take_digits w \<noteq> None"

definition leading_value :: "string \<Rightarrow> nat" where
  "leading_value w = digits_val (takeWhile is_digit w)"

definition match_range :: "string list \<Rightarrow> entry option" where
  "match_range ws =
     (case ws of
        w # a # b # c # d # e # _ \<Rightarrow>
          if w = ''range'' \<and> a \<noteq> [] \<and> b \<noteq> [] \<and> c \<noteq> [] \<and> digits d \<and> leading_digits e
          then Some (Range_entry a b
                 \<lparr>dr_start = of_nat (digits_val d), dr_end = of_nat (leading_value e), dr_value = c\<rparr>)
          else None
      | _ \<Rightarrow> None)"

definition match_event_str :: "string list \<Rightarrow> entry option" where
  "match_event_str ws =
     (case ws of
        w # a # b # c # d # _ \<Rightarrow>
          if w = ''event-str'' \<and> a \<noteq> [] \<and> b \<noteq> [] \<and> c \<noteq> [] \<and> leading_digits d
          then Some (Str_entry a b \<lparr>ev_at = of_nat (leading_value d), ev_value = Str c\<rparr>)
          else None
      | _ \<Rightarrow> None)"

definition match_event_int :: "string list \<Rightarrow> entry option" where
  "match_event_int ws =
     (case ws of
        w # a # b # c # d # _ \<Rightarrow>
          if w = ''event-int'' \<and> a \<noteq> [] \<and> b \<noteq> [] \<and> digits c \<and> leading_digits d
          then Some (Int_entry a b \<lparr>ev_at = of_nat (leading_value d), ev_value = Num (digits_val c)\<rparr>)
          else None
      | _ \<Rightarrow> None)"

definition hex_value :: "char \<Rightarrow> nat option" where
  "hex_value c =
     (let n = (of_char c :: nat)
      in if 48 \<le> n \<and> n \<le> 57 then Some (n - 48)
         else if 65 \<le> n \<and> n \<le> 70 then Some (n - 55)
         else if 97 \<le> n \<and> n \<le> 102 then Some (n - 87) else None)"

text \<open>Two hexadecimal digits, divided by 255 as integers.\<close>

definition hex_component :: "char \<Rightarrow> char \<Rightarrow> rat option" where
  "hex_component c d =
     (case (hex_value c, hex_value d) of
        (Some m, Some n) \<Rightarrow> Some (of_nat ((16 * m + n) div 255)) | _ \<Rightarrow> None)"

definition match_color :: "string list \<Rightarrow> entry option" where
  "match_color ws =
     (case ws of
        w # a # (h # r1 # r2 # g1 # g2 # b1 # b2 # _) # _ \<Rightarrow>
          (case (hex_component r1 r2, hex_component g1 g2, hex_component b1 b2) of
             (Some r, Some g, Some b) \<Rightarrow>
               if w = ''color'' \<and> a \<noteq> [] \<and> h = CHR ''#''
               then Some (Color_entry a \<lparr>red = r, green = g, blue = b\<rparr>) else None
           | _ \<Rightarrow> None)
      | _ \<Rightarrow> None)"

definition parse_data_line :: "string \<Rightarrow> entry option" where
  "parse_data_line l =
     (let ws = split_on (CHR '' '') l
      in case match_range ws of
           Some e \<Rightarrow> Some e
         | None \<Rightarrow> (case match_event_str ws of
             Some e \<Rightarrow> Some e
           | None \<Rightarrow> (case match_event_int ws of Some e \<Rightarrow> Some e | None \<Rightarrow> match_color ws)))"

type_synonym grid = "(string, color) dict \<times> timeline list"

definition add_entry :: "entry \<Rightarrow> grid \<Rightarrow> grid" where
  "add_entry e g =
     (case g of (cs, ts) \<Rightarrow>
        (case e of
           Range_entry t n r \<Rightarrow> (cs, on_timeline t (add_range n r) ts)
         | Str_entry t n ev \<Rightarrow> (cs, on_timeline t (add_event_str n ev) ts)
         | Int_entry t n ev \<Rightarrow> (cs, on_timeline t (add_event_int n ev) ts)
         | Color_entry n c \<Rightarrow> (dset n c cs, ts)))"

definition add_line :: "string \<Rightarrow> grid \<Rightarrow> grid" where
  "add_line l g = (case parse_data_line l of None \<Rightarrow> g | Some e \<Rightarrow> add_entry e g)"

definition read_data :: "string \<Rightarrow> grid" where
  "read_data txt = (let (cs, ts) = fold add_line (readlines txt) ([], []) in (cs, sort_timelines ts))"

section \<open>Where the lines go\<close>

text \<open>Objects found by name: the operation that changes one leaves the others as they are.\<close>

locale named =
  fixes name :: "'a \<Rightarrow> string" and new :: "string \<Rightarrow> 'a"
  assumes name_new: "name (new n) = n"
begin

lemma find_update:
  assumes "\<And>x. name (f x) = name x"
  shows "find (\<lambda>x. name x = m) (update_named name new n f xs)
    = (if m = n then Some (f (case find (\<lambda>x. name x = n) xs of None \<Rightarrow> new n | Some x \<Rightarrow> x))
       else find (\<lambda>x. name x = m) xs)"
  by (induction xs) (auto simp: assms name_new)

lemma find_map: "(\<And>x. name (f x) = name x) \<Longrightarrow>
    find (\<lambda>x. name x = m) (map f xs) = map_option f (find (\<lambda>x. name x = m) xs)"
  by (induction xs) auto

end

interpretation range_lines: named rl_name new_range_line
  by unfold_locales (simp add: new_range_line_def)

interpretation event_lines: named el_name new_event_line
  by unfold_locales (simp add: new_event_line_def)

interpretation timelines: named tl_name new_timeline
  by unfold_locales (simp add: new_timeline_def)

definition line_ranges :: "string \<Rightarrow> timeline \<Rightarrow> data_range list" where
  "line_ranges n t = (case find (\<lambda>l. rl_name l = n) (tl_ranges t) of None \<Rightarrow> [] | Some l \<Rightarrow> rl_ranges l)"

definition line_events :: "string \<Rightarrow> event_line list \<Rightarrow> event list" where
  "line_events n ls = (case find (\<lambda>l. el_name l = n) ls of None \<Rightarrow> [] | Some l \<Rightarrow> el_events l)"

definition find_timeline :: "string \<Rightarrow> timeline list \<Rightarrow> timeline" where
  "find_timeline m ts = (case find (\<lambda>t. tl_name t = m) ts of None \<Rightarrow> new_timeline m | Some t \<Rightarrow> t)"

lemma line_ranges_simps [simp]:
  "line_ranges m (new_timeline n) = []"
  "line_ranges m (add_range n r t) = line_ranges m t @ (if m = n then [r] else [])"
  "line_ranges m (add_event_str n e t) = line_ranges m t"
  "line_ranges m (add_event_int n e t) = line_ranges m t"
  "line_ranges m (sort_timeline t) = sort_key dr_start (line_ranges m t)"
  by (auto simp: line_ranges_def new_timeline_def add_range_def add_event_str_def add_event_int_def sort_timeline_def
      range_lines.find_update range_lines.find_map new_range_line_def sort_ranges_key split: option.splits)

lemma line_events_add [simp]:
  "line_events m (update_named el_name new_event_line n (\<lambda>l. l\<lparr>el_events := el_events l @ [e]\<rparr>) ls)
     = line_events m ls @ (if m = n then [e] else [])"
  "line_events m (map (\<lambda>l. l\<lparr>el_events := sort_events (el_events l)\<rparr>) ls) = sort_key ev_at (line_events m ls)"
  by (auto simp: line_events_def event_lines.find_update event_lines.find_map new_event_line_def sort_events_key split: option.splits)

lemma line_events_simps [simp]:
  "line_events m (tl_event_str (new_timeline n)) = []"
  "line_events m (tl_event_int (new_timeline n)) = []"
  "line_events m (tl_event_str (add_range n r t)) = line_events m (tl_event_str t)"
  "line_events m (tl_event_int (add_range n r t)) = line_events m (tl_event_int t)"
  "line_events m (tl_event_str (add_event_str n e t)) = line_events m (tl_event_str t) @ (if m = n then [e] else [])"
  "line_events m (tl_event_int (add_event_str n e t)) = line_events m (tl_event_int t)"
  "line_events m (tl_event_str (add_event_int n e t)) = line_events m (tl_event_str t)"
  "line_events m (tl_event_int (add_event_int n e t)) = line_events m (tl_event_int t) @ (if m = n then [e] else [])"
  "line_events m (tl_event_str (sort_timeline t)) = sort_key ev_at (line_events m (tl_event_str t))"
  "line_events m (tl_event_int (sort_timeline t)) = sort_key ev_at (line_events m (tl_event_int t))"
  by (simp_all add: new_timeline_def add_range_def add_event_str_def add_event_int_def sort_timeline_def)
    (simp_all add: line_events_def)

lemma names_kept [simp]:
  "tl_name (add_range n r t) = tl_name t" "tl_name (add_event_str n e t) = tl_name t"
  "tl_name (add_event_int n e t) = tl_name t" "tl_name (sort_timeline t) = tl_name t"
  by (simp_all add: add_range_def add_event_str_def add_event_int_def sort_timeline_def)

lemma find_timeline_on [simp]:
  assumes "\<And>t. tl_name (f t) = tl_name t"
  shows "find_timeline m (on_timeline n f ts) = (if m = n then f (find_timeline n ts) else find_timeline m ts)"
  by (auto simp: find_timeline_def on_timeline_def timelines.find_update assms split: option.splits)

lemma sort_new_timeline [simp]: "sort_timeline (new_timeline m) = new_timeline m"
  by (simp add: sort_timeline_def new_timeline_def)

lemma find_timeline_sort [simp]: "find_timeline m (sort_timelines ts) = sort_timeline (find_timeline m ts)"
  by (auto simp: find_timeline_def sort_timelines_def timelines.find_map split: option.splits)

text \<open>The entries of a file, and those of one line of the picture.\<close>

definition entries :: "string \<Rightarrow> entry list" where
  "entries txt = List.map_filter parse_data_line (readlines txt)"

definition range_entries :: "string \<Rightarrow> string \<Rightarrow> entry list \<Rightarrow> data_range list" where
  "range_entries t n es = List.map_filter (\<lambda>e. case e of Range_entry t' n' r \<Rightarrow> if t' = t \<and> n' = n then Some r else None | _ \<Rightarrow> None) es"

definition str_entries :: "string \<Rightarrow> string \<Rightarrow> entry list \<Rightarrow> event list" where
  "str_entries t n es = List.map_filter (\<lambda>e. case e of Str_entry t' n' v \<Rightarrow> if t' = t \<and> n' = n then Some v else None | _ \<Rightarrow> None) es"

definition int_entries :: "string \<Rightarrow> string \<Rightarrow> entry list \<Rightarrow> event list" where
  "int_entries t n es = List.map_filter (\<lambda>e. case e of Int_entry t' n' v \<Rightarrow> if t' = t \<and> n' = n then Some v else None | _ \<Rightarrow> None) es"

definition color_entries :: "string \<Rightarrow> entry list \<Rightarrow> color list" where
  "color_entries n es = List.map_filter (\<lambda>e. case e of Color_entry n' c \<Rightarrow> if n' = n then Some c else None | _ \<Rightarrow> None) es"

lemmas entries_defs = range_entries_def str_entries_def int_entries_def color_entries_def

lemma fold_add_line: "fold add_line ls g = fold add_entry (List.map_filter parse_data_line ls) g"
  by (induction ls arbitrary: g) (auto simp: add_line_def List.map_filter_simps split: option.splits)

lemma fold_entries:
  assumes "fold add_entry es (cs, ts) = (cs', ts')"
  shows "line_ranges n (find_timeline t ts') = line_ranges n (find_timeline t ts) @ range_entries t n es
    \<and> line_events n (tl_event_str (find_timeline t ts')) = line_events n (tl_event_str (find_timeline t ts)) @ str_entries t n es
    \<and> line_events n (tl_event_int (find_timeline t ts')) = line_events n (tl_event_int (find_timeline t ts)) @ int_entries t n es
    \<and> dget cs' n = (case rev (color_entries n es) of [] \<Rightarrow> dget cs n | c # _ \<Rightarrow> Some c)"
  using assms
proof (induction es arbitrary: cs ts)
  case Nil
  then show ?case by (simp add: entries_defs List.map_filter_simps)
next
  case (Cons e es)
  obtain cs1 ts1 where 1: "add_entry e (cs, ts) = (cs1, ts1)" by force
  with Cons.prems have "fold add_entry es (cs1, ts1) = (cs', ts')" by simp
  from Cons.IH [OF this] 1 show ?case
    by (cases e) (auto simp: add_entry_def entries_defs List.map_filter_simps split: list.splits)
qed

text \<open> \<open>read_data\<close>: whatever the order of the lines of the file, each line of the picture holds the ranges or events
  the file gives for its timeline and its name, all of them and no others, sorted by their time, those with
  the same time in the order of the file; and a colour is the last one the file gives for its name.\<close>

theorem read_data_collects:
  "let (cs, ts) = read_data txt; es = entries txt
   in line_ranges n (find_timeline t ts) = sort_key dr_start (range_entries t n es)
    \<and> line_events n (tl_event_str (find_timeline t ts)) = sort_key ev_at (str_entries t n es)
    \<and> line_events n (tl_event_int (find_timeline t ts)) = sort_key ev_at (int_entries t n es)
    \<and> dget cs c = (case rev (color_entries c es) of [] \<Rightarrow> None | x # _ \<Rightarrow> Some x)"
proof -
  obtain cs ts where f: "fold add_entry (entries txt) ([], []) = (cs, ts)" by force
  then have r: "read_data txt = (cs, sort_timelines ts)"
    by (simp add: read_data_def fold_add_line entries_def)
  have "find_timeline t [] = new_timeline t" by (simp add: find_timeline_def)
  with fold_entries [OF f, of n t] fold_entries [OF f, of c t] show ?thesis
    by (simp add: r Let_def split: list.split)
qed

end
