(* ===== verification/Grid_Legend.thy ===== *)
theory Grid_Legend
  imports Grid_Read
begin

text \<open>
  \<^verbatim>\<open>utils/grid.py\<close>: the calls made on a cairo context, \<open>Colors\<close> and \<open>TopLegendRenderer\<close>.  What
  \<open>text_extents\<close> says of a text is a parameter.  Coordinates are rationals.
\<close>

section \<open>Cairo\<close>

datatype cairo =
    Rectangle rat rat rat rat
  | Set_source_rgb rat rat rat
  | Set_line_width rat
  | Set_operator_source
  | Set_dash rat
  | Stroke
  | Stroke_preserve
  | Fill
  | Move_to rat rat
  | Line_to rat rat
  | Rel_line_to rat rat
  | Close_path
  | Show_text string
  | Save
  | Restore
  | Translate rat rat
  | Clip
  | Set_source_buffer
  | Paint

text \<open>The entries 1, 2 and 3 of what \<open>text_extents\<close> returns.\<close>

record extents =
  y_bearing :: rat
  t_width :: rat
  t_height :: rat

type_synonym metrics = "string \<Rightarrow> extents"

section \<open>Colors\<close>

text \<open>The list \<open>default_colors\<close> belongs to the class: \<open>pop\<close> shortens it for all objects; the program has one.\<close>

record colors =
  color_map :: "(string, color) dict"
  default_colors :: "color list"

definition rgb :: "rat \<Rightarrow> rat \<Rightarrow> rat \<Rightarrow> color" where
  "rgb r g b = \<lparr>red = r, green = g, blue = b\<rparr>"

definition default_color_list :: "color list" where
  "default_color_list = [rgb 1 0 0, rgb 0 1 0, rgb 0 0 1, rgb 1 1 0, rgb 1 0 1, rgb 0 1 1]"

definition add_color :: "string \<Rightarrow> color \<Rightarrow> colors \<Rightarrow> colors" where
  "add_color name c cs = cs\<lparr>color_map := dset name c (color_map cs)\<rparr>"

definition lookup :: "string \<Rightarrow> colors \<Rightarrow> py_exn + color \<times> colors" where
  "lookup name cs =
     (case dget (color_map cs) name of
        Some c \<Rightarrow> Inr (c, cs)
      | None \<Rightarrow>
          if default_colors cs = [] then Inl IndexError
          else let c = last (default_colors cs)
               in Inr (c, add_color name c (cs\<lparr>default_colors := butlast (default_colors cs)\<rparr>)))"

text \<open>The loop of \<open>main\<close> over the values of the ranges.\<close>

fun lookup_all :: "string list \<Rightarrow> colors \<Rightarrow> py_exn + color list \<times> colors" where
  "lookup_all [] cs = Inr ([], cs)"
| "lookup_all (n # ns) cs =
     rbind (lookup n cs) (\<lambda>(c, cs). rbind (lookup_all ns cs) (\<lambda>(rest, cs). Inr (c # rest, cs)))"

section \<open>TopLegendRenderer\<close>

record top_legend =
  lg_padding :: rat
  lg_legends :: "string list"
  lg_colors :: "color list"
  lg_width :: rat
  lg_height :: rat

definition new_legend :: top_legend where
  "new_legend = \<lparr>lg_padding = 10, lg_legends = [], lg_colors = [], lg_width = 0, lg_height = 0\<rparr>"

definition set_legends :: "string list \<Rightarrow> color list \<Rightarrow> top_legend \<Rightarrow> top_legend" where
  "set_legends legends cs lg = lg\<lparr>lg_legends := legends, lg_colors := cs\<rparr>"

text \<open>Where a legend goes: its corner and its size.\<close>

record placed =
  pl_x :: rat
  pl_y :: rat
  pl_width :: rat
  pl_height :: rat

text \<open>
  The body of the loop \<open>layout\<close> and \<open>draw\<close> share; the state is \<open>line_height\<close>, \<open>total_height\<close>, \<open>line_used\<close>.
\<close>

definition place_legend ::
    "metrics \<Rightarrow> rat \<Rightarrow> rat \<Rightarrow> string \<Rightarrow> rat \<times> rat \<times> rat \<Rightarrow> placed \<times> rat \<times> rat \<times> rat" where
  "place_legend ext padding width legend st =
     (let (line_height, total_height, line_used) = st;
          item_width = padding + padding + t_width (ext legend) + padding;
          item_height = t_height (ext legend) + padding;
          line_height = (if item_height > line_height then item_height else line_height);
          (line_used, total_height) =
            (if line_used + item_width > width then (padding + item_width, total_height + line_height)
             else (line_used + item_width, total_height));
          x = line_used - item_width
      in (\<lparr>pl_x = x, pl_y = total_height, pl_width = item_width, pl_height = item_height\<rparr>,
          line_height, total_height, line_used))"

fun place_legends ::
    "metrics \<Rightarrow> rat \<Rightarrow> rat \<Rightarrow> string list \<Rightarrow> rat \<times> rat \<times> rat \<Rightarrow> placed list \<times> rat \<times> rat \<times> rat" where
  "place_legends ext padding width [] st = ([], st)"
| "place_legends ext padding width (l # ls) st =
     (let (p, st) = place_legend ext padding width l st; (ps, st) = place_legends ext padding width ls st
      in (p # ps, st))"

definition legend_layout :: "metrics \<Rightarrow> rat \<Rightarrow> top_legend \<Rightarrow> top_legend" where
  "legend_layout ext width lg =
     (let (_, line_height, total_height, _) =
            place_legends ext (lg_padding lg) width (lg_legends lg) (0, lg_padding lg, lg_padding lg)
      in lg\<lparr>lg_width := width, lg_height := total_height + line_height\<rparr>)"

definition legend_ops :: "metrics \<Rightarrow> rat \<Rightarrow> placed \<Rightarrow> string \<Rightarrow> color \<Rightarrow> cairo list" where
  "legend_ops ext padding p legend c =
     [Rectangle (pl_x p) (pl_y p) padding padding, Set_source_rgb 0 0 0, Set_line_width 2, Stroke_preserve,
      Set_source_rgb (red c) (green c) (blue c), Fill,
      Move_to (pl_x p + padding * 2) (pl_y p + t_height (ext legend)), Set_source_rgb 0 0 0, Show_text legend]"

text \<open>\<open>cs\<close> are the colours from \<open>self.__colors[i]\<close> on.\<close>

fun draw_legends ::
    "metrics \<Rightarrow> rat \<Rightarrow> rat \<Rightarrow> string list \<Rightarrow> color list \<Rightarrow> rat \<times> rat \<times> rat \<Rightarrow> py_exn + cairo list" where
  "draw_legends ext padding width [] cs st = Inr []"
| "draw_legends ext padding width (l # ls) [] st = Inl IndexError"
| "draw_legends ext padding width (l # ls) (c # cs) st =
     (let (p, st) = place_legend ext padding width l st
      in rbind (draw_legends ext padding width ls cs st) (\<lambda>ops. Inr (legend_ops ext padding p l c @ ops)))"

definition legend_draw :: "metrics \<Rightarrow> top_legend \<Rightarrow> py_exn + cairo list" where
  "legend_draw ext lg =
     draw_legends ext (lg_padding lg) (lg_width lg) (lg_legends lg) (lg_colors lg) (0, lg_padding lg, lg_padding lg)"

section \<open>Looking up colours\<close>

definition unnamed :: "colors \<Rightarrow> string list \<Rightarrow> string list" where
  "unnamed cs names = filter (\<lambda>n. dget (color_map cs) n = None) names"

lemma fold_dset_other: "n \<notin> set ks \<Longrightarrow> dget (fold (\<lambda>(n, c). dset n c) (zip ks vs) d) n = dget d n"
proof (induction ks arbitrary: vs d)
  case (Cons k ks)
  then show ?case by (cases vs) auto
qed simp

lemma lookup_all_spec:
  assumes "distinct names"
  shows "lookup_all names cs =
    (if length (unnamed cs names) \<le> length (default_colors cs)
     then let m = fold (\<lambda>(n, c). dset n c) (zip (unnamed cs names) (rev (default_colors cs))) (color_map cs)
          in Inr (map (\<lambda>n. the (dget m n)) names,
                  \<lparr>color_map = m,
                   default_colors = take (length (default_colors cs) - length (unnamed cs names)) (default_colors cs)\<rparr>)
     else Inl IndexError)"
  using assms
proof (induction names arbitrary: cs)
  case Nil
  then show ?case by (simp add: unnamed_def)
next
  case (Cons n ns)
  then have n: "n \<notin> set ns" and ns: "distinct ns" by auto
  show ?case
  proof (cases "dget (color_map cs) n")
    case (Some c)
    then have "n \<notin> set (unnamed cs ns)" by (simp add: unnamed_def)
    from fold_dset_other [OF this, of "rev (default_colors cs)" "color_map cs"] Some have
      "the (dget (fold (\<lambda>(n, c). dset n c) (zip (unnamed cs ns) (rev (default_colors cs))) (color_map cs)) n) = c"
      by simp
    with Some Cons.IH [OF ns, of cs] show ?thesis
      by (simp add: lookup_def unnamed_def Let_def)
  next
    case None
    show ?thesis
    proof (cases "default_colors cs" rule: rev_cases)
      case Nil
      with None show ?thesis by (simp add: lookup_def unnamed_def)
    next
      case (snoc defs c)
      define cs1 where "cs1 = \<lparr>color_map = dset n c (color_map cs), default_colors = defs\<rparr>"
      have look: "lookup n cs = Inr (c, cs1)"
        using None snoc by (cases cs) (simp add: lookup_def add_color_def cs1_def Let_def)
      have un: "unnamed cs1 ns = unnamed cs ns" "unnamed cs (n # ns) = n # unnamed cs ns" "n \<notin> set (unnamed cs ns)"
        using n None by (auto simp: unnamed_def cs1_def intro!: filter_cong)
      let ?m = "fold (\<lambda>(n, c). dset n c) (zip (unnamed cs ns) (rev defs)) (dset n c (color_map cs))"
      from fold_dset_other [OF un(3), of "rev defs" "dset n c (color_map cs)"] have "the (dget ?m n) = c" by simp
      with Cons.IH [OF ns, of cs1] look un snoc show ?thesis
        by (simp add: cs1_def Let_def)
    qed
  qed
qed

section \<open>Where the legends go\<close>

definition fits :: "rat \<Rightarrow> rat \<Rightarrow> rat \<Rightarrow> rat \<Rightarrow> placed \<Rightarrow> bool" where
  "fits padding width y0 y1 p \<longleftrightarrow>
     padding \<le> pl_x p \<and> y0 \<le> pl_y p \<and> pl_y p + pl_height p \<le> y1
   \<and> (padding + pl_width p \<le> width \<longrightarrow> pl_x p + pl_width p \<le> width)"

text \<open>The second is to the right of the first on the same line, or on a lower line.\<close>

definition apart :: "placed \<Rightarrow> placed \<Rightarrow> bool" where
  "apart p q \<longleftrightarrow> pl_y p = pl_y q \<and> pl_x p + pl_width p \<le> pl_x q \<or> pl_y p + pl_height p \<le> pl_y q"

definition sane :: "metrics \<Rightarrow> rat \<Rightarrow> bool" where
  "sane ext padding \<longleftrightarrow> 0 \<le> padding \<and> (\<forall>s. 0 \<le> t_width (ext s) \<and> 0 \<le> t_height (ext s))"

lemma place_legend_step:
  assumes "sane ext padding" and "place_legend ext padding width l (lh, th, lu) = (p, lh', th', lu')"
    and "padding \<le> lu" and "0 \<le> lh"
  shows "lh \<le> lh' \<and> th \<le> th' \<and> padding \<le> lu' \<and> pl_y p = th' \<and> pl_x p + pl_width p = lu' \<and> pl_height p \<le> lh'
    \<and> 0 \<le> pl_width p \<and> padding \<le> pl_x p \<and> (th' = th \<and> lu \<le> pl_x p \<or> th + lh \<le> th')
    \<and> (padding + pl_width p \<le> width \<longrightarrow> pl_x p + pl_width p \<le> width)"
proof -
  have "0 \<le> t_width (ext l)" "0 \<le> t_height (ext l)" "0 \<le> padding"
    using assms(1) by (simp_all add: sane_def)
  with assms(2-4) show ?thesis
    by (auto simp: place_legend_def Let_def split: if_splits)
qed

lemma place_legends_fit:
  assumes "sane ext padding" and "place_legends ext padding width ls (lh, th, lu) = (ps, lh', th', lu')"
    and "padding \<le> lu" and "0 \<le> lh"
  shows "lh \<le> lh' \<and> th \<le> th' \<and> list_all (fits padding width th (th' + lh')) ps
    \<and> list_all (\<lambda>p. pl_y p = th \<and> lu \<le> pl_x p \<or> th + lh \<le> pl_y p) ps \<and> sorted_wrt apart ps"
  using assms(2-)
proof (induction ls arbitrary: lh th lu ps)
  case (Cons l ls)
  obtain p lh1 th1 lu1 where p: "place_legend ext padding width l (lh, th, lu) = (p, lh1, th1, lu1)"
    by (metis prod_cases4)
  with Cons.prems(1) obtain qs where qs: "place_legends ext padding width ls (lh1, th1, lu1) = (qs, lh', th', lu')"
    "ps = p # qs" by (auto simp: Let_def split: prod.splits)
  note step = place_legend_step [OF assms(1) p Cons.prems(2,3)]
  then have "padding \<le> lu1" "0 \<le> lh1" using Cons.prems(3) by auto
  note ih = Cons.IH [OF qs(1) this]
  have "fits padding width th (th' + lh') p"
    using step ih by (auto simp: fits_def)
  moreover have "list_all (fits padding width th (th' + lh')) qs"
    using ih step by (auto simp: fits_def list_all_iff)
  moreover have "pl_y q = th \<and> lu \<le> pl_x q \<or> th + lh \<le> pl_y q" if "q \<in> set qs" for q
  proof -
    from ih that have "pl_y q = th1 \<and> lu1 \<le> pl_x q \<or> th1 + lh1 \<le> pl_y q" by (auto simp: list_all_iff)
    moreover from step have "th1 = th \<and> lu \<le> lu1 \<or> th + lh \<le> th1" "lh \<le> lh1" by auto
    ultimately show ?thesis using Cons.prems(3) by (elim disjE) auto
  qed
  moreover have "list_all (apart p) qs"
    using ih step by (auto simp: list_all_iff apart_def)
  ultimately show ?case
    using ih step qs(2) by (auto simp: list_all_iff)
qed simp

lemma draw_legends_places:
  "draw_legends ext padding width ls cs st =
     (if length ls \<le> length cs
      then Inr (concat (map (\<lambda>(p, l, c). legend_ops ext padding p l c)
             (zip (fst (place_legends ext padding width ls st)) (zip ls cs))))
      else Inl IndexError)"
proof (induction ls arbitrary: cs st)
  case (Cons l ls)
  obtain p st1 where p: "place_legend ext padding width l st = (p, st1)" by (metis surj_pair)
  obtain ps st2 where ps: "place_legends ext padding width ls st1 = (ps, st2)" by (metis surj_pair)
  show ?case
    by (cases cs) (simp_all add: p ps Cons.IH [of _ st1] Let_def)
qed simp

lemma length_place_legends: "length (fst (place_legends ext padding width ls st)) = length ls"
proof (induction ls arbitrary: st)
  case (Cons l ls)
  then show ?case by (simp add: split_beta Let_def)
qed simp

section \<open>Properties\<close>

text \<open> The legend.  After \<open>layout\<close>, \<open>draw\<close> raises exactly when there are fewer colours than legends; otherwise it
  draws one box with its text for each legend, in order, in its colour.  Every box with its text
  is within the height \<open>layout\<close> has computed and right of the padding, within the width
  too when it fits on a line of its own, and no two overlap.  The hypothesis says that
  the extents of a text are not negative.\<close>

theorem legends_fit:
  assumes "sane ext (lg_padding lg)"
  shows "let lg' = legend_layout ext width lg; pad = lg_padding lg
    in if length (lg_colors lg) < length (lg_legends lg) then legend_draw ext lg' = Inl IndexError
       else \<exists>ps. legend_draw ext lg' = Inr (concat (map (\<lambda>(p, l, c). legend_ops ext pad p l c)
                   (zip ps (zip (lg_legends lg) (lg_colors lg)))))
              \<and> length ps = length (lg_legends lg)
              \<and> list_all (fits pad width pad (lg_height lg')) ps \<and> sorted_wrt apart ps"
proof -
  obtain ps lh th lu where ps: "place_legends ext (lg_padding lg) width (lg_legends lg)
      (0, lg_padding lg, lg_padding lg) = (ps, lh, th, lu)" by (metis prod_cases4)
  have lay: "legend_layout ext width lg = lg\<lparr>lg_width := width, lg_height := th + lh\<rparr>"
    by (simp add: legend_layout_def ps)
  have "length ps = length (lg_legends lg)"
    using length_place_legends [of ext "lg_padding lg" width "lg_legends lg"] ps by (metis fst_conv)
  with place_legends_fit [OF assms ps] show ?thesis
    by (auto simp: lay Let_def legend_draw_def draw_legends_places ps)
qed

definition small_metrics :: metrics where
  "small_metrics s = \<lparr>y_bearing = - 8, t_width = 8 * of_nat (length s), t_height = 9\<rparr>"

theorem legends_fit_witness:
  "lg_height (legend_layout small_metrics 60 (set_legends [''ab'', ''c''] [rgb 1 0 0, rgb 0 1 0] new_legend)) = 48
    \<and> legend_draw small_metrics (legend_layout small_metrics 60 (set_legends [''ab'', ''c''] [rgb 1 0 0] new_legend))
        = Inl IndexError"
proof -
  have "sane small_metrics (lg_padding (set_legends [''ab'', ''c''] [rgb 1 0 0] new_legend))"
    by (simp add: sane_def small_metrics_def set_legends_def new_legend_def)
  from legends_fit [OF this, of 60] show ?thesis
    by (simp add: set_legends_def new_legend_def legend_layout_def place_legend_def small_metrics_def Let_def)
qed

lemma distinct_range_values: "distinct (all_range_values ts)"
  by (simp add: all_range_values_def)

text \<open>The colours of the legend.  \<open>main\<close> looks up every value of the ranges once.  A value with a colour in the file
  gets it; the others get the default colours one by one, from the last on, all different; and when
  more values are without a colour than there are default colours left the program ends in \<open>IndexError\<close>.\<close>

theorem range_colours:
  "let names = all_range_values ts; new = unnamed cs names
   in (if length (default_colors cs) < length new then lookup_all names cs = Inl IndexError
       else \<exists>cs'. lookup_all names cs = Inr (map (\<lambda>n. the (dget (color_map cs') n)) names, cs')
          \<and> (\<forall>n. n \<notin> set new \<longrightarrow> dget (color_map cs') n = dget (color_map cs) n)
          \<and> (\<forall>i < length new. dget (color_map cs') (new ! i) = Some (rev (default_colors cs) ! i)))"
proof -
  have other: "n \<notin> set ks \<Longrightarrow> dget (fold (\<lambda>(n, c). dset n c) (zip ks vs) d) n = dget d n" for n ks vs and d :: "(string, color) dict"
    by (rule fold_dset_other)
  have nth: "dget (fold (\<lambda>(n, c). dset n c) (zip ks vs) d) (ks ! i) = Some (vs ! i)"
    if "distinct ks" "length ks \<le> length vs" "i < length ks" for ks vs i and d :: "(string, color) dict"
    using that
  proof (induction ks arbitrary: vs i d)
    case (Cons k ks)
    then obtain v ws where "vs = v # ws" by (cases vs) auto
    with Cons show ?case by (cases i) (auto simp: fold_dset_other)
  qed simp
  have "distinct (unnamed cs (all_range_values ts))"
    by (simp add: unnamed_def distinct_range_values)
  with nth other show ?thesis
    by (simp add: lookup_all_spec [OF distinct_range_values] Let_def)
qed

definition two_values :: "timeline list" where
  "two_values = [\<lparr>tl_name = ''t'', tl_ranges = [\<lparr>rl_name = ''l'', rl_ranges =
     [\<lparr>dr_start = 0, dr_end = 1, dr_value = ''a''\<rparr>, \<lparr>dr_start = 1, dr_end = 2, dr_value = ''b''\<rparr>]\<rparr>],
     tl_event_str = [], tl_event_int = []\<rparr>]"

theorem range_colours_witness:
  "\<exists>cols cs'. lookup_all (all_range_values two_values) \<lparr>color_map = [(''a'', rgb 0 0 0)], default_colors = default_color_list\<rparr> = Inr (cols, cs')
     \<and> dget (color_map cs') ''a'' = Some (rgb 0 0 0) \<and> dget (color_map cs') ''b'' = Some (rgb 0 1 1)"
  using range_colours [of two_values "\<lparr>color_map = [(''a'', rgb 0 0 0)], default_colors = default_color_list\<rparr>"]
  by (auto simp: two_values_def all_range_values_def unnamed_def default_color_list_def)

end
