(* ===== verification/Grid_Timelines.thy ===== *)
theory Grid_Timelines
  imports Grid_Legend "HOL-Library.Sublist"
begin

text \<open>
  \<^verbatim>\<open>utils/grid.py\<close>: \<open>TimelinesRenderer\<close>, the layout and the drawing of the timelines.  A drawing is the list of
  calls made on the context; it raises where the code divides by an empty window or runs out of colours.
\<close>

section \<open>Layout\<close>

record renderer =
  tr_padding :: int
  tr_timelines :: "timeline list"
  tr_colors :: colors
  tr_start :: rat
  tr_end :: rat
  tr_left_width :: rat
  tr_right_width :: rat
  tr_max_text_height :: rat
  tr_width :: rat
  tr_height :: rat
  grey_background :: int

definition new_renderer :: renderer where
  "new_renderer = \<lparr>tr_padding = 10, tr_timelines = [], tr_colors = \<lparr>color_map = [], default_colors = []\<rparr>,
     tr_start = 0, tr_end = 0, tr_left_width = 0, tr_right_width = 0, tr_max_text_height = 0, tr_width = 0,
     tr_height = 0, grey_background = 0\<rparr>"

definition set_timelines :: "timeline list \<Rightarrow> colors \<Rightarrow> renderer \<Rightarrow> renderer" where
  "set_timelines ts cs r = r\<lparr>tr_timelines := ts, tr_colors := cs\<rparr>"

definition set_render_range :: "rat \<Rightarrow> rat \<Rightarrow> renderer \<Rightarrow> renderer" where
  "set_render_range start end r = r\<lparr>tr_start := start, tr_end := end\<rparr>"

text \<open>\<open>padding\<close> and \<open>padding / 2\<close>, a division of integers.\<close>

definition pad :: "renderer \<Rightarrow> rat" where
  "pad r = of_int (tr_padding r)"

definition half_pad :: "renderer \<Rightarrow> rat" where
  "half_pad r = of_int (tr_padding r div 2)"

definition get_data_x_start :: "renderer \<Rightarrow> rat" where
  "get_data_x_start r = half_pad r + tr_left_width r + pad r + tr_right_width r + half_pad r"

definition alphabet :: string where
  "alphabet = ''ABCDEFGHIJKLMNOPQRSTUVWXYZabcedefghijklmnopqrstuvwxyz0123456789''"

definition timeline_names :: "timeline \<Rightarrow> string list" where
  "timeline_names t = map rl_name (tl_ranges t) @ map el_name (tl_event_int t) @ map el_name (tl_event_str t)"

definition widest :: "metrics \<Rightarrow> string list \<Rightarrow> rat" where
  "widest ext names = fold (\<lambda>n w. max w (t_width (ext n))) names 0"

definition count_ranges :: "timeline list \<Rightarrow> nat" where
  "count_ranges ts = sum_list (map (\<lambda>t. length (tl_ranges t)) ts)"

definition count_events :: "timeline list \<Rightarrow> nat" where
  "count_events ts = sum_list (map (\<lambda>t. length (tl_event_int t) + length (tl_event_str t)) ts)"

definition timelines_layout :: "metrics \<Rightarrow> rat \<Rightarrow> renderer \<Rightarrow> renderer" where
  "timelines_layout ext width r =
     (let ts = tr_timelines r;
          max_text_height = t_height (ext alphabet);
          left_width = widest ext (map tl_name ts);
          right_width = widest ext (concat (map timeline_names ts));
          left_n_lines = of_nat (length ts);
          range_n = of_nat (count_ranges ts);
          event_n = of_nat (count_events ts);
          left_height = left_n_lines * max_text_height + (left_n_lines - 1) * pad r;
          right_n_lines = range_n + event_n;
          right_height = (right_n_lines - 1) * pad r + right_n_lines * max_text_height;
          right_data_height = event_n * (max_text_height + 5) + range_n * 10;
          right_data_height = right_data_height + (right_n_lines - 1) * pad r;
          height = max left_height right_height;
          height = max height right_data_height
      in r\<lparr>tr_left_width := left_width, tr_right_width := right_width, tr_max_text_height := max_text_height,
            tr_width := width, tr_height := height + pad r\<rparr>)"

section \<open>Drawing a line of the picture\<close>

definition draw_line :: "rat \<Rightarrow> rat \<Rightarrow> rat \<Rightarrow> rat \<Rightarrow> cairo list" where
  "draw_line x y width height =
     [Move_to x y, Rel_line_to width height, Close_path, Set_operator_source, Set_line_width 1,
      Set_source_rgb 0 0 0, Stroke]"

text \<open>\<open>int\<close> of a float.\<close>

definition trunc :: "rat \<Rightarrow> int" where
  "trunc q = (if 0 \<le> q then \<lfloor>q\<rfloor> else \<lceil>q\<rceil>)"

definition event_str :: "event_value \<Rightarrow> string" where
  "event_str v = (case v of Str s \<Rightarrow> s | Num n \<Rightarrow> nat_str n)"

definition draw_background :: "rat \<Rightarrow> rat \<Rightarrow> rat \<Rightarrow> rat \<Rightarrow> renderer \<Rightarrow> cairo list" where
  "draw_background x y width height r =
     (if grey_background r mod 2 = 0
      then [Rectangle x (y - half_pad r) width (height + pad r), Set_source_rgb (9/10) (9/10) (9/10), Fill] else [])"

definition event_x :: "renderer \<Rightarrow> rat \<Rightarrow> rat \<Rightarrow> event \<Rightarrow> int" where
  "event_x r x width e = trunc (x + (ev_at e - tr_start r) * width / (tr_end r - tr_start r))"

definition event_ops :: "renderer \<Rightarrow> rat \<Rightarrow> int \<Rightarrow> event \<Rightarrow> cairo list" where
  "event_ops r y real_x e =
     [Rectangle (of_int real_x) y 1 1, Set_source_rgb 1 0 0, Stroke, Move_to (of_int real_x) (y + tr_max_text_height r),
      Set_source_rgb 0 0 0, Show_text (event_str (ev_value e))]"

text \<open>The events the loop draws, with their places: those far enough from the last one drawn.\<close>

fun drawn_events :: "(event \<Rightarrow> int) \<Rightarrow> int \<Rightarrow> event list \<Rightarrow> (int \<times> event) list" where
  "drawn_events place last_x_drawn [] = []"
| "drawn_events place last_x_drawn (e # es) =
     (if place e > last_x_drawn + 2 then (place e, e) # drawn_events place (place e) es
      else drawn_events place last_x_drawn es)"

definition draw_events ::
    "event list \<Rightarrow> rat \<Rightarrow> rat \<Rightarrow> rat \<Rightarrow> rat \<Rightarrow> renderer \<Rightarrow> py_exn + cairo list \<times> renderer" where
  "draw_events events x y width height r =
     (let bg = draw_background x y width height r;
          (lo, hi) = get_events_bounds events (tr_start r) (tr_end r);
          visible = slice events lo hi
      in if visible \<noteq> [] \<and> tr_end r - tr_start r = 0 then Inl ZeroDivisionError
         else Inr (bg @ concat (map (\<lambda>(real_x, e). event_ops r y real_x e)
                (drawn_events (event_x r x width) (trunc x) visible)),
              r\<lparr>grey_background := grey_background r + 1\<rparr>))"

text \<open>The loop over the ranges; \<open>lookup\<close> can change the colours.\<close>

fun draw_visible_ranges ::
    "rat \<Rightarrow> rat \<Rightarrow> rat \<Rightarrow> int \<Rightarrow> data_range list \<Rightarrow> renderer \<Rightarrow> py_exn + cairo list \<times> renderer" where
  "draw_visible_ranges x y width last_x_drawn [] r = Inr ([], r)"
| "draw_visible_ranges x y width last_x_drawn (d # ds) r =
     (let s = max (dr_start d) (tr_start r); e = min (dr_end d) (tr_end r);
          x_start = trunc (x + (s - tr_start r) * width / (tr_end r - tr_start r));
          x_end = trunc (x + (e - tr_start r) * width / (tr_end r - tr_start r))
      in if tr_end r - tr_start r = 0 then Inl ZeroDivisionError
         else if x_end > last_x_drawn
         then rbind (lookup (dr_value d) (tr_colors r)) (\<lambda>(c, cs).
              rbind (draw_visible_ranges x y width x_end ds (r\<lparr>tr_colors := cs\<rparr>)) (\<lambda>(ops, r).
                Inr ([Rectangle (of_int x_start) y (of_int (x_end - x_start)) 10, Set_source_rgb 0 0 0, Stroke_preserve,
                      Set_source_rgb (red c) (green c) (blue c), Fill] @ ops, r)))
         else draw_visible_ranges x y width last_x_drawn ds r)"

definition draw_ranges ::
    "data_range list \<Rightarrow> rat \<Rightarrow> rat \<Rightarrow> rat \<Rightarrow> rat \<Rightarrow> renderer \<Rightarrow> py_exn + cairo list \<times> renderer" where
  "draw_ranges ranges x y width height r =
     (let bg = draw_background x y width height r;
          (lo, hi) = get_ranges_bounds ranges (tr_start r) (tr_end r)
      in rbind (draw_visible_ranges x y width (trunc (x - 1)) (slice ranges lo hi) r) (\<lambda>(ops, r).
           Inr (bg @ ops, r\<lparr>grey_background := grey_background r + 1\<rparr>)))"

section \<open>Drawing the timelines\<close>

text \<open>The name of a line at its place.\<close>

definition draw_name :: "metrics \<Rightarrow> string \<Rightarrow> rat \<Rightarrow> rat \<Rightarrow> renderer \<Rightarrow> cairo list" where
  "draw_name ext name x cur_y r =
     [Move_to x (cur_y + tr_max_text_height r - (t_height (ext name) + y_bearing (ext name))), Show_text name]"

definition right_x_start :: "renderer \<Rightarrow> rat" where
  "right_x_start r = half_pad r + tr_left_width r + pad r"

definition data_x_start :: "renderer \<Rightarrow> rat" where
  "data_x_start r = right_x_start r + tr_right_width r + half_pad r"

text \<open>The separator below a line.\<close>

definition draw_separator :: "rat \<Rightarrow> renderer \<Rightarrow> cairo list" where
  "draw_separator cur_y r = draw_line (right_x_start r - half_pad r) (cur_y - half_pad r) (tr_right_width r + pad r) 0"

definition draw_event_line ::
    "metrics \<Rightarrow> event_line \<Rightarrow> rat \<times> renderer \<Rightarrow> py_exn + cairo list \<times> rat \<times> renderer" where
  "draw_event_line ext l st =
     (let (cur_y, r) = st; h = tr_max_text_height r + 5
      in rbind (draw_events (el_events l) (data_x_start r) cur_y (tr_width r - data_x_start r) h r) (\<lambda>(ops, r).
           let next_y = cur_y + h + pad r
           in Inr (draw_name ext (el_name l) (right_x_start r) cur_y r @ ops @ draw_separator next_y r, next_y, r)))"

definition draw_range_line ::
    "metrics \<Rightarrow> range_line \<Rightarrow> rat \<times> renderer \<Rightarrow> py_exn + cairo list \<times> rat \<times> renderer" where
  "draw_range_line ext l st =
     (let (cur_y, r) = st
      in rbind (draw_ranges (rl_ranges l) (data_x_start r) cur_y (tr_width r - data_x_start r) 10 r) (\<lambda>(ops, r).
           let next_y = cur_y + tr_max_text_height r + pad r
           in Inr (draw_name ext (rl_name l) (right_x_start r) cur_y r @ ops @ draw_separator next_y r, next_y, r)))"

text \<open>The loops: the calls of all elements one after the other.\<close>

fun draw_each ::
    "('l \<Rightarrow> 's \<Rightarrow> py_exn + cairo list \<times> 's) \<Rightarrow> 'l list \<Rightarrow> 's \<Rightarrow> py_exn + cairo list \<times> 's" where
  "draw_each f [] st = Inr ([], st)"
| "draw_each f (l # ls) st =
     rbind (f l st) (\<lambda>(ops, st). rbind (draw_each f ls st) (\<lambda>(more, st). Inr (ops @ more, st)))"

definition draw_timeline :: "metrics \<Rightarrow> timeline \<Rightarrow> rat \<times> renderer \<Rightarrow> py_exn + cairo list \<times> rat \<times> renderer" where
  "draw_timeline ext t st =
     (let (cur_y, r) = st
      in rbind (draw_each (draw_event_line ext) (tl_event_int t) st) (\<lambda>(ints, st).
         rbind (draw_each (draw_event_line ext) (tl_event_str t) st) (\<lambda>(strs, st).
         rbind (draw_each (draw_range_line ext) (tl_ranges t) st) (\<lambda>(rans, (end_y, r')).
           Inr (draw_name ext (tl_name t) (half_pad r) cur_y r @ ints @ strs @ rans
                  @ draw_line 0 (end_y - half_pad r') (tr_width r') 0, end_y, r')))))"

definition timelines_draw :: "metrics \<Rightarrow> renderer \<Rightarrow> py_exn + cairo list \<times> renderer" where
  "timelines_draw ext r =
     (let top_y = half_pad r; r = r\<lparr>grey_background := 1\<rparr>
      in rbind (draw_each (draw_timeline ext) (tr_timelines r) (top_y, r)) (\<lambda>(ops, (cur_y, r)).
           let bot_y = cur_y - half_pad r
           in Inr (draw_line 0 0 (tr_width r) 0 @ ops
                @ draw_line (half_pad r + tr_left_width r + half_pad r) 0 0 bot_y
                @ draw_line (right_x_start r + tr_right_width r + half_pad r) 0 0 bot_y, r)))"

section \<open>How far down the drawing goes\<close>

text \<open>What drawing leaves alone: all but the colours and the background counter.\<close>

definition same_frame :: "renderer \<Rightarrow> renderer \<Rightarrow> bool" where
  "same_frame r r' \<longleftrightarrow> tr_padding r' = tr_padding r \<and> tr_timelines r' = tr_timelines r
     \<and> tr_start r' = tr_start r \<and> tr_end r' = tr_end r
     \<and> tr_left_width r' = tr_left_width r \<and> tr_right_width r' = tr_right_width r
     \<and> tr_max_text_height r' = tr_max_text_height r \<and> tr_width r' = tr_width r \<and> tr_height r' = tr_height r"

lemma same_frame_refl [simp]: "same_frame r r"
  by (simp add: same_frame_def)

lemma same_frame_trans: "same_frame r r' \<Longrightarrow> same_frame r' r'' \<Longrightarrow> same_frame r r''"
  by (simp add: same_frame_def)

lemma same_frame_updates [simp]:
  "same_frame r (r'\<lparr>grey_background := g\<rparr>) \<longleftrightarrow> same_frame r r'"
  "same_frame (r\<lparr>grey_background := g\<rparr>) r' \<longleftrightarrow> same_frame r r'"
  "same_frame (r\<lparr>tr_colors := cs\<rparr>) r' \<longleftrightarrow> same_frame r r'"
  by (simp_all add: same_frame_def)

lemma frame_sizes:
  assumes "same_frame r r'"
  shows "tr_max_text_height r' = tr_max_text_height r" "pad r' = pad r" "half_pad r' = half_pad r"
    "tr_left_width r' = tr_left_width r" "tr_right_width r' = tr_right_width r" "tr_height r' = tr_height r"
  using assms by (simp_all add: same_frame_def pad_def half_pad_def)

lemma draw_visible_ranges_frame:
  "draw_visible_ranges x y width prev ds r = Inr (ops, r') \<Longrightarrow> same_frame r r'"
proof (induction ds arbitrary: prev r ops)
  case (Cons d ds)
  show ?case
  proof (cases "trunc (x + (min (dr_end d) (tr_end r) - tr_start r) * width / (tr_end r - tr_start r)) > prev")
    case True
    with Cons.prems obtain c cs more prev' where
      "draw_visible_ranges x y width prev' ds (r\<lparr>tr_colors := cs\<rparr>) = Inr (more, r')"
      by (auto simp: Let_def split: if_splits)
    from Cons.IH [OF this] show ?thesis by simp
  next
    case False
    with Cons.prems have "draw_visible_ranges x y width prev ds r = Inr (ops, r')"
      by (simp add: Let_def split: if_splits)
    from Cons.IH [OF this] show ?thesis .
  qed
qed simp

lemma draw_event_line_step:
  assumes "draw_event_line ext l (y, r) = Inr (ops, y', r')"
  shows "y' = y + (tr_max_text_height r + 5 + pad r) \<and> same_frame r r'"
  using assms by (auto simp: draw_event_line_def draw_events_def Let_def pad_def split: prod.splits if_splits)

lemma draw_range_line_step:
  assumes "draw_range_line ext l (y, r) = Inr (ops, y', r')"
  shows "y' = y + (tr_max_text_height r + pad r) \<and> same_frame r r'"
proof -
  from assms obtain os r1 where r1: "draw_ranges (rl_ranges l) (data_x_start r) y (tr_width r - data_x_start r) 10 r = Inr (os, r1)"
    and y': "y' = y + tr_max_text_height r1 + pad r1" and r': "r' = r1"
    by (auto simp: draw_range_line_def Let_def)
  from r1 have "same_frame r r1"
    by (auto simp: draw_ranges_def Let_def dest: draw_visible_ranges_frame split: prod.splits)
  with y' r' show ?thesis by (simp add: frame_sizes)
qed

lemma draw_each_adds:
  assumes "\<And>l y r ops y' r'. same_frame r0 r \<Longrightarrow> f l (y, r) = Inr (ops, y', r') \<Longrightarrow> y' = y + inc l \<and> same_frame r0 r'"
    and "same_frame r0 r" and "draw_each f ls (y, r) = Inr (ops, y', r')"
  shows "y' = y + sum_list (map inc ls) \<and> same_frame r0 r'"
  using assms(2,3)
proof (induction ls arbitrary: y r ops)
  case (Cons l ls)
  then obtain os1 y1 r1 os2 where "f l (y, r) = Inr (os1, y1, r1)" and 2: "draw_each f ls (y1, r1) = Inr (os2, y', r')"
    by auto
  with assms(1) [OF Cons.prems(1)] have "y1 = y + inc l" "same_frame r0 r1" by auto
  with Cons.IH [OF _ 2] show ?case by (simp add: add.assoc)
qed simp

definition row_heights :: "renderer \<Rightarrow> timeline list \<Rightarrow> rat" where
  "row_heights r ts = of_nat (count_events ts) * (tr_max_text_height r + 5 + pad r)
     + of_nat (count_ranges ts) * (tr_max_text_height r + pad r)"

lemma row_heights_Nil [simp]: "row_heights r [] = 0"
  by (simp add: row_heights_def count_events_def count_ranges_def)

lemma row_heights_Cons: "row_heights r (t # ts) = row_heights r [t] + row_heights r ts"
  by (simp_all add: row_heights_def count_events_def count_ranges_def algebra_simps)

lemma draw_timeline_step:
  assumes "same_frame r0 r" and "draw_timeline ext t (y, r) = Inr (ops, y', r')"
  shows "y' = y + row_heights r0 [t] \<and> same_frame r0 r'"
proof -
  let ?ev = "tr_max_text_height r0 + 5 + pad r0" and ?ra = "tr_max_text_height r0 + pad r0"
  have ev: "y' = y + ?ev \<and> same_frame r0 r'"
    if "same_frame r0 r" "draw_event_line ext l (y, r) = Inr (ops, y', r')" for l y r ops y' r'
    using draw_event_line_step [OF that(2)] that(1) by (auto simp: frame_sizes intro: same_frame_trans)
  have ra: "y' = y + ?ra \<and> same_frame r0 r'"
    if "same_frame r0 r" "draw_range_line ext l (y, r) = Inr (ops, y', r')" for l y r ops y' r'
    using draw_range_line_step [OF that(2)] that(1) by (auto simp: frame_sizes intro: same_frame_trans)
  from assms(2) obtain o1 y1 r1 o2 y2 r2 o3 where
    1: "draw_each (draw_event_line ext) (tl_event_int t) (y, r) = Inr (o1, y1, r1)" and
    2: "draw_each (draw_event_line ext) (tl_event_str t) (y1, r1) = Inr (o2, y2, r2)" and
    3: "draw_each (draw_range_line ext) (tl_ranges t) (y2, r2) = Inr (o3, y', r')"
    by (auto simp: draw_timeline_def)
  from draw_each_adds [OF ev assms(1) 1] have a: "y1 = y + of_nat (length (tl_event_int t)) * ?ev" "same_frame r0 r1"
    by (simp_all add: sum_list_triv)
  from draw_each_adds [OF ev a(2) 2] have b: "y2 = y1 + of_nat (length (tl_event_str t)) * ?ev" "same_frame r0 r2"
    by (simp_all add: sum_list_triv)
  from draw_each_adds [OF ra b(2) 3] have c: "y' = y2 + of_nat (length (tl_ranges t)) * ?ra" "same_frame r0 r'"
    by (simp_all add: sum_list_triv)
  from a b c show ?thesis
    by (simp add: row_heights_def count_events_def count_ranges_def algebra_simps)
qed

lemma row_heights_frame: "same_frame r r' \<Longrightarrow> row_heights r' ts = row_heights r ts"
  by (simp add: row_heights_def frame_sizes)

lemma sum_row_heights: "sum_list (map (\<lambda>t. row_heights r [t]) ts) = row_heights r ts"
proof (induction ts)
  case (Cons t ts)
  then show ?case by (subst row_heights_Cons) simp
qed simp

lemma timelines_draw_bottom:
  assumes "timelines_draw ext r = Inr (ops, r')"
  shows "Rel_line_to 0 (row_heights r (tr_timelines r)) \<in> set ops \<and> same_frame r r'"
proof -
  let ?r = "r\<lparr>grey_background := 1\<rparr>"
  from assms obtain os y1 r1 where d: "draw_each (draw_timeline ext) (tr_timelines r) (half_pad r, ?r) = Inr (os, y1, r1)"
    and ops: "ops = draw_line 0 0 (tr_width r1) 0 @ os
      @ draw_line (half_pad r1 + tr_left_width r1 + half_pad r1) 0 0 (y1 - half_pad r1)
      @ draw_line (right_x_start r1 + tr_right_width r1 + half_pad r1) 0 0 (y1 - half_pad r1)"
    and r': "r' = r1"
    by (auto simp: timelines_draw_def Let_def)
  have half: "half_pad ?r = half_pad r" by (simp add: half_pad_def)
  have "y1 = half_pad r + sum_list (map (\<lambda>t. row_heights r [t]) (tr_timelines r)) \<and> same_frame r r1"
    by (rule draw_each_adds [OF _ _ d]) (use draw_timeline_step in simp_all)
  then have y1: "y1 = half_pad r + row_heights r (tr_timelines r)" and fr: "same_frame r r1"
    by (simp_all add: sum_row_heights)
  from y1 have "y1 - half_pad r1 = row_heights r (tr_timelines r)"
    using frame_sizes(3) [OF fr] by simp
  with ops r' fr show ?thesis by (auto simp: draw_line_def)
qed

text \<open>How far down the timelines are drawn, against the height \<open>layout\<close> computes, from which the places of the
  scales below follow.  Drawing ends at the sum of the heights of the rows.  This is within the height
  unless there are both events and ranges and the text is higher than 10 (and the names on the
  left do not need more room): then the last rows lie over the scale.\<close>

theorem timelines_drawn_height:
  assumes "timelines_draw ext (timelines_layout ext width r) = Inr (ops, r')"
  defines "ts \<equiv> tr_timelines r" and "h \<equiv> t_height (ext alphabet)"
  shows "let bottom = of_nat (count_events ts) * (h + 5 + pad r) + of_nat (count_ranges ts) * (h + pad r)
    in Rel_line_to 0 bottom \<in> set ops
     \<and> (bottom \<le> tr_height r' \<longleftrightarrow>
          count_events ts = 0 \<or> count_ranges ts = 0 \<or> h \<le> 10 \<or> bottom \<le> of_nat (length ts) * (h + pad r))"
proof -
  let ?r = "timelines_layout ext width r"
  have lay: "tr_timelines ?r = ts" "tr_max_text_height ?r = h" "pad ?r = pad r"
    by (simp_all add: timelines_layout_def Let_def ts_def h_def pad_def)
  define E R L p where "E = (of_nat (count_events ts) :: rat)" and "R = (of_nat (count_ranges ts) :: rat)"
    and "L = (of_nat (length ts) :: rat)" and "p = pad r"
  have pos: "0 \<le> E" "0 \<le> R" and zero: "E = 0 \<longleftrightarrow> count_events ts = 0" "R = 0 \<longleftrightarrow> count_ranges ts = 0"
    by (simp_all add: E_def R_def)
  have "tr_height ?r = max (max (L * h + (L - 1) * p) ((R + E - 1) * p + (R + E) * h))
      (E * (h + 5) + R * 10 + (R + E - 1) * p) + p"
    by (simp add: timelines_layout_def Let_def h_def ts_def E_def R_def L_def p_def)
  then have height: "tr_height ?r = max (max (L * (h + p)) ((R + E) * (h + p))) (E * (h + 5) + R * 10 + (R + E) * p)"
    by (simp add: max_add_distrib_left algebra_simps)
  let ?b = "E * (h + 5 + p) + R * (h + p)"
  have "?b \<le> (R + E) * (h + p) \<longleftrightarrow> E = 0"
    using pos by (auto simp: algebra_simps)
  moreover have "?b \<le> E * (h + 5) + R * 10 + (R + E) * p \<longleftrightarrow> R * h \<le> R * 10"
    by (simp add: algebra_simps)
  moreover have "R * h \<le> R * 10 \<longleftrightarrow> R = 0 \<or> h \<le> 10"
    using pos by (auto simp: mult_le_cancel_left)
  ultimately have iff: "?b \<le> tr_height ?r \<longleftrightarrow> E = 0 \<or> R = 0 \<or> h \<le> 10 \<or> ?b \<le> L * (h + p)"
    unfolding height le_max_iff_disj by blast
  from timelines_draw_bottom [OF assms(1)] have "Rel_line_to 0 ?b \<in> set ops" "same_frame ?r r'"
    by (simp_all add: row_heights_def lay E_def R_def p_def)
  with iff zero show ?thesis
    by (simp add: Let_def frame_sizes E_def R_def L_def p_def)
qed

definition small_timelines :: "timeline list" where
  "small_timelines = [add_range ''s'' \<lparr>dr_start = 0, dr_end = 4, dr_value = ''v''\<rparr>
     (add_event_int ''e'' \<lparr>ev_at = 2, ev_value = Num 7\<rparr> (new_timeline ''n''))]"

definition small_renderer :: renderer where
  "small_renderer = set_render_range 0 4
     (set_timelines small_timelines \<lparr>color_map = [(''v'', rgb 1 0 0)], default_colors = []\<rparr> new_renderer)"

definition tall_metrics :: metrics where
  "tall_metrics s = \<lparr>y_bearing = 0, t_width = 8, t_height = 12\<rparr>"

theorem timelines_drawn_height_witness:
  "\<exists>ops r'. timelines_draw tall_metrics (timelines_layout tall_metrics 100 small_renderer) = Inr (ops, r')
     \<and> Rel_line_to 0 49 \<in> set ops \<and> tr_height r' < 49"
proof -
  have "\<not> isl (timelines_draw tall_metrics (timelines_layout tall_metrics 100 small_renderer))"
    by code_simp
  then obtain ops r' where d: "timelines_draw tall_metrics (timelines_layout tall_metrics 100 small_renderer) = Inr (ops, r')"
    by (cases "timelines_draw tall_metrics (timelines_layout tall_metrics 100 small_renderer)") auto
  have "tr_timelines small_renderer = small_timelines" "count_events small_timelines = 1" "count_ranges small_timelines = 1"
    "length small_timelines = 1" "pad small_renderer = 10" "t_height (tall_metrics alphabet) = 12"
    by (simp_all add: small_renderer_def set_render_range_def set_timelines_def new_renderer_def small_timelines_def
        count_events_def count_ranges_def add_range_def add_event_int_def new_timeline_def pad_def tall_metrics_def)
  with timelines_drawn_height [OF d] have "Rel_line_to 0 49 \<in> set ops" "\<not> 49 \<le> tr_height r'"
    by (simp_all add: Let_def)
  with d show ?thesis by auto
qed

section \<open>Which events are drawn\<close>

lemma trunc_mono:
  assumes "p \<le> q"
  shows "trunc p \<le> trunc q"
proof (cases "p < 0 \<and> 0 \<le> q")
  case True
  then have "\<lceil>p\<rceil> \<le> 0" "0 \<le> \<lfloor>q\<rfloor>" by (simp_all add: ceiling_le_iff)
  then have "\<lceil>p\<rceil> \<le> \<lfloor>q\<rfloor>" by (rule order_trans)
  with True show "trunc p \<le> trunc q" by (simp add: trunc_def)
next
  case False
  with assms show ?thesis
    by (auto simp: trunc_def intro: floor_mono ceiling_mono)
qed

lemma drawn_events_spaced:
  "subseq (map snd (drawn_events place prev es)) es
   \<and> list_all (\<lambda>(px, e). px = place e \<and> prev + 3 \<le> px) (drawn_events place prev es)
   \<and> sorted_wrt (\<lambda>a b. fst a + 3 \<le> fst b) (drawn_events place prev es)"
proof (induction es arbitrary: prev)
  case (Cons e es)
  show ?case
  proof (cases "place e > prev + 2")
    case True
    with Cons.IH [of "place e"] show ?thesis
      by (auto simp: list_all_iff)
  next
    case False
    with Cons.IH [of prev] show ?thesis by auto
  qed
qed simp

text \<open>\<open>draw_events\<close> on events at increasing times, in a window that is not empty: the events drawn are some of those
  \<open>get_events\<close> gives for the window, in order; each label begins at least 3 pixels right of the one
  before and of the beginning of the row; each event of the window is drawn at its time,
  scaled, and within the row, but one event after the window can be drawn beyond the row.\<close>

theorem draw_events_labels:
  assumes "events_ordered es" and "tr_start r < tr_end r" and "0 \<le> width"
  shows "\<exists>ds. draw_events es x y width height r = Inr (draw_background x y width height r
        @ concat (map (\<lambda>(px, e). event_ops r y px e) ds), r\<lparr>grey_background := grey_background r + 1\<rparr>)
    \<and> subseq (map snd ds) (get_events es (tr_start r) (tr_end r))
    \<and> sorted_wrt (\<lambda>a b. fst a + 3 \<le> fst b) ds
    \<and> list_all (\<lambda>(px, e). px = event_x r x width e \<and> trunc x + 3 \<le> px
          \<and> (ev_at e \<le> tr_end r \<longrightarrow> px \<le> trunc (x + width))) ds
    \<and> length (filter (\<lambda>(px, e). tr_end r < ev_at e) ds) \<le> 1"
proof -
  define vis where "vis = get_events es (tr_start r) (tr_end r)"
  define ds where "ds = drawn_events (event_x r x width) (trunc x) vis"
  have draw: "draw_events es x y width height r = Inr (draw_background x y width height r
      @ concat (map (\<lambda>(px, e). event_ops r y px e) ds), r\<lparr>grey_background := grey_background r + 1\<rparr>)"
    using assms(2) by (simp add: draw_events_def get_events_bounds_def Let_def ds_def vis_def get_events_def)
  have vis: "vis = filter (\<lambda>e. tr_start r \<le> ev_at e \<and> ev_at e \<le> tr_end r) es
      @ (if \<exists>e \<in> set es. ev_at e = tr_end r then [] else take 1 (filter (\<lambda>e. tr_end r < ev_at e) es))"
    using event_search_window [OF assms(1), of "tr_start r" "tr_end r"] assms(2) by (simp add: vis_def)
  note spaced = drawn_events_spaced [of "event_x r x width" "trunc x" vis, folded ds_def]
  have inside: "event_x r x width e \<le> trunc (x + width)" if "ev_at e \<le> tr_end r" for e
  proof -
    have "(ev_at e - tr_start r) * width \<le> (tr_end r - tr_start r) * width"
      using that assms(3) by (intro mult_right_mono) simp_all
    then have "(ev_at e - tr_start r) * width / (tr_end r - tr_start r) \<le> width"
      using assms(2) by (simp add: pos_divide_le_eq mult.commute)
    then show ?thesis by (simp add: event_x_def trunc_mono)
  qed
  have "length (filter (\<lambda>e. tr_end r < ev_at e) vis) \<le> 1"
    unfolding vis using assms(2) by (auto simp: filter_empty_conv intro!: order_trans [OF length_filter_le])
  moreover have "length (filter (\<lambda>e. tr_end r < ev_at e) (map snd ds)) \<le> length (filter (\<lambda>e. tr_end r < ev_at e) vis)"
    using spaced by (blast intro: list_emb_length subseq_filter)
  moreover have "filter (\<lambda>e. tr_end r < ev_at e) (map snd ds) = map snd (filter (\<lambda>(px, e). tr_end r < ev_at e) ds)"
    by (simp add: filter_map comp_def case_prod_unfold)
  ultimately have "length (filter (\<lambda>(px, e). tr_end r < ev_at e) ds) \<le> 1"
    by simp
  with draw spaced inside show ?thesis
    unfolding vis_def [symmetric] by (intro exI [of _ ds]) (auto simp: list_all_iff)
qed

theorem draw_events_labels_witness:
  "\<exists>ds. draw_events small_events 20 0 100 15 small_renderer = Inr (draw_background 20 0 100 15 small_renderer
       @ concat (map (\<lambda>(px, e). event_ops small_renderer 0 px e) ds), small_renderer\<lparr>grey_background := 1\<rparr>)
     \<and> sorted_wrt (\<lambda>a b. fst a + 3 \<le> fst b) ds"
proof -
  have "events_ordered small_events" by (simp add: events_ordered_def small_events_def)
  moreover have "tr_start small_renderer < tr_end small_renderer" "grey_background small_renderer = 0"
    by (simp_all add: small_renderer_def set_render_range_def set_timelines_def new_renderer_def)
  ultimately show ?thesis
    using draw_events_labels [of small_events small_renderer 100 20 0 15] by fastforce
qed

end
