(* ===== verification/Grid_Scale.thy ===== *)
theory Grid_Scale
  imports Grid_Timelines
begin

text \<open>
  \<^verbatim>\<open>utils/grid.py\<close>: numbers that are integers or floats, and \<open>ScaleRenderer\<close>.  The bounds of a scale are
  integers at first and floats later, and Python 2 divides integers rounding down, so the kind of a number is part of it here.
\<close>

section \<open>Numbers of Python 2\<close>

datatype num2 = I int | F rat

fun val :: "num2 \<Rightarrow> rat" where
  "val (I i) = of_int i"
| "val (F q) = q"

definition num_arith :: "(int \<Rightarrow> int \<Rightarrow> int) \<Rightarrow> (rat \<Rightarrow> rat \<Rightarrow> rat) \<Rightarrow> num2 \<Rightarrow> num2 \<Rightarrow> num2" where
  "num_arith f g a b = (case (a, b) of (I i, I j) \<Rightarrow> I (f i j) | _ \<Rightarrow> F (g (val a) (val b)))"

definition num_add :: "num2 \<Rightarrow> num2 \<Rightarrow> num2" where
  "num_add = num_arith (+) (+)"

definition num_sub :: "num2 \<Rightarrow> num2 \<Rightarrow> num2" where
  "num_sub = num_arith (-) (-)"

definition num_mul :: "num2 \<Rightarrow> num2 \<Rightarrow> num2" where
  "num_mul = num_arith (*) (*)"

definition num_div :: "num2 \<Rightarrow> num2 \<Rightarrow> py_exn + num2" where
  "num_div a b = (if val b = 0 then Inl ZeroDivisionError else Inr (num_arith (div) (/) a b))"

definition rat_mod :: "rat \<Rightarrow> rat \<Rightarrow> rat" where
  "rat_mod a b = a - b * of_int \<lfloor>a / b\<rfloor>"

definition num_mod :: "num2 \<Rightarrow> num2 \<Rightarrow> py_exn + num2" where
  "num_mod a b = (if val b = 0 then Inl ZeroDivisionError else Inr (num_arith (mod) rat_mod a b))"

text \<open>\<open>max\<close> and \<open>min\<close> return their first argument when both are equal.\<close>

definition num_max :: "num2 \<Rightarrow> num2 \<Rightarrow> num2" where
  "num_max a b = (if val b > val a then b else a)"

definition num_min :: "num2 \<Rightarrow> num2 \<Rightarrow> num2" where
  "num_min a b = (if val b < val a then b else a)"

lemma val_arith [simp]:
  "val (num_add a b) = val a + val b" "val (num_sub a b) = val a - val b" "val (num_mul a b) = val a * val b"
  by (cases a; cases b; simp add: num_add_def num_sub_def num_mul_def num_arith_def)+

lemma val_max [simp]: "val (num_max a b) = max (val a) (val b)"
  by (simp add: num_max_def max_def not_le)

lemma val_min [simp]: "val (num_min a b) = min (val a) (val b)"
  by (simp add: num_min_def min_def not_le)

lemma rat_mod_of_int: "rat_mod (of_int i) (of_int j) = of_int (i mod j)"
proof -
  have "rat_mod (of_int i) (of_int j) = of_int i - of_int j * of_int (i div j)"
    by (simp only: rat_mod_def floor_divide_of_int_eq)
  also have "\<dots> = of_int (i - j * (i div j))" by simp
  also have "i - j * (i div j) = i mod j" by (rule minus_mult_div_eq_mod)
  finally show ?thesis .
qed

lemma num_mod_val:
  assumes "num_mod a b = Inr c"
  shows "val c = rat_mod (val a) (val b)"
proof -
  have "val (num_arith (mod) rat_mod a b) = rat_mod (val a) (val b)"
    by (cases a; cases b) (simp_all only: num_arith_def prod.case num2.case val.simps rat_mod_of_int)
  with assms show ?thesis by (simp add: num_mod_def split: if_splits)
qed

lemma num_mod_ok:
  assumes "val b \<noteq> 0"
  shows "\<exists>c. num_mod a b = Inr c \<and> val c = rat_mod (val a) (val b)"
proof -
  from assms have "num_mod a b = Inr (num_arith (mod) rat_mod a b)" by (simp add: num_mod_def)
  with num_mod_val [OF this] show ?thesis by blast
qed

lemma num_div_float: "b \<noteq> 0 \<Longrightarrow> num_div (F a) (F b) = Inr (F (a / b))"
  "j \<noteq> 0 \<Longrightarrow> num_div (F a) (I j) = Inr (F (a / of_int j))"
  by (simp_all add: num_div_def num_arith_def)

section \<open>ScaleRenderer\<close>

record scale =
  sc_top :: bool
  sc_lo :: num2
  sc_hi :: num2
  sc_delta :: int
  sc_width :: num2
  sc_height :: rat

definition new_scale :: scale where
  "new_scale = \<lparr>sc_top = False, sc_lo = I 0, sc_hi = I 0, sc_delta = 1, sc_width = I 1, sc_height = 0\<rparr>"

definition set_bounds :: "num2 \<Rightarrow> num2 \<Rightarrow> scale \<Rightarrow> scale" where
  "set_bounds lo hi sc = sc\<lparr>sc_lo := lo, sc_hi := hi\<rparr>"

definition get_position :: "num2 \<Rightarrow> scale \<Rightarrow> py_exn + num2" where
  "get_position x sc = num_div (num_mul (num_sub x (sc_lo sc)) (sc_width sc)) (num_sub (sc_hi sc) (sc_lo sc))"

text \<open>
  \<open>while (closest*10) < data_delta\<close>.  The test that \<open>closest\<close> is positive, which it always is, makes the
  function total.
\<close>

function closest_loop :: "rat \<Rightarrow> int \<Rightarrow> int" where
  "closest_loop data_delta closest =
     (if 0 < closest \<and> of_int (closest * 10) < data_delta then closest_loop data_delta (closest * 10) else closest)"
  by pat_completeness auto
termination
proof (relation "measure (\<lambda>(d, c). nat (\<lceil>d\<rceil> - c))")
  fix d :: rat and c :: int
  assume "0 < c \<and> of_int (c * 10) < d"
  then have "0 < c" "c * 10 < \<lceil>d\<rceil>" by (simp_all add: less_ceiling_iff)
  then show "((d, c * 10), (d, c)) \<in> measure (\<lambda>(d, c). nat (\<lceil>d\<rceil> - c))" by simp
qed simp

declare closest_loop.simps [simp del]

definition scale_delta :: "num2 \<Rightarrow> py_exn + int" where
  "scale_delta data_delta =
     (let closest = closest_loop (val data_delta) 1
      in rbind (num_div data_delta (I closest)) (\<lambda>q.
           Inr (if val q = 0 then closest else if val q = 1 then closest div 10 else closest)))"

text \<open>\<open>lo - (lo % delta) + delta\<close> and \<open>hi - (hi % delta)\<close>.\<close>

definition tick_bounds :: "num2 \<Rightarrow> num2 \<Rightarrow> int \<Rightarrow> py_exn + num2 \<times> num2" where
  "tick_bounds lo hi delta =
     rbind (num_mod lo (I delta)) (\<lambda>m. rbind (num_mod hi (I delta)) (\<lambda>n.
       Inr (num_add (num_sub lo m) (I delta), num_sub hi n)))"

definition scale_layout :: "metrics \<Rightarrow> num2 \<Rightarrow> scale \<Rightarrow> py_exn + scale" where
  "scale_layout ext width sc =
     rbind (scale_delta (num_sub (sc_hi sc) (sc_lo sc))) (\<lambda>delta.
     rbind (tick_bounds (sc_lo sc) (sc_hi sc) delta) (\<lambda>_.
       Inr (sc\<lparr>sc_delta := delta, sc_width := width, sc_height := t_height (ext alphabet) + 10\<rparr>)))"

definition py_range :: "int \<Rightarrow> int \<Rightarrow> int \<Rightarrow> int list" where
  "py_range a b step = map (\<lambda>k. a + int k * step) [0..<nat ((b - a + step - 1) div step)]"

definition ticks :: "num2 \<Rightarrow> num2 \<Rightarrow> int \<Rightarrow> py_exn + int list" where
  "ticks lo hi delta =
     rbind (tick_bounds lo hi delta) (\<lambda>(start, end).
       Inr (py_range (trunc (val start)) (trunc (val (num_add end (I delta)))) delta))"

definition major_tick :: "metrics \<Rightarrow> scale \<Rightarrow> int \<Rightarrow> py_exn + cairo list" where
  "major_tick ext sc x =
     rbind (get_position (I x) sc) (\<lambda>real_x.
       let s = (if sc_top sc then - 1 else 1); label = int_str x; e = ext label;
           text_delta = (if sc_top sc then t_height e + y_bearing e else - y_bearing e)
       in Inr [Move_to (val real_x) 0, Line_to (val real_x) (5 * s), Close_path, Stroke,
               Move_to (val real_x - t_width e / 2) ((5 + 5 + text_delta) * s), Show_text label])"

definition minor_tick :: "scale \<Rightarrow> int \<Rightarrow> py_exn + cairo list" where
  "minor_tick sc x =
     rbind (get_position (I x) sc) (\<lambda>real_x.
       let s = (if sc_top sc then - 1 else 1)
       in Inr [Move_to (val real_x) 0, Line_to (val real_x) (3 * s), Close_path, Stroke])"

definition scale_draw :: "metrics \<Rightarrow> scale \<Rightarrow> py_exn + cairo list" where
  "scale_draw ext sc =
     rbind (ticks (sc_lo sc) (sc_hi sc) (sc_delta sc)) (\<lambda>xs.
     rbind (mapM (major_tick ext sc) xs) (\<lambda>major.
     let delta = sc_delta sc div 10
     in rbind (if delta > 0 then rbind (ticks (sc_lo sc) (sc_hi sc) delta) (mapM (minor_tick sc)) else Inr []) (\<lambda>minor.
          Inr ([Set_source_rgb 0 0 0, Set_line_width 1] @ concat major @ concat minor))))"

section \<open>The ticks\<close>

lemma closest_loop_spec:
  assumes "0 < c"
  shows "0 < closest_loop d c \<and> d \<le> of_int (closest_loop d c * 10)
    \<and> (closest_loop d c = c \<or> of_int (closest_loop d c) < d) \<and> (\<exists>k. closest_loop d c = c * 10 ^ k)"
  using assms
proof (induction d c rule: closest_loop.induct)
  case (1 d c)
  show ?case
  proof (cases "of_int (c * 10) < d")
    case True
    with 1 have ih: "0 < closest_loop d (c * 10) \<and> d \<le> of_int (closest_loop d (c * 10) * 10)
      \<and> (closest_loop d (c * 10) = c * 10 \<or> of_int (closest_loop d (c * 10)) < d)
      \<and> (\<exists>k. closest_loop d (c * 10) = c * 10 * 10 ^ k)" by simp
    moreover have "closest_loop d c = closest_loop d (c * 10)"
      using True "1.prems" by (subst closest_loop.simps) simp
    moreover obtain k where "closest_loop d (c * 10) = c * 10 * 10 ^ k" using ih by blast
    then have "closest_loop d (c * 10) = c * 10 ^ Suc k" by simp
    ultimately show ?thesis using True by metis
  next
    case False
    with "1.prems" have "closest_loop d c = c" by (subst closest_loop.simps) simp
    with False "1.prems" show ?thesis by (auto intro: exI [of _ 0])
  qed
qed

lemma rat_mod_mult: "0 < j \<Longrightarrow> a - rat_mod a (of_int j) = of_int (j * \<lfloor>a / of_int j\<rfloor>)"
  by (simp add: rat_mod_def)

lemma trunc_of_int [simp]: "trunc (of_int i) = i"
  by (simp add: trunc_def)

lemma py_range_multiples:
  assumes "0 < d"
  shows "py_range (d * a) (d * b + d) d = map (\<lambda>k. d * k) [a..b]"
proof -
  have "d * b + d - d * a + d - 1 = d * (b - a + 1) + (d - 1)" by (simp add: algebra_simps)
  with assms have "(d * b + d - d * a + d - 1) div d = b - a + 1"
    by (intro int_div_pos_eq [where r = "d - 1"]) simp_all
  moreover have "[a..b] = map (\<lambda>k. a + int k) [0..<nat (b - a + 1)]"
    by (rule nth_equalityI) auto
  ultimately show ?thesis by (simp only: py_range_def) (simp add: comp_def distrib_left)
qed

lemma ticks_multiples:
  assumes "0 < d"
  shows "ticks lo hi d = Inr (map (\<lambda>k. d * k) [\<lfloor>val lo / of_int d\<rfloor> + 1..\<lfloor>val hi / of_int d\<rfloor>])"
proof -
  obtain m n where m: "num_mod lo (I d) = Inr m" "val m = rat_mod (val lo) (of_int d)"
    and n: "num_mod hi (I d) = Inr n" "val n = rat_mod (val hi) (of_int d)"
    using num_mod_ok [of "I d" lo] num_mod_ok [of "I d" hi] assms by auto
  have "val (num_add (num_sub lo m) (I d)) = of_int (d * (\<lfloor>val lo / of_int d\<rfloor> + 1))"
    "val (num_add (num_sub hi n) (I d)) = of_int (d * \<lfloor>val hi / of_int d\<rfloor> + d)"
    using rat_mod_mult [OF assms, of "val lo"] rat_mod_mult [OF assms, of "val hi"] m(2) n(2)
    by (simp_all add: algebra_simps)
  with py_range_multiples [OF assms] show ?thesis
    by (simp only: ticks_def tick_bounds_def m(1) n(1) rbind.simps prod.case trunc_of_int)
qed

lemma tick_set:
  assumes "0 < d"
  shows "set (map (\<lambda>k. d * k) [\<lfloor>lo / of_int d\<rfloor> + 1..\<lfloor>hi / of_int d\<rfloor>]) = {x. d dvd x \<and> lo < of_int x \<and> of_int x \<le> hi}"
proof -
  have "lo < of_int (d * k) \<longleftrightarrow> \<lfloor>lo / of_int d\<rfloor> + 1 \<le> k" "of_int (d * k) \<le> hi \<longleftrightarrow> k \<le> \<lfloor>hi / of_int d\<rfloor>" for k
    using assms
    by (simp_all add: pos_divide_less_eq pos_le_divide_eq le_floor_iff mult.commute flip: floor_less_iff zless_iff_Suc_zadd)
      (simp add: add1_zle_eq floor_less_iff pos_divide_less_eq mult.commute)
  then show ?thesis
    by (auto simp: dvd_def)
qed

lemma tick_count:
  assumes "0 < d" and "hi - lo \<le> of_int (n * d)" and "0 \<le> n"
  shows "length [\<lfloor>lo / of_int d\<rfloor> + 1..\<lfloor>hi / of_int d\<rfloor>] \<le> nat n"
proof -
  have "hi / of_int d - lo / of_int d \<le> of_int n"
    using assms by (simp add: divide_le_eq flip: diff_divide_distrib)
  then have "hi / of_int d \<le> lo / of_int d + of_int n" by simp
  then have "\<lfloor>hi / of_int d\<rfloor> \<le> \<lfloor>lo / of_int d + of_int n\<rfloor>" by (rule floor_mono)
  then show ?thesis using assms(3) by (simp add: nat_le_iff)
qed

text \<open>The step between the ticks is a power of ten, at most ten times smaller than the window, or the code divides by zero.\<close>

lemma scale_delta_cases:
  assumes "0 < val d"
  shows "if val d = 1 then scale_delta d = Inr 0
    else \<exists>k. scale_delta d = Inr (10 ^ k) \<and> val d \<le> of_int (20 * 10 ^ k)"
proof -
  define c where "c = closest_loop (val d) 1"
  from closest_loop_spec [of 1 "val d"] obtain k where
    c: "0 < c" "val d \<le> of_int (c * 10)" "c = 1 \<or> of_int c < val d" "c = 10 ^ k"
    unfolding c_def by auto
  define q where "q = num_arith (div) (/) d (I c)"
  have q: "num_div d (I c) = Inr q" using c(1) by (simp add: num_div_def q_def)
  have delta: "scale_delta d = Inr (if val q = 0 then c else if val q = 1 then c div 10 else c)"
    by (simp add: scale_delta_def Let_def q c_def [symmetric])
  have q1: "val q = 1 \<longleftrightarrow> of_int c \<le> val d \<and> (case d of I i \<Rightarrow> i < 2 * c | F r \<Rightarrow> r = of_int c)"
  proof (cases d)
    case (I i)
    then have "val q = of_int (i div c)" by (simp add: q_def num_arith_def)
    moreover have "i div c = 1 \<longleftrightarrow> c \<le> i \<and> i < 2 * c"
    proof
      assume "i div c = 1"
      then have "i = c + i mod c" using div_mult_mod_eq [of i c] by simp
      then show "c \<le> i \<and> i < 2 * c"
        using pos_mod_bound [OF c(1), of i] pos_mod_sign [OF c(1), of i] by simp
    next
      assume "c \<le> i \<and> i < 2 * c"
      then show "i div c = 1" by (intro int_div_pos_eq [where r = "i - c"]) auto
    qed
    ultimately show ?thesis by (simp add: I)
  next
    case (F r)
    with c(1) show ?thesis by (auto simp: q_def num_arith_def)
  qed
  show ?thesis
  proof (cases "val d = 1")
    case True
    have "c = 1"
    proof (rule ccontr)
      assume "c \<noteq> 1"
      with c(1,3) True have "of_int c < (1 :: rat)" "1 < c" by auto
      then show False by simp
    qed
    have "val q = 1" using True \<open>c = 1\<close> by (cases d) (simp_all add: q1)
    with delta True \<open>c = 1\<close> show ?thesis by simp
  next
    case False
    show ?thesis
    proof (cases "val q = 1")
      case True
      have "k \<noteq> 0"
      proof
        assume "k = 0"
        with c(4) have "c = 1" by simp
        with True q1 False show False by (cases d) auto
      qed
      then obtain j where j: "k = Suc j" by (cases k) auto
      with c(4) have "c div 10 = 10 ^ j" by simp
      moreover from True q1 c(1) have "val d \<le> of_int (2 * c)" by (cases d) auto
      then have "val d \<le> of_int (20 * 10 ^ j)" by (simp add: c(4) j)
      ultimately show ?thesis using delta True False by auto
    next
      case no: False
      have "c * 10 \<le> 20 * 10 ^ k" by (simp add: c(4))
      then have "val d \<le> of_int (20 * 10 ^ k)" using c(2) by (meson of_int_le_iff order_trans)
      with delta no False c(4) show ?thesis by auto
    qed
  qed
qed

lemma scale_layout_zero:
  assumes "val (sc_hi sc) - val (sc_lo sc) = 1"
  shows "scale_layout ext width sc = Inl ZeroDivisionError"
proof -
  from assms have "scale_delta (num_sub (sc_hi sc) (sc_lo sc)) = Inr 0"
    using scale_delta_cases [of "num_sub (sc_hi sc) (sc_lo sc)"] by simp
  then show ?thesis by (simp add: scale_layout_def tick_bounds_def num_mod_def)
qed

text \<open> A scale over a window that is not empty.  \<open>layout\<close> divides by zero exactly when the window is 1 wide.
  Otherwise the distance of the ticks is a power of ten, and \<open>draw\<close> makes at most 20 large ticks: one at
  every multiple of it in the window, in increasing order, but none at its beginning.\<close>

theorem scale_ticks:
  assumes "val (sc_lo sc) < val (sc_hi sc)"
  shows "if val (sc_hi sc) - val (sc_lo sc) = 1 then scale_layout ext width sc = Inl ZeroDivisionError
    else \<exists>sc' xs k. scale_layout ext width sc = Inr sc' \<and> sc_delta sc' = 10 ^ k
      \<and> ticks (sc_lo sc') (sc_hi sc') (sc_delta sc') = Inr xs \<and> sorted_wrt (<) xs \<and> length xs \<le> 20
      \<and> set xs = {x. 10 ^ k dvd x \<and> val (sc_lo sc) < of_int x \<and> of_int x \<le> val (sc_hi sc)}"
proof -
  let ?d = "num_sub (sc_hi sc) (sc_lo sc)"
  from assms have "0 < val ?d" by simp
  note delta = scale_delta_cases [OF this]
  show ?thesis
  proof (cases "val ?d = 1")
    case True
    then show ?thesis by (simp add: scale_layout_zero)
  next
    case False
    with delta obtain k where k: "scale_delta ?d = Inr (10 ^ k)" "val ?d \<le> of_int (20 * 10 ^ k)" by auto
    define xs where "xs = map (\<lambda>j. 10 ^ k * j) [\<lfloor>val (sc_lo sc) / of_int (10 ^ k)\<rfloor> + 1..\<lfloor>val (sc_hi sc) / of_int (10 ^ k)\<rfloor>]"
    have t: "ticks (sc_lo sc) (sc_hi sc) (10 ^ k) = Inr xs"
      unfolding xs_def by (rule ticks_multiples) simp
    then obtain b where b: "tick_bounds (sc_lo sc) (sc_hi sc) (10 ^ k) = Inr b"
      by (auto simp: ticks_def)
    have lay: "scale_layout ext width sc
        = Inr (sc\<lparr>sc_delta := 10 ^ k, sc_width := width, sc_height := t_height (ext alphabet) + 10\<rparr>)"
      by (simp add: scale_layout_def k(1) b)
    have "sorted_wrt (<) xs"
      by (simp add: xs_def sorted_wrt_map strict_sorted_iff)
    moreover have "length xs \<le> 20"
      using tick_count [of "10 ^ k" "val (sc_hi sc)" "val (sc_lo sc)" 20] k(2) by (simp add: xs_def)
    moreover have "set xs = {x. 10 ^ k dvd x \<and> val (sc_lo sc) < of_int x \<and> of_int x \<le> val (sc_hi sc)}"
      unfolding xs_def by (rule tick_set) simp
    ultimately show ?thesis
      using False lay t by simp
  qed
qed

theorem scale_ticks_witness:
  "scale_layout small_metrics (I 100) (set_bounds (I 4) (I 5) new_scale) = Inl ZeroDivisionError
   \<and> (\<exists>sc' xs. scale_layout small_metrics (I 100) (set_bounds (I 0) (I 250) new_scale) = Inr sc'
        \<and> ticks (sc_lo sc') (sc_hi sc') (sc_delta sc') = Inr xs \<and> length xs \<le> 20)"
  using scale_ticks [of "set_bounds (I 4) (I 5) new_scale" small_metrics "I 100"]
    scale_ticks [of "set_bounds (I 0) (I 250) new_scale" small_metrics "I 100"]
  by (auto simp: set_bounds_def new_scale_def)

end
