(* ===== verification/Grid_Graphic.thy ===== *)
theory Grid_Graphic
  imports Grid_Scale
begin

text \<open>
  \<^verbatim>\<open>utils/grid.py\<close>: \<open>GraphicRenderer\<close>, the picture made of a legend, the timelines, a scale of the range shown and
  a scale of all the data.  An attribute that is set only later is an option: reading it too early raises.
\<close>

section \<open>State\<close>

record graphic =
  gr_start :: rat
  gr_end :: rat
  gr_width :: int
  gr_height :: int
  gr_mid :: scale
  gr_bot :: scale
  gr_data :: "renderer option"
  gr_legend :: "top_legend option"
  gr_range :: "(num2 \<times> num2) option"

fun attr :: "'a option \<Rightarrow> py_exn + 'a" where
  "attr None = Inl AttributeError"
| "attr (Some x) = Inr x"

definition new_graphic :: "int \<Rightarrow> int \<Rightarrow> graphic" where
  "new_graphic start end =
     \<lparr>gr_start = of_int start, gr_end = of_int end, gr_width = 1, gr_height = 1,
      gr_mid = new_scale\<lparr>sc_top := True\<rparr>, gr_bot = (set_bounds (I start) (I end) new_scale)\<lparr>sc_top := False\<rparr>,
      gr_data = None, gr_legend = None, gr_range = None\<rparr>"

definition set_data :: "renderer \<Rightarrow> graphic \<Rightarrow> graphic" where
  "set_data d g = g\<lparr>gr_data := Some d\<rparr>"

definition set_top_legend :: "top_legend \<Rightarrow> graphic \<Rightarrow> graphic" where
  "set_top_legend lg g = g\<lparr>gr_legend := Some lg\<rparr>"

section \<open>Layout\<close>

definition layout :: "metrics \<Rightarrow> int \<Rightarrow> int \<Rightarrow> graphic \<Rightarrow> py_exn + graphic" where
  "layout ext width height g =
     rbind (attr (gr_legend g)) (\<lambda>lg. rbind (attr (gr_data g)) (\<lambda>d.
       let lg = legend_layout ext (of_int width) lg; d = timelines_layout ext (of_int width) d
       in rbind (scale_layout ext (F (of_int width - get_data_x_start d)) (gr_mid g)) (\<lambda>mid.
          rbind (scale_layout ext (I width) (gr_bot g)) (\<lambda>bot.
            Inr (g\<lparr>gr_width := width, gr_height := height, gr_legend := Some lg, gr_data := Some d,
                   gr_mid := mid, gr_bot := bot\<rparr>)))))"

definition set_range :: "metrics \<Rightarrow> num2 \<Rightarrow> num2 \<Rightarrow> graphic \<Rightarrow> py_exn + graphic" where
  "set_range ext a b g =
     (let s = num_min a b; e = num_max a b;
          start = num_max (F (gr_start g)) s; end = num_min (F (gr_end g)) e
      in rbind (attr (gr_data g)) (\<lambda>d.
           layout ext (gr_width g) (gr_height g)
             (g\<lparr>gr_range := Some (start, end), gr_data := Some (set_render_range (val start) (val end) d),
                gr_mid := set_bounds start end (gr_mid g)\<rparr>)))"

definition get_range :: "graphic \<Rightarrow> py_exn + num2 \<times> num2" where
  "get_range g = attr (gr_range g)"

section \<open>Places on the screen\<close>

definition get_data_rectangle :: "graphic \<Rightarrow> py_exn + rat \<times> rat \<times> rat \<times> rat" where
  "get_data_rectangle g =
     rbind (attr (gr_legend g)) (\<lambda>lg. rbind (attr (gr_data g)) (\<lambda>d.
       let x_start = get_data_x_start d
       in Inr (x_start, lg_height lg, of_int (gr_width g) - x_start, tr_height d)))"

definition scale_data :: "rat \<Rightarrow> graphic \<Rightarrow> py_exn + num2" where
  "scale_data x g =
     rbind (attr (gr_data g)) (\<lambda>d.
     rbind (num_div (F x) (F (of_int (gr_width g) - get_data_x_start d))) (\<lambda>q.
     rbind (get_range g) (\<lambda>(r_start, r_end). Inr (num_mul q (num_sub r_end r_start)))))"

definition get_selection_rectangle :: "graphic \<Rightarrow> py_exn + num2 \<times> rat \<times> num2 \<times> rat" where
  "get_selection_rectangle g =
     rbind (attr (gr_legend g)) (\<lambda>lg. rbind (attr (gr_data g)) (\<lambda>d. rbind (get_range g) (\<lambda>(r_start, r_end).
       let y_start = lg_height lg + tr_height d + sc_height (gr_mid g) + 20; y_height = sc_height (gr_bot g) + 20
       in rbind (get_position r_start (gr_bot g)) (\<lambda>x_start. rbind (get_position r_end (gr_bot g)) (\<lambda>x_end.
            Inr (x_start, y_start, num_sub x_end x_start, y_height))))))"

definition scale_selection :: "num2 \<Rightarrow> graphic \<Rightarrow> py_exn + num2" where
  "scale_selection x g =
     rbind (num_div x (I (gr_width g))) (\<lambda>q. Inr (num_mul q (F (gr_end g - gr_start g))))"

definition x_pixel :: "num2 \<Rightarrow> num2 \<Rightarrow> graphic \<Rightarrow> py_exn + num2" where
  "x_pixel x width g =
     num_div (num_mul (num_sub x (F (gr_start g))) width) (F (gr_end g - gr_start g))"

section \<open>Drawing\<close>

text \<open>The calls around the drawing of the parts, in the order of the code.\<close>

definition line_ops :: "rat \<Rightarrow> rat \<Rightarrow> rat \<Rightarrow> cairo list" where
  "line_ops y width line_width =
     [Move_to 0 y, Line_to width y, Close_path, Set_line_width line_width, Set_source_rgb 0 0 0, Stroke]"

definition link_ops :: "cairo list" where
  "link_ops = [Set_source_rgb 0 0 0, Set_line_width 1, Stroke_preserve,
     Set_source_rgb (9/10) (9/10) (9/10), Fill]"

definition upper_ops :: "rat \<Rightarrow> rat \<Rightarrow> rat \<Rightarrow> cairo list \<Rightarrow> cairo list \<Rightarrow> cairo list" where
  "upper_ops w h legend_height legend data =
     [Save, Set_source_rgb 1 1 1, Set_operator_source, Rectangle 0 0 w h, Fill]
     @ [Save] @ legend @ [Restore]
     @ line_ops legend_height w 2
     @ [Save, Translate 0 legend_height] @ data @ [Restore]"

definition middle_ops :: "rat \<Rightarrow> rat \<Rightarrow> rat \<Rightarrow> rat \<Rightarrow> cairo list \<Rightarrow> cairo list" where
  "middle_ops w x_start height_used mid_height mid =
     [Save, Translate x_start height_used] @ mid @ [Restore]
     @ [Move_to x_start height_used, Rel_line_to 0 (- mid_height), Close_path, Set_source_rgb 0 0 0,
        Set_line_width 2, Stroke]
     @ line_ops height_used w 2"

definition connection_ops :: "rat \<Rightarrow> rat \<Rightarrow> rat \<Rightarrow> rat \<Rightarrow> rat \<Rightarrow> cairo list" where
  "connection_ops w x_start height_used select_start select_end =
     [Move_to 0 height_used, Line_to x_start height_used, Line_to select_start (height_used + 20),
      Line_to 0 (height_used + 20), Line_to 0 height_used] @ link_ops
     @ [Move_to w height_used, Line_to w (height_used + 20), Line_to select_end (height_used + 20),
        Line_to w height_used] @ link_ops"

definition unused_ops :: "rat \<Rightarrow> rat \<Rightarrow> rat \<Rightarrow> rat \<Rightarrow> rat \<Rightarrow> cairo list" where
  "unused_ops w height_used unused_start unused_end unused_height =
     [Rectangle 0 height_used unused_start unused_height,
      Rectangle unused_end height_used (w - unused_end) unused_height, Set_source_rgb (9/10) (9/10) (9/10), Fill]
     @ [Move_to unused_end height_used, Line_to w height_used, Line_to w (height_used + unused_height),
        Line_to 0 (height_used + unused_height), Line_to 0 height_used, Line_to unused_start height_used,
        Close_path, Set_line_width 2, Set_source_rgb 0 0 0, Stroke]
     @ [Move_to unused_start height_used, Line_to unused_end height_used, Close_path, Set_line_width 1,
        Set_source_rgb (9/10) (9/10) (9/10), Stroke]
     @ [Save, Move_to (max unused_start 2) height_used, Rel_line_to 0 unused_height,
        Move_to (min unused_end (w - 2)) height_used, Rel_line_to 0 unused_height, Set_dash 5,
        Set_source_rgb 0 0 0, Set_line_width 1, Stroke, Restore]"

definition graphic_draw :: "metrics \<Rightarrow> graphic \<Rightarrow> py_exn + cairo list \<times> graphic" where
  "graphic_draw ext g =
     rbind (attr (gr_legend g)) (\<lambda>lg. rbind (legend_draw ext lg) (\<lambda>legend.
     rbind (attr (gr_data g)) (\<lambda>d. rbind (timelines_draw ext d) (\<lambda>(data, d).
     rbind (scale_draw ext (gr_mid g)) (\<lambda>mid. rbind (get_range g) (\<lambda>(r_start, r_end).
     rbind (get_position r_start (gr_bot g)) (\<lambda>start. rbind (get_position r_end (gr_bot g)) (\<lambda>end.
     rbind (scale_draw ext (gr_bot g)) (\<lambda>bot.
       let w = of_int (gr_width g); h = of_int (gr_height g);
           x_start = get_data_x_start d;
           height_used = lg_height lg + tr_height d + sc_height (gr_mid g);
           unused_height = sc_height (gr_bot g) + 20
       in Inr (upper_ops w h (lg_height lg) legend data
             @ middle_ops w x_start height_used (sc_height (gr_mid g)) mid
             @ connection_ops w x_start height_used (val start) (val end)
             @ unused_ops w (height_used + 20) (val start) (val end) unused_height
             @ [Save, Translate 0 (height_used + 20)] @ bot @ [Restore],
             g\<lparr>gr_data := Some d\<rparr>))))))))))"

section \<open>The parts agree\<close>

text \<open>
  What every operation keeps: the range shown does not start before the data or end after them, and its ends are in order unless one of
  them is at a border of the data; the timelines and the upper scale show this range, and all parts are laid out for the same width.
\<close>

definition covers :: "graphic \<Rightarrow> bool" where
  "covers g \<longleftrightarrow>
     (\<exists>a b d lg s e. gr_range g = Some (a, b) \<and> gr_data g = Some d \<and> gr_legend g = Some lg
        \<and> gr_start g = of_int s \<and> gr_end g = of_int e \<and> sc_lo (gr_bot g) = I s \<and> sc_hi (gr_bot g) = I e
        \<and> gr_start g \<le> val a \<and> val b \<le> gr_end g \<and> (val a \<le> val b \<or> val a = gr_start g \<or> val b = gr_end g)
        \<and> tr_start d = val a \<and> tr_end d = val b \<and> sc_lo (gr_mid g) = a \<and> sc_hi (gr_mid g) = b)"

definition laid_out :: "graphic \<Rightarrow> bool" where
  "laid_out g \<longleftrightarrow>
     (\<exists>d lg. gr_data g = Some d \<and> gr_legend g = Some lg
        \<and> sc_width (gr_bot g) = I (gr_width g) \<and> lg_width lg = of_int (gr_width g) \<and> tr_width d = of_int (gr_width g)
        \<and> sc_width (gr_mid g) = F (of_int (gr_width g) - get_data_x_start d))"

definition in_sync :: "graphic \<Rightarrow> bool" where
  "in_sync g \<longleftrightarrow> covers g \<and> laid_out g"

lemma scale_delta_ok:
  assumes "val d \<noteq> 1"
  shows "\<exists>c. scale_delta d = Inr c \<and> 0 < c"
proof (cases "0 < val d")
  case True
  with scale_delta_cases [OF this] assms show ?thesis by auto
next
  case False
  then have "closest_loop (val d) 1 = 1" by (subst closest_loop.simps) simp
  moreover have "val (num_arith (div) (/) d (I 1)) = val d" by (cases d) (simp_all add: num_arith_def)
  ultimately show ?thesis using assms by (simp add: scale_delta_def num_div_def)
qed

lemma scale_layout_ok:
  assumes "val (sc_hi sc) - val (sc_lo sc) \<noteq> 1"
  shows "\<exists>c. scale_layout ext w sc = Inr (sc\<lparr>sc_delta := c, sc_width := w, sc_height := t_height (ext alphabet) + 10\<rparr>)"
proof -
  from scale_delta_ok [of "num_sub (sc_hi sc) (sc_lo sc)"] assms
  obtain c where c: "scale_delta (num_sub (sc_hi sc) (sc_lo sc)) = Inr c" "0 < c" by auto
  obtain m n where "num_mod (sc_lo sc) (I c) = Inr m" "num_mod (sc_hi sc) (I c) = Inr n"
    using num_mod_ok [of "I c" "sc_lo sc"] num_mod_ok [of "I c" "sc_hi sc"] c(2) by auto
  with c(1) show ?thesis by (auto simp: scale_layout_def tick_bounds_def)
qed

lemma scale_layout_fields:
  "scale_layout ext w sc = Inr sc' \<Longrightarrow> sc_lo sc' = sc_lo sc \<and> sc_hi sc' = sc_hi sc \<and> sc_width sc' = w \<and> sc_top sc' = sc_top sc"
  by (auto simp: scale_layout_def)

lemma layout_fields [simp]:
  "tr_start (timelines_layout ext w d) = tr_start d" "tr_end (timelines_layout ext w d) = tr_end d"
  "tr_width (timelines_layout ext w d) = w" "lg_width (legend_layout ext w lg) = w"
  by (simp_all add: timelines_layout_def legend_layout_def Let_def split: prod.split)

lemma layout_sync:
  assumes "covers g" and "layout ext w h g = Inr g'"
  shows "in_sync g' \<and> gr_width g' = w \<and> gr_range g' = gr_range g \<and> gr_start g' = gr_start g \<and> gr_end g' = gr_end g"
proof -
  from assms(2) obtain lg d mid bot where *: "gr_legend g = Some lg" "gr_data g = Some d"
    "scale_layout ext (F (of_int w - get_data_x_start (timelines_layout ext (of_int w) d))) (gr_mid g) = Inr mid"
    "scale_layout ext (I w) (gr_bot g) = Inr bot"
    "g' = g\<lparr>gr_width := w, gr_height := h, gr_legend := Some (legend_layout ext (of_int w) lg),
            gr_data := Some (timelines_layout ext (of_int w) d), gr_mid := mid, gr_bot := bot\<rparr>"
    by (cases "gr_legend g"; cases "gr_data g") (auto simp: layout_def Let_def)
  from assms(1) have "covers g'"
    using scale_layout_fields [OF *(3)] scale_layout_fields [OF *(4)] by (auto simp: covers_def * simp del: split_paired_Ex)
  moreover have "laid_out g'"
    using scale_layout_fields [OF *(3)] scale_layout_fields [OF *(4)] by (simp add: laid_out_def *)
  ultimately show ?thesis by (simp add: in_sync_def *)
qed

lemma clipped_order:
  "s \<le> val (num_max (F s) (num_min a b)) \<and> val (num_min (F e) (num_max a b)) \<le> e
   \<and> (val (num_max (F s) (num_min a b)) \<le> val (num_min (F e) (num_max a b))
      \<or> val (num_max (F s) (num_min a b)) = s \<or> val (num_min (F e) (num_max a b)) = e)"
  by (auto simp: max_def min_def)

lemma set_range_sync:
  assumes "in_sync g" and "set_range ext a b g = Inr g'"
  shows "in_sync g' \<and> gr_width g' = gr_width g \<and> gr_start g' = gr_start g \<and> gr_end g' = gr_end g"
proof -
  from assms(1) obtain d where d: "gr_data g = Some d" by (auto simp: in_sync_def covers_def)
  let ?a = "num_max (F (gr_start g)) (num_min a b)" and ?b = "num_min (F (gr_end g)) (num_max a b)"
  let ?g = "g\<lparr>gr_range := Some (?a, ?b), gr_data := Some (set_render_range (val ?a) (val ?b) d),
              gr_mid := set_bounds ?a ?b (gr_mid g)\<rparr>"
  from assms(2) have l: "layout ext (gr_width g) (gr_height g) ?g = Inr g'"
    by (simp add: set_range_def Let_def d)
  have c: "covers ?g"
    using assms(1) clipped_order [where s = "gr_start g" and e = "gr_end g" and a = a and b = b]
    by (auto simp: in_sync_def covers_def set_render_range_def set_bounds_def simp del: val_max val_min)
  from layout_sync [OF c l] show ?thesis by simp
qed

lemma timelines_draw_frame:
  assumes "timelines_draw ext r = Inr (ops, r')"
  shows "same_frame r r'"
proof -
  from assms obtain os cur_y where
    1: "draw_each (draw_timeline ext) (tr_timelines r) (half_pad r, r\<lparr>grey_background := 1\<rparr>) = Inr (os, cur_y, r')"
    by (auto simp: timelines_draw_def Let_def)
  have "y' = y + row_heights r [t] \<and> same_frame r r''"
    if "same_frame r r0" "draw_timeline ext t (y, r0) = Inr (ops, y', r'')" for t y r0 ops y' r''
    using draw_timeline_step [OF that] .
  from draw_each_adds [OF this _ 1] show ?thesis by simp
qed

lemma graphic_draw_sync:
  assumes "in_sync g" and "graphic_draw ext g = Inr (ops, g')"
  shows "in_sync g' \<and> gr_width g' = gr_width g \<and> gr_range g' = gr_range g \<and> gr_start g' = gr_start g \<and> gr_end g' = gr_end g"
proof -
  from assms(2) obtain d d' os where d: "gr_data g = Some d" "timelines_draw ext d = Inr (os, d')" "g' = g\<lparr>gr_data := Some d'\<rparr>"
    by (cases "gr_data g") (auto simp: graphic_draw_def Let_def)
  from timelines_draw_frame [OF d(2)] have "same_frame d d'" .
  then have "tr_start d' = tr_start d" "tr_end d' = tr_end d" "tr_width d' = tr_width d"
    "get_data_x_start d' = get_data_x_start d"
    by (simp_all add: same_frame_def get_data_x_start_def half_pad_def pad_def)
  with assms(1) d(1,3) show ?thesis by (simp add: in_sync_def covers_def laid_out_def)
qed

section \<open>Setting a range\<close>

lemma layout_result:
  assumes "gr_data g = Some d" and "gr_legend g = Some lg" and "val (sc_hi (gr_mid g)) - val (sc_lo (gr_mid g)) \<noteq> 1"
  shows "if val (sc_hi (gr_bot g)) - val (sc_lo (gr_bot g)) = 1 then layout ext w h g = Inl ZeroDivisionError
    else \<exists>g'. layout ext w h g = Inr g' \<and> gr_range g' = gr_range g \<and> gr_start g' = gr_start g \<and> gr_end g' = gr_end g"
proof -
  let ?x = "F (of_int w - get_data_x_start (timelines_layout ext (of_int w) d))"
  obtain mid where mid: "scale_layout ext ?x (gr_mid g) = Inr mid"
    using scale_layout_ok [OF assms(3), of ext ?x] by auto
  show ?thesis
  proof (cases "val (sc_hi (gr_bot g)) - val (sc_lo (gr_bot g)) = 1")
    case True
    with scale_layout_zero [OF True] mid show ?thesis by (simp add: layout_def assms(1,2))
  next
    case False
    obtain bot where "scale_layout ext (I w) (gr_bot g) = Inr bot"
      using scale_layout_ok [OF False, of ext "I w"] by auto
    with mid False show ?thesis by (simp add: layout_def assms(1,2))
  qed
qed

text \<open>A scale 1 long divides by zero, the upper one or the lower one.\<close>

lemma set_range_result:
  assumes "in_sync g" and "num_max (F (gr_start g)) (num_min a b) = a'" and "num_min (F (gr_end g)) (num_max a b) = b'"
  shows "if gr_end g - gr_start g = 1 \<or> val b' - val a' = 1 then set_range ext a b g = Inl ZeroDivisionError
    else \<exists>g'. set_range ext a b g = Inr g' \<and> gr_range g' = Some (a', b')"
proof -
  from assms(1) obtain d lg s e where g: "gr_data g = Some d" "gr_legend g = Some lg" "gr_start g = of_int s" "gr_end g = of_int e"
    "sc_lo (gr_bot g) = I s" "sc_hi (gr_bot g) = I e" by (auto simp: in_sync_def covers_def)
  let ?g = "g\<lparr>gr_range := Some (a', b'), gr_data := Some (set_render_range (val a') (val b') d),
              gr_mid := set_bounds a' b' (gr_mid g)\<rparr>"
  have l: "set_range ext a b g = layout ext (gr_width g) (gr_height g) ?g"
    by (simp only: set_range_def Let_def assms(2,3) g(1) attr.simps rbind.simps)
  show ?thesis
  proof (cases "val b' - val a' = 1")
    case True
    then have "scale_layout ext w (gr_mid ?g) = Inl ZeroDivisionError" for w
      by (intro scale_layout_zero) (simp add: set_bounds_def)
    with True l g(1,2) show ?thesis by (simp add: layout_def)
  next
    case False
    with layout_result [of ?g _ lg ext "gr_width g" "gr_height g"] g l show ?thesis
      by (auto simp: set_bounds_def split: if_splits)
  qed
qed

lemma set_range_ok:
  assumes "in_sync g" and "gr_end g - gr_start g \<noteq> 1"
    and "num_max (F (gr_start g)) (num_min a b) = a'" and "num_min (F (gr_end g)) (num_max a b) = b'"
    and "val b' - val a' \<noteq> 1"
  shows "\<exists>g'. set_range ext a b g = Inr g' \<and> gr_range g' = Some (a', b') \<and> gr_start g' = gr_start g \<and> gr_end g' = gr_end g"
proof -
  from assms(1) obtain d lg s e where g: "gr_data g = Some d" "gr_legend g = Some lg" "gr_start g = of_int s" "gr_end g = of_int e"
    "sc_lo (gr_bot g) = I s" "sc_hi (gr_bot g) = I e" by (auto simp: in_sync_def covers_def)
  let ?g = "g\<lparr>gr_range := Some (a', b'), gr_data := Some (set_render_range (val a') (val b') d),
              gr_mid := set_bounds a' b' (gr_mid g)\<rparr>"
  have "set_range ext a b g = layout ext (gr_width g) (gr_height g) ?g"
    by (simp only: set_range_def Let_def assms(3,4) g(1) attr.simps rbind.simps)
  with layout_result [of ?g _ lg ext "gr_width g" "gr_height g"] g assms(2,5) show ?thesis
    by (simp add: set_bounds_def)
qed

end
