(* ===== verification/Grid_Gui.thy ===== *)
theory Grid_Gui
  imports Grid_Graphic
begin

text \<open>
  \<^verbatim>\<open>utils/grid.py\<close>: \<open>GtkGraphicRenderer\<close>, the widget that turns what the user does into ranges, \<open>MainWindow\<close> and
  \<open>main\<close>.  The toolkit calls one handler per event.  What is modelled of a run ends with the first exception.
  \<open>False\<close> and \<open>True\<close> are 0 and 1: the flag \<open>moving_right\<close> is an integer, for one handler assigns a width to it.
\<close>

section \<open>GtkGraphicRenderer\<close>

datatype cursor = Default | Fleur | Double_arrow

datatype gui_call = Queue_draw | Queue_draw_area int int int int | Set_cursor cursor | Painted "cairo list"

record surface =
  sf_width :: int
  sf_height :: int
  sf_ops :: "cairo list"

record gtk =
  gk_data :: graphic
  moving_left :: bool
  moving_right :: int
  moving_both :: bool
  moving_top :: bool
  force_full_redraw :: bool
  moving_left_cur :: "num2 option"
  moving_right_cur :: "num2 option"
  moving_both_start :: "rat option"
  moving_both_cur :: "rat option"
  moving_top_start :: "rat option"
  moving_top_cur :: "rat option"
  gk_width :: "int option"
  gk_height :: "int option"
  buffer_surface :: "surface option"
  gk_calls :: "gui_call list"
  gk_files :: "(string \<times> surface) list"

definition new_gtk :: "graphic \<Rightarrow> gtk" where
  "new_gtk g =
     \<lparr>gk_data = g, moving_left = False, moving_right = 0, moving_both = False, moving_top = False,
      force_full_redraw = True, moving_left_cur = None, moving_right_cur = None, moving_both_start = None,
      moving_both_cur = None, moving_top_start = None, moving_top_cur = None, gk_width = None, gk_height = None,
      buffer_surface = None, gk_calls = [], gk_files = []\<rparr>"

definition call :: "gui_call \<Rightarrow> gtk \<Rightarrow> gtk" where
  "call c k = k\<lparr>gk_calls := gk_calls k @ [c]\<rparr>"

text \<open>A new range, the next drawing done anew.\<close>

definition show_range :: "metrics \<Rightarrow> num2 \<Rightarrow> num2 \<Rightarrow> gtk \<Rightarrow> py_exn + gtk" where
  "show_range ext a b k =
     rbind (set_range ext a b (gk_data k)) (\<lambda>g. Inr (call Queue_draw (k\<lparr>gk_data := g, force_full_redraw := True\<rparr>)))"

definition set_smaller_zoom :: "metrics \<Rightarrow> gtk \<Rightarrow> py_exn + gtk" where
  "set_smaller_zoom ext k =
     rbind (get_range (gk_data k)) (\<lambda>(start, end).
       show_range ext start (num_add start (num_mul (num_sub end start) (I 2))) k)"

definition set_bigger_zoom :: "metrics \<Rightarrow> gtk \<Rightarrow> py_exn + gtk" where
  "set_bigger_zoom ext k =
     rbind (get_range (gk_data k)) (\<lambda>(start, end).
     rbind (num_div (num_sub end start) (I 2)) (\<lambda>half. show_range ext start (num_add start half) k))"

text \<open>The file gets the new surface; the picture is drawn on the old one.\<close>

definition output_png :: "metrics \<Rightarrow> string \<Rightarrow> gtk \<Rightarrow> py_exn + gtk" where
  "output_png ext filename k =
     (let surface = \<lparr>sf_width = gr_width (gk_data k), sf_height = gr_height (gk_data k), sf_ops = []\<rparr>
      in rbind (attr (buffer_surface k)) (\<lambda>buffer.
         rbind (graphic_draw ext (gk_data k)) (\<lambda>(ops, g).
           Inr (k\<lparr>gk_data := g, buffer_surface := Some (buffer\<lparr>sf_ops := sf_ops buffer @ ops\<rparr>),
                  gk_files := gk_files k @ [(filename, surface)]\<rparr>))))"

definition button_press :: "rat \<Rightarrow> rat \<Rightarrow> gtk \<Rightarrow> py_exn + bool \<times> gtk" where
  "button_press ex ey k =
     rbind (get_selection_rectangle (gk_data k)) (\<lambda>(x, y, width, height).
     rbind (get_data_rectangle (gk_data k)) (\<lambda>(d_x, d_y, d_width, d_height).
       let on_selection = ey > y \<and> ey < y + height;
           on_data = ey > d_y \<and> ey < d_y + d_height
       in if on_selection \<and> \<bar>ex - val x\<bar> < 5 then Inr (True, k\<lparr>moving_left := True\<rparr>)
          else if on_selection \<and> \<bar>ex - val (num_add x width)\<bar> < 5 then Inr (True, k\<lparr>moving_right := 1\<rparr>)
          else if on_selection \<and> ex > val x \<and> ex < val (num_add x width)
          then Inr (True, k\<lparr>moving_both := True, moving_both_start := Some ex, moving_both_cur := Some ex\<rparr>)
          else if on_data \<and> ex > d_x \<and> ex < d_x + d_width
          then Inr (True, k\<lparr>moving_top := True, moving_top_start := Some ex, moving_top_cur := Some ex\<rparr>)
          else Inr (False, k)))"

definition button_release :: "metrics \<Rightarrow> gtk \<Rightarrow> py_exn + bool \<times> gtk" where
  "button_release ext k =
     (if moving_left k then
        rbind (attr (moving_left_cur k)) (\<lambda>cur. rbind (scale_selection cur (gk_data k)) (\<lambda>left.
        rbind (get_range (gk_data k)) (\<lambda>(_, right).
        rbind (show_range ext left right (k\<lparr>moving_left := False\<rparr>)) (\<lambda>k. Inr (True, k)))))
      else if moving_right k \<noteq> 0 then
        rbind (attr (moving_right_cur k)) (\<lambda>cur. rbind (scale_selection cur (gk_data k)) (\<lambda>right.
        rbind (get_range (gk_data k)) (\<lambda>(left, _).
        rbind (show_range ext left right (k\<lparr>moving_right := 0\<rparr>)) (\<lambda>k. Inr (True, k)))))
      else if moving_both k then
        rbind (attr (moving_both_cur k)) (\<lambda>cur. rbind (attr (moving_both_start k)) (\<lambda>start.
        rbind (scale_selection (F (cur - start)) (gk_data k)) (\<lambda>delta.
        rbind (get_range (gk_data k)) (\<lambda>(left, right).
        rbind (show_range ext (num_add left delta) (num_add right delta) (k\<lparr>moving_both := False\<rparr>))
          (\<lambda>k. Inr (True, k))))))
      else Inr (False, k\<lparr>moving_top := False\<rparr>))"

section \<open>Moving the mouse\<close>

definition move_left :: "rat \<Rightarrow> num2 \<Rightarrow> num2 \<Rightarrow> gtk \<Rightarrow> gtk" where
  "move_left ex x width k =
     k\<lparr>moving_left_cur := Some (if ex \<le> 0 then I 0
        else if ex \<ge> val (num_add x width) then num_add x width else F ex)\<rparr>"

definition move_right :: "rat \<Rightarrow> num2 \<Rightarrow> int \<Rightarrow> gtk \<Rightarrow> gtk" where
  "move_right ex x widget_width k =
     (if ex \<ge> of_int widget_width then k\<lparr>moving_right := widget_width\<rparr>
      else if ex < val x then k\<lparr>moving_right_cur := Some x\<rparr>
      else k\<lparr>moving_right_cur := Some (F ex)\<rparr>)"

definition move_both :: "rat \<Rightarrow> num2 \<Rightarrow> num2 \<Rightarrow> int \<Rightarrow> rat \<Rightarrow> gtk \<Rightarrow> gtk" where
  "move_both ex x width widget_width start k =
     (let cur_e = of_int widget_width - (val (num_add x width) - start); cur_s = start - val x
      in k\<lparr>moving_both_cur := Some (if ex < cur_s then cur_s else if ex > cur_e then cur_e else ex)\<rparr>)"

definition redraw_selection :: "rat \<Rightarrow> int \<Rightarrow> rat \<Rightarrow> gtk \<Rightarrow> gtk" where
  "redraw_selection y widget_width height k = call (Queue_draw_area 0 (trunc y) widget_width (trunc height)) k"

definition move_top :: "metrics \<Rightarrow> rat \<Rightarrow> gtk \<Rightarrow> py_exn + gtk" where
  "move_top ext ex k =
     rbind (attr (moving_top_start k)) (\<lambda>start. rbind (scale_data (start - ex) (gk_data k)) (\<lambda>delta.
     rbind (get_range (gk_data k)) (\<lambda>(left, right).
       show_range ext (num_add left delta) (num_add right delta)
         (k\<lparr>moving_top_cur := Some ex, moving_top_start := Some ex\<rparr>))))"

definition hover :: "rat \<Rightarrow> rat \<Rightarrow> num2 \<times> rat \<times> num2 \<times> rat \<Rightarrow> rat \<times> rat \<times> rat \<times> rat \<Rightarrow> gtk \<Rightarrow> bool \<times> gtk" where
  "hover ex ey selection data k =
     (let (x, y, width, height) = selection; (d_x, d_y, d_width, d_height) = data;
          on_selection = ey > y \<and> ey < y + height;
          on_data = ey > d_y \<and> ey < d_y + d_height
      in if on_selection \<and> (\<bar>ex - val x\<bar> < 5 \<or> \<bar>ex - val (num_add x width)\<bar> < 5)
         then (True, call (Set_cursor Double_arrow) k)
         else if on_selection \<and> ex > val x \<and> ex < val (num_add x width)
         then (True, call (Set_cursor Fleur) k)
         else if on_data \<and> ex > d_x \<and> ex < d_x + d_width then (True, call (Set_cursor Fleur) k)
         else (False, call (Set_cursor Default) k))"

definition motion_notify :: "metrics \<Rightarrow> rat \<Rightarrow> rat \<Rightarrow> gtk \<Rightarrow> py_exn + bool \<times> gtk" where
  "motion_notify ext ex ey k =
     rbind (get_selection_rectangle (gk_data k)) (\<lambda>(x, y, width, height).
       if moving_left k then
         rbind (attr (gk_width k)) (\<lambda>w. Inr (True, redraw_selection y w height (move_left ex x width k)))
       else if moving_right k \<noteq> 0 then
         rbind (attr (gk_width k)) (\<lambda>w. Inr (True, redraw_selection y w height (move_right ex x w k)))
       else if moving_both k then
         rbind (attr (gk_width k)) (\<lambda>w. rbind (attr (moving_both_start k)) (\<lambda>start.
           Inr (True, redraw_selection y w height (move_both ex x width w start k))))
       else if moving_top k then rbind (move_top ext ex k) (\<lambda>k. Inr (True, k))
       else rbind (get_data_rectangle (gk_data k)) (\<lambda>data. Inr (hover ex ey (x, y, width, height) data k)))"

section \<open>Size and drawing\<close>

definition size_allocate :: "metrics \<Rightarrow> int \<Rightarrow> int \<Rightarrow> gtk \<Rightarrow> py_exn + gtk" where
  "size_allocate ext width height k =
     rbind (layout ext width height (gk_data k)) (\<lambda>g.
       Inr (call Queue_draw (k\<lparr>gk_width := Some width, gk_height := Some height, gk_data := g,
                               force_full_redraw := True\<rparr>)))"

definition redraw_buffer :: "metrics \<Rightarrow> gtk \<Rightarrow> py_exn + gtk" where
  "redraw_buffer ext k =
     (if force_full_redraw k then
        rbind (graphic_draw ext (gk_data k)) (\<lambda>(ops, g).
          Inr (k\<lparr>gk_data := g, force_full_redraw := False,
                 buffer_surface := Some \<lparr>sf_width = gr_width g, sf_height = gr_height g, sf_ops = ops\<rparr>\<rparr>))
      else Inr k)"

definition handle_line :: "rat \<Rightarrow> rat \<Rightarrow> rat \<Rightarrow> cairo list" where
  "handle_line x y height = [Move_to x y, Rel_line_to 0 height, Close_path]"

definition pen :: "cairo list" where
  "pen = [Set_line_width 1, Set_source_rgb 0 0 0, Stroke]"

definition drag_ops :: "num2 \<times> rat \<times> num2 \<times> rat \<Rightarrow> gtk \<Rightarrow> py_exn + cairo list" where
  "drag_ops selection k =
     (let (x, y, width, height) = selection
      in rbind (if moving_left k
                then rbind (attr (moving_left_cur k)) (\<lambda>cur. Inr (handle_line (max (val cur) 2) y height @ pen))
                else Inr []) (\<lambda>left.
         rbind (if moving_right k \<noteq> 0
                then rbind (attr (moving_right_cur k)) (\<lambda>cur. rbind (attr (gk_width k)) (\<lambda>w.
                       Inr (handle_line (min (val cur) (of_int w - 2)) y height @ pen)))
                else Inr []) (\<lambda>right.
         rbind (if moving_both k
                then rbind (attr (moving_both_cur k)) (\<lambda>cur. rbind (attr (moving_both_start k)) (\<lambda>start.
                       Inr (handle_line (val x + (cur - start)) y height
                            @ handle_line (val (num_add x width) + (cur - start)) y height
                            @ [Set_source_rgb 0 0 0, Set_line_width 1, Stroke])))
                else Inr []) (\<lambda>both. Inr (left @ right @ both)))))"

definition expose :: "metrics \<Rightarrow> int \<Rightarrow> int \<Rightarrow> int \<Rightarrow> int \<Rightarrow> gtk \<Rightarrow> py_exn + bool \<times> gtk" where
  "expose ext area_x area_y area_width area_height k =
     rbind (redraw_buffer ext k) (\<lambda>k.
     rbind (attr (buffer_surface k)) (\<lambda>_.
     rbind (get_selection_rectangle (gk_data k)) (\<lambda>selection.
     rbind (drag_ops selection k) (\<lambda>drag.
       Inr (False, call (Painted ([Rectangle (of_int area_x) (of_int area_y) (of_int area_width) (of_int area_height),
              Clip, Set_source_buffer, Paint] @ drag)) k)))))"

section \<open>MainWindow and main\<close>

record main_window =
  mw_render :: gtk
  mw_dialog :: bool

definition new_window :: "graphic \<Rightarrow> main_window" where
  "new_window g = \<lparr>mw_render = new_gtk g, mw_dialog = False\<rparr>"

definition dialog_response :: "metrics \<Rightarrow> int \<Rightarrow> string \<Rightarrow> main_window \<Rightarrow> py_exn + main_window" where
  "dialog_response ext response filename w =
     (if response = 1 then
        (if mw_dialog w then rbind (output_png ext filename (mw_render w)) (\<lambda>k. Inr (w\<lparr>mw_render := k\<rparr>))
         else Inl AttributeError)
      else Inr w)"

text \<open>What the user and the toolkit do, each with the handler connected to it.\<close>

datatype gui_event =
    Button_press rat rat
  | Button_release
  | Motion rat rat
  | Size_allocate int int
  | Expose int int int int
  | Zoom_out
  | Zoom_in
  | Output_png
  | Response int string

definition on_render :: "(gtk \<Rightarrow> py_exn + gtk) \<Rightarrow> main_window \<Rightarrow> py_exn + main_window" where
  "on_render f w = rbind (f (mw_render w)) (\<lambda>k. Inr (w\<lparr>mw_render := k\<rparr>))"

definition result :: "py_exn + bool \<times> gtk \<Rightarrow> py_exn + gtk" where
  "result r = rbind r (\<lambda>(_, k). Inr k)"

fun handle :: "metrics \<Rightarrow> gui_event \<Rightarrow> main_window \<Rightarrow> py_exn + main_window" where
  "handle ext (Button_press ex ey) w = on_render (\<lambda>k. result (button_press ex ey k)) w"
| "handle ext Button_release w = on_render (\<lambda>k. result (button_release ext k)) w"
| "handle ext (Motion ex ey) w = on_render (\<lambda>k. result (motion_notify ext ex ey k)) w"
| "handle ext (Size_allocate width height) w = on_render (size_allocate ext width height) w"
| "handle ext (Expose x y width height) w = on_render (\<lambda>k. result (expose ext x y width height k)) w"
| "handle ext Zoom_out w = on_render (set_smaller_zoom ext) w"
| "handle ext Zoom_in w = on_render (set_bigger_zoom ext) w"
| "handle ext Output_png w = Inr (w\<lparr>mw_dialog := True\<rparr>)"
| "handle ext (Response response filename) w = dialog_response ext response filename w"

fun run_loop :: "('e \<Rightarrow> 's \<Rightarrow> py_exn + 's) \<Rightarrow> 'e list \<Rightarrow> 's \<Rightarrow> py_exn + 's" where
  "run_loop step [] s = Inr s"
| "run_loop step (e # es) s = rbind (step e s) (run_loop step es)"

text \<open>The range shown at first: a tenth of the data in the middle, all with divisions of integers.\<close>

definition default_range :: "int \<Rightarrow> int \<Rightarrow> int \<times> int" where
  "default_range lower_bound upper_bound =
     (let range_mid = (upper_bound - lower_bound) div 2; range_width = (upper_bound - lower_bound) div 10
      in (range_mid - range_width div 2, range_mid + range_width div 2))"

definition main_graphic :: "metrics \<Rightarrow> string \<Rightarrow> py_exn + graphic" where
  "main_graphic ext txt =
     (let (named, timelines) = read_data txt;
          cs = \<lparr>color_map = named, default_colors = default_color_list\<rparr>;
          (lower_bound, upper_bound) = timelines_bounds timelines;
          range_values = all_range_values timelines
      in rbind (lookup_all range_values cs) (\<lambda>(range_colors, cs).
           let g = new_graphic \<lfloor>lower_bound\<rfloor> \<lfloor>upper_bound\<rfloor>;
               g = set_top_legend (set_legends range_values range_colors new_legend) g;
               g = set_data (set_timelines timelines cs new_renderer) g;
               (range_lo, range_hi) = default_range \<lfloor>lower_bound\<rfloor> \<lfloor>upper_bound\<rfloor>
           in set_range ext (I range_lo) (I range_hi) g))"

definition main :: "metrics \<Rightarrow> string \<Rightarrow> gui_event list \<Rightarrow> py_exn + main_window" where
  "main ext txt events =
     rbind (main_graphic ext txt) (\<lambda>g. run_loop (handle ext) events (new_window g))"

section \<open>All runs\<close>

text \<open>A loop that calls a handler for each event keeps what every handler keeps.\<close>

locale event_loop =
  fixes step :: "'e \<Rightarrow> 's \<Rightarrow> py_exn + 's" and inv :: "'s \<Rightarrow> bool"
  assumes keeps: "inv s \<Longrightarrow> step e s = Inr s' \<Longrightarrow> inv s'"
begin

lemma run_keeps: "inv s \<Longrightarrow> run_loop step es s = Inr s' \<Longrightarrow> inv s'"
  by (induction es arbitrary: s) (auto intro: keeps)

end

definition gui_inv :: "rat \<Rightarrow> rat \<Rightarrow> gtk \<Rightarrow> bool" where
  "gui_inv lower upper k \<longleftrightarrow>
     in_sync (gk_data k) \<and> gr_start (gk_data k) = lower \<and> gr_end (gk_data k) = upper
   \<and> (gk_width k = None \<or> gk_width k = Some (gr_width (gk_data k)))
   \<and> (moving_both k \<longrightarrow> moving_both_start k \<noteq> None \<and> moving_both_cur k \<noteq> None)
   \<and> (moving_top k \<longrightarrow> moving_top_start k \<noteq> None)
   \<and> (\<forall>(name, s) \<in> set (gk_files k). sf_ops s = [])"

lemma inv_call [simp]: "gui_inv lower upper (call c k) \<longleftrightarrow> gui_inv lower upper k"
  by (simp add: gui_inv_def call_def)

lemma inv_show_range:
  assumes "gui_inv lower upper k" and "show_range ext a b k = Inr k'"
  shows "gui_inv lower upper k'"
proof -
  from assms(2) obtain g where g: "set_range ext a b (gk_data k) = Inr g"
    and k': "k' = call Queue_draw (k\<lparr>gk_data := g, force_full_redraw := True\<rparr>)"
    by (auto simp: show_range_def)
  from set_range_sync [OF _ g] assms(1) show ?thesis by (simp add: k' gui_inv_def call_def)
qed

lemma inv_draw:
  assumes "gui_inv lower upper k" and "graphic_draw ext (gk_data k) = Inr (ops, g)"
  shows "gui_inv lower upper (k\<lparr>gk_data := g\<rparr>)"
  using assms graphic_draw_sync [of "gk_data k" ext ops g] by (simp add: gui_inv_def)

lemma inv_zoom:
  "gui_inv lower upper k \<Longrightarrow> set_smaller_zoom ext k = Inr k' \<Longrightarrow> gui_inv lower upper k'"
  "gui_inv lower upper k \<Longrightarrow> set_bigger_zoom ext k = Inr k' \<Longrightarrow> gui_inv lower upper k'"
  by (auto simp: set_smaller_zoom_def set_bigger_zoom_def intro: inv_show_range)

lemma inv_flags:
  assumes "gui_inv lower upper k"
  shows "gui_inv lower upper (k\<lparr>moving_left := False\<rparr>)" "gui_inv lower upper (k\<lparr>moving_right := n\<rparr>)"
    "gui_inv lower upper (k\<lparr>moving_both := False\<rparr>)" "gui_inv lower upper (k\<lparr>moving_top := False\<rparr>)"
    "gui_inv lower upper (k\<lparr>moving_left_cur := x\<rparr>)" "gui_inv lower upper (k\<lparr>moving_right_cur := x\<rparr>)"
    "gui_inv lower upper (k\<lparr>moving_both_cur := Some y\<rparr>)"
    "gui_inv lower upper (k\<lparr>moving_top_cur := Some y, moving_top_start := Some y\<rparr>)"
  using assms by (simp_all add: gui_inv_def)

lemma inv_press:
  assumes "gui_inv lower upper k" and "button_press ex ey k = Inr (r, k')"
  shows "gui_inv lower upper k'"
proof -
  have "gui_inv lower upper (k\<lparr>moving_left := True\<rparr>)" "gui_inv lower upper (k\<lparr>moving_right := 1\<rparr>)"
    "gui_inv lower upper (k\<lparr>moving_both := True, moving_both_start := Some ex, moving_both_cur := Some ex\<rparr>)"
    "gui_inv lower upper (k\<lparr>moving_top := True, moving_top_start := Some ex, moving_top_cur := Some ex\<rparr>)"
    using assms(1) by (simp_all add: gui_inv_def)
  with assms show ?thesis by (auto simp: button_press_def Let_def split: if_splits)
qed

lemma inv_release: "gui_inv lower upper k \<Longrightarrow> button_release ext k = Inr (r, k') \<Longrightarrow> gui_inv lower upper k'"
  by (auto simp: button_release_def intro: inv_show_range inv_flags split: if_splits)

lemma inv_motion:
  assumes "gui_inv lower upper k" and "motion_notify ext ex ey k = Inr (r, k')"
  shows "gui_inv lower upper k'"
proof -
  have hover: "gui_inv lower upper (snd (hover ex ey sel data k))" for sel data
    using assms(1) by (auto simp: hover_def Let_def split: prod.split)
  have moved: "gui_inv lower upper (move_left ex x width k)" "gui_inv lower upper (move_right ex x w k)"
    "gui_inv lower upper (move_both ex x width w s k)" for x width w s
    using assms(1) by (simp_all add: move_left_def move_right_def move_both_def Let_def inv_flags)
  have top: "gui_inv lower upper k''" if "move_top ext ex k = Inr k''" for k''
    using that assms(1) by (auto simp: move_top_def intro: inv_show_range inv_flags)
  obtain x y width height where sel: "get_selection_rectangle (gk_data k) = Inr (x, y, width, height)"
    using assms(2) by (auto simp: motion_notify_def)
  show ?thesis
  proof (cases "moving_left k \<or> moving_right k \<noteq> 0 \<or> moving_both k")
    case True
    with assms(2) moved show ?thesis
      by (auto simp: motion_notify_def sel redraw_selection_def simp del: split_paired_Ex split: if_splits)
  next
    case no: False
    show ?thesis
    proof (cases "moving_top k")
      case True
      with assms(2) top no show ?thesis by (auto simp: motion_notify_def sel)
    next
      case False
      with assms(2) no obtain data where "hover ex ey (x, y, width, height) data k = (r, k')"
        by (auto simp: motion_notify_def sel)
      with hover [of "(x, y, width, height)" data] show ?thesis by simp
    qed
  qed
qed

lemma inv_allocate:
  assumes "gui_inv lower upper k" and "size_allocate ext w h k = Inr k'"
  shows "gui_inv lower upper k'"
proof -
  from assms(2) obtain g where g: "layout ext w h (gk_data k) = Inr g"
    and k': "k' = call Queue_draw (k\<lparr>gk_width := Some w, gk_height := Some h, gk_data := g, force_full_redraw := True\<rparr>)"
    by (auto simp: size_allocate_def)
  from layout_sync [OF _ g] assms(1) show ?thesis by (simp add: k' gui_inv_def in_sync_def call_def)
qed

lemma inv_expose:
  assumes "gui_inv lower upper k" and "expose ext x y w h k = Inr (r, k')"
  shows "gui_inv lower upper k'"
proof -
  have "gui_inv lower upper k1" if "redraw_buffer ext k = Inr k1" for k1
  proof (cases "force_full_redraw k")
    case True
    with that obtain ops g where "graphic_draw ext (gk_data k) = Inr (ops, g)" and
      k1: "k1 = k\<lparr>gk_data := g, force_full_redraw := False,
        buffer_surface := Some \<lparr>sf_width = gr_width g, sf_height = gr_height g, sf_ops = ops\<rparr>\<rparr>"
      by (auto simp: redraw_buffer_def)
    from inv_draw [OF assms(1) this(1)] show ?thesis by (simp add: k1 gui_inv_def)
  qed (use that assms(1) in \<open>simp add: redraw_buffer_def\<close>)
  with assms(2) show ?thesis by (auto simp: expose_def)
qed

lemma inv_output:
  assumes "gui_inv lower upper k" and "output_png ext name k = Inr k'"
  shows "gui_inv lower upper k'"
proof -
  from assms(2) obtain ops g buffer where g: "graphic_draw ext (gk_data k) = Inr (ops, g)" and
    k': "k' = k\<lparr>gk_data := g, buffer_surface := Some buffer, gk_files := gk_files k @
       [(name, \<lparr>sf_width = gr_width (gk_data k), sf_height = gr_height (gk_data k), sf_ops = []\<rparr>)]\<rparr>"
    by (cases "buffer_surface k") (auto simp: output_png_def Let_def)
  from inv_draw [OF assms(1) g] show ?thesis by (simp add: k' gui_inv_def)
qed

lemma inv_handle:
  assumes "gui_inv lower upper (mw_render w)" and "handle ext e w = Inr w'"
  shows "gui_inv lower upper (mw_render w')"
  using assms(2) inv_press [OF assms(1)] inv_release [OF assms(1)] inv_motion [OF assms(1)] inv_allocate [OF assms(1)]
    inv_expose [OF assms(1)] inv_zoom [OF assms(1)] inv_output [OF assms(1)] assms(1)
  by (cases e) (auto simp: on_render_def result_def dialog_response_def simp del: split_paired_Ex split: if_splits)

interpretation gui: event_loop "handle ext" "\<lambda>w. gui_inv lower upper (mw_render w)" for ext lower upper
  by unfold_locales (rule inv_handle)

lemma main_graphic_sync:
  assumes "main_graphic ext txt = Inr g"
  shows "in_sync g \<and> gr_start g = of_int \<lfloor>fst (timelines_bounds (snd (read_data txt)))\<rfloor>
    \<and> gr_end g = of_int \<lfloor>snd (timelines_bounds (snd (read_data txt)))\<rfloor>"
proof -
  obtain cs ts lo hi where eq: "read_data txt = (cs, ts)" "timelines_bounds ts = (lo, hi)"
    by (metis surj_pair)
  obtain a0 b0 where ab: "default_range \<lfloor>lo\<rfloor> \<lfloor>hi\<rfloor> = (a0, b0)" by (metis surj_pair)
  from assms obtain d lg a b where
    s: "set_range ext a b (set_data d (set_top_legend lg (new_graphic \<lfloor>lo\<rfloor> \<lfloor>hi\<rfloor>))) = Inr g"
    by (auto simp: main_graphic_def Let_def eq ab)
  let ?g = "set_data d (set_top_legend lg (new_graphic \<lfloor>lo\<rfloor> \<lfloor>hi\<rfloor>))"
  let ?a = "num_max (F (gr_start ?g)) (num_min a b)" and ?b = "num_min (F (gr_end ?g)) (num_max a b)"
  let ?g1 = "?g\<lparr>gr_range := Some (?a, ?b), gr_data := Some (set_render_range (val ?a) (val ?b) d),
              gr_mid := set_bounds ?a ?b (gr_mid ?g)\<rparr>"
  have "layout ext (gr_width ?g) (gr_height ?g) ?g1 = Inr g"
    using s by (simp add: set_range_def Let_def set_data_def)
  moreover have "covers ?g1"
    using clipped_order [where s = "gr_start ?g" and e = "gr_end ?g" and a = a and b = b]
    by (auto simp: covers_def set_data_def set_top_legend_def new_graphic_def set_render_range_def set_bounds_def
        simp del: val_max val_min)
  ultimately show ?thesis
    using layout_sync [of ?g1] by (simp add: eq set_data_def set_top_legend_def new_graphic_def)
qed

lemma new_gtk_inv: "in_sync g \<Longrightarrow> gui_inv (gr_start g) (gr_end g) (new_gtk g)"
  by (simp add: gui_inv_def new_gtk_def)

lemma main_inv:
  assumes "main ext txt events = Inr w"
  shows "gui_inv (of_int \<lfloor>fst (timelines_bounds (snd (read_data txt)))\<rfloor>)
    (of_int \<lfloor>snd (timelines_bounds (snd (read_data txt)))\<rfloor>) (mw_render w)"
proof -
  from assms obtain g where g: "main_graphic ext txt = Inr g"
    and w: "run_loop (handle ext) events (new_window g) = Inr w"
    by (auto simp: main_def)
  from main_graphic_sync [OF g] have g': "in_sync g" and
    b: "gr_start g = of_int \<lfloor>fst (timelines_bounds (snd (read_data txt)))\<rfloor>"
       "gr_end g = of_int \<lfloor>snd (timelines_bounds (snd (read_data txt)))\<rfloor>" by auto
  from new_gtk_inv [OF g'] have "gui_inv (gr_start g) (gr_end g) (mw_render (new_window g))"
    by (simp add: new_window_def)
  from gui.run_keeps [OF this w] show ?thesis by (simp only: b)
qed

text \<open>C5.  Whatever the user does, as long as no handler raises: the range shown does not start before the first time of the data and
  does not end after the last, the timelines and the upper scale show exactly this range, every part is laid out for the width of the
  widget, and every picture saved so far is blank: \<open>output_png\<close> draws on the wrong surface.  The start is clipped from below only and
  the end from above only, so a range dragged off the data altogether comes out with its ends in the wrong order; one of them is then
  at the border of the data.  \<open>range_turned_round\<close> below is such a run.\<close>

theorem view_in_sync:
  assumes "main ext txt events = Inr w" and "timelines_bounds (snd (read_data txt)) = (lower, upper)"
  shows "\<exists>g r_start r_end d n. g = gk_data (mw_render w) \<and> gr_range g = Some (r_start, r_end) \<and> gr_data g = Some d
      \<and> of_int \<lfloor>lower\<rfloor> \<le> val r_start \<and> val r_end \<le> of_int \<lfloor>upper\<rfloor>
      \<and> (val r_start \<le> val r_end \<or> val r_start = of_int \<lfloor>lower\<rfloor> \<or> val r_end = of_int \<lfloor>upper\<rfloor>)
      \<and> tr_start d = val r_start \<and> tr_end d = val r_end \<and> sc_lo (gr_mid g) = r_start \<and> sc_hi (gr_mid g) = r_end
      \<and> n = gr_width g \<and> gk_width (mw_render w) \<in> {None, Some n}
      \<and> tr_width d = of_int n \<and> sc_width (gr_bot g) = I n \<and> sc_width (gr_mid g) = F (of_int n - get_data_x_start d)
      \<and> (\<forall>(name, s) \<in> set (gk_files (mw_render w)). sf_ops s = [])"
proof -
  let ?k = "mw_render w"
  from main_inv [OF assms(1)] assms(2) have inv: "gui_inv (of_int \<lfloor>lower\<rfloor>) (of_int \<lfloor>upper\<rfloor>) ?k" by simp
  then have sync: "covers (gk_data ?k)" "laid_out (gk_data ?k)" by (simp_all add: gui_inv_def in_sync_def)
  obtain a b d where 1: "gr_range (gk_data ?k) = Some (a, b)" "gr_data (gk_data ?k) = Some d"
    "gr_start (gk_data ?k) \<le> val a" "val b \<le> gr_end (gk_data ?k)"
    "val a \<le> val b \<or> val a = gr_start (gk_data ?k) \<or> val b = gr_end (gk_data ?k)" "tr_start d = val a" "tr_end d = val b"
    "sc_lo (gr_mid (gk_data ?k)) = a" "sc_hi (gr_mid (gk_data ?k)) = b"
    using sync(1) by (auto simp: covers_def)
  with sync(2) have 2: "tr_width d = of_int (gr_width (gk_data ?k))" "sc_width (gr_bot (gk_data ?k)) = I (gr_width (gk_data ?k))"
    "sc_width (gr_mid (gk_data ?k)) = F (of_int (gr_width (gk_data ?k)) - get_data_x_start d)"
    by (auto simp: laid_out_def)
  from inv 1 2 show ?thesis by (simp add: gui_inv_def)
qed

definition small_data :: string where
  "small_data = ''range n s a 0 40''"

lemma small_data_bounds: "timelines_bounds (snd (read_data small_data)) = (0, 40)"
  by code_simp

theorem view_in_sync_witness:
  "\<exists>w. main small_metrics small_data [Size_allocate 500 300, Zoom_out] = Inr w
    \<and> (\<exists>d. gr_data (gk_data (mw_render w)) = Some d \<and> 0 \<le> tr_start d \<and> tr_end d \<le> 40)"
proof -
  have "isl (main small_metrics small_data [Size_allocate 500 300, Zoom_out]) = False" by code_simp
  then obtain w where w: "main small_metrics small_data [Size_allocate 500 300, Zoom_out] = Inr w"
    by (cases "main small_metrics small_data [Size_allocate 500 300, Zoom_out]") auto
  from view_in_sync [OF w small_data_bounds] w show ?thesis by auto
qed

text \<open>The timelines are pulled to the left, far beyond the border: the range starts after its end.\<close>

lemma range_turned_round:
  "map_sum id (\<lambda>w. map_option (\<lambda>(a, b). (\<lfloor>val a\<rfloor>, val b)) (gr_range (gk_data (mw_render w))))
     (main small_metrics small_data [Size_allocate 500 300, Button_press 490 40, Motion (- 4000) 40]) = Inr (Some (56, 40))"
  by code_simp

end
