(* ===== verification/Grid_Drag.thy ===== *)
theory Grid_Drag
  imports Grid_Gui
begin

text \<open>
  What the handlers of \<^verbatim>\<open>utils/grid.py\<close> do to the range together: pressing a button, moving the mouse and releasing it,
  and the two buttons that zoom.
\<close>

section \<open>Dragging\<close>

definition motions :: "(rat \<times> rat) list \<Rightarrow> gui_event list" where
  "motions ms = map (\<lambda>(x, y). Motion x y) ms"

lemma run_loop_append: "run_loop step (xs @ ys) s = rbind (run_loop step xs s) (run_loop step ys)"
proof (induction xs arbitrary: s)
  case (Cons x xs)
  then show ?case by (cases "step x s") auto
qed simp

lemma motions_run:
  assumes "\<And>k x y. P k \<Longrightarrow> result (motion_notify ext x y k) = Inr (f x k) \<and> P (f x k)" and "P (mw_render w)"
  shows "run_loop (handle ext) (motions ms) w = Inr (w\<lparr>mw_render := fold f (map fst ms) (mw_render w)\<rparr>)
    \<and> P (fold f (map fst ms) (mw_render w))"
  using assms(2)
proof (induction ms arbitrary: w)
  case Nil
  then show ?case by (simp add: motions_def)
next
  case (Cons m ms)
  obtain x y where m: "m = (x, y)" by force
  from assms(1) [OF Cons.prems, of x y] Cons.IH [of "w\<lparr>mw_render := f x (mw_render w)\<rparr>"] show ?case
    by (simp add: motions_def m on_render_def)
qed

text \<open>A drag: a button is pressed, the mouse is moved, the button is released.\<close>

definition drag :: "rat \<Rightarrow> rat \<Rightarrow> (rat \<times> rat) list \<Rightarrow> gui_event list" where
  "drag ex ey ms = Button_press ex ey # motions ms @ [Button_release]"

lemma drag_run:
  assumes "handle ext (Button_press ex ey) w = Inr (w\<lparr>mw_render := k\<rparr>)" and "P k"
    and "\<And>k x y. P k \<Longrightarrow> result (motion_notify ext x y k) = Inr (f x k) \<and> P (f x k)"
  shows "run_loop (handle ext) (drag ex ey ms) w
      = handle ext Button_release (w\<lparr>mw_render := fold f (map fst ms) k\<rparr>)" and "P (fold f (map fst ms) k)"
proof -
  from motions_run [of P ext f "w\<lparr>mw_render := k\<rparr>" ms, OF assms(3)] assms(2)
  have "run_loop (handle ext) (motions ms) (w\<lparr>mw_render := k\<rparr>) = Inr (w\<lparr>mw_render := fold f (map fst ms) k\<rparr>)"
    and P: "P (fold f (map fst ms) k)" by simp_all
  with assms(1) show "run_loop (handle ext) (drag ex ey ms) w
      = handle ext Button_release (w\<lparr>mw_render := fold f (map fst ms) k\<rparr>)"
    by (cases "handle ext Button_release (w\<lparr>mw_render := fold f (map fst ms) k\<rparr>)")
      (simp_all add: drag_def run_loop_append del: handle.simps)
  show "P (fold f (map fst ms) k)" by (rule P)
qed

lemma fold_last_if:
  assumes "\<And>x k. get (f x k) = (if Q x then g x else get k)"
  shows "get (fold f xs k) = (if filter Q xs = [] then get k else g (last (filter Q xs)))"
  by (induction xs rule: rev_induct) (simp_all add: assms)

lemma fold_last: "(\<And>x k. get (f x k) = g x) \<Longrightarrow> get (fold f xs k) = (if xs = [] then get k else g (last xs))"
  by (induction xs rule: rev_induct) simp_all

text \<open>Where a time is on the lower scale.\<close>

definition place :: "graphic \<Rightarrow> rat \<Rightarrow> rat" where
  "place g t = (t - gr_start g) * of_int (gr_width g) / (gr_end g - gr_start g)"

lemma selection_place:
  assumes "in_sync g" and "gr_range g = Some (F a, F b)"
    and "get_selection_rectangle g = Inr (x, y, width, height)"
  shows "x = F (place g a) \<and> width = F (place g b - place g a)"
proof -
  from assms(1,2) obtain s e where g: "gr_start g = of_int s" "gr_end g = of_int e"
    "sc_lo (gr_bot g) = I s" "sc_hi (gr_bot g) = I e" "sc_width (gr_bot g) = I (gr_width g)"
    by (auto simp: in_sync_def covers_def laid_out_def)
  have pos: "get_position (F t) (gr_bot g) = (if s = e then Inl ZeroDivisionError else Inr (F (place g t)))" for t
    by (simp add: get_position_def num_sub_def num_mul_def num_div_def num_arith_def g place_def)
  from assms(3) show ?thesis
    by (cases "gr_legend g"; cases "gr_data g")
      (auto simp: get_selection_rectangle_def get_range_def assms(2) pos num_sub_def num_arith_def split: if_splits)
qed

lemma num_max_float: "num_max (F x) (F y) = F (max x y)" and num_min_float: "num_min (F x) (F y) = F (min x y)"
  by (auto simp: num_max_def num_min_def max_def min_def)

lemma range_in_sync: "in_sync g \<Longrightarrow> gr_range g = Some (a, b) \<Longrightarrow> gr_start g \<le> val a \<and> val b \<le> gr_end g"
  by (auto simp: in_sync_def covers_def)

lemma place_mono:
  assumes "gr_start g < gr_end g" and "0 < gr_width g"
  shows "gr_start g \<le> t \<Longrightarrow> 0 \<le> place g t" "t \<le> gr_end g \<Longrightarrow> place g t \<le> of_int (gr_width g)"
  using assms by (simp_all add: place_def pos_divide_le_eq mult.commute mult_right_mono)

lemma place_less:
  assumes "gr_start g < gr_end g" and "0 < gr_width g" and "place g a < place g b"
  shows "a \<le> b"
proof (rule ccontr)
  assume "\<not> a \<le> b"
  with assms(1,2) have "place g b \<le> place g a"
    by (simp add: place_def divide_right_mono mult_right_mono)
  with assms(3) show False by simp
qed

lemma scale_selection_float:
  "gr_width g \<noteq> 0 \<Longrightarrow> scale_selection (F d) g = Inr (F (d / of_int (gr_width g) * (gr_end g - gr_start g)))"
  by (simp add: scale_selection_def num_div_def num_mul_def num_arith_def)

lemma data_rectangle_ok: "in_sync g \<Longrightarrow> \<exists>r. get_data_rectangle g = Inr r"
  by (auto simp: in_sync_def covers_def get_data_rectangle_def Let_def)

lemma release_range:
  assumes "in_sync (gk_data k)" and "gr_end (gk_data k) - gr_start (gk_data k) \<noteq> 1"
    and "num_max (F (gr_start (gk_data k))) (num_min a b) = a'" and "num_min (F (gr_end (gk_data k))) (num_max a b) = b'"
    and "val b' - val a' \<noteq> 1"
  shows "\<exists>k'. show_range ext a b k = Inr k' \<and> gr_range (gk_data k') = Some (a', b')"
proof -
  from set_range_ok [OF assms, of ext] obtain g where "set_range ext a b (gk_data k) = Inr g" "gr_range g = Some (a', b')"
    by auto
  then show ?thesis by (simp add: show_range_def call_def)
qed

lemma view_facts:
  assumes "gui_inv lower upper k" and "gk_width k = Some n" and "gr_range (gk_data k) = Some (F a, F b)"
    and "get_selection_rectangle (gk_data k) = Inr (x, y, width, height)"
  shows "in_sync (gk_data k)" "gr_start (gk_data k) = lower" "gr_end (gk_data k) = upper" "gr_width (gk_data k) = n"
    "lower \<le> a" "b \<le> upper" "x = F (place (gk_data k) a)" "width = F (place (gk_data k) b - place (gk_data k) a)"
proof -
  show sync: "in_sync (gk_data k)" and bounds: "gr_start (gk_data k) = lower" "gr_end (gk_data k) = upper"
    and "gr_width (gk_data k) = n"
    using assms(1,2) by (auto simp: gui_inv_def)
  from range_in_sync [OF sync assms(3)] bounds show "lower \<le> a" "b \<le> upper" by simp_all
  from selection_place [OF sync assms(3,4)]
  show "x = F (place (gk_data k) a)" "width = F (place (gk_data k) b - place (gk_data k) a)" by simp_all
qed

text \<open>A range of floats inside the data is shown as it is.\<close>

lemma shown:
  assumes "in_sync (gk_data k)" and "gr_end (gk_data k) - gr_start (gk_data k) \<noteq> 1"
    and "gr_start (gk_data k) \<le> a" and "a \<le> b" and "b \<le> gr_end (gk_data k)" and "b - a \<noteq> 1"
  shows "\<exists>k'. show_range ext (F a) (F b) k = Inr k' \<and> gr_range (gk_data k') = Some (F a, F b)"
  using release_range [of k "F a" "F b" "F a" "F b" ext] assms
  by (simp add: num_max_float num_min_float min_absorb1 max_absorb2 min_absorb2)

text \<open>The place of an end of the selection: of an integer it is rounded down, for the division is then one of integers.\<close>

definition spot :: "graphic \<Rightarrow> num2 \<Rightarrow> num2" where
  "spot g t = (case t of F q \<Rightarrow> F (place g q) | I i \<Rightarrow> I \<lfloor>place g (of_int i)\<rfloor>)"

lemma spot_near: "val (spot g t) \<le> place g (val t)" "place g (val t) < val (spot g t) + 1" "t = F q \<Longrightarrow> val (spot g t) = place g q"
  by (cases t; simp add: spot_def; linarith)+

lemma spot_inside:
  assumes "gr_start g < gr_end g" and "0 < gr_width g"
  shows "gr_start g \<le> val t \<Longrightarrow> 0 \<le> val (spot g t)" "val t \<le> gr_end g \<Longrightarrow> val (spot g t) \<le> of_int (gr_width g)"
proof -
  show "gr_start g \<le> val t \<Longrightarrow> 0 \<le> val (spot g t)"
    using place_mono(1) [OF assms, of "val t"] by (cases t) (simp_all add: spot_def)
  show "val t \<le> gr_end g \<Longrightarrow> val (spot g t) \<le> of_int (gr_width g)"
    using place_mono(2) [OF assms, of "val t"] spot_near(1) [of g t] by linarith
qed

lemma selection_spot:
  assumes "in_sync g" and "gr_range g = Some (a, b)"
    and "get_selection_rectangle g = Inr (x, y, width, height)"
  shows "x = spot g a \<and> width = num_sub (spot g b) (spot g a)"
proof -
  from assms(1,2) obtain s e where g: "gr_start g = of_int s" "gr_end g = of_int e"
    "sc_lo (gr_bot g) = I s" "sc_hi (gr_bot g) = I e" "sc_width (gr_bot g) = I (gr_width g)"
    by (auto simp: in_sync_def covers_def laid_out_def)
  have quot: "\<lfloor>(of_int i - of_int s) * of_int w / (of_int e - of_int s :: rat)\<rfloor> = (i - s) * w div (e - s)" for i w
    using floor_divide_of_int_eq [of "(i - s) * w" "e - s", where 'a = rat] by simp
  have pos: "get_position t (gr_bot g) = (if s = e then Inl ZeroDivisionError else Inr (spot g t))" for t
    by (cases t) (simp_all add: get_position_def num_sub_def num_mul_def num_div_def num_arith_def g place_def spot_def quot)
  from assms(3) show ?thesis
    by (cases "gr_legend g"; cases "gr_data g")
      (auto simp: get_selection_rectangle_def get_range_def assms(2) pos split: if_splits)
qed

lemma both_motion:
  assumes "get_selection_rectangle (gk_data k) = Inr (x, y, width, height)"
    and "\<not> moving_left k" and "moving_right k = 0" and "moving_both k" and "gk_width k = Some w" and "moving_both_start k = Some s"
  shows "motion_notify ext px py k = Inr (True, redraw_selection y w height (move_both px x width w s k))"
  using assms by (simp add: motion_notify_def)

text \<open>A move of the whole selection by places inside the widget moves the range by times that stay inside the data, but for less than
  a place's time at the end.\<close>

lemma moved_inside:
  fixes lower upper m :: rat
  assumes "gr_start g = lower" and "gr_end g = upper" and "lower < upper" and "0 < gr_width g"
    and "- val (spot g a) \<le> m" and "m \<le> of_int (gr_width g) - val (spot g b)"
  shows "lower \<le> val a + m * (upper - lower) / of_int (gr_width g)"
    "val b + m * (upper - lower) / of_int (gr_width g) < upper + (upper - lower) / of_int (gr_width g)"
    "b = F q \<Longrightarrow> val b + m * (upper - lower) / of_int (gr_width g) \<le> upper"
proof -
  define c where "c = (upper - lower) / of_int (gr_width g)"
  have c: "0 < c" using assms(3,4) by (simp add: c_def)
  have time: "val t = lower + place g (val t) * c" for t
    using assms(1-4) by (simp add: c_def place_def)
  have mc: "m * (upper - lower) / of_int (gr_width g) = m * c" by (simp add: c_def)
  have w: "of_int (gr_width g) * c = upper - lower" using assms(4) by (simp add: c_def)
  have mono: "x \<le> y \<Longrightarrow> x * c \<le> y * c" "x < y \<Longrightarrow> x * c < y * c" for x y :: rat using c by simp_all
  have "- place g (val a) \<le> m" using assms(5) spot_near(1) [of g a] by linarith
  from mono(1) [OF this] time [of a] show "lower \<le> val a + m * (upper - lower) / of_int (gr_width g)"
    unfolding mc by simp
  have "m < of_int (gr_width g) - place g (val b) + 1" using assms(6) spot_near(2) [of g b] by linarith
  from mono(2) [OF this] time [of b] w
  show "val b + m * (upper - lower) / of_int (gr_width g) < upper + (upper - lower) / of_int (gr_width g)"
    unfolding mc c_def [symmetric] by (simp add: left_diff_distrib distrib_right)
  assume "b = F q"
  with assms(6) spot_near(3) [of b q g] have "m \<le> of_int (gr_width g) - place g (val b)" by simp
  from mono(1) [OF this] time [of b] w show "val b + m * (upper - lower) / of_int (gr_width g) \<le> upper"
    unfolding mc by (simp add: left_diff_distrib)
qed

lemma moved_start:
  fixes lower upper m :: rat
  assumes "gr_start g = lower" and "gr_end g = upper" and "lower < upper" and "0 < gr_width g"
    and "val (spot g a) + 10 \<le> val (spot g b)" and "m \<le> of_int (gr_width g) - val (spot g b)"
  shows "val a + m * (upper - lower) / of_int (gr_width g) \<le> upper" "val a \<le> val b"
proof -
  have "place g (val a) < place g (val b)" "place g (val a) + m \<le> of_int (gr_width g)"
    using spot_near(2) [of g a] spot_near(1) [of g b] assms(5,6) by linarith+
  with place_less [of g "val a" "val b"] assms(1-4) show "val a \<le> val b" by simp
  have "(place g (val a) + m) * ((upper - lower) / of_int (gr_width g)) \<le> of_int (gr_width g) * ((upper - lower) / of_int (gr_width g))"
    using \<open>place g (val a) + m \<le> of_int (gr_width g)\<close> assms(3,4) by (intro mult_right_mono) simp_all
  moreover have "of_int (gr_width g) * ((upper - lower) / of_int (gr_width g)) = upper - lower" using assms(4) by simp
  moreover have "place g (val a) * ((upper - lower) / of_int (gr_width g)) = val a - lower"
    using assms(1-4) by (simp add: place_def)
  ultimately have "val a - lower + m * ((upper - lower) / of_int (gr_width g)) \<le> upper - lower"
    by (simp only: distrib_right)
  then show "val a + m * (upper - lower) / of_int (gr_width g) \<le> upper" by simp
qed

text \<open>The selection drawn is that of the range, inside the widget.\<close>

lemma selection_facts:
  assumes "gui_inv lower upper k" and "lower < upper" and "gk_width k = Some n" and "0 < n"
    and "gr_range (gk_data k) = Some (a, b)" and "get_selection_rectangle (gk_data k) = Inr (x, y, width, height)"
  shows "in_sync (gk_data k)" "gr_start (gk_data k) = lower" "gr_end (gk_data k) = upper" "gr_width (gk_data k) = n"
    "x = spot (gk_data k) a" "val x + val width = val (spot (gk_data k) b)" "0 \<le> val x" "val x + val width \<le> of_int n"
proof -
  show sync: "in_sync (gk_data k)" and bounds: "gr_start (gk_data k) = lower" "gr_end (gk_data k) = upper" "gr_width (gk_data k) = n"
    using assms(1,3) by (auto simp: gui_inv_def)
  show x: "x = spot (gk_data k) a" and x_end: "val x + val width = val (spot (gk_data k) b)"
    using selection_spot [OF sync assms(5,6)] by simp_all
  have "lower \<le> val a" "val b \<le> upper" using range_in_sync [OF sync assms(5)] bounds by simp_all
  then show "0 \<le> val x" "val x + val width \<le> of_int n"
    using spot_inside [of "gk_data k"] assms(2,4) unfolding x_end by (simp_all add: x bounds)
qed

text \<open>What the handlers do in a drag of the whole selection comes down to one change of the range.\<close>

lemma drag_both_run:
  assumes "gui_inv lower upper (mw_render w)" and "lower < upper"
    and "\<not> moving_left (mw_render w)" and "moving_right (mw_render w) = 0"
    and "gk_width (mw_render w) = Some n" and "0 < n"
    and "gr_range (gk_data (mw_render w)) = Some (a, b)"
    and "get_selection_rectangle (gk_data (mw_render w)) = Inr (x, y, width, height)"
    and "y < ey" and "ey < y + height" and "val x + 5 \<le> ex" and "ex + 5 \<le> val x + val width"
    and "\<delta> = max (- val x) (min (of_int n - (val x + val width)) (last (ex # map fst ms) - ex)) * (upper - lower) / of_int n"
  shows "\<exists>k. gk_data k = gk_data (mw_render w) \<and> run_loop (handle ext) (drag ex ey ms) w
      = rbind (show_range ext (F (val a + \<delta>)) (F (val b + \<delta>)) k) (\<lambda>k. Inr (w\<lparr>mw_render := k\<rparr>))"
proof -
  define k where "k = mw_render w"
  define g where "g = gk_data k"
  note sel = selection_facts [OF assms(1,2,5-8), folded k_def, folded g_def]
  have rect: "get_selection_rectangle g = Inr (x, y, width, height)" using assms(8) by (simp add: g_def k_def)
  define k1 where "k1 = k\<lparr>moving_both := True, moving_both_start := Some ex, moving_both_cur := Some ex\<rparr>"
  have press: "handle ext (Button_press ex ey) w = Inr (w\<lparr>mw_render := k1\<rparr>)"
    using rect data_rectangle_ok [OF sel(1)] assms(9-12)
    by (auto simp: on_render_def result_def button_press_def k1_def abs_less_iff simp flip: k_def g_def)
  define f where "f = (\<lambda>px k. redraw_selection y n height (move_both px x width n ex k))"
  define P where "P k' \<longleftrightarrow> gk_data k' = g \<and> \<not> moving_left k' \<and> moving_right k' = 0 \<and> moving_both k' \<and> gk_width k' = Some n
     \<and> moving_both_start k' = Some ex" for k' :: gtk
  have "P k1" using assms(3-5) by (simp add: P_def k1_def g_def k_def)
  moreover have "result (motion_notify ext px py k') = Inr (f px k') \<and> P (f px k')" if "P k'" for k' px py
    using that both_motion [of k' x y width height n ex ext px py] rect
    by (simp add: P_def f_def result_def redraw_selection_def call_def move_both_def Let_def)
  ultimately have run: "run_loop (handle ext) (drag ex ey ms) w
      = handle ext Button_release (w\<lparr>mw_render := fold f (map fst ms) k1\<rparr>)" and P2: "P (fold f (map fst ms) k1)"
    using drag_run [of ext ex ey w k1 P f ms, OF press] by simp_all
  define k2 where "k2 = fold f (map fst ms) k1"
  let ?clamp = "\<lambda>p. max (ex - val x) (min (of_int n - (val x + val width) + ex) p)"
  have "moving_both_cur (f p k') = Some (?clamp p)" for p k'
    using sel(7,8) by (auto simp: f_def redraw_selection_def call_def move_both_def Let_def max_def min_def)
  from fold_last [of moving_both_cur f, OF this, of "map fst ms" k1] sel(7,8)
  have cur: "moving_both_cur k2 = Some (?clamp (last (ex # map fst ms)))" by (simp add: k1_def k2_def)
  have "?clamp p - ex = max (- val x) (min (of_int n - (val x + val width)) (p - ex))" for p by auto
  then have delta: "scale_selection (F (?clamp (last (ex # map fst ms)) - ex)) g = Inr (F \<delta>)"
    using assms(6) by (simp add: scale_selection_float sel(2-4) assms(13))
  have "num_add a (F \<delta>) = F (val a + \<delta>)" "num_add b (F \<delta>) = F (val b + \<delta>)"
    by (cases a; cases b; simp add: num_add_def num_arith_def)+
  then have release: "handle ext Button_release (w\<lparr>mw_render := k2\<rparr>)
      = rbind (show_range ext (F (val a + \<delta>)) (F (val b + \<delta>)) (k2\<lparr>moving_both := False\<rparr>)) (\<lambda>k. Inr (w\<lparr>mw_render := k\<rparr>))"
    using cur delta P2 [folded k2_def] assms(7)
    by (cases "show_range ext (F (val a + \<delta>)) (F (val b + \<delta>)) (k2\<lparr>moving_both := False\<rparr>)")
      (simp_all add: P_def on_render_def result_def button_release_def get_range_def g_def k_def)
  show ?thesis
  proof (intro exI conjI)
    show "gk_data (k2\<lparr>moving_both := False\<rparr>) = gk_data (mw_render w)" using P2 by (simp add: P_def k2_def g_def k_def)
  qed (use run release in \<open>simp only: k2_def\<close>)
qed

text \<open>C6.  Dragging the whole selection, whatever the range shown is made of: integers, as at first, or floats.  This is for every state
  a run of \<open>main\<close> leads to (\<open>gui_inv\<close>, by \<open>main_inv\<close>) in which the data end after they begin, the widget has been given a positive width
  and no end is being dragged; the selection drawn is pressed at least 5 places inside its ends, the pointer moved in any way and the
  button released.  The range moves by the time of the way of the pointer, this way cut off where the
  selection drawn reaches a border of the widget.  It is made of floats then, and it does not start before the data.  A range of
  floats does not end after the data, so it keeps its length; the place of an integer is rounded down, and such a range can lose less
  than the time of one place at its end.  A range, or data, of length 1 raises ZeroDivisionError in the scale.\<close>

theorem drag_selection:
  assumes "gui_inv lower upper (mw_render w)" and "lower < upper"
    and "\<not> moving_left (mw_render w)" and "moving_right (mw_render w) = 0"
    and "gk_width (mw_render w) = Some n" and "0 < n"
    and "gr_range (gk_data (mw_render w)) = Some (a, b)"
    and "get_selection_rectangle (gk_data (mw_render w)) = Inr (x, y, width, height)"
    and "y < ey" and "ey < y + height" and "val x + 5 \<le> ex" and "ex + 5 \<le> val x + val width"
    and "\<delta> = max (- val x) (min (of_int n - (val x + val width)) (last (ex # map fst ms) - ex)) * (upper - lower) / of_int n"
    and "a' = val a + \<delta>" and "b' = min upper (val b + \<delta>)"
  shows "(if upper - lower = 1 \<or> b' - a' = 1 then run_loop (handle ext) (drag ex ey ms) w = Inl ZeroDivisionError
      else \<exists>w'. run_loop (handle ext) (drag ex ey ms) w = Inr w' \<and> gr_range (gk_data (mw_render w')) = Some (F a', F b'))
    \<and> lower \<le> a' \<and> a' \<le> b' \<and> val b - val a - (b' - a') < (upper - lower) / of_int n
    \<and> (case b of F _ \<Rightarrow> b' - a' = val b - val a | I _ \<Rightarrow> b' - a' \<le> val b - val a)"
proof -
  note sel = selection_facts [OF assms(1,2,5-8)]
  note width = sel(2-4) assms(2,6)
  define m where "m = max (- val x) (min (of_int n - (val x + val width)) (last (ex # map fst ms) - ex))"
  have d: "\<delta> = m * (upper - lower) / of_int n" by (simp add: assms(13) m_def)
  have m: "- val (spot (gk_data (mw_render w)) a) \<le> m" "m \<le> of_int n - val (spot (gk_data (mw_render w)) b)"
    using sel(5-8) by (auto simp: m_def)
  have apart: "val (spot (gk_data (mw_render w)) a) + 10 \<le> val (spot (gk_data (mw_render w)) b)"
    using sel(6) assms(11,12) by (simp flip: sel(5))
  from moved_inside [OF sel(2,3) assms(2) _ m [folded sel(4)]] moved_start [OF sel(2,3) assms(2) _ apart m(2) [folded sel(4)]] width
  have ends: "lower \<le> a'" "val b + \<delta> < upper + (upper - lower) / of_int n" "\<And>q. b = F q \<Longrightarrow> val b + \<delta> \<le> upper"
    and start: "a' \<le> upper" "val a \<le> val b"
    by (simp_all add: assms(14) d)
  have clip: "num_max (F lower) (num_min (F (val a + \<delta>)) (F (val b + \<delta>))) = F a'"
    "num_min (F upper) (num_max (F (val a + \<delta>)) (F (val b + \<delta>))) = F b'"
    using start(2) ends(1) by (simp_all add: num_max_float num_min_float assms(14,15) max_absorb2 min_absorb1)
  obtain k where k: "gk_data k = gk_data (mw_render w)" "run_loop (handle ext) (drag ex ey ms) w
      = rbind (show_range ext (F (val a + \<delta>)) (F (val b + \<delta>)) k) (\<lambda>k. Inr (w\<lparr>mw_render := k\<rparr>))"
    using drag_both_run [OF assms(1-13)] by blast
  from set_range_result [OF sel(1) clip [folded sel(2,3)], of ext, unfolded sel(2,3) val.simps] k(1)
  have "if upper - lower = 1 \<or> b' - a' = 1 then run_loop (handle ext) (drag ex ey ms) w = Inl ZeroDivisionError
      else \<exists>w'. run_loop (handle ext) (drag ex ey ms) w = Inr w' \<and> gr_range (gk_data (mw_render w')) = Some (F a', F b')"
    unfolding k(2) by (auto simp: show_range_def call_def split: if_splits)
  moreover have "val b - val a - (b' - a') < (upper - lower) / of_int n" "a' \<le> b'"
    using ends(2) start width by (auto simp: assms(14,15) min_def)
  moreover have "case b of F _ \<Rightarrow> b' - a' = val b - val a | I _ \<Rightarrow> b' - a' \<le> val b - val a"
    using ends(3) by (auto simp: assms(14,15) split: num2.split)
  ultimately show ?thesis using ends(1) by blast
qed

text \<open>Zooming in and then out again shows the same range as before, where neither range is 1 long.\<close>

theorem zoom_in_out:
  assumes "gui_inv lower upper (mw_render w)" and "upper - lower \<noteq> 1"
    and "gr_range (gk_data (mw_render w)) = Some (F a, F b)" and "a \<le> b" and "b - a \<noteq> 1" and "b - a \<noteq> 2"
  shows "\<exists>w'. run_loop (handle ext) [Zoom_in, Zoom_out] w = Inr w' \<and> gr_range (gk_data (mw_render w')) = Some (F a, F b)"
proof -
  define k where "k = mw_render w"
  note inv = assms(1) [unfolded gui_inv_def, folded k_def]
  have sync: "in_sync (gk_data k)" and bounds: "gr_start (gk_data k) = lower" "gr_end (gk_data k) = upper"
    using inv by auto
  have ab: "lower \<le> a" "b \<le> upper"
    using range_in_sync [OF sync, of "F a" "F b"] assms(3) bounds by (simp_all add: k_def)
  let ?m = "a + (b - a) / 2"
  have m: "a \<le> ?m" "?m \<le> b" "?m - a \<noteq> 1" using assms(4,6) by (simp_all add: field_simps)
  obtain k1 where k1: "show_range ext (F a) (F ?m) k = Inr k1" "gr_range (gk_data k1) = Some (F a, F ?m)"
    using shown [of k a ?m ext] sync bounds assms(2) ab m by auto
  have inv1: "gui_inv lower upper k1" using inv_show_range [OF assms(1) [folded k_def] k1(1)] .
  then have sync1: "in_sync (gk_data k1)" "gr_start (gk_data k1) = lower" "gr_end (gk_data k1) = upper"
    by (simp_all add: gui_inv_def)
  obtain k2 where k2: "show_range ext (F a) (F b) k1 = Inr k2" "gr_range (gk_data k2) = Some (F a, F b)"
    using shown [of k1 a b ext] sync1 assms(2,4,5) ab by auto
  have "set_bigger_zoom ext k = Inr k1"
    using assms(3) k1(1) by (simp add: set_bigger_zoom_def get_range_def num_sub_def num_add_def num_div_def num_arith_def flip: k_def)
  moreover have "a + (?m - a) * 2 = b" by (simp add: field_simps)
  then have "set_smaller_zoom ext k1 = Inr k2"
    using k1(2) k2(1) by (simp add: set_smaller_zoom_def get_range_def num_sub_def num_add_def num_mul_def num_arith_def)
  ultimately show ?thesis using k2(2) by (simp add: on_render_def flip: k_def)
qed

section \<open>Dragging one end\<close>

lemma end_motion:
  assumes "get_selection_rectangle (gk_data k) = Inr (F x, y, F width, height)" and "gk_width k = Some w"
  shows "moving_left k \<Longrightarrow>
      result (motion_notify ext px py k) = Inr (redraw_selection y w height (move_left px (F x) (F width) k))"
    "\<not> moving_left k \<Longrightarrow> moving_right k \<noteq> 0 \<Longrightarrow>
      result (motion_notify ext px py k) = Inr (redraw_selection y w height (move_right px (F x) w k))"
  using assms by (simp_all add: motion_notify_def result_def)

lemma press_end:
  assumes "in_sync (gk_data (mw_render w))" and "get_selection_rectangle (gk_data (mw_render w)) = Inr (x, y, width, height)"
    and "y < ey" and "ey < y + height"
  shows "\<bar>ex - val x\<bar> < 5 \<Longrightarrow>
      handle ext (Button_press ex ey) w = Inr (w\<lparr>mw_render := (mw_render w)\<lparr>moving_left := True\<rparr>\<rparr>)"
    "\<not> \<bar>ex - val x\<bar> < 5 \<Longrightarrow> \<bar>ex - (val x + val width)\<bar> < 5 \<Longrightarrow>
      handle ext (Button_press ex ey) w = Inr (w\<lparr>mw_render := (mw_render w)\<lparr>moving_right := 1\<rparr>\<rparr>)"
proof -
  obtain r1 r2 r3 r4 where "get_data_rectangle (gk_data (mw_render w)) = Inr (r1, r2, r3, r4)"
    using data_rectangle_ok [OF assms(1)] by (metis prod_cases4)
  with assms(2-4) show "\<bar>ex - val x\<bar> < 5 \<Longrightarrow>
      handle ext (Button_press ex ey) w = Inr (w\<lparr>mw_render := (mw_render w)\<lparr>moving_left := True\<rparr>\<rparr>)"
    "\<not> \<bar>ex - val x\<bar> < 5 \<Longrightarrow> \<bar>ex - (val x + val width)\<bar> < 5 \<Longrightarrow>
      handle ext (Button_press ex ey) w = Inr (w\<lparr>mw_render := (mw_render w)\<lparr>moving_right := 1\<rparr>\<rparr>)"
    by (simp_all add: on_render_def result_def button_press_def Let_def)
qed

text \<open>The time at a place that is kept inside the scale.\<close>

lemma end_time:
  fixes upper b p :: rat
  assumes "0 < upper" and "0 < n" and "0 \<le> b"
  shows "(if p \<le> 0 then 0 else if p \<ge> b * of_int n / upper then b * of_int n / upper else p) / of_int n * upper
    = max 0 (min b (p * upper / of_int n))"
proof -
  have "p \<le> 0 \<longleftrightarrow> p * upper / of_int n \<le> 0" using assms by (simp add: divide_le_0_iff mult_le_0_iff)
  moreover have "p \<ge> b * of_int n / upper \<longleftrightarrow> p * upper / of_int n \<ge> b"
    using assms by (simp add: pos_divide_le_eq pos_le_divide_eq)
  moreover have "b * of_int n / upper / of_int n * upper = b" using assms by simp
  ultimately show ?thesis using assms by (simp add: max_def min_def)
qed

text \<open> Dragging the left end of the selection, where the data begin at 0: it goes to the time under the pointer, but not
  outside the data and not beyond the right end.  Released before it is moved for the first time, it raises.\<close>

theorem drag_left_end:
  assumes "gui_inv 0 upper (mw_render w)" and "0 < upper" and "upper \<noteq> 1"
    and "gk_width (mw_render w) = Some n" and "0 < n"
    and "gr_range (gk_data (mw_render w)) = Some (F a, F b)" and "a \<le> b"
    and "get_selection_rectangle (gk_data (mw_render w)) = Inr (x, y, width, height)"
    and "y < ey" and "ey < y + height" and "\<bar>ex - val x\<bar> < 5"
    and "l = max 0 (min b (last (map fst ms) * upper / of_int n))"
  shows "(ms = [] \<and> moving_left_cur (mw_render w) = None \<longrightarrow>
      run_loop (handle ext) (drag ex ey ms) w = Inl AttributeError)
    \<and> (ms \<noteq> [] \<and> b - l \<noteq> 1 \<longrightarrow> (\<exists>w'. run_loop (handle ext) (drag ex ey ms) w = Inr w'
      \<and> gr_range (gk_data (mw_render w')) = Some (F l, F b)))"
proof -
  define k where "k = (mw_render w)\<lparr>moving_left := True\<rparr>"
  define g where "g = gk_data k"
  have gk: "gk_data (mw_render w) = g" by (simp add: g_def k_def)
  note view = view_facts [OF assms(1,4,6,8), unfolded gk]
  have sel: "get_selection_rectangle g = Inr (F (place g a), y, F (place g b - place g a), height)"
    using assms(8) view by (simp add: gk)
  have press: "handle ext (Button_press ex ey) w = Inr (w\<lparr>mw_render := k\<rparr>)"
    unfolding k_def using press_end(1) [OF _ assms(8-11)] view(1) by (simp add: gk)
  define f where "f = (\<lambda>px k. redraw_selection y n height (move_left px (F (place g a)) (F (place g b - place g a)) k))"
  define P where "P k' \<longleftrightarrow> gk_data k' = g \<and> moving_left k' \<and> gk_width k' = Some n" for k' :: gtk
  define k2 where "k2 = fold f (map fst ms) k"
  have "P k" using assms(4) by (simp add: P_def k_def g_def)
  moreover have "result (motion_notify ext px py k') = Inr (f px k') \<and> P (f px k')" if "P k'" for k' px py
    using that end_motion(1) [of k' _ y _ height n ext px py] sel
    by (simp add: P_def f_def redraw_selection_def call_def move_left_def)
  ultimately have run: "run_loop (handle ext) (drag ex ey ms) w = handle ext Button_release (w\<lparr>mw_render := k2\<rparr>)"
    and P2: "P k2"
    using drag_run [of ext ex ey w k P f ms, OF press] by (simp_all add: k2_def)
  let ?cur = "\<lambda>p. if p \<le> 0 then I 0 else if p \<ge> place g b then F (place g b) else F p"
  have "moving_left_cur (f p k') = Some (?cur p)" for p k'
    by (simp add: f_def redraw_selection_def call_def move_left_def num_add_def num_arith_def)
  from fold_last [of moving_left_cur f, OF this, of "map fst ms" k]
  have cur: "moving_left_cur k2 = (if ms = [] then moving_left_cur (mw_render w) else Some (?cur (last (map fst ms))))"
    by (simp add: k2_def k_def)
  have b: "0 \<le> b" using view(5) assms(7) by simp
  have left: "scale_selection (?cur p) g = Inr (F (max 0 (min b (p * upper / of_int n))))" for p
  proof -
    have "scale_selection (?cur p) g = Inr (F (val (?cur p) / of_int n * upper))"
      using assms(5) by (simp add: scale_selection_def num_div_def num_mul_def num_arith_def view)
    also have "val (?cur p) = (if p \<le> 0 then 0 else if p \<ge> b * of_int n / upper then b * of_int n / upper else p)"
      by (simp add: place_def view)
    finally show ?thesis by (simp only: end_time [OF assms(2,5) b])
  qed
  have "\<exists>k3. show_range ext (F l) (F b) (k2\<lparr>moving_left := False\<rparr>) = Inr k3 \<and> gr_range (gk_data k3) = Some (F l, F b)"
    if "b - l \<noteq> 1"
    using shown [of "k2\<lparr>moving_left := False\<rparr>" l b ext] view assms(3) that b P2 by (auto simp: P_def assms(12))
  with run cur left [of "last (map fst ms)", folded assms(12)] P2 assms(6) show ?thesis
    by (auto simp: P_def on_render_def result_def button_release_def get_range_def gk ex_bool_eq)
qed

text \<open>Dragging the right end.  It goes to the last time the pointer was over inside the widget, or to the left end.  The branch for
  a pointer beyond the right border assigns to the wrong attribute, so the data's end cannot be reached this way: if the pointer was
  never inside, releasing it raises.\<close>

theorem drag_right_end:
  assumes "gui_inv 0 upper (mw_render w)" and "0 < upper" and "upper \<noteq> 1" and "\<not> moving_left (mw_render w)"
    and "gk_width (mw_render w) = Some n" and "0 < n"
    and "gr_range (gk_data (mw_render w)) = Some (F a, F b)" and "a \<le> b"
    and "get_selection_rectangle (gk_data (mw_render w)) = Inr (x, y, width, height)"
    and "y < ey" and "ey < y + height" and "5 \<le> \<bar>ex - val x\<bar>" and "\<bar>ex - (val x + val width)\<bar> < 5"
    and "inside = filter (\<lambda>p. p < of_int n) (map fst ms)"
    and "r = max a (last inside * upper / of_int n)"
  shows "(inside = [] \<and> moving_right_cur (mw_render w) = None \<longrightarrow>
      run_loop (handle ext) (drag ex ey ms) w = Inl AttributeError)
    \<and> (inside \<noteq> [] \<and> r - a \<noteq> 1 \<longrightarrow> (\<exists>w'. run_loop (handle ext) (drag ex ey ms) w = Inr w'
      \<and> gr_range (gk_data (mw_render w')) = Some (F a, F r)))"
proof -
  define k where "k = (mw_render w)\<lparr>moving_right := 1\<rparr>"
  define g where "g = gk_data k"
  have gk: "gk_data (mw_render w) = g" by (simp add: g_def k_def)
  note view = view_facts [OF assms(1,5,7,9), unfolded gk]
  have sel: "get_selection_rectangle g = Inr (F (place g a), y, F (place g b - place g a), height)"
    using assms(9) view by (simp add: gk)
  have press: "handle ext (Button_press ex ey) w = Inr (w\<lparr>mw_render := k\<rparr>)"
    unfolding k_def using press_end(2) [OF _ assms(9-11) _ assms(13)] assms(12) view(1) by (simp add: gk del: handle.simps)
  define f where "f = (\<lambda>px k. redraw_selection y n height (move_right px (F (place g a)) n k))"
  define P where "P k' \<longleftrightarrow> gk_data k' = g \<and> \<not> moving_left k' \<and> moving_right k' \<noteq> 0 \<and> gk_width k' = Some n" for k' :: gtk
  define k2 where "k2 = fold f (map fst ms) k"
  have "P k" using assms(4,5) by (simp add: P_def k_def g_def)
  moreover have "result (motion_notify ext px py k') = Inr (f px k') \<and> P (f px k')" if "P k'" for k' px py
    using that end_motion(2) [of k' _ y _ height n ext px py] sel assms(6)
    by (simp add: P_def f_def redraw_selection_def call_def move_right_def)
  ultimately have run: "run_loop (handle ext) (drag ex ey ms) w = handle ext Button_release (w\<lparr>mw_render := k2\<rparr>)"
    and P2: "P k2"
    using drag_run [of ext ex ey w k P f ms, OF press] by (simp_all add: k2_def)
  let ?cur = "\<lambda>p. F (max (place g a) p)"
  have "moving_right_cur (f p k') = (if p < of_int n then Some (?cur p) else moving_right_cur k')" for p k'
    by (simp add: f_def redraw_selection_def call_def move_right_def max_def)
  from fold_last_if [of moving_right_cur f, OF this, of "map fst ms" k]
  have cur: "moving_right_cur k2 = (if inside = [] then moving_right_cur (mw_render w) else Some (?cur (last inside)))"
    by (simp add: k2_def k_def assms(14))
  have "max (a * of_int n / upper) p * upper / of_int n = max a (p * upper / of_int n)" for p
    using assms(2,6) by (auto simp: max_def field_simps)
  then have right: "scale_selection (?cur (last inside)) g = Inr (F r)"
    using assms(6) by (simp add: scale_selection_float place_def view assms(15))
  have "\<exists>k3. show_range ext (F a) (F r) (k2\<lparr>moving_right := 0\<rparr>) = Inr k3 \<and> gr_range (gk_data k3) = Some (F a, F r)"
    if "inside \<noteq> []" "r - a \<noteq> 1"
  proof -
    from that(1) have "last inside \<in> set inside" by simp
    then have "last inside < of_int n" by (simp only: assms(14)) simp
    with assms(2,6) have "last inside * upper / of_int n \<le> upper" by (simp add: pos_divide_le_eq)
    with view(5,6) assms(8) have "a \<le> r" "r \<le> upper" by (simp_all add: assms(15))
    with shown [of "k2\<lparr>moving_right := 0\<rparr>" a r ext] view assms(3) that(2) P2 show ?thesis by (simp add: P_def)
  qed
  with run cur right P2 assms(7) show ?thesis
    by (auto simp: P_def on_render_def result_def button_release_def get_range_def gk ex_bool_eq)
qed

section \<open>An example\<close>

text \<open>A widget 500 wide, after a drag that goes nowhere: the range from 18 to 22 of 0 to 40 is now made of floats.\<close>

definition small_view :: "py_exn + main_window" where
  "small_view = main small_metrics small_data (Size_allocate 500 300 # drag 250 100 [])"

lemma map_sum_Inr: "map_sum f g x = Inr y \<Longrightarrow> \<exists>z. x = Inr z \<and> g z = y"
  by (cases x) simp_all

lemma small_view_value:
  "map_sum id (\<lambda>w. (gr_range (gk_data (mw_render w)), get_selection_rectangle (gk_data (mw_render w)), gk_width (mw_render w),
      moving_left (mw_render w), moving_right (mw_render w), moving_left_cur (mw_render w), moving_right_cur (mw_render w))) small_view
    = Inr (Some (F 18, F 22), Inr (F 225, 88, F 50, 39), Some 500, False, 0, None, None)"
  by code_simp

lemma small_view:
  obtains w where "small_view = Inr w" "gui_inv 0 40 (mw_render w)" "gr_range (gk_data (mw_render w)) = Some (F 18, F 22)"
    "get_selection_rectangle (gk_data (mw_render w)) = Inr (F 225, 88, F 50, 39)" "gk_width (mw_render w) = Some 500"
    "\<not> moving_left (mw_render w)" "moving_right (mw_render w) = 0" "moving_left_cur (mw_render w) = None"
    "moving_right_cur (mw_render w) = None"
proof -
  from map_sum_Inr [OF small_view_value] obtain w where w: "small_view = Inr w" and
    v: "(gr_range (gk_data (mw_render w)), get_selection_rectangle (gk_data (mw_render w)), gk_width (mw_render w),
      moving_left (mw_render w), moving_right (mw_render w), moving_left_cur (mw_render w), moving_right_cur (mw_render w))
    = (Some (F 18, F 22), Inr (F 225, 88, F 50, 39), Some 500, False, 0, None, None)" by blast
  from main_inv [OF w [unfolded small_view_def]] small_data_bounds have "gui_inv 0 40 (mw_render w)" by simp
  with w v show thesis by (intro that [of w]) simp_all
qed

text \<open>The range of \<open>main\<close>, made of integers, for data from 0 to 37.\<close>

definition odd_view :: "py_exn + main_window" where
  "odd_view = main small_metrics ''range n s a 0 37'' [Size_allocate 500 300]"

lemma odd_view_value:
  "map_sum id (\<lambda>w. (gr_range (gk_data (mw_render w)), get_selection_rectangle (gk_data (mw_render w)), gk_width (mw_render w),
      moving_left (mw_render w), moving_right (mw_render w))) odd_view
    = Inr (Some (I 17, I 19), Inr (I 229, 88, I 27, 39), Some 500, False, 0)"
  by code_simp

lemma odd_view:
  obtains w where "odd_view = Inr w" "gui_inv 0 37 (mw_render w)" "gr_range (gk_data (mw_render w)) = Some (I 17, I 19)"
    "get_selection_rectangle (gk_data (mw_render w)) = Inr (I 229, 88, I 27, 39)" "gk_width (mw_render w) = Some 500"
    "\<not> moving_left (mw_render w)" "moving_right (mw_render w) = 0"
proof -
  from map_sum_Inr [OF odd_view_value] obtain w where w: "odd_view = Inr w" and
    v: "(gr_range (gk_data (mw_render w)), get_selection_rectangle (gk_data (mw_render w)), gk_width (mw_render w),
      moving_left (mw_render w), moving_right (mw_render w)) = (Some (I 17, I 19), Inr (I 229, 88, I 27, 39), Some 500, False, 0)"
    by blast
  have "timelines_bounds (snd (read_data ''range n s a 0 37'')) = (0, 37)" by code_simp
  with main_inv [OF w [unfolded odd_view_def]] have "gui_inv 0 37 (mw_render w)" by simp
  with w v show thesis by (intro that [of w]) simp_all
qed

theorem drag_selection_witness:
  "\<exists>w w' v v'. small_view = Inr w \<and> run_loop (handle small_metrics) (drag 250 100 [(260, 90), (300, 500)]) w = Inr w'
     \<and> gr_range (gk_data (mw_render w')) = Some (F 22, F 26)
     \<and> odd_view = Inr v \<and> run_loop (handle small_metrics) (drag 240 100 [(600, 100)]) v = Inr v'
     \<and> gr_range (gk_data (mw_render v')) = Some (F (4382 / 125), F 37)"
proof -
  obtain w where w: "small_view = Inr w" "gui_inv 0 40 (mw_render w)" "gr_range (gk_data (mw_render w)) = Some (F 18, F 22)"
    "get_selection_rectangle (gk_data (mw_render w)) = Inr (F 225, 88, F 50, 39)" "gk_width (mw_render w) = Some 500"
    "\<not> moving_left (mw_render w)" "moving_right (mw_render w) = 0"
    by (rule small_view)
  obtain v where v: "odd_view = Inr v" "gui_inv 0 37 (mw_render v)" "gr_range (gk_data (mw_render v)) = Some (I 17, I 19)"
    "get_selection_rectangle (gk_data (mw_render v)) = Inr (I 229, 88, I 27, 39)" "gk_width (mw_render v) = Some 500"
    "\<not> moving_left (mw_render v)" "moving_right (mw_render v) = 0"
    by (rule odd_view)
  have "\<exists>w'. run_loop (handle small_metrics) (drag 250 100 [(260, 90), (300, 500)]) w = Inr w'
    \<and> gr_range (gk_data (mw_render w')) = Some (F 22, F 26)"
    using drag_selection [OF w(2) _ w(6,7,5) _ w(3,4), where ey = 100 and ex = 250 and ms = "[(260, 90), (300, 500)]"
        and \<delta> = 4 and a' = 22 and b' = 26 and ext = small_metrics] by simp
  moreover have "\<exists>v'. run_loop (handle small_metrics) (drag 240 100 [(600, 100)]) v = Inr v'
    \<and> gr_range (gk_data (mw_render v')) = Some (F (4382 / 125), F 37)"
    using drag_selection [OF v(2) _ v(6,7,5) _ v(3,4), where ey = 100 and ex = 240 and ms = "[(600, 100)]"
        and \<delta> = "2257 / 125" and a' = "4382 / 125" and b' = 37 and ext = small_metrics] by simp
  ultimately show ?thesis using w(1) v(1) by blast
qed

theorem drag_left_end_witness:
  "\<exists>w w'. small_view = Inr w \<and> run_loop (handle small_metrics) (drag 224 100 [(100, 100)]) w = Inr w'
     \<and> gr_range (gk_data (mw_render w')) = Some (F 8, F 22)
     \<and> run_loop (handle small_metrics) (drag 224 100 []) w = Inl AttributeError"
proof -
  obtain w where w: "small_view = Inr w" "gui_inv 0 40 (mw_render w)" "gr_range (gk_data (mw_render w)) = Some (F 18, F 22)"
    "get_selection_rectangle (gk_data (mw_render w)) = Inr (F 225, 88, F 50, 39)" "gk_width (mw_render w) = Some 500"
    "moving_left_cur (mw_render w) = None"
    by (rule small_view)
  note drag_left_end [OF w(2) _ _ w(5) _ w(3) _ w(4), where ext = small_metrics and ex = 224 and ey = 100]
  from this [where ms = "[(100, 100)]" and l = 8] this [where ms = "[]", OF _ _ _ _ _ _ _ refl] w(6)
  obtain w' where "run_loop (handle small_metrics) (drag 224 100 [(100, 100)]) w = Inr w'"
    "gr_range (gk_data (mw_render w')) = Some (F 8, F 22)"
    "run_loop (handle small_metrics) (drag 224 100 []) w = Inl AttributeError" by auto
  with w(1) show ?thesis by blast
qed

theorem drag_right_end_witness:
  "\<exists>w w'. small_view = Inr w \<and> run_loop (handle small_metrics) (drag 274 100 [(400, 100), (600, 100)]) w = Inr w'
     \<and> gr_range (gk_data (mw_render w')) = Some (F 18, F 32)"
proof -
  obtain w where w: "small_view = Inr w" "gui_inv 0 40 (mw_render w)" "gr_range (gk_data (mw_render w)) = Some (F 18, F 22)"
    "get_selection_rectangle (gk_data (mw_render w)) = Inr (F 225, 88, F 50, 39)" "gk_width (mw_render w) = Some 500"
    "\<not> moving_left (mw_render w)"
    by (rule small_view)
  from drag_right_end [OF w(2) _ _ w(6,5) _ w(3) _ w(4), where ext = small_metrics and ex = 274 and ey = 100
      and ms = "[(400, 100), (600, 100)]" and inside = "[400]" and r = 32]
  obtain w' where "run_loop (handle small_metrics) (drag 274 100 [(400, 100), (600, 100)]) w = Inr w'"
    "gr_range (gk_data (mw_render w')) = Some (F 18, F 32)" by auto
  with w(1) show ?thesis by blast
qed

theorem zoom_in_out_witness:
  "\<exists>w w'. small_view = Inr w \<and> run_loop (handle small_metrics) [Zoom_in, Zoom_out] w = Inr w'
     \<and> gr_range (gk_data (mw_render w')) = Some (F 18, F 22)"
proof -
  obtain w where w: "small_view = Inr w" "gui_inv 0 40 (mw_render w)" "gr_range (gk_data (mw_render w)) = Some (F 18, F 22)"
    by (rule small_view)
  from zoom_in_out [OF w(2) _ w(3), of small_metrics] obtain w' where
    "run_loop (handle small_metrics) [Zoom_in, Zoom_out] w = Inr w'" "gr_range (gk_data (mw_render w')) = Some (F 18, F 22)" by auto
  with w(1) show ?thesis by blast
qed

end
