(* ===== verification/Grid_Start.thy ===== *)
theory Grid_Start
  imports Grid_Drag
begin

text \<open>
  \<^verbatim>\<open>utils/grid.py\<close>: what \<open>main\<close> shows at first.  The times of a data file are whole numbers from 0 on, so the picture
  starts at 0.
\<close>

section \<open>Whole times\<close>

definition whole_range :: "data_range \<Rightarrow> bool" where
  "whole_range d \<longleftrightarrow> dr_start d \<in> \<nat> \<and> dr_end d \<in> \<nat>"

definition whole :: "timeline \<Rightarrow> bool" where
  "whole t \<longleftrightarrow> (\<forall>l \<in> set (tl_ranges t). \<forall>d \<in> set (rl_ranges l). whole_range d)
     \<and> (\<forall>l \<in> set (tl_event_str t). \<forall>e \<in> set (el_events l). ev_at e \<in> \<nat>)
     \<and> (\<forall>l \<in> set (tl_event_int t). \<forall>e \<in> set (el_events l). ev_at e \<in> \<nat>)"

lemma update_named_all:
  assumes "\<forall>x \<in> set xs. P x" and "\<And>x. P x \<Longrightarrow> P (f x)" and "P (new n)"
  shows "\<forall>x \<in> set (update_named name new n f xs). P x"
  using assms(1) by (induction xs) (auto intro: assms(2,3))

lemma whole_add_range:
  assumes "whole t" and "whole_range r"
  shows "whole (add_range n r t)"
proof -
  have "\<forall>l \<in> set (update_named rl_name new_range_line n (\<lambda>l. l\<lparr>rl_ranges := rl_ranges l @ [r]\<rparr>) (tl_ranges t)).
      \<forall>d \<in> set (rl_ranges l). whole_range d"
    by (rule update_named_all) (use assms in \<open>auto simp: whole_def new_range_line_def\<close>)
  with assms(1) show ?thesis by (simp add: whole_def add_range_def)
qed

lemma whole_add_event:
  assumes "whole t" and "ev_at e \<in> \<nat>"
  shows "whole (add_event_str n e t)" "whole (add_event_int n e t)"
proof -
  have added: "\<forall>l \<in> set (update_named el_name new_event_line n (\<lambda>l. l\<lparr>el_events := el_events l @ [e]\<rparr>) ls).
      \<forall>e \<in> set (el_events l). ev_at e \<in> \<nat>" if "\<forall>l \<in> set ls. \<forall>e \<in> set (el_events l). ev_at e \<in> \<nat>" for ls
    by (rule update_named_all) (use assms(2) that in \<open>auto simp: new_event_line_def\<close>)
  from assms(1) added [of "tl_event_str t"] added [of "tl_event_int t"]
  show "whole (add_event_str n e t)" "whole (add_event_int n e t)"
    by (simp_all add: whole_def add_event_str_def add_event_int_def)
qed

fun whole_entry :: "entry \<Rightarrow> bool" where
  "whole_entry (Range_entry t n r) = whole_range r"
| "whole_entry (Str_entry t n e) = (ev_at e \<in> \<nat>)"
| "whole_entry (Int_entry t n e) = (ev_at e \<in> \<nat>)"
| "whole_entry (Color_entry n c) = True"

lemma parse_whole: "parse_data_line l = Some e \<Longrightarrow> whole_entry e"
  by (auto simp: parse_data_line_def match_range_def match_event_str_def match_event_int_def match_color_def Let_def
      whole_range_def split: list.splits if_splits option.splits)

lemma add_line_whole:
  assumes "\<forall>t \<in> set (snd g). whole t"
  shows "\<forall>t \<in> set (snd (add_line l g)). whole t"
proof (cases "parse_data_line l")
  case (Some e)
  have new: "whole (new_timeline n)" for n by (simp add: whole_def new_timeline_def)
  obtain cs ts where g: "g = (cs, ts)" by (cases g)
  have on: "\<forall>t \<in> set (on_timeline n f ts). whole t" if "\<And>t. whole t \<Longrightarrow> whole (f t)" for n f
    unfolding on_timeline_def by (rule update_named_all) (use assms that new in \<open>simp_all add: g\<close>)
  have "add_line l g = add_entry e g" by (simp add: add_line_def Some)
  with parse_whole [OF Some] assms show ?thesis
    by (cases e) (auto simp: add_entry_def g intro: on [rule_format] whole_add_range whole_add_event)
qed (use assms in \<open>simp add: add_line_def\<close>)

lemma read_data_whole: "t \<in> set (snd (read_data txt)) \<Longrightarrow> whole t"
proof -
  have lines: "\<forall>t \<in> set (snd (fold add_line ls g)). whole t" if "\<forall>t \<in> set (snd g). whole t" for ls g
    using that
  proof (induction ls arbitrary: g)
    case (Cons l ls)
    from Cons.IH [OF add_line_whole [OF Cons.prems]] show ?case by simp
  qed simp
  have "\<forall>t \<in> set (snd (fold add_line (readlines txt) ([], []))). whole t" by (rule lines) simp
  moreover have "whole (sort_timeline t)" if "whole t" for t
    using that by (auto simp: whole_def sort_timeline_def sort_ranges_key sort_events_key)
  ultimately show "t \<in> set (snd (read_data txt)) \<Longrightarrow> whole t"
    by (auto simp: read_data_def sort_timelines_def split: prod.splits)
qed

lemma widen_whole:
  assumes "\<forall>b \<in> set bs. fst b \<in> \<nat> \<and> snd b \<in> \<nat>" and "h \<in> \<nat>"
  shows "\<exists>h' \<in> \<nat>. fold widen bs (0, h) = (0, h')"
  using assms
proof (induction bs arbitrary: h)
  case (Cons b bs)
  then have "0 \<le> fst b" by (auto elim: Nats_cases)
  then have "widen b (0, h) = (0, if snd b > h then snd b else h)" by (cases b) (auto simp: widen_def)
  with Cons show ?case by auto
qed auto

lemma whole_bounds:
  assumes "\<And>t. t \<in> set ts \<Longrightarrow> whole t"
  shows "\<exists>u. timelines_bounds ts = (0, of_nat u)"
proof -
  have "\<exists>h \<in> \<nat>. timeline_bounds t = (0, h)" if "whole t" for t
  proof -
    have "dr_start (hd ds) \<in> \<nat> \<and> dr_end (last ds) \<in> \<nat>" if "\<forall>d \<in> set ds. whole_range d" "ds \<noteq> []" for ds
      using that hd_in_set last_in_set by (auto simp: whole_range_def)
    moreover have "ev_at (hd es) \<in> \<nat> \<and> ev_at (last es) \<in> \<nat>" if "\<forall>e \<in> set es. ev_at e \<in> \<nat>" "es \<noteq> []" for es
      using that by simp
    ultimately have "fst (range_bounds ds) \<in> \<nat> \<and> snd (range_bounds ds) \<in> \<nat>" if "\<forall>d \<in> set ds. whole_range d" for ds
      using that by (simp add: range_bounds_def)
    moreover have "fst (event_bounds es) \<in> \<nat> \<and> snd (event_bounds es) \<in> \<nat>" if "\<forall>e \<in> set es. ev_at e \<in> \<nat>" for es
      using that by (simp add: event_bounds_def)
    ultimately show ?thesis
      unfolding timeline_bounds_def using that by (intro widen_whole) (auto simp: whole_def)
  qed
  then have "fst (timeline_bounds t) \<in> \<nat> \<and> snd (timeline_bounds t) \<in> \<nat>" if "t \<in> set ts" for t
    using assms [OF that] by fastforce
  then have "\<forall>b \<in> set (map timeline_bounds ts). fst b \<in> \<nat> \<and> snd b \<in> \<nat>" by simp
  from widen_whole [OF this, of 0] show ?thesis by (auto simp: timelines_bounds_def elim: Nats_cases)
qed

section \<open>The first picture\<close>

lemma first_range:
  assumes "gr_data g = Some d" and "gr_legend g = Some lg" and "gr_start g = 0" and "gr_end g = of_nat u"
    and "sc_lo (gr_bot g) = I 0" and "sc_hi (gr_bot g) = I (int u)" and "default_range 0 (int u) = (lo, hi)"
  shows "if u = 1 then set_range ext (I lo) (I hi) g = Inl ZeroDivisionError
    else \<exists>g' a b. set_range ext (I lo) (I hi) g = Inr g' \<and> gr_range g' = Some (a, b) \<and> val a = of_int lo \<and> val b = of_int hi"
proof -
  have range: "0 \<le> lo" "lo \<le> hi" "hi \<le> int u" "even (hi - lo)"
    using assms(7) by (auto simp: default_range_def Let_def)
  define a where "a = num_max (F (gr_start g)) (I lo)"
  define b where "b = num_min (F (gr_end g)) (I hi)"
  have minmax: "num_min (I lo) (I hi) = I lo" "num_max (I lo) (I hi) = I hi"
    using range by (auto simp: num_min_def num_max_def)
  have vals: "val a = of_int lo" "val b = of_int hi"
    using range assms(3,4) by (simp_all add: a_def b_def max_absorb2 min_absorb2)
  let ?g = "g\<lparr>gr_range := Some (a, b), gr_data := Some (set_render_range (of_int lo) (of_int hi) d),
              gr_mid := set_bounds a b (gr_mid g)\<rparr>"
  have step: "set_range ext (I lo) (I hi) g = layout ext (gr_width g) (gr_height g) ?g"
    by (simp only: set_range_def Let_def minmax a_def [symmetric] b_def [symmetric] assms(1) attr.simps rbind.simps vals)
  have "hi - lo \<noteq> 1" using range(4) by (metis odd_one)
  then have "of_int hi - of_int lo \<noteq> (1 :: rat)" by (metis of_int_1 of_int_diff of_int_eq_iff)
  with layout_result [of ?g "set_render_range (of_int lo) (of_int hi) d" lg ext "gr_width g" "gr_height g"] assms(2,5,6) vals step
  show ?thesis by (auto simp: set_bounds_def)
qed

text \<open>What \<open>main\<close> shows at first.  The picture begins at 0 and ends at the last time.  With more than six values that have no
  colour of their own it raises, and so it does for data that end at 1; in every other case the range shown is the middle tenth of
  the data.\<close>

theorem main_starts:
  "\<exists>u. timelines_bounds (snd (read_data txt)) = (0, of_nat u)
     \<and> (if 6 < length (unnamed \<lparr>color_map = fst (read_data txt), default_colors = default_color_list\<rparr>
                         (all_range_values (snd (read_data txt))))
        then main_graphic ext txt = Inl IndexError
        else if u = 1 then main_graphic ext txt = Inl ZeroDivisionError
        else \<exists>g a b. main_graphic ext txt = Inr g \<and> gr_range g = Some (a, b)
               \<and> val a = of_nat (u div 2 - u div 10 div 2) \<and> val b = of_nat (u div 2 + u div 10 div 2))"
proof -
  obtain named ts where data: "read_data txt = (named, ts)" by (cases "read_data txt")
  with read_data_whole [of _ "txt"] whole_bounds [of ts] obtain u where u: "timelines_bounds ts = (0, of_nat u)" by auto
  let ?cs = "\<lparr>color_map = named, default_colors = default_color_list\<rparr>" and ?names = "all_range_values ts"
  have six: "length default_color_list = 6" by (simp add: default_color_list_def)
  note look = lookup_all_spec [OF distinct_range_values, of ts ?cs]
  show ?thesis
  proof (cases "6 < length (unnamed ?cs ?names)")
    case True
    with look have "lookup_all ?names ?cs = Inl IndexError" by (simp add: six)
    with True show ?thesis by (auto simp: main_graphic_def data u)
  next
    case False
    with look obtain cols cs where cs: "lookup_all ?names ?cs = Inr (cols, cs)" by (simp add: six Let_def)
    define g where "g = set_data (set_timelines ts cs new_renderer)
      (set_top_legend (set_legends ?names cols new_legend) (new_graphic 0 (int u)))"
    obtain lo hi where dr: "default_range 0 (int u) = (lo, hi)" by fastforce
    then have lohi: "lo = int (u div 2 - u div 10 div 2)" "hi = int (u div 2 + u div 10 div 2)"
      by (auto simp: default_range_def Let_def zdiv_int of_nat_diff)
    have main: "main_graphic ext txt = set_range ext (I lo) (I hi) g"
      by (simp add: main_graphic_def data u cs Let_def dr g_def)
    have "\<exists>d lg. gr_data g = Some d \<and> gr_legend g = Some lg" by (simp add: g_def set_data_def set_top_legend_def)
    then obtain d lg where "gr_data g = Some d" "gr_legend g = Some lg" by blast
    from first_range [OF this _ _ _ _ dr, of ext] False show ?thesis
      by (auto simp: data u main lohi g_def set_data_def set_top_legend_def new_graphic_def set_bounds_def split: if_splits)
  qed
qed

end
