(* ===== verification/Flowmon.thy ===== *)
theory Flowmon
  imports Testpy_Translate Complex_Main
begin

text \<open>
  \<^verbatim>\<open>src/flow-monitor/examples/flowmon-parse-results.py\<close>: the measures of the flows in a file of the flow monitor.
  Floats are rationals; the format \<^verbatim>\<open>%.2f\<close> is a parameter.  The file is its tree of elements, the progress line is
  left out.
\<close>

section \<open>Numbers in attributes\<close>

definition signed :: "string \<Rightarrow> bool \<times> string" where
  "signed s = (case s of c # t \<Rightarrow> if c = CHR ''-'' then (True, t) else if c = CHR ''+'' then (False, t) else (False, s)
               | [] \<Rightarrow> (False, []))"

text \<open>A sign, blanks and digits, as \<open>int\<close> takes them; \<open>long\<close> also takes a final \<^verbatim>\<open>L\<close>.\<close>

definition int_text :: "string \<Rightarrow> py_exn + int" where
  "int_text s =
     (let (neg, t) = signed s; ds = dropWhile is_space t
      in if ds \<noteq> [] \<and> list_all is_digit ds then Inr (if neg then - int (digits_val ds) else int (digits_val ds))
         else Inl ValueError)"

definition py_int :: "string option \<Rightarrow> py_exn + int" where
  "py_int s = (case s of None \<Rightarrow> Inl TypeError | Some s \<Rightarrow> int_text (strip s))"

definition py_long :: "string option \<Rightarrow> py_exn + int" where
  "py_long s =
     (case s of
        None \<Rightarrow> Inl TypeError
      | Some s \<Rightarrow>
          let t = strip s in int_text (if t \<noteq> [] \<and> last t \<in> {CHR ''L'', CHR ''l''} then butlast t else t))"

text \<open>\<open>float\<close> of a decimal number; the words for infinities and for no number are refused.\<close>

definition exponent :: "string \<Rightarrow> int option" where
  "exponent s =
     (case s of
        [] \<Rightarrow> Some 0
      | c # t \<Rightarrow>
          let (neg, ds) = signed t
          in if c \<in> {CHR ''e'', CHR ''E''} \<and> ds \<noteq> [] \<and> list_all is_digit ds
             then Some (if neg then - int (digits_val ds) else int (digits_val ds)) else None)"

definition float_text :: "string \<Rightarrow> py_exn + rat" where
  "float_text s =
     (let (neg, t) = signed s;
          whole = takeWhile is_digit t; rest = dropWhile is_digit t;
          (frac, rest) = (case rest of
             c # u \<Rightarrow> if c = CHR ''.'' then (takeWhile is_digit u, dropWhile is_digit u) else ([], rest)
           | [] \<Rightarrow> ([], []));
          m = of_nat (digits_val (whole @ frac)) / 10 ^ length frac
      in case exponent rest of
           Some e \<Rightarrow>
             if whole @ frac = [] then Inl ValueError
             else Inr ((if neg then - 1 else 1) * (if 0 \<le> e then m * 10 ^ nat e else m / 10 ^ nat (- e)))
         | None \<Rightarrow> Inl ValueError)"

definition py_float :: "string option \<Rightarrow> py_exn + rat" where
  "py_float s = (case s of None \<Rightarrow> Inl TypeError | Some s \<Rightarrow> float_text (strip s))"

definition get :: "xml \<Rightarrow> string \<Rightarrow> string option" where
  "get el name = dget (attrs el) name"

text \<open>\<^verbatim>\<open>el.get(name)[:-4]\<close>\<close>

definition cut4 :: "string option \<Rightarrow> py_exn + string option" where
  "cut4 s = (case s of None \<Rightarrow> Inl TypeError | Some s \<Rightarrow> Inr (Some (slice_to s (- 4))))"

definition parse_time_ns :: "string option \<Rightarrow> py_exn + int" where
  "parse_time_ns tm =
     (case tm of
        None \<Rightarrow> Inl AttributeError
      | Some s \<Rightarrow>
          if startswith (rev s) (rev ''ns'') then rbind (cut4 tm) py_long else Inl ValueError)"

section \<open>Flows\<close>

record five_tuple =
  source_address :: "string option"
  destination_address :: "string option"
  protocol :: int
  source_port :: int
  destination_port :: int

definition new_five_tuple :: "xml \<Rightarrow> py_exn + five_tuple" where
  "new_five_tuple el =
     rbind (py_int (get el ''sourcePort'')) (\<lambda>sp. rbind (py_int (get el ''destinationPort'')) (\<lambda>dp.
     rbind (py_int (get el ''protocol'')) (\<lambda>p.
       Inr \<lparr>source_address = get el ''sourceAddress'', destination_address = get el ''destinationAddress'',
            protocol = p, source_port = sp, destination_port = dp\<rparr>)))"

type_synonym histogram = "(rat \<times> rat \<times> int) list"

definition new_histogram :: "xml \<Rightarrow> py_exn + histogram" where
  "new_histogram el =
     mapM (\<lambda>bin. rbind (py_float (get bin ''start'')) (\<lambda>s. rbind (py_float (get bin ''width'')) (\<lambda>w.
            rbind (py_int (get bin ''count'')) (\<lambda>n. Inr (s, w, n))))) (findall ''bin'' el)"

record probe_flow_stats =
  probe_id :: int
  ps_packets :: int
  ps_bytes :: int
  delay_from_first_probe :: rat

text \<open>The attribute \<open>fiveTuple\<close> is set later or never.\<close>

record flow =
  flow_id :: int
  delay_mean :: "rat option"
  packet_loss_ratio :: "rat option"
  rx_bitrate :: "rat option"
  tx_bitrate :: "rat option"
  five :: "five_tuple option"
  packet_size_mean :: "rat option"
  probe_stats_unsorted :: "probe_flow_stats list"
  hop_count :: rat
  interruptions :: "histogram option"
  rx_duration :: rat

definition duration :: "xml \<Rightarrow> string \<Rightarrow> string \<Rightarrow> py_exn + rat" where
  "duration el later earlier =
     rbind (rbind (cut4 (get el later)) py_long) (\<lambda>b. rbind (rbind (cut4 (get el earlier)) py_long) (\<lambda>a.
       Inr (of_int (b - a) / 10 ^ 9)))"

definition per_packet :: "py_exn + rat \<Rightarrow> int \<Rightarrow> py_exn + rat option" where
  "per_packet amount packets = (if packets \<noteq> 0 then rbind amount (\<lambda>t. Inr (Some (t / of_int packets))) else Inr None)"

definition bitrate :: "string option \<Rightarrow> rat \<Rightarrow> py_exn + rat option" where
  "bitrate bytes t = (if t > 0 then rbind (py_long bytes) (\<lambda>n. Inr (Some (of_int (n * 8) / t))) else Inr None)"

definition loss_ratio :: "rat \<Rightarrow> int \<Rightarrow> py_exn + rat option" where
  "loss_ratio lost rx =
     (if rx = 0 then Inr None
      else if of_int rx + lost = 0 then Inl ZeroDivisionError else Inr (Some (lost / (of_int rx + lost))))"

definition interruptions_of :: "xml \<Rightarrow> py_exn + histogram option" where
  "interruptions_of el =
     (case xfind ''flowInterruptionsHistogram'' el of
        None \<Rightarrow> Inr None | Some h \<Rightarrow> rbind (new_histogram h) (\<lambda>b. Inr (Some b)))"

definition new_flow :: "xml \<Rightarrow> py_exn + flow" where
  "new_flow el =
     rbind (py_int (get el ''flowId'')) (\<lambda>i.
     rbind (py_long (get el ''rxPackets'')) (\<lambda>rx. rbind (py_long (get el ''txPackets'')) (\<lambda>tx.
     rbind (duration el ''timeLastTxPacket'' ''timeFirstTxPacket'') (\<lambda>tx_duration.
     rbind (duration el ''timeLastRxPacket'' ''timeFirstRxPacket'') (\<lambda>rx_duration.
     rbind (per_packet (py_float (get el ''timesForwarded'')) rx) (\<lambda>hops.
     rbind (per_packet (rbind (cut4 (get el ''delaySum'')) py_float) rx) (\<lambda>delay.
     rbind (per_packet (py_float (get el ''rxBytes'')) rx) (\<lambda>size.
     rbind (bitrate (get el ''rxBytes'') rx_duration) (\<lambda>rx_rate.
     rbind (bitrate (get el ''txBytes'') tx_duration) (\<lambda>tx_rate.
     rbind (py_float (get el ''lostPackets'')) (\<lambda>lost. rbind (loss_ratio lost rx) (\<lambda>ratio.
     rbind (interruptions_of el) (\<lambda>hist.
       Inr \<lparr>flow_id = i, delay_mean = map_option (\<lambda>d. d / 10 ^ 9) delay, packet_loss_ratio = ratio,
            rx_bitrate = rx_rate, tx_bitrate = tx_rate, five = None, packet_size_mean = size,
            probe_stats_unsorted = [], hop_count = (case hops of None \<Rightarrow> - 1000 | Some h \<Rightarrow> h + 1),
            interruptions = hist, rx_duration = rx_duration\<rparr>)))))))))))))"

section \<open>Simulations\<close>

text \<open>The list of flows and \<open>flow_map\<close>, the place of the last flow with an identifier.\<close>

type_synonym flows = "flow list \<times> (int, nat) dict"

definition add_flow :: "flow \<Rightarrow> flows \<Rightarrow> flows" where
  "add_flow f fs = (fst fs @ [f], dset (flow_id f) (length (fst fs)) (snd fs))"

definition change_flow :: "int \<Rightarrow> (flow \<Rightarrow> flow) \<Rightarrow> flows \<Rightarrow> py_exn + flows" where
  "change_flow i f fs =
     (case dget (snd fs) i of None \<Rightarrow> Inl KeyError | Some n \<Rightarrow> Inr ((fst fs)[n := f (fst fs ! n)], snd fs))"

definition read_flow :: "xml \<Rightarrow> flows \<Rightarrow> py_exn + flows" where
  "read_flow el fs = rbind (new_flow el) (\<lambda>f. Inr (add_flow f fs))"

text \<open>The value is computed before the flow is looked up.\<close>

definition classify :: "xml \<Rightarrow> flows \<Rightarrow> py_exn + flows" where
  "classify el fs =
     rbind (py_int (get el ''flowId'')) (\<lambda>i. rbind (new_five_tuple el) (\<lambda>t.
       change_flow i (\<lambda>f. f\<lparr>five := Some t\<rparr>) fs))"

definition add_stats :: "int \<Rightarrow> xml \<Rightarrow> flows \<Rightarrow> py_exn + flows" where
  "add_stats probe stats fs =
     rbind (py_int (get stats ''flowId'')) (\<lambda>i. rbind (py_int (get stats ''packets'')) (\<lambda>n.
     rbind (py_long (get stats ''bytes'')) (\<lambda>b.
     rbind (if n > 0 then rbind (parse_time_ns (get stats ''delayFromFirstProbeSum'')) (\<lambda>t. Inr (of_int t / of_int n))
            else Inr 0) (\<lambda>d.
       change_flow i (\<lambda>f. f\<lparr>probe_stats_unsorted := probe_stats_unsorted f
           @ [\<lparr>probe_id = probe, ps_packets = n, ps_bytes = b, delay_from_first_probe = d\<rparr>]\<rparr>) fs))))"

definition read_probe :: "xml \<Rightarrow> flows \<Rightarrow> py_exn + flows" where
  "read_probe el fs = rbind (py_int (get el ''index'')) (\<lambda>i. foldM (add_stats i) (findall ''FlowStats'' el) fs)"

definition new_simulation :: "xml \<Rightarrow> py_exn + flow list" where
  "new_simulation el =
     (case findall ''Ipv4FlowClassifier'' el of
        [c] \<Rightarrow>
          rbind (foldM read_flow (concat (map (findall ''Flow'') (findall ''FlowStats'' el))) ([], [])) (\<lambda>fs.
          rbind (foldM classify (findall ''Flow'' c) fs) (\<lambda>fs.
          rbind (foldM read_probe (concat (map (findall ''FlowProbe'') (findall ''FlowProbes'' el))) fs) (\<lambda>fs.
            Inr (fst fs))))
      | _ \<Rightarrow> Inl ValueError)"

section \<open>The report\<close>

datatype parse_event = Start xml | End xml

text \<open>What \<open>iterparse\<close> yields for an element.\<close>

function events :: "xml \<Rightarrow> parse_event list" where
  "events (Elem t as txt ks) = Start (Elem t as txt ks) # concat (map events ks) @ [End (Elem t as txt ks)]"
  by pat_completeness auto
termination by (relation "measure size") (auto simp: less_Suc_eq_le size_list_estimation')

fun read_events :: "int \<Rightarrow> parse_event list \<Rightarrow> py_exn + flow list list" where
  "read_events level [] = Inr []"
| "read_events level (Start e # evs) = read_events (level + 1) evs"
| "read_events level (End e # evs) =
     (if level - 1 = 0 \<and> xtag e = ''FlowMonitor''
      then rbind (new_simulation e) (\<lambda>s. rbind (read_events (level - 1) evs) (\<lambda>ss. Inr (s # ss)))
      else read_events (level - 1) evs)"

definition measure_line :: "(rat \<Rightarrow> string) \<Rightarrow> string \<Rightarrow> rat \<Rightarrow> string \<Rightarrow> rat option \<Rightarrow> string" where
  "measure_line fmt name factor unit m =
     CHR 0x09 # name @ '': '' @ (case m of None \<Rightarrow> ''None'' | Some q \<Rightarrow> fmt (q * factor) @ unit)"

definition proto_name :: "int \<Rightarrow> py_exn + string" where
  "proto_name p = (if p = 6 then Inr ''TCP'' else if p = 17 then Inr ''UDP'' else Inl KeyError)"

definition flow_report :: "(rat \<Rightarrow> string) \<Rightarrow> flow \<Rightarrow> py_exn + string list" where
  "flow_report fmt f =
     (case five f of
        None \<Rightarrow> Inl AttributeError
      | Some t \<Rightarrow> rbind (proto_name (protocol t)) (\<lambda>proto.
          Inr [''FlowID: '' @ int_str (flow_id f) @ '' ('' @ proto @ '' '' @ shown (source_address t) @ ''/''
                 @ int_str (source_port t) @ '' --> '' @ shown (destination_address t) @ ''/''
                 @ int_str (destination_port t) @ '')'',
               measure_line fmt ''TX bitrate'' (1 / 1000) '' kbit/s'' (tx_bitrate f),
               measure_line fmt ''RX bitrate'' (1 / 1000) '' kbit/s'' (rx_bitrate f),
               measure_line fmt ''Mean Delay'' 1000 '' ms'' (delay_mean f),
               measure_line fmt ''Packet Loss Ratio'' 100 '' %'' (packet_loss_ratio f)]))"

definition flowmon_main :: "(rat \<Rightarrow> string) \<Rightarrow> xml \<Rightarrow> py_exn + string list" where
  "flowmon_main fmt document =
     rbind (read_events 0 (events document)) (\<lambda>sims.
     rbind (mapM (mapM (flow_report fmt)) sims) (\<lambda>out. Inr (concat (concat out))))"

section \<open>Reading what the flow monitor writes\<close>

text \<open>A double as a C++ stream prints it: the digits of \<open>mantissa\<close> with \<open>decimals\<close> of them behind the point, and an exponent of at
  least two digits when there is one.\<close>

record decimal =
  mantissa :: nat
  decimals :: nat
  scale :: "int option"

fun low_digits :: "nat \<Rightarrow> nat \<Rightarrow> string" where
  "low_digits 0 m = []"
| "low_digits (Suc k) m = low_digits k (m div 10) @ [digit_char (m mod 10)]"

definition scale_str :: "int option \<Rightarrow> string" where
  "scale_str e =
     (case e of
        None \<Rightarrow> []
      | Some e \<Rightarrow> CHR ''e'' # (if e < 0 then CHR ''-'' else CHR ''+'')
          # (if \<bar>e\<bar> < 10 then ''0'' else []) @ nat_str (nat \<bar>e\<bar>))"

definition decimal_str :: "decimal \<Rightarrow> string" where
  "decimal_str d =
     nat_str (mantissa d div 10 ^ decimals d)
     @ (if decimals d = 0 then [] else CHR ''.'' # low_digits (decimals d) (mantissa d)) @ scale_str (scale d)"

definition decimal_val :: "decimal \<Rightarrow> rat" where
  "decimal_val d =
     (let m = of_nat (mantissa d) / 10 ^ decimals d; e = (case scale d of None \<Rightarrow> 0 | Some e \<Rightarrow> e)
      in if 0 \<le> e then m * 10 ^ nat e else m / 10 ^ nat (- e))"

text \<open>\<open>Histogram::SerializeToXmlStream\<close>: the bins that are not empty.  \<open>pr\<close> is the number printed for a double.\<close>

record bins =
  bin_width :: rat
  counts :: "nat list"

definition written_bin :: "(rat \<Rightarrow> decimal) \<Rightarrow> bins \<Rightarrow> nat \<Rightarrow> xml" where
  "written_bin pr h i = Elem ''bin''
     [(''index'', nat_str i), (''start'', decimal_str (pr (of_nat i * bin_width h))),
      (''width'', decimal_str (pr (bin_width h))), (''count'', nat_str (counts h ! i))] None []"

definition filled :: "bins \<Rightarrow> nat list" where
  "filled h = [i \<leftarrow> [0..<length (counts h)]. counts h ! i \<noteq> 0]"

definition written_histogram :: "(rat \<Rightarrow> decimal) \<Rightarrow> string \<Rightarrow> bins \<Rightarrow> xml" where
  "written_histogram pr name h =
     Elem name [(''nBins'', nat_str (length (counts h)))] None (map (written_bin pr h) (filled h))"

text \<open>\<open>FlowMonitor::SerializeToXmlStream\<close>: a time is a sign, the nanoseconds and a fraction.\<close>

record flow_stats =
  st_id :: nat
  first_tx :: nat
  first_rx :: nat
  last_tx :: nat
  last_rx :: nat
  delay_sum :: nat
  jitter_sum :: nat
  last_delay :: nat
  tx_bytes :: nat
  rx_bytes :: nat
  tx_packets :: nat
  rx_packets :: nat
  lost_packets :: nat
  times_forwarded :: nat
  packets_dropped :: "nat list"
  bytes_dropped :: "nat list"
  delay_bins :: bins
  jitter_bins :: bins
  packet_size_bins :: bins
  interruption_bins :: bins

definition time_str :: "nat \<Rightarrow> string" where
  "time_str n = CHR ''+'' # nat_str n @ ''.0ns''"

definition written_dropped :: "string \<Rightarrow> string \<Rightarrow> nat list \<Rightarrow> xml list" where
  "written_dropped t number ns =
     map (\<lambda>i. Elem t [(''reasonCode'', nat_str i), (number, nat_str (ns ! i))] None []) [0..<length ns]"

definition written_flow :: "(rat \<Rightarrow> decimal) \<Rightarrow> bool \<Rightarrow> flow_stats \<Rightarrow> xml" where
  "written_flow pr histograms st = Elem ''Flow''
     [(''flowId'', nat_str (st_id st)), (''timeFirstTxPacket'', time_str (first_tx st)),
      (''timeFirstRxPacket'', time_str (first_rx st)), (''timeLastTxPacket'', time_str (last_tx st)),
      (''timeLastRxPacket'', time_str (last_rx st)), (''delaySum'', time_str (delay_sum st)),
      (''jitterSum'', time_str (jitter_sum st)), (''lastDelay'', time_str (last_delay st)),
      (''txBytes'', nat_str (tx_bytes st)), (''rxBytes'', nat_str (rx_bytes st)),
      (''txPackets'', nat_str (tx_packets st)), (''rxPackets'', nat_str (rx_packets st)),
      (''lostPackets'', nat_str (lost_packets st)), (''timesForwarded'', nat_str (times_forwarded st))] None
     (written_dropped ''packetsDropped'' ''number'' (packets_dropped st)
      @ written_dropped ''bytesDropped'' ''bytes'' (bytes_dropped st)
      @ (if histograms
         then [written_histogram pr ''delayHistogram'' (delay_bins st),
               written_histogram pr ''jitterHistogram'' (jitter_bins st),
               written_histogram pr ''packetSizeHistogram'' (packet_size_bins st),
               written_histogram pr ''flowInterruptionsHistogram'' (interruption_bins st)]
         else []))"

lemma digit_not: "is_digit c \<Longrightarrow> c \<notin> {CHR ''-'', CHR ''+'', CHR ''.'', CHR ''L'', CHR ''l'', CHR ''e'', CHR ''E''} \<and> \<not> is_space c"
  by (auto simp: is_digit_def is_space_def)

lemma nat_str_ends: "is_digit (hd (nat_str n))" "is_digit (last (nat_str n))"
  using nat_str_digits [of n] by (auto simp: list_all_iff simp del: nat_str_digits)

lemma strip_number [simp]: "strip (nat_str n) = nat_str n" "strip (CHR ''+'' # nat_str n) = CHR ''+'' # nat_str n"
proof -
  from nat_str_ends [of n] digit_not show "strip (nat_str n) = nat_str n" by (intro strip_id) blast
  have "\<not> is_space (CHR ''+'')" by (simp add: is_space_def)
  moreover from nat_str_ends(2) [of n] digit_not have "\<not> is_space (last (nat_str n))" by blast
  ultimately show "strip (CHR ''+'' # nat_str n) = CHR ''+'' # nat_str n" by (intro strip_id) simp
qed

lemma signed_number [simp]: "signed (nat_str n) = (False, nat_str n)" "signed (CHR ''+'' # s) = (False, s)"
proof -
  obtain c t where "nat_str n = c # t" by (cases "nat_str n") auto
  with nat_str_ends(1) [of n] digit_not [of c] show "signed (nat_str n) = (False, nat_str n)" by (simp add: signed_def)
qed (simp add: signed_def)

lemma digits_whole [simp]: "takeWhile is_digit (nat_str n) = nat_str n" "dropWhile is_digit (nat_str n) = []"
  "dropWhile is_space (nat_str n) = nat_str n"
proof -
  obtain c t where "nat_str n = c # t" by (cases "nat_str n") auto
  with nat_str_ends(1) [of n] digit_not [of c] show "dropWhile is_space (nat_str n) = nat_str n" by simp
qed (use nat_str_digits [of n] in \<open>simp_all add: list_all_iff takeWhile_eq_all_conv dropWhile_eq_Nil_conv del: nat_str_digits\<close>)

lemma int_text_number [simp]: "int_text (nat_str n) = Inr (int n)" "int_text (CHR ''+'' # nat_str n) = Inr (int n)"
  by (simp_all add: int_text_def Let_def del: dropWhile_eq_Nil_conv)

lemma float_text_number [simp]: "float_text (nat_str n) = Inr (of_nat n)" "float_text (CHR ''+'' # nat_str n) = Inr (of_nat n)"
  by (simp_all add: float_text_def exponent_def)

lemma py_number [simp]:
  "py_int (Some (nat_str n)) = Inr (int n)" "py_float (Some (nat_str n)) = Inr (of_nat n)"
  "py_float (Some (CHR ''+'' # nat_str n)) = Inr (of_nat n)"
  "py_long (Some (nat_str n)) = Inr (int n)" "py_long (Some (CHR ''+'' # nat_str n)) = Inr (int n)"
  using digit_not [OF nat_str_ends(2) [of n]] by (simp_all add: py_int_def py_float_def py_long_def)

lemma cut4_time [simp]: "cut4 (Some (time_str n)) = Inr (Some (CHR ''+'' # nat_str n))"
proof -
  have "nat (1 + int (length (nat_str n))) = Suc (length (nat_str n))" by simp
  then show ?thesis by (simp add: cut4_def time_str_def slice_to_def clamp_index_def)
qed

lemma low_digits_simps [simp]:
  "length (low_digits k m) = k" "list_all is_digit (low_digits k m)" "digits_val (ds @ low_digits k m) = digits_val ds * 10 ^ k + m mod 10 ^ k"
proof -
  show "length (low_digits k m) = k" by (induction k m rule: low_digits.induct) simp_all
  show "list_all is_digit (low_digits k m)" by (induction k m rule: low_digits.induct) simp_all
  show "digits_val (ds @ low_digits k m) = digits_val ds * 10 ^ k + m mod 10 ^ k"
  proof (induction k m rule: low_digits.induct)
    case (2 k m)
    have "10 * (m div 10 mod 10 ^ k) + m mod 10 = m mod 10 ^ Suc k" by (simp add: mod_mult2_eq)
    with 2 show ?case
      by (simp add: digits_val_snoc algebra_simps flip: append_assoc)
  qed simp
qed

lemma scale_str_props: "exponent (scale_str e) = Some (case e of None \<Rightarrow> 0 | Some e \<Rightarrow> e)"
  "takeWhile is_digit (scale_str e) = []" "dropWhile is_digit (scale_str e) = scale_str e"
  "hd (scale_str e @ [CHR ''e'']) = CHR ''e''"
proof -
  have "digits_val (CHR ''0'' # nat_str n) = n" for n
    using digits_val_nat_str [of n] by (simp add: digits_val_def)
  moreover have "is_digit (CHR ''0'')" by (simp add: is_digit_def)
  ultimately show "exponent (scale_str e) = Some (case e of None \<Rightarrow> 0 | Some e \<Rightarrow> e)"
    by (auto simp: exponent_def scale_str_def signed_def split: option.splits)
  show "takeWhile is_digit (scale_str e) = []" "dropWhile is_digit (scale_str e) = scale_str e"
    "hd (scale_str e @ [CHR ''e'']) = CHR ''e''"
    by (simp_all add: scale_str_def is_digit_def split: option.splits)
qed

lemma take_digits: "list_all is_digit ds \<Longrightarrow> takeWhile is_digit (ds @ s) = ds @ takeWhile is_digit s"
  "list_all is_digit ds \<Longrightarrow> dropWhile is_digit (ds @ s) = dropWhile is_digit s"
  by (induction ds) simp_all

lemma float_text_parts:
  assumes "signed t = (False, t)" and "takeWhile is_digit t = whole" and "whole \<noteq> []"
    and "dropWhile is_digit t = (if fs = [] then [] else CHR ''.'' # fs) @ scale_str e" and "list_all is_digit fs"
  shows "float_text t = Inr (let m = of_nat (digits_val (whole @ fs)) / 10 ^ length fs; e = (case e of None \<Rightarrow> 0 | Some e \<Rightarrow> e)
      in if 0 \<le> e then m * 10 ^ nat e else m / 10 ^ nat (- e))"
proof -
  have ex: "exponent (scale_str e) = Some (case e of None \<Rightarrow> 0 | Some e \<Rightarrow> e)" by (rule scale_str_props(1))
  have dot: "scale_str e = c # u \<Longrightarrow> c \<noteq> CHR ''.''" for c u
    by (auto simp: scale_str_def split: option.splits)
  have rest: "(case dropWhile is_digit t of
             c # u \<Rightarrow> if c = CHR ''.'' then (takeWhile is_digit u, dropWhile is_digit u) else ([], dropWhile is_digit t)
           | [] \<Rightarrow> ([], [])) = (fs, scale_str e)"
  proof (cases "fs = []")
    case True
    with assms(4) dot show ?thesis by (auto split: list.splits)
  next
    case False
    with assms(4,5) show ?thesis by (simp add: take_digits scale_str_props)
  qed
  show ?thesis
    by (simp only: float_text_def assms(1,2) prod.case Let_def rest ex option.case append_is_Nil_conv assms(3) if_False) simp
qed

lemma float_text_decimal: "float_text (decimal_str d) = Inr (decimal_val d)"
proof -
  let ?n = "mantissa d div 10 ^ decimals d" and ?l = "low_digits (decimals d) (mantissa d)"
  obtain c t where w: "nat_str ?n = c # t" by (cases "nat_str ?n") auto
  with nat_str_ends(1) [of ?n] digit_not [of c]
  have "signed (decimal_str d) = (False, decimal_str d)" by (simp add: signed_def decimal_str_def)
  moreover have dot: "\<not> is_digit (CHR ''.'')" by (simp add: is_digit_def)
  moreover have "?l = [] \<longleftrightarrow> decimals d = 0" using low_digits_simps(1) [of "decimals d" "mantissa d"] by (metis length_0_conv)
  ultimately have "float_text (decimal_str d) = Inr (let m = of_nat (digits_val (nat_str ?n @ ?l)) / 10 ^ length ?l;
      e = (case scale d of None \<Rightarrow> 0 | Some e \<Rightarrow> e) in if 0 \<le> e then m * 10 ^ nat e else m / 10 ^ nat (- e))"
    by (intro float_text_parts) (auto simp: decimal_str_def take_digits scale_str_props)
  moreover have "digits_val (nat_str ?n @ ?l) = mantissa d" by (simp only: low_digits_simps(3) digits_val_nat_str div_mult_mod_eq)
  ultimately show ?thesis by (simp only: low_digits_simps(1) decimal_val_def Let_def)
qed

lemma py_float_decimal: "py_float (Some (decimal_str d)) = Inr (decimal_val d)"
proof -
  have "\<not> is_space (hd (decimal_str d))"
    using nat_str_ends(1) digit_not by (simp add: decimal_str_def)
  moreover have "\<not> is_space (last (decimal_str d))"
  proof -
    have "low_digits k m \<noteq> [] \<and> is_digit (last (low_digits k m))" if "k \<noteq> 0" for k m
      using that low_digits_simps(1,2) [of k m] by (metis last_in_set length_0_conv list_all_iff)
    then have "is_digit (last (decimal_str d))"
      using nat_str_ends(2) by (auto simp: decimal_str_def scale_str_def split: option.splits)
    with digit_not show ?thesis by blast
  qed
  ultimately have "strip (decimal_str d) = decimal_str d" by (intro strip_id) blast+
  then show ?thesis by (simp add: py_float_def float_text_decimal)
qed

lemma written_histogram_read:
  "new_histogram (written_histogram pr name h) =
     Inr (map (\<lambda>i. (decimal_val (pr (of_nat i * bin_width h)), decimal_val (pr (bin_width h)), int (counts h ! i))) (filled h))"
proof -
  have "findall ''bin'' (written_histogram pr name h) = map (written_bin pr h) (filled h)"
    by (simp add: findall_def written_histogram_def written_bin_def filter_id_conv)
  moreover have "mapM (\<lambda>bin. rbind (py_float (get bin ''start'')) (\<lambda>s. rbind (py_float (get bin ''width'')) (\<lambda>w.
            rbind (py_int (get bin ''count'')) (\<lambda>n. Inr (s, w, n))))) (map (written_bin pr h) is)
      = Inr (map (\<lambda>i. (decimal_val (pr (of_nat i * bin_width h)), decimal_val (pr (bin_width h)), int (counts h ! i))) is)" for "is"
    by (induction "is") (simp_all add: written_bin_def get_def py_float_decimal)
  ultimately show ?thesis by (simp add: new_histogram_def)
qed

lemma find_append: "List.find P (xs @ ys) = (case List.find P xs of None \<Rightarrow> List.find P ys | Some x \<Rightarrow> Some x)"
  by (induction xs) simp_all

lemma interruptions_written:
  "interruptions_of (written_flow pr histograms st) = Inr
     (if histograms
      then Some (map (\<lambda>i. (decimal_val (pr (of_nat i * bin_width (interruption_bins st))), decimal_val (pr (bin_width (interruption_bins st))),
                    int (counts (interruption_bins st) ! i))) (filled (interruption_bins st)))
      else None)"
proof -
  have none: "List.find (\<lambda>c. xtag c = ''flowInterruptionsHistogram'') (written_dropped t number ns) = None"
    if "t \<noteq> ''flowInterruptionsHistogram''" for t number ns
    using that by (auto simp: written_dropped_def find_None_iff)
  have tag: "xtag (written_histogram pr name h) = name" for name h by (simp add: written_histogram_def)
  have "xfind ''flowInterruptionsHistogram'' (written_flow pr histograms st)
      = (if histograms then Some (written_histogram pr ''flowInterruptionsHistogram'' (interruption_bins st)) else None)"
    by (simp add: xfind_def written_flow_def find_append none tag)
  then show ?thesis by (simp add: interruptions_of_def written_histogram_read)
qed

text \<open>C17.  A flow written by the flow monitor, with or without its histograms, is read back: all its numbers are found, no
  exception is raised, and the measures are those of the numbers written.  The histogram of the interruptions has the start, the
  width and the count of every bin that is not empty, in order, as the numbers printed for them.  The loss ratio of a flow of which
  something has arrived is between 0 and 1; a flow of which nothing has arrived has no loss ratio, even if all its packets are lost.\<close>

theorem flow_as_written:
  "\<exists>f. new_flow (written_flow pr histograms st) = Inr f \<and> flow_id f = int (st_id st)
    \<and> interruptions f =
        (if histograms
         then Some (map (\<lambda>i. (decimal_val (pr (of_nat i * bin_width (interruption_bins st))),
                              decimal_val (pr (bin_width (interruption_bins st))),
                              int (counts (interruption_bins st) ! i)))
                      [i \<leftarrow> [0..<length (counts (interruption_bins st))]. counts (interruption_bins st) ! i \<noteq> 0])
         else None)
    \<and> rx_duration f = (of_nat (last_rx st) - of_nat (first_rx st)) / 10 ^ 9
    \<and> tx_bitrate f = (if first_tx st < last_tx st
          then Some (8 * of_nat (tx_bytes st) / ((of_nat (last_tx st) - of_nat (first_tx st)) / 10 ^ 9)) else None)
    \<and> rx_bitrate f = (if first_rx st < last_rx st
          then Some (8 * of_nat (rx_bytes st) / ((of_nat (last_rx st) - of_nat (first_rx st)) / 10 ^ 9)) else None)
    \<and> (if rx_packets st = 0
       then delay_mean f = None \<and> packet_size_mean f = None \<and> packet_loss_ratio f = None \<and> hop_count f = - 1000
       else delay_mean f = Some (of_nat (delay_sum st) / of_nat (rx_packets st) / 10 ^ 9)
          \<and> packet_size_mean f = Some (of_nat (rx_bytes st) / of_nat (rx_packets st))
          \<and> hop_count f = of_nat (times_forwarded st) / of_nat (rx_packets st) + 1
          \<and> (\<exists>q. packet_loss_ratio f = Some q \<and> 0 \<le> q \<and> q < 1
               \<and> q = of_nat (lost_packets st) / (of_nat (rx_packets st) + of_nat (lost_packets st))))"
proof -
  have get: "get (written_flow pr histograms st) ''flowId'' = Some (nat_str (st_id st))"
    "get (written_flow pr histograms st) ''rxPackets'' = Some (nat_str (rx_packets st))"
    "get (written_flow pr histograms st) ''txPackets'' = Some (nat_str (tx_packets st))"
    "get (written_flow pr histograms st) ''timesForwarded'' = Some (nat_str (times_forwarded st))"
    "get (written_flow pr histograms st) ''lostPackets'' = Some (nat_str (lost_packets st))"
    "get (written_flow pr histograms st) ''rxBytes'' = Some (nat_str (rx_bytes st))"
    "get (written_flow pr histograms st) ''txBytes'' = Some (nat_str (tx_bytes st))"
    "get (written_flow pr histograms st) ''delaySum'' = Some (time_str (delay_sum st))"
    "get (written_flow pr histograms st) ''timeFirstTxPacket'' = Some (time_str (first_tx st))"
    "get (written_flow pr histograms st) ''timeLastTxPacket'' = Some (time_str (last_tx st))"
    "get (written_flow pr histograms st) ''timeFirstRxPacket'' = Some (time_str (first_rx st))"
    "get (written_flow pr histograms st) ''timeLastRxPacket'' = Some (time_str (last_rx st))"
    by (simp_all add: get_def written_flow_def)
  have rate: "bitrate (Some (nat_str n)) ((of_nat b - of_nat a) / 1000000000)
    = Inr (if a < b then Some (8 * of_nat n / ((of_nat b - of_nat a) / 10 ^ 9)) else None)" for n a b
    by (simp add: bitrate_def)
  have ratio: "loss_ratio (of_nat l) (int n) = Inr (if n = 0 then None else Some (of_nat l / (of_nat n + of_nat l)))" for l n
    by (auto simp: loss_ratio_def simp flip: of_nat_add)
  have mean: "per_packet (Inr q) (int n) = Inr (if n = 0 then None else Some (q / of_nat n))" for q n
    by (simp add: per_packet_def)
  let ?rx = "rx_packets st"
  have "0 \<le> q \<and> q < 1" if "?rx \<noteq> 0" "q = of_nat (lost_packets st) / (of_nat ?rx + of_nat (lost_packets st))" for q :: rat
    using that by (simp add: divide_less_eq_1)
  then show ?thesis
    by (simp add: new_flow_def get duration_def mean rate ratio interruptions_written filled_def)
qed

definition no_bins :: bins where
  "no_bins = \<lparr>bin_width = 1 / 1000, counts = []\<rparr>"

definition small_stats :: "nat \<Rightarrow> flow_stats" where
  "small_stats n = \<lparr>st_id = n, first_tx = 0, first_rx = 1, last_tx = 8, last_rx = 9, delay_sum = 6, jitter_sum = 2, last_delay = 1,
      tx_bytes = 8, rx_bytes = 6, tx_packets = 4, rx_packets = 3, lost_packets = 1, times_forwarded = 6,
      packets_dropped = [0, 1], bytes_dropped = [0, 2], delay_bins = no_bins, jitter_bins = no_bins, packet_size_bins = no_bins,
      interruption_bins = \<lparr>bin_width = 1 / 4, counts = [0, 0, 3, 1]\<rparr>\<rparr>"

text \<open>Numbers with two decimals, rounded down.\<close>

definition two_decimals :: "rat \<Rightarrow> decimal" where
  "two_decimals q = \<lparr>mantissa = nat \<lfloor>q * 100\<rfloor>, decimals = 2, scale = None\<rparr>"

theorem flow_as_written_witness:
  "\<exists>f. new_flow (written_flow two_decimals True (small_stats 3)) = Inr f \<and> hop_count f = 3 \<and> packet_loss_ratio f = Some (1 / 4)
    \<and> interruptions f = Some [(1 / 2, 1 / 4, 3), (3 / 4, 1 / 4, 1)]"
proof -
  have "decimal_val (two_decimals (1 / 4)) = 1 / 4" "decimal_val (two_decimals (1 / 2)) = 1 / 2" "decimal_val (two_decimals (3 / 4)) = 3 / 4"
    by (simp_all add: decimal_val_def two_decimals_def)
  with flow_as_written [of two_decimals True "small_stats 3"]
  show ?thesis by (auto simp: small_stats_def upt_conv_Cons numeral_eq_Suc)
qed

section \<open>Flows and their identifiers\<close>

definition indexed :: "flows \<Rightarrow> bool" where
  "indexed fs \<longleftrightarrow> (\<forall>i n. dget (snd fs) i = Some n \<longrightarrow> n < length (fst fs) \<and> flow_id (fst fs ! n) = i)"

text \<open>What an operation on flows leaves alone.\<close>

definition same_flows :: "(flow \<Rightarrow> 'a) \<Rightarrow> flows \<Rightarrow> flows \<Rightarrow> bool" where
  "same_flows p fs fs' \<longleftrightarrow> snd fs' = snd fs \<and> map p (fst fs') = map p (fst fs)"

lemma same_flows_refl [simp]: "same_flows p fs fs"
  by (simp add: same_flows_def)

lemma same_flows_trans: "same_flows p fs fs' \<Longrightarrow> same_flows p fs' fs'' \<Longrightarrow> same_flows p fs fs''"
  by (simp add: same_flows_def)

lemma same_flows_index: "same_flows flow_id fs fs' \<Longrightarrow> indexed fs \<Longrightarrow> indexed fs'"
  unfolding indexed_def same_flows_def by (metis length_map nth_map)

lemma change_flow_same:
  assumes "change_flow i f fs = Inr fs'" and "\<And>x. p (f x) = p x"
  shows "same_flows p fs fs'"
proof -
  from assms(1) obtain n where "fs' = ((fst fs)[n := f (fst fs ! n)], snd fs)"
    by (auto simp: change_flow_def split: option.splits)
  moreover have "map p ((fst fs)[n := f (fst fs ! n)]) = map p (fst fs)"
    by (cases "n < length (fst fs)") (simp_all add: map_update assms(2) list_update_same_conv list_update_beyond)
  ultimately show ?thesis by (simp add: same_flows_def)
qed

lemma foldM_same:
  assumes "\<And>x fs fs'. g x fs = Inr fs' \<Longrightarrow> same_flows p fs fs'" and "foldM g xs fs = Inr fs'"
  shows "same_flows p fs fs'"
  using assms(2) by (induction xs arbitrary: fs) (auto intro: same_flows_trans assms(1))

lemma read_probe_same:
  assumes "\<And>f s. p (f\<lparr>probe_stats_unsorted := s\<rparr>) = p f" and "read_probe el fs = Inr fs'"
  shows "same_flows p fs fs'"
proof -
  from assms(2) obtain i where "foldM (add_stats i) (findall ''FlowStats'' el) fs = Inr fs'"
    by (auto simp: read_probe_def)
  moreover have "same_flows p fs1 fs2" if step: "add_stats i x fs1 = Inr fs2" for x fs1 fs2
  proof -
    from step obtain k s where "change_flow k (\<lambda>f. f\<lparr>probe_stats_unsorted := probe_stats_unsorted f @ [s]\<rparr>) fs1 = Inr fs2"
      by (auto simp: add_stats_def simp del: split_paired_Ex)
    then show ?thesis by (rule change_flow_same) (rule assms(1))
  qed
  ultimately show ?thesis using foldM_same [of "add_stats i" p] by blast
qed

lemma read_flows:
  assumes "foldM read_flow els fs = Inr fs'" and "indexed fs" and "\<forall>f \<in> set (fst fs). five f = None"
  shows "indexed fs' \<and> (\<forall>f \<in> set (fst fs'). five f = None)"
  using assms
proof (induction els arbitrary: fs)
  case (Cons el els)
  from Cons.prems(1) obtain fs1 where step: "read_flow el fs = Inr fs1" and rest: "foldM read_flow els fs1 = Inr fs'"
    by (auto simp del: split_paired_Ex)
  from step obtain f where f: "new_flow el = Inr f" and fs1: "fs1 = add_flow f fs"
    by (auto simp: read_flow_def)
  from f have "five f = None" by (auto simp: new_flow_def)
  with Cons.prems have "\<forall>f \<in> set (fst (add_flow f fs)). five f = None" by (simp add: add_flow_def)
  moreover have "indexed (add_flow f fs)"
    using Cons.prems(2) by (auto simp: indexed_def add_flow_def nth_append split: if_splits intro: less_SucI)
  ultimately show ?case using Cons.IH [OF rest] by (simp add: fs1)
qed simp

text \<open>The tuple the last of these elements with the identifier gives.\<close>

fun last_tuple :: "int \<Rightarrow> xml list \<Rightarrow> five_tuple option \<Rightarrow> five_tuple option" where
  "last_tuple i [] t = t"
| "last_tuple i (c # cs) t =
     last_tuple i cs (if py_int (get c ''flowId'') = Inr i
       then case new_five_tuple c of Inr u \<Rightarrow> Some u | Inl e \<Rightarrow> t else t)"

lemma classify_step:
  assumes "classify c fs = Inr fs'" and "indexed fs"
  shows "\<exists>m t. m < length (fst fs) \<and> py_int (get c ''flowId'') = Inr (flow_id (fst fs ! m)) \<and> new_five_tuple c = Inr t
    \<and> fs' = ((fst fs)[m := (fst fs ! m)\<lparr>five := Some t\<rparr>], snd fs)" and "same_flows flow_id fs fs'"
proof -
  from assms(1) obtain i t where c: "py_int (get c ''flowId'') = Inr i" "new_five_tuple c = Inr t"
    and step: "change_flow i (\<lambda>f. f\<lparr>five := Some t\<rparr>) fs = Inr fs'"
    by (auto simp: classify_def simp del: split_paired_Ex)
  from step obtain m where "dget (snd fs) i = Some m" "fs' = ((fst fs)[m := (fst fs ! m)\<lparr>five := Some t\<rparr>], snd fs)"
    by (auto simp: change_flow_def split: option.splits)
  with c assms(2) show "\<exists>m t. m < length (fst fs) \<and> py_int (get c ''flowId'') = Inr (flow_id (fst fs ! m)) \<and> new_five_tuple c = Inr t
      \<and> fs' = ((fst fs)[m := (fst fs ! m)\<lparr>five := Some t\<rparr>], snd fs)"
    by (auto simp: indexed_def)
  show "same_flows flow_id fs fs'" by (rule change_flow_same [OF step]) simp
qed

lemma classify_known:
  assumes "foldM classify cs fs = Inr fs'" and "indexed fs"
  shows "\<forall>c \<in> set cs. \<exists>i \<in> set (map flow_id (fst fs)). py_int (get c ''flowId'') = Inr i"
  using assms
proof (induction cs arbitrary: fs)
  case (Cons c cs)
  from Cons.prems(1) obtain fs1 where one: "classify c fs = Inr fs1" and rest: "foldM classify cs fs1 = Inr fs'"
    by (auto simp del: split_paired_Ex)
  note step = classify_step [OF one Cons.prems(2)]
  from Cons.IH [OF rest same_flows_index [OF step(2) Cons.prems(2)]] step(2)
  have "\<forall>c \<in> set cs. \<exists>i \<in> set (map flow_id (fst fs)). py_int (get c ''flowId'') = Inr i"
    by (simp only: same_flows_def)
  with step(1) show ?case by (auto intro: bexI [OF _ nth_mem])
qed simp

lemma classify_flows:
  assumes "foldM classify cs fs = Inr fs'" and "indexed fs" and "distinct (map flow_id (fst fs))" and "n < length (fst fs)"
  shows "five (fst fs' ! n) = last_tuple (flow_id (fst fs ! n)) cs (five (fst fs ! n))"
  using assms
proof (induction cs arbitrary: fs)
  case (Cons c cs)
  from Cons.prems(1) obtain fs1 where one: "classify c fs = Inr fs1" and rest: "foldM classify cs fs1 = Inr fs'"
    by (auto simp del: split_paired_Ex)
  note step = classify_step [OF one Cons.prems(2)]
  from step(1) obtain m t where m: "m < length (fst fs)" "py_int (get c ''flowId'') = Inr (flow_id (fst fs ! m))"
    "new_five_tuple c = Inr t" and fs1: "fs1 = ((fst fs)[m := (fst fs ! m)\<lparr>five := Some t\<rparr>], snd fs)" by blast
  have eq: "flow_id (fst fs ! m) = flow_id (fst fs ! n) \<longleftrightarrow> m = n"
    using m(1) Cons.prems(3,4) nth_eq_iff_index_eq [of "map flow_id (fst fs)" m n] by simp
  have ids: "map flow_id (fst fs1) = map flow_id (fst fs)" using step(2) by (simp add: same_flows_def)
  have len: "length (fst fs1) = length (fst fs)" by (simp add: fs1)
  have n: "flow_id (fst fs1 ! n) = flow_id (fst fs ! n)"
    "five (fst fs1 ! n) = (if m = n then Some t else five (fst fs ! n))"
    using m(1) by (auto simp: fs1 nth_list_update)
  have "five (fst fs' ! n) = last_tuple (flow_id (fst fs1 ! n)) cs (five (fst fs1 ! n))"
    by (rule Cons.IH [OF rest same_flows_index [OF step(2) Cons.prems(2)]]) (simp_all add: ids len Cons.prems)
  then show ?case by (simp add: n m(2,3) eq)
qed simp

text \<open>C18.  A simulation whose flows have different identifiers: each of its flows gets the addresses and ports of the last entry
  of the one IPv4 classifier for it, and none where there is no entry; every entry of the classifier is for one of the flows.\<close>

theorem simulation_tuples:
  assumes "new_simulation el = Inr fs" and "distinct (map flow_id fs)"
  shows "\<exists>c. findall ''Ipv4FlowClassifier'' el = [c]
    \<and> (\<forall>f \<in> set fs. five f = last_tuple (flow_id f) (findall ''Flow'' c) None)
    \<and> (\<forall>d \<in> set (findall ''Flow'' c). \<exists>f \<in> set fs. py_int (get d ''flowId'') = Inr (flow_id f))"
proof -
  from assms(1) obtain c where c: "findall ''Ipv4FlowClassifier'' el = [c]"
    by (auto simp: new_simulation_def split: list.splits)
  with assms(1) obtain fs1 fs2 fs3 where
    1: "foldM read_flow (concat (map (findall ''Flow'') (findall ''FlowStats'' el))) ([], []) = Inr fs1"
    and 2: "foldM classify (findall ''Flow'' c) fs1 = Inr fs2"
    and 3: "foldM read_probe (concat (map (findall ''FlowProbe'') (findall ''FlowProbes'' el))) fs2 = Inr fs3"
    and fs: "fs = fst fs3"
    by (auto simp: new_simulation_def)
  from read_flows [OF 1] have 4: "indexed fs1" "\<forall>f \<in> set (fst fs1). five f = None" by (auto simp: indexed_def)
  have 5: "same_flows p fs2 fs3" if "\<And>f s. p (f\<lparr>probe_stats_unsorted := s\<rparr>) = p f" for p :: "flow \<Rightarrow> 'z"
    by (rule foldM_same [OF _ 3], rule read_probe_same [OF that])
  have 5: "same_flows flow_id fs2 fs3" "same_flows five fs2 fs3" by (rule 5; simp)+
  have 6: "same_flows flow_id fs1 fs2"
    by (rule foldM_same [OF _ 2]) (auto simp: classify_def elim!: change_flow_same)
  have ids: "map flow_id fs = map flow_id (fst fs1)" using 5(1) 6 by (simp add: same_flows_def fs)
  have len: "length fs = length (fst fs1)" using ids by (rule map_eq_imp_length_eq)
  have "five f = last_tuple (flow_id f) (findall ''Flow'' c) None" if "f \<in> set fs" for f
  proof -
    from that obtain n where n: "n < length fs" "f = fs ! n" by (auto simp: in_set_conv_nth)
    have "five f = five (fst fs2 ! n)" "flow_id f = flow_id (fst fs1 ! n)"
      using n 5(2) ids len by (simp_all add: same_flows_def fs) (metis length_map nth_map)+
    with classify_flows [OF 2 4(1) assms(2) [unfolded ids], of n] n len 4(2) show ?thesis by simp
  qed
  moreover have "\<forall>d \<in> set (findall ''Flow'' c). \<exists>f \<in> set fs. py_int (get d ''flowId'') = Inr (flow_id f)"
    using classify_known [OF 2 4(1), folded ids] by simp
  ultimately show ?thesis using c by blast
qed

definition small_monitor :: xml where
  "small_monitor = Elem ''FlowMonitor'' [] None
     [Elem ''FlowStats'' [] None [written_flow two_decimals True (small_stats 1), written_flow two_decimals False (small_stats 2)],
      Elem ''Ipv4FlowClassifier'' [] None
        [Elem ''Flow'' [(''flowId'', ''1''), (''sourceAddress'', ''10.1.1.1''), (''destinationAddress'', ''10.1.1.2''),
           (''protocol'', ''17''), (''sourcePort'', ''7''), (''destinationPort'', ''9'')] None []]]"

lemma small_monitor_value: "map_sum id (map flow_id) (new_simulation small_monitor) = Inr [1, 2]"
  by code_simp

theorem simulation_tuples_witness:
  "\<exists>f1 f2. new_simulation small_monitor = Inr [f1, f2] \<and> map_option protocol (five f1) = Some 17 \<and> five f2 = None"
proof -
  obtain fs where fs: "new_simulation small_monitor = Inr fs" "map flow_id fs = [1, 2]"
    using small_monitor_value by (cases "new_simulation small_monitor") auto
  then obtain f1 f2 where f: "fs = [f1, f2]" "flow_id f1 = 1" "flow_id f2 = 2" by auto
  from simulation_tuples [OF fs(1)] fs(2) obtain c where c: "findall ''Ipv4FlowClassifier'' small_monitor = [c]"
    "five f1 = last_tuple 1 (findall ''Flow'' c) None" "five f2 = last_tuple 2 (findall ''Flow'' c) None" using f by auto
  have "map_option protocol (last_tuple 1 (findall ''Flow'' (hd (findall ''Ipv4FlowClassifier'' small_monitor))) None) = Some 17"
    "last_tuple 2 (findall ''Flow'' (hd (findall ''Ipv4FlowClassifier'' small_monitor))) None = None"
    by code_simp+
  with c f(1) fs(1) show ?thesis by simp
qed

section \<open>The whole report\<close>

lemma read_events_inside: "0 < level \<Longrightarrow> read_events level (events e @ evs) = read_events level evs"
proof (induction e arbitrary: level evs rule: events.induct)
  case (1 t as x ks)
  have kids: "read_events l (concat (map events ks') @ evs) = read_events l evs" if "0 < l" "set ks' \<subseteq> set ks" for l ks' evs
    using that(2)
  proof (induction ks')
    case (Cons k ks')
    with 1(1) [of k l] that(1) show ?case by simp
  qed simp
  from 1(2) show ?case by (simp add: kids)
qed

lemma read_document:
  "read_events 0 (events e) = (if xtag e = ''FlowMonitor'' then rbind (new_simulation e) (\<lambda>s. Inr [s]) else Inr [])"
proof (cases e)
  case (Elem t as x ks)
  have "read_events 1 (concat (map events ks') @ [End e]) = read_events 1 [End e]" for ks'
    by (induction ks') (simp_all add: read_events_inside)
  then show ?thesis by (simp add: Elem)
qed

lemma flow_report_ok:
  "(\<exists>t. five f = Some t \<and> protocol t \<in> {6, 17}) \<longleftrightarrow> (\<exists>ls. flow_report fmt f = Inr ls \<and> length ls = 5)"
  "flow_report fmt f = Inr ls \<Longrightarrow> length ls = 5"
  by (auto simp: flow_report_def proto_name_def split: option.splits if_splits)

lemma reports:
  "list_all2 (\<lambda>f l. flow_report fmt f = Inr l) fs ls \<longleftrightarrow>
     (\<forall>f \<in> set fs. \<exists>t. five f = Some t \<and> protocol t \<in> {6, 17})
   \<and> list_all2 (\<lambda>f l. flow_report fmt f = Inr l \<and> length l = 5) fs ls"
proof (induction fs arbitrary: ls)
  case (Cons f fs)
  show ?case
  proof (cases ls)
    case (Cons l ls')
    with flow_report_ok [where f = f and fmt = fmt] Cons.IH [of ls'] show ?thesis by (simp only: list_all2_Cons list.set ball_simps) blast
  qed simp
qed simp

text \<open>C36.  The report of a file.  It is about the root element only, when that is a \<^verbatim>\<open>FlowMonitor\<close>: elements of that name inside
  are not counted.  The script succeeds exactly when the simulation can be read and every one of its flows has an entry in the
  classifier, for TCP or UDP; then there are five lines for each flow, in the order of the file.\<close>

theorem report_complete:
  "flowmon_main fmt document = Inr out \<longleftrightarrow>
     (if xtag document = ''FlowMonitor''
      then \<exists>fs ls. new_simulation document = Inr fs \<and> (\<forall>f \<in> set fs. \<exists>t. five f = Some t \<and> protocol t \<in> {6, 17})
             \<and> list_all2 (\<lambda>f l. flow_report fmt f = Inr l \<and> length l = 5) fs ls \<and> out = concat ls
      else out = [])"
proof (cases "xtag document = ''FlowMonitor''")
  case True
  have "mapM (flow_report fmt) fs = Inr ls \<longleftrightarrow>
      (\<forall>f \<in> set fs. \<exists>t. five f = Some t \<and> protocol t \<in> {6, 17})
      \<and> list_all2 (\<lambda>f l. flow_report fmt f = Inr l \<and> length l = 5) fs ls" for fs ls
    unfolding mapM_Inr by (rule reports)
  moreover have "flowmon_main fmt document
      = rbind (new_simulation document) (\<lambda>fs. rbind (mapM (flow_report fmt) fs) (\<lambda>ls. Inr (concat ls)))"
  proof (cases "new_simulation document")
    case (Inr fs)
    with True show ?thesis by (cases "mapM (flow_report fmt) fs") (simp_all add: flowmon_main_def read_document)
  qed (simp add: flowmon_main_def read_document True)
  ultimately show ?thesis using True by (simp only: rbind_eq_Inr) auto
next
  case False
  then show ?thesis by (auto simp: flowmon_main_def read_document)
qed

definition one_monitor :: xml where
  "one_monitor = Elem ''FlowMonitor'' [] None
     [Elem ''FlowStats'' [] None [written_flow two_decimals True (small_stats 1)],
      Elem ''Ipv4FlowClassifier'' [] None
        [Elem ''Flow'' [(''flowId'', ''1''), (''sourceAddress'', ''10.1.1.1''), (''destinationAddress'', ''10.1.1.2''),
           (''protocol'', ''17''), (''sourcePort'', ''7''), (''destinationPort'', ''9'')] None []]]"

lemma one_monitor_value: "map_sum id (map flow_id) (new_simulation one_monitor) = Inr [1]"
  "map_sum id length (flowmon_main (\<lambda>_. ''0.00'') one_monitor) = Inr 5"
  by code_simp+

theorem report_complete_witness:
  "\<exists>f t out. flowmon_main (\<lambda>_. ''0.00'') one_monitor = Inr out \<and> length out = 5 \<and>
     new_simulation one_monitor = Inr [f] \<and> five f = Some t \<and> protocol t \<in> {6, 17}"
proof -
  obtain out where out: "flowmon_main (\<lambda>_. ''0.00'') one_monitor = Inr out" "length out = 5"
    using one_monitor_value(2) by (cases "flowmon_main (\<lambda>_. ''0.00'') one_monitor") auto
  moreover obtain f where f: "new_simulation one_monitor = Inr [f]"
    using one_monitor_value(1) by (cases "new_simulation one_monitor") auto
  moreover have "xtag one_monitor = ''FlowMonitor''" by (simp add: one_monitor_def)
  ultimately have "\<exists>t. five f = Some t \<and> protocol t \<in> {6, 17}"
    using report_complete [of "\<lambda>_. ''0.00''" one_monitor out] by auto
  with out f show ?thesis by blast
qed

end
