(* ===== verification/Wutils.thy ===== *)
theory Wutils
  imports Shellcmd Py_Path
begin

text \<open>
  \<^verbatim>\<open>wutils.py\<close>: how waf finds a program of the tree and runs it.  What waf knows (the programs, its environment and options)
  and what a process does are fields of the record \<open>waf\<close>.  Of the directives of \<^verbatim>\<open>%\<close> a command template has only
  \<^verbatim>\<open>%s\<close> and \<^verbatim>\<open>%%\<close>; others are refused.
\<close>

section \<open>What waf knows\<close>

record task_gen =
  tg_name :: string
  tg_is_program :: bool
  tg_path :: string
  tg_build_path :: string
  tg_target :: string

record waf =
  launch_dir :: string
  current_dir :: string
  all_task_gen :: "task_gen list"
  declared :: "task_gen \<Rightarrow> string"
  module_path :: "string list"
  executable_path :: "string list"
  valgrind_programs :: "string list"
  python_programs :: "string list"
  sys_platform :: string
  environ :: "(string, string) dict"
  pymoddir :: string
  pyvizdir :: string
  opt_template :: "string option"
  opt_valgrind :: bool
  opt_cwd_launch :: "string option"
  cwd_launch :: string
  signals :: "(string \<times> int) list"
  run_process :: "string list \<Rightarrow> (string, string) dict \<Rightarrow> string option \<Rightarrow> int \<times> string"

text \<open>What the functions raise: \<open>WafError\<close> with what its message is made of, or an exception of Python.\<close>

datatype waf_error =
    Program_not_found string "string list"
  | Conflicting_options
  | Valgrind_missing
  | Signalled "string list" string
  | Exited "string list" int
  | Raised py_exn

definition lifted :: "py_exn + 'a \<Rightarrow> waf_error + 'a" where
  "lifted r = (case r of Inl e \<Rightarrow> Inl (Raised e) | Inr x \<Rightarrow> Inr x)"

definition truthy :: "string option \<Rightarrow> bool" where
  "truthy s \<longleftrightarrow> s \<noteq> None \<and> s \<noteq> Some ''''"

definition get_command_template :: "waf \<Rightarrow> string list \<Rightarrow> string" where
  "get_command_template w arguments =
     fold (\<lambda>arg cmd. cmd @ '' '' @ arg) arguments (if truthy (opt_template w) then the (opt_template w) else ''%s'')"

section \<open>Finding a program\<close>

definition in_subtree :: "waf \<Rightarrow> task_gen \<Rightarrow> bool" where
  "in_subtree w obj \<longleftrightarrow> (let l = abspath (current_dir w) (launch_dir w)
     in startswith (tg_path obj) l \<or> startswith (tg_build_path obj) l)"

definition program_names :: "waf \<Rightarrow> task_gen \<Rightarrow> waf_error + string list" where
  "program_names w obj =
     rbind (lifted (relpath (current_dir w) (tg_path obj) (abspath (current_dir w) (launch_dir w)))) (\<lambda>rel.
       Inr [tg_name obj, path_join rel (tg_name obj)])"

fun find_among :: "waf \<Rightarrow> string \<Rightarrow> string list \<Rightarrow> task_gen list \<Rightarrow> waf_error + task_gen" where
  "find_among w program_name found [] = Inl (Program_not_found program_name found)"
| "find_among w program_name found (obj # objs) =
     (if \<not> tg_is_program obj \<or> \<not> in_subtree w obj then find_among w program_name found objs
      else rbind (program_names w obj) (\<lambda>names.
        if program_name \<in> set names then Inr obj else find_among w program_name (found @ names) objs))"

definition find_program :: "string \<Rightarrow> waf \<Rightarrow> waf_error + task_gen" where
  "find_program program_name w = find_among w program_name [] (all_task_gen w)"

section \<open>The environment of a process\<close>

definition pathsep :: "string \<Rightarrow> string" where
  "pathsep platform = (if platform = ''win32'' then '';'' else '':'')"

definition library_path_var :: "string \<Rightarrow> string" where
  "library_path_var platform =
     (if platform = ''linux2'' \<or> platform = ''linux'' then ''LD_LIBRARY_PATH''
      else if platform = ''darwin'' then ''DYLD_LIBRARY_PATH''
      else if platform = ''win32'' then ''PATH''
      else if platform = ''cygwin'' then ''PATH''
      else if startswith platform ''freebsd'' then ''LD_LIBRARY_PATH''
      else ''LD_LIBRARY_PATH'')"

definition prepend_paths :: "string \<Rightarrow> string list \<Rightarrow> string \<Rightarrow> (string, string) dict \<Rightarrow> (string, string) dict" where
  "prepend_paths sep dirs var env =
     (case dget env var of
        Some old \<Rightarrow> dset var (join sep (dirs @ [old])) env
      | None \<Rightarrow> dset var (join sep dirs) env)"

definition get_proc_env :: "waf \<Rightarrow> (string, string) dict option \<Rightarrow> (string, string) dict" where
  "get_proc_env w os_env =
     (let sep = pathsep (sys_platform w);
          proc_env = (case os_env of None \<Rightarrow> environ w | Some e \<Rightarrow> dict_update (environ w) e);
          proc_env = prepend_paths sep (module_path w) (library_path_var (sys_platform w)) proc_env;
          proc_env = prepend_paths sep [pymoddir w, pyvizdir w] ''PYTHONPATH'' proc_env
      in prepend_paths sep (executable_path w) ''PATH'' proc_env)"

section \<open>Running\<close>

text \<open>The name of a signal in \<open>vars(signal)\<close>, \<^verbatim>\<open>SIG_DFL\<close> and the like excluded.\<close>

definition signal_name :: "waf \<Rightarrow> int \<Rightarrow> string option" where
  "signal_name w retval =
     map_option fst (find (\<lambda>(name, v). length name > 3 \<and> take 3 name = ''SIG'' \<and> name ! 3 \<noteq> CHR ''_'' \<and> v = - retval) (signals w))"

definition check_retval :: "waf \<Rightarrow> string list \<Rightarrow> int \<Rightarrow> waf_error + int" where
  "check_retval w args retval =
     (if retval = 0 then Inr retval
      else case (if retval < 0 then signal_name w retval else None) of
             Some s \<Rightarrow> Inl (Signalled args s) | None \<Rightarrow> Inl (Exited args retval))"

text \<open>\<^verbatim>\<open>for line in stderrdata\<close>: the elements of a string are its characters.\<close>

definition leak_reported :: "string \<Rightarrow> bool" where
  "leak_reported stderrdata = list_ex (\<lambda>c. sublist ''== LEAK SUMMARY'' [c]) stderrdata"

definition run_argv ::
    "waf \<Rightarrow> string list \<Rightarrow> (string, string) dict option \<Rightarrow> string option \<Rightarrow> bool \<Rightarrow> waf_error + int" where
  "run_argv w args os_env dir force_no_valgrind =
     (let proc_env = get_proc_env w os_env
      in if opt_valgrind w \<and> \<not> force_no_valgrind then
           (if truthy (opt_template w) then Inl Conflicting_options
            else case valgrind_programs w of
                   [] \<Rightarrow> Inl Valgrind_missing
                 | v # _ \<Rightarrow>
                     let args = [v, ''--leak-check=full'', ''--show-reachable=yes'', ''--error-exitcode=1''] @ args;
                         (retval, stderrdata) = run_process w args proc_env dir;
                         retval = (if retval = 0 \<and> leak_reported stderrdata then 1 else retval)
                     in check_retval w args retval)
         else check_retval w args (fst (run_process w args proc_env dir)))"

text \<open>\<^verbatim>\<open>template % (x,)\<close>; \<open>None\<close> when the argument has been used.\<close>

fun format1 :: "string \<Rightarrow> string option \<Rightarrow> py_exn + string" where
  "format1 [] None = Inr []"
| "format1 [] (Some x) = Inl TypeError"
| "format1 [c] x = (if c = CHR 0x25 then Inl ValueError else rbind (format1 [] x) (\<lambda>r. Inr (c # r)))"
| "format1 (c # d # s) x =
     (if c \<noteq> CHR 0x25 then rbind (format1 (d # s) x) (\<lambda>r. Inr (c # r))
      else if d = CHR 0x25 then rbind (format1 s x) (\<lambda>r. Inr (CHR 0x25 # r))
      else if d = CHR ''s'' then
        (case x of None \<Rightarrow> Inl TypeError | Some y \<Rightarrow> rbind (format1 s None) (\<lambda>r. Inr (y @ r)))
      else Inl ValueError)"

definition double_backslashes :: "string \<Rightarrow> string" where
  "double_backslashes s = concat (map (\<lambda>c. if c = CHR 0x5C then [c, c] else [c]) s)"

definition get_run_program :: "waf \<Rightarrow> string \<Rightarrow> string option \<Rightarrow> waf_error + string \<times> string list" where
  "get_run_program w program_string command_template =
     (if command_template \<in> {None, Some ''%s''} then
        rbind (lifted (shlex_split program_string)) (\<lambda>args.
        rbind (lifted (py_get args 0)) (\<lambda>program_name.
        rbind (find_program program_name w) (\<lambda>obj. Inr (program_name, declared w obj # tl args))))
      else
        rbind (find_program program_string w) (\<lambda>obj.
        rbind (lifted (format1 (the command_template) (Some (declared w obj)))) (\<lambda>tmpl.
        rbind (lifted (shlex_split (double_backslashes tmpl))) (\<lambda>execvec. Inr (program_string, execvec)))))"

definition visual :: "bool \<Rightarrow> string list \<Rightarrow> string list" where
  "visual visualize execvec =
     (if visualize then execvec @ [''--SimulatorImplementationType=ns3::VisualSimulatorImpl''] else execvec)"

definition default_dir :: "waf \<Rightarrow> string" where
  "default_dir w = (if truthy (opt_cwd_launch w) then the (opt_cwd_launch w) else cwd_launch w)"

definition run_program :: "waf \<Rightarrow> string \<Rightarrow> string option \<Rightarrow> string option \<Rightarrow> bool \<Rightarrow> waf_error + int" where
  "run_program w program_string command_template dir visualize =
     rbind (get_run_program w program_string command_template) (\<lambda>(_, execvec).
       run_argv w (visual visualize execvec) None
         (Some (case dir of None \<Rightarrow> default_dir w | Some d \<Rightarrow> d)) False)"

definition run_python_program :: "waf \<Rightarrow> string \<Rightarrow> bool \<Rightarrow> waf_error + int" where
  "run_python_program w program_string visualize =
     rbind (lifted (shlex_split program_string)) (\<lambda>execvec.
     rbind (lifted (py_get (python_programs w) 0)) (\<lambda>python.
       run_argv w (python # visual visualize execvec) None (Some (default_dir w)) False))"

text \<open>The comprehension with its set \<open>seen\<close>.\<close>

fun uniquify_list :: "'a list \<Rightarrow> 'a list \<Rightarrow> 'a list" where
  "uniquify_list seen [] = []"
| "uniquify_list seen (x # xs) = (if x \<in> set seen then uniquify_list seen xs else x # uniquify_list (x # seen) xs)"

section \<open>Command templates\<close>

text \<open>A word the splitting of a command line leaves whole.\<close>

definition plain :: "string \<Rightarrow> bool" where
  "plain u \<longleftrightarrow> u \<noteq> [] \<and> list_all (\<lambda>c. \<not> shell_blank c \<and> \<not> is_quote c) u"

lemma double_append [simp]: "double_backslashes (u @ v) = double_backslashes u @ double_backslashes v"
  by (simp add: double_backslashes_def)

lemma double_simps [simp]: "double_backslashes [] = []"
  "double_backslashes (c # u) = (if c = CHR 0x5C then [c, c] else [c]) @ double_backslashes u"
  by (simp_all add: double_backslashes_def)

lemma special: "shell_blank (CHR '' '')" "\<not> shell_blank (CHR 0x5C)" "\<not> is_quote (CHR 0x5C)"
  by (simp_all add: shell_blank_def is_quote_def)

lemma lex_word:
  "list_all (\<lambda>c. \<not> shell_blank c \<and> \<not> is_quote c) u \<Longrightarrow> lex Word tok q (double_backslashes u @ s) = lex Word (tok @ u) q s"
  by (induction u arbitrary: tok) (simp_all add: special)

lemma lex_first: "plain u \<Longrightarrow> lex Blank [] False (double_backslashes u @ s) = lex Word u False s"
  using lex_word [of "tl u" "[hd u]" False s] by (cases u) (auto simp: plain_def special)

lemma lex_words:
  assumes "plain u" and "list_all plain us"
  shows "lex Blank [] False (double_backslashes (u @ concat (map (\<lambda>v. '' '' @ v) us))) = Inr (u # us)"
  using assms
proof (induction us arbitrary: u)
  case Nil
  with lex_first [of u "[]"] show ?case by (simp add: plain_def)
next
  case (Cons v us)
  then show ?case by (simp add: lex_first special) (simp add: plain_def)
qed

lemma format1_text: "list_all (\<lambda>c. c \<noteq> CHR 0x25) s \<Longrightarrow> format1 s None = Inr s"
proof (induction s)
  case (Cons c s)
  then show ?case by (cases s) simp_all
qed simp

lemma template_words:
  "get_command_template w arguments = (if truthy (opt_template w) then the (opt_template w) else ''%s'')
    @ concat (map (\<lambda>v. '' '' @ v) arguments)"
proof -
  have "fold (\<lambda>arg cmd. cmd @ '' '' @ arg) arguments t = t @ concat (map (\<lambda>v. '' '' @ v) arguments)" for t :: string
    by (induction arguments arbitrary: t) simp_all
  then show ?thesis by (simp add: get_command_template_def)
qed

text \<open>C19.  A program of the tree with arguments and no command template of the user: the template made of the arguments, with the path
  of the program put in and split as a command line, gives exactly the program and these arguments, backslashes included, as long as
  there are no blanks, quotes or percent signs in them.\<close>

theorem template_runs_program:
  assumes "\<not> truthy (opt_template w)" and "arguments \<noteq> []"
    and "list_all (\<lambda>a. plain a \<and> CHR 0x25 \<notin> set a) arguments" and "plain (declared w obj)"
    and "find_program name w = Inr obj"
  shows "get_run_program w name (Some (get_command_template w arguments)) = Inr (name, declared w obj # arguments)"
proof -
  let ?rest = "concat (map (\<lambda>v. '' '' @ v) arguments)"
  have words: "list_all plain arguments" using assms(3) by (simp add: list_all_iff)
  have "?rest \<noteq> []" using assms(2) by (cases arguments) simp_all
  then have tmpl: "get_command_template w arguments = CHR 0x25 # CHR ''s'' # ?rest" "?rest \<noteq> []"
    using assms(1) by (simp_all add: template_words)
  have "list_all (\<lambda>c. c \<noteq> CHR 0x25) ?rest"
    using assms(3) by (auto simp: list_all_iff)
  with format1_text [of ?rest] have "format1 (CHR 0x25 # CHR ''s'' # ?rest) (Some (declared w obj)) = Inr (declared w obj @ ?rest)"
    by simp
  moreover have "shlex_split (double_backslashes (declared w obj @ ?rest)) = Inr (declared w obj # arguments)"
    unfolding shlex_split_def by (rule lex_words [OF assms(4) words])
  ultimately show ?thesis
    using tmpl by (simp add: get_run_program_def assms(5) lifted_def)
qed

section \<open>Results of runs\<close>

lemma no_leak_reported [simp]: "\<not> leak_reported s"
  by (auto simp: leak_reported_def list_ex_iff dest!: sublist_length_le)

text \<open> A run returns only when the process ends with 0, and then it returns 0; under valgrind too, whatever valgrind has
  written: the test for a leak looks at single characters and never succeeds.\<close>

theorem run_argv_returns:
  "run_argv w args os_env dir force = Inr r \<longleftrightarrow>
     r = 0 \<and> (if opt_valgrind w \<and> \<not> force
       then \<not> truthy (opt_template w) \<and> valgrind_programs w \<noteq> []
         \<and> fst (run_process w ([hd (valgrind_programs w), ''--leak-check=full'', ''--show-reachable=yes'', ''--error-exitcode=1'']
             @ args) (get_proc_env w os_env) dir) = 0
       else fst (run_process w args (get_proc_env w os_env) dir) = 0)"
proof -
  have check: "check_retval w as n = Inr r \<longleftrightarrow> r = 0 \<and> n = 0" for as n
    by (auto simp: check_retval_def split: option.splits)
  show ?thesis
    by (auto simp: run_argv_def Let_def check split: list.splits prod.splits)
qed

section \<open>The environment\<close>

lemma dget_prepend:
  "dget (prepend_paths sep dirs var env) v =
     (if v = var then Some (join sep (dirs @ (case dget env var of None \<Rightarrow> [] | Some old \<Rightarrow> [old]))) else dget env v)"
  by (simp add: prepend_paths_def split: option.splits)

text \<open> The environment of a process: the variables given override those of the system, and three lists of directories are put
  before what their variables hold: the modules before the library path of the platform, the bindings and the visualizer before
  PYTHONPATH, the executables before PATH, where the library path is PATH too before the modules.  No other variable is changed.\<close>

theorem proc_env_variables:
  assumes "base = (\<lambda>v. case map_of (rev os_env) v of Some x \<Rightarrow> Some x | None \<Rightarrow> dget (environ w) v)"
    and "old = (\<lambda>v. case base v of None \<Rightarrow> [] | Some x \<Rightarrow> [x])" and "lib = library_path_var (sys_platform w)" and "sep = pathsep (sys_platform w)"
  shows "dget (get_proc_env w (Some os_env)) ''PYTHONPATH'' = Some (join sep ([pymoddir w, pyvizdir w] @ old ''PYTHONPATH''))
    \<and> dget (get_proc_env w (Some os_env)) ''PATH'' = Some (join sep (executable_path w
        @ (if lib = ''PATH'' then [join sep (module_path w @ old ''PATH'')] else old ''PATH'')))
    \<and> (lib \<noteq> ''PATH'' \<longrightarrow> dget (get_proc_env w (Some os_env)) lib = Some (join sep (module_path w @ old lib)))
    \<and> (\<forall>v. v \<notin> {''PATH'', ''PYTHONPATH'', lib} \<longrightarrow> dget (get_proc_env w (Some os_env)) v = base v)"
proof -
  have lib: "lib \<noteq> ''PYTHONPATH''" by (simp add: assms(3) library_path_var_def)
  have base: "dget (dict_update (environ w) os_env) v = base v" for v
    by (simp add: assms(1) dget_dict_update)
  show ?thesis
    using lib by (auto simp: get_proc_env_def Let_def dget_prepend base assms(2) assms(3,4) [symmetric])
qed

section \<open>An example\<close>

definition small_program :: task_gen where
  "small_program = \<lparr>tg_name = ''first'', tg_is_program = True, tg_path = ''/ns3/examples'', tg_build_path = ''/ns3/build/examples'',
     tg_target = ''first''\<rparr>"

definition small_waf :: waf where
  "small_waf = \<lparr>launch_dir = ''/ns3'', current_dir = ''/ns3'', all_task_gen = [small_program],
     declared = (\<lambda>t. tg_build_path t @ ''/'' @ tg_target t), module_path = [''/ns3/build''], executable_path = [''/ns3/bin''],
     valgrind_programs = [''valgrind''], python_programs = [''python3''], sys_platform = ''linux'', environ = [(''PATH'', ''/bin'')],
     pymoddir = ''/ns3/build/bindings'', pyvizdir = ''/ns3/viz'', opt_template = None, opt_valgrind = True, opt_cwd_launch = None,
     cwd_launch = ''/ns3'', signals = [(''SIGSEGV'', 11)], run_process = (\<lambda>_ _ _. (0, ''== LEAK SUMMARY''))\<rparr>"

theorem template_runs_program_witness:
  "get_run_program small_waf ''first'' (Some (get_command_template small_waf [''--n=3'', ''-v'']))
    = Inr (''first'', [''/ns3/build/examples/first'', ''--n=3'', ''-v''])"
proof -
  have "find_program ''first'' small_waf = Inr small_program" by code_simp
  from template_runs_program [OF _ _ _ _ this, of "[''--n=3'', ''-v'']"] show ?thesis
    by (simp add: small_waf_def small_program_def truthy_def plain_def shell_blank_def is_quote_def)
qed

theorem run_argv_returns_witness:
  "run_argv small_waf [''prog''] None None False = Inr 0"
  using run_argv_returns [of small_waf "[''prog'']" None None False 0]
  by (simp add: small_waf_def truthy_def)

theorem proc_env_variables_witness:
  "dget (get_proc_env small_waf (Some [(''HOME'', ''/root'')])) ''PATH'' = Some ''/ns3/bin:/bin''
   \<and> dget (get_proc_env small_waf (Some [(''HOME'', ''/root'')])) ''HOME'' = Some ''/root''"
  using proc_env_variables [OF refl refl refl refl, of small_waf "[(''HOME'', ''/root'')]"]
  by (simp add: small_waf_def library_path_var_def pathsep_def)

end
