(* ===== verification/Modulescan.thy ===== *)
theory Modulescan
  imports Topsort_Levels Py_Path "HOL-Library.List_Lexorder" "HOL-Library.Char_ord"
begin

text \<open>
  \<^verbatim>\<open>bindings/python/ns3modulescan.py\<close>: the annotations the scanner of the C++ headers gives to declarations, and the order
  and the sections of the modules, a client of \<open>topsort\<close>.  It is Python 2 code.  What pygccxml says of a declaration is the
  record \<open>scan_decl\<close>.
\<close>

section \<open>Annotations\<close>

datatype annotation = Text string | Nothing | Yes | Params "(string, (string, string) dict) dict"

type_synonym annotations = "(string, annotation) dict"

definition type_annotations :: "(string, annotations) dict" where
  "type_annotations =
     [(''::ns3::AttributeChecker'',
        [(''automatic_type_narrowing'', Text ''true''), (''allow_subclassing'', Text ''false'')]),
      (''::ns3::AttributeValue'',
        [(''automatic_type_narrowing'', Text ''true''), (''allow_subclassing'', Text ''false'')]),
      (''::ns3::CommandLine'',
        [(''allow_subclassing'', Text ''true'')]),
      (''::ns3::NscTcpL4Protocol'',
        [(''ignore'', Text ''true'')]),
      (''ns3::RandomVariable::RandomVariable(ns3::RandomVariableBase const & variable) [constructor]'',
        [(''ignore'', Nothing)]),
      (''ns3::RandomVariableBase * ns3::RandomVariable::Peek() const [member function]'',
        [(''ignore'', Nothing)]),
      (''void ns3::RandomVariable::GetSeed(uint32_t * seed) const [member function]'',
        [(''params'', Params [(''seed'', [(''direction'', ''out''), (''array_length'', ''6'')])])]),
      (''bool ns3::TypeId::LookupAttributeByName(std::string name, ns3::TypeId::AttributeInformation * info) const [member function]'',
        [(''params'', Params [(''info'', [(''transfer_ownership'', ''false'')])])]),
      (''static bool ns3::TypeId::LookupByNameFailSafe(std::string name, ns3::TypeId * tid) [member function]'',
        [(''ignore'', Nothing)]),
      (''bool ns3::TraceSourceAccessor::ConnectWithoutContext(ns3::ObjectBase * obj, ns3::CallbackBase const & cb) const [member function]'',
        [(''params'', Params [(''obj'', [(''transfer_ownership'', ''false'')])])]),
      (''bool ns3::TraceSourceAccessor::Connect(ns3::ObjectBase * obj, std::string context, ns3::CallbackBase const & cb) const [member function]'',
        [(''params'', Params [(''obj'', [(''transfer_ownership'', ''false'')])])]),
      (''bool ns3::TraceSourceAccessor::DisconnectWithoutContext(ns3::ObjectBase * obj, ns3::CallbackBase const & cb) const [member function]'',
        [(''params'', Params [(''obj'', [(''transfer_ownership'', ''false'')])])]),
      (''bool ns3::TraceSourceAccessor::Disconnect(ns3::ObjectBase * obj, std::string context, ns3::CallbackBase const & cb) const [member function]'',
        [(''params'', Params [(''obj'', [(''transfer_ownership'', ''false'')])])]),
      (''bool ns3::AttributeAccessor::Set(ns3::ObjectBase * object, ns3::AttributeValue const & value) const [member function]'',
        [(''params'', Params [(''object'', [(''transfer_ownership'', ''false'')])])]),
      (''ns3::EmpiricalVariable::EmpiricalVariable(ns3::RandomVariableBase const & variable) [constructor]'',
        [(''ignore'', Nothing)]),
      (''static ns3::AttributeList * ns3::AttributeList::GetGlobal() [member function]'',
        [(''caller_owns_return'', Text ''false'')]),
      (''void ns3::CommandLine::Parse(int argc, char * * argv) const [member function]'',
        [(''ignore'', Nothing)]),
      (''extern void ns3::PythonCompleteConstruct(ns3::Ptr<ns3::Object> object, ns3::TypeId typeId, ns3::AttributeList const & attributes) [free function]'',
        [(''ignore'', Nothing)]),
      (''ns3::Ptr<ns3::Ipv4RoutingProtocol> ns3::Ipv4ListRouting::GetRoutingProtocol(uint32_t index, int16_t & priority) const [member function]'',
        [(''params'', Params [(''priority'', [(''direction'', ''out'')])])]),
      (''ns3::Ipv4RoutingTableEntry * ns3::GlobalRouter::GetInjectedRoute(uint32_t i) [member function]'',
        [(''params'', Params [(''return'', [(''caller_owns_return'', ''false'')])])]),
      (''ns3::Ipv4RoutingTableEntry * ns3::Ipv4GlobalRouting::GetRoute(uint32_t i) const [member function]'',
        [(''params'', Params [(''return'', [(''caller_owns_return'', ''false'')])])]),
      (''::ns3::TestCase'',
        [(''ignore'', Text ''true'')]),
      (''::ns3::TestRunner'',
        [(''ignore'', Text ''true'')]),
      (''::ns3::TestSuite'',
        [(''ignore'', Text ''true'')])]"

section \<open>The path of a header\<close>

text \<open>\<^verbatim>\<open>os.path.join(*l)\<close>\<close>

definition join_all :: "string list \<Rightarrow> py_exn + string" where
  "join_all l = (case l of [] \<Rightarrow> Inl TypeError | p # ps \<Rightarrow> Inr (fold (\<lambda>b a. path_join a b) ps p))"

text \<open>The loop need not end: \<open>None\<close> is a loop that goes on for ever.\<close>

partial_function (option) relative_loop :: "string \<Rightarrow> string list \<Rightarrow> (py_exn + string) option" where
  "relative_loop p l =
     (if p = [] then Some (Inl AssertionError)
      else if snd (path_split p) = ''ns3'' then Some (join_all l)
      else relative_loop (fst (path_split p)) (snd (path_split p) # l))"

definition get_ns3_relative_path :: "string \<Rightarrow> (py_exn + string) option" where
  "get_ns3_relative_path path = relative_loop path []"

section \<open>pre\_scan\_hook\<close>

datatype decl_kind = Class | Enumeration | Free_function | Member_function | Constructor | Other_callable | Other_declaration

record scan_decl =
  dl_kind :: decl_kind
  dl_name :: string
  dl_parent :: string
  dl_decl_string :: string
  dl_str :: string
  dl_template_args :: "string list"
  dl_file :: string
  dl_defaults :: "string option list"

text \<open>The two dictionaries the hook fills, the table, which it changes, and the declaration, whose default values it corrects.\<close>

record scan =
  global_annotations :: annotations
  parameter_annotations :: "(string, (string, string) dict) dict"
  table :: "(string, annotations) dict"
  scanned :: scan_decl

definition annotate :: "string \<Rightarrow> annotation \<Rightarrow> scan \<Rightarrow> scan" where
  "annotate k v s = s\<lparr>global_annotations := dset k v (global_annotations s)\<rparr>"

definition is_method :: "string \<Rightarrow> scan_decl \<Rightarrow> bool" where
  "is_method parent d \<longleftrightarrow> dl_kind d = Member_function \<and> dl_parent d = parent"

definition method_annotations :: "scan \<Rightarrow> scan" where
  "method_annotations s =
     (let d = scanned s;
          s = (if is_method ''Object'' d \<and> dl_name d = ''GetObject'' \<and> dl_template_args d = [''ns3::Object'']
               then annotate ''template_instance_names'' (Text ''ns3::Object=>GetObject'') s else s);
          s = (if is_method ''Simulator'' d \<and> startswith (dl_name d) ''Schedule'' then annotate ''ignore'' Nothing s else s)
      in if is_method ''Simulator'' d \<and> dl_name d = ''Run'' then annotate ''ignore'' Yes s else s)"

definition fix_default :: "string option \<Rightarrow> string option" where
  "fix_default v =
     (if v = Some ''ns3::MilliSeconds( )'' then Some ''ns3::MilliSeconds(0)''
      else if v = Some ''ns3::Seconds( )'' then Some ''ns3::Seconds(0)'' else v)"

definition callable :: "scan_decl \<Rightarrow> bool" where
  "callable d \<longleftrightarrow> dl_kind d \<in> {Free_function, Member_function, Constructor, Other_callable}"

definition fix_defaults :: "scan \<Rightarrow> scan" where
  "fix_defaults s =
     (if callable (scanned s) then s\<lparr>scanned := (scanned s)\<lparr>dl_defaults := map fix_default (dl_defaults (scanned s))\<rparr>\<rparr> else s)"

text \<open>The part for classes; all its ends are ends of the hook, for a class is no function.\<close>

definition class_annotations :: "scan \<Rightarrow> scan" where
  "class_annotations s =
     (let n = dl_decl_string (scanned s)
      in if startswith n ''::ns3::SimpleRefCount<''
         then annotate ''automatic_type_narrowing'' (Text ''true'') (annotate ''peekref_method'' (Text ''GetReferenceCount'')
                (annotate ''decref_method'' (Text ''Unref'') (annotate ''incref_method'' (Text ''Ref'') s)))
         else if startswith n ''::ns3::Callback<'' then annotate ''ignore'' Nothing s
         else if startswith n ''::ns3::TracedCallback<'' then annotate ''ignore'' Nothing s
         else if startswith n ''::ns3::Ptr<'' then annotate ''ignore'' Nothing s
         else case dget (table s) n of
                None \<Rightarrow> s
              | Some as \<Rightarrow> s\<lparr>global_annotations := dict_update (global_annotations s) as\<rparr>)"

text \<open>The loop over the items of the entry deletes \<open>params\<close> from the entry itself, and so from the table.\<close>

definition function_annotations :: "scan \<Rightarrow> scan" where
  "function_annotations s =
     (let d = scanned s
      in if dl_kind d = Free_function \<and> dl_name d = ''PeekPointer'' then annotate ''ignore'' Nothing s
         else if dl_kind d \<in> {Free_function, Member_function, Constructor} then
           (case dget (table s) (dl_str d) of
              None \<Rightarrow> s
            | Some as \<Rightarrow>
                let s = (case dget as ''params'' of
                           Some (Params ps) \<Rightarrow>
                             s\<lparr>parameter_annotations := dict_update (parameter_annotations s) ps,
                               table := dset (dl_str d) (ddel ''params'' as) (table s)\<rparr>
                         | _ \<Rightarrow> s)
                in s\<lparr>global_annotations := dict_update (global_annotations s) (ddel ''params'' as)\<rparr>)
         else s)"

definition pre_scan_hook :: "scan \<Rightarrow> (py_exn + scan) option" where
  "pre_scan_hook s =
     map_option (\<lambda>r. rbind r (\<lambda>ns3_header.
       let s = annotate ''pygen_comment'' (Text (ns3_header @ '': '' @ dl_str (scanned s))) s;
           s = fix_defaults (method_annotations s)
       in Inr (if dl_kind (scanned s) = Class then class_annotations s else function_annotations s)))
     (get_ns3_relative_path (dl_file (scanned s)))"

section \<open>Callback classes\<close>

text \<open>What pygccxml says of a class name, and \<^verbatim>\<open>%r\<close> of the parameters.\<close>

record templates =
  is_instantiation :: "string \<Rightarrow> bool"
  parameters_of :: "string \<Rightarrow> string list"
  repr :: "string list \<Rightarrow> string"

definition scan_callback_classes :: "templates \<Rightarrow> (string \<times> string) list \<Rightarrow> py_exn + string list" where
  "scan_callback_classes tm classes =
     rbind (mapM (\<lambda>(name, decl_string).
         if is_instantiation tm decl_string then Inr (''    '' @ repr tm (parameters_of tm decl_string) @ '','' @ [nl])
         else Inl AssertionError)
       (filter (\<lambda>(name, _). startswith name ''Callback<'') classes)) (\<lambda>ls.
       Inr ([''callback_classes = ['' @ [nl]] @ ls @ ['']'' @ [nl]]))"

section \<open>Sections\<close>

record classifier =
  headers_map :: "(string, string) dict"
  section_precedences :: "(string, int) dict"

definition classify_header :: "classifier \<Rightarrow> string \<Rightarrow> string" where
  "classify_header c file_name = (case dget (headers_map c) (basename file_name) of None \<Rightarrow> ''__main__'' | Some s \<Rightarrow> s)"

definition get_section_precedence :: "classifier \<Rightarrow> string \<Rightarrow> py_exn + int" where
  "get_section_precedence c section_name =
     (if section_name = ''__main__'' then Inr (- 1)
      else case dget (section_precedences c) section_name of None \<Rightarrow> Inl KeyError | Some n \<Rightarrow> Inr n)"

text \<open>A module has the modules it depends on and its headers.\<close>

type_synonym modules = "(string, string list \<times> string list) dict"

definition module_graph :: "modules \<Rightarrow> (string \<times> string) list" where
  "module_graph mods =
     concat (map (\<lambda>m. map (\<lambda>dep. (dep, m)) (sort (fst (the (dget mods m))))) (sort (dkeys mods)))"

definition section_name :: "string \<Rightarrow> string" where
  "section_name m = ''ns3_module_'' @ map (\<lambda>c. if c = CHR ''-'' then CHR ''_'' else c) m"

definition add_section :: "modules \<Rightarrow> nat \<times> string \<Rightarrow> string list \<times> classifier \<Rightarrow> py_exn + string list \<times> classifier" where
  "add_section mods pm st =
     (let (prec, m) = pm; (sections, c) = st; name = section_name m
      in case dget mods m of
           None \<Rightarrow> Inl KeyError
         | Some (_, headers) \<Rightarrow>
             Inr (sections @ [name],
                  c\<lparr>headers_map := fold (\<lambda>h. dset h name) headers (headers_map c),
                    section_precedences := dset name (int prec) (section_precedences c)\<rparr>))"

fun add_sections :: "modules \<Rightarrow> (nat \<times> string) list \<Rightarrow> string list \<times> classifier \<Rightarrow> py_exn + string list \<times> classifier" where
  "add_sections mods [] st = Inr st"
| "add_sections mods (pm # pms) st = rbind (add_section mods pm st) (add_sections mods pms)"

datatype scan_error = Sorting "string topsort_exn" | Scanning py_exn

definition plan_sections :: "modules \<Rightarrow> scan_error + string list \<times> classifier" where
  "plan_sections mods =
     (case topsort_keys (module_graph mods) of
        Inl e \<Rightarrow> Inl (Sorting e)
      | Inr sorted_modules \<Rightarrow>
          (case add_sections mods (enumerate 0 sorted_modules) ([''__main__''], \<lparr>headers_map = [], section_precedences = []\<rparr>) of
             Inl e \<Rightarrow> Inl (Scanning e) | Inr st \<Rightarrow> Inr st))"


section \<open>The end of the search for ns3\<close>

text \<open>Components below a directory, each after its slash.\<close>

definition slashed :: "string list \<Rightarrow> string" where
  "slashed cs = concat (map (\<lambda>c. ''/'' @ c) cs)"

lemma slashed_simps [simp]: "slashed [] = []" "slashed (c # cs) = CHR ''/'' # c @ slashed cs"
    "slashed (cs @ ds) = slashed cs @ slashed ds"
  by (simp_all add: slashed_def)

lemma last_slashed: "list_all part cs \<Longrightarrow> d \<noteq> [] \<Longrightarrow> last d \<noteq> CHR ''/'' \<Longrightarrow> last (d @ slashed cs) \<noteq> CHR ''/''"
  by (induction cs rule: rev_induct) (auto simp: part_solid)

lemma relative_loop_slashed:
  assumes "d \<noteq> []" and "last d \<noteq> CHR ''/''"
  shows "list_all part cs \<Longrightarrow> ''ns3'' \<notin> set cs \<Longrightarrow> relative_loop (d @ slashed cs) l = relative_loop d (cs @ l)"
proof (induction cs arbitrary: l rule: rev_induct)
  case (snoc c cs)
  have "path_split ((d @ slashed cs) @ ''/'' @ c) = (d @ slashed cs, c)"
    by (rule path_split_solid) (use snoc.prems assms last_slashed in auto)
  then have "relative_loop (d @ slashed (cs @ [c])) l = relative_loop (d @ slashed cs) (c # l)"
    using snoc.prems assms(1) by (subst relative_loop.simps) auto
  then show ?case using snoc by simp
qed simp

lemma path_split_root: "path_split ''/'' = (''/'', [])"
  by (simp add: path_split_def)

lemma relative_loop_root: "relative_loop ''/'' l = None"
proof -
  have "relative_loop p l = Some r \<Longrightarrow> p \<noteq> ''/''" for p r
  proof (rule relative_loop.raw_induct [of "\<lambda>p l r. p \<noteq> ''/''"])
    fix f :: "string \<Rightarrow> string list \<Rightarrow> (py_exn + string) option" and p l r
    assume f: "\<And>p l r. f p l = Some r \<Longrightarrow> p \<noteq> ''/''"
      and step: "(if p = [] then Some (Inl AssertionError)
        else if snd (path_split p) = ''ns3'' then Some (join_all l)
        else f (fst (path_split p)) (snd (path_split p) # l)) = Some r"
    show "p \<noteq> ''/''"
    proof
      assume "p = ''/''"
      with step have "f ''/'' ([] # l) = Some r" by (simp add: path_split_root)
      with f show False by blast
    qed
  qed
  then show ?thesis by (cases "relative_loop ''/'' l") auto
qed

lemma join_all_slashed: "list_all part (c # cs) \<Longrightarrow> join_all (c # cs) = Inr (c @ slashed cs)"
proof -
  have "list_all part cs \<Longrightarrow> p \<noteq> [] \<Longrightarrow> last p \<noteq> CHR ''/'' \<Longrightarrow> fold (\<lambda>b a. path_join a b) cs p = p @ slashed cs" for p
  proof (induction cs arbitrary: p)
    case (Cons c cs)
    have "path_join p c = p @ ''/'' @ c"
      using Cons.prems by (cases c) (auto simp: path_join_def startswith_def part_def)
    moreover have "last (p @ ''/'' @ c) \<noteq> CHR ''/''"
      using Cons.prems by (auto simp: part_solid)
    ultimately show ?case using Cons by simp
  qed simp
  moreover assume "list_all part (c # cs)"
  moreover from this have "c \<noteq> []" "last c \<noteq> CHR ''/''" by (auto simp: part_solid)
  ultimately show ?thesis by (simp add: join_all_def)
qed

text \<open>C40. The name of a header below a directory \<open>ns3\<close> is its path below the last one.  Without such a directory the
  assertion fails for a relative path, and for an absolute one the loop never ends: \<open>os.path.split\<close> of the root is the root.\<close>

theorem relative_path_cases:
  assumes "list_all part (c # cs)" and "''ns3'' \<notin> set (c # cs)"
  shows "get_ns3_relative_path (d @ ''/ns3'' @ slashed (c # cs)) = Some (Inr (c @ slashed cs)) \<and>
    get_ns3_relative_path (c @ slashed cs) = Some (Inl AssertionError) \<and>
    get_ns3_relative_path (slashed (c # cs)) = None"
proof (intro conjI)
  have "relative_loop ((d @ ''/ns3'') @ slashed (c # cs)) [] = relative_loop (d @ ''/ns3'') (c # cs)"
    by (subst relative_loop_slashed) (use assms in auto)
  moreover have "snd (path_split (d @ ''/'' @ ''ns3'')) = ''ns3''"
    by (subst path_split_last) auto
  ultimately show "get_ns3_relative_path (d @ ''/ns3'' @ slashed (c # cs)) = Some (Inr (c @ slashed cs))"
    using join_all_slashed [OF assms(1)] by (simp add: get_ns3_relative_path_def relative_loop.simps)
  have c: "c \<noteq> []" "last c \<noteq> CHR ''/''" "c \<noteq> ''ns3''" "list_all part cs" "''ns3'' \<notin> set cs"
    using assms by (auto simp: part_solid)
  have "relative_loop [] l = Some (Inl AssertionError)" for l
    by (simp add: relative_loop.simps)
  then have "relative_loop c l = Some (Inl AssertionError)" for l
    using c assms(1) by (subst relative_loop.simps) (simp add: path_split_part)
  then show "get_ns3_relative_path (c @ slashed cs) = Some (Inl AssertionError)"
    using c by (simp add: get_ns3_relative_path_def relative_loop_slashed)
  have "path_split (''/'' @ c) = (''/'', c)"
    using path_split_last [of c "[]"] assms(1) by (simp add: part_def)
  then have "relative_loop (''/'' @ c) l = None" for l
    using c by (subst relative_loop.simps) (simp add: relative_loop_root)
  then show "get_ns3_relative_path (slashed (c # cs)) = None"
    using relative_loop_slashed [of "''/'' @ c" cs "[]"] c by (simp add: get_ns3_relative_path_def)
qed

theorem relative_path_cases_witness:
  "get_ns3_relative_path ''/b/ns3/lte/ue.h'' = Some (Inr ''lte/ue.h'') \<and>
   get_ns3_relative_path ''lte/ue.h'' = Some (Inl AssertionError) \<and>
   get_ns3_relative_path ''/lte/ue.h'' = None"
  using relative_path_cases [of "''lte''" "[''ue.h'']" "''/b''"] by (simp_all add: part_def)

section \<open>The order of the modules\<close>

text \<open>Which module depends on which.\<close>

definition depends :: "modules \<Rightarrow> (string \<times> string) set" where
  "depends mods = {(d, m). \<exists>ds hs. dget mods m = Some (ds, hs) \<and> d \<in> set ds}"

lemma set_module_graph: "set (module_graph mods) = depends mods"
proof (rule set_eqI, clarify)
  fix d m
  have "(d, m) \<in> set (module_graph mods) \<longleftrightarrow> dget mods m \<noteq> None \<and> d \<in> set (fst (the (dget mods m)))"
    by (force simp: module_graph_def map_of_eq_None_iff)
  then show "(d, m) \<in> set (module_graph mods) \<longleftrightarrow> (d, m) \<in> depends mods"
    by (cases "dget mods m") (auto simp: depends_def)
qed

lemma elems_module_graph: "elems (module_graph mods) = Domain (depends mods) \<union> Range (depends mods)"
  using set_module_graph [of mods] by (force simp: elems_def)

lemma add_section_Inr:
  "add_section mods (k, m) (ss, c) = Inr (ss', c') \<Longrightarrow>
     ss' = ss @ [section_name m] \<and> section_precedences c' = dset (section_name m) (int k) (section_precedences c)"
  by (auto simp: add_section_def Let_def split: option.splits)

lemma add_sections_other:
  "add_sections mods pms (ss, c) = Inr (ss', c') \<Longrightarrow> name \<notin> section_name ` snd ` set pms \<Longrightarrow>
     dget (section_precedences c') name = dget (section_precedences c) name"
proof (induction pms arbitrary: ss c)
  case (Cons pm pms)
  obtain k m where pm: "pm = (k, m)" by force
  from Cons.prems(1) obtain ss1 c1 where 1: "add_section mods pm (ss, c) = Inr (ss1, c1)"
    and 2: "add_sections mods pms (ss1, c1) = Inr (ss', c')"
    by (auto simp del: split_paired_Ex)
  from Cons.IH [OF 2] Cons.prems(2) add_section_Inr [OF 1 [unfolded pm]] show ?case by (simp add: pm)
qed simp

lemma add_sections_Inr:
  "add_sections mods pms (ss, c) = Inr (ss', c') \<Longrightarrow>
     ss' = ss @ map (section_name \<circ> snd) pms \<and>
     (distinct (map (section_name \<circ> snd) pms) \<longrightarrow>
      (\<forall>(k, m) \<in> set pms. dget (section_precedences c') (section_name m) = Some (int k)))"
proof (induction pms arbitrary: ss c)
  case (Cons pm pms)
  obtain k m where pm: "pm = (k, m)" by force
  from Cons.prems obtain ss1 c1 where 1: "add_section mods pm (ss, c) = Inr (ss1, c1)"
    and 2: "add_sections mods pms (ss1, c1) = Inr (ss', c')"
    by (auto simp del: split_paired_Ex)
  note s = add_section_Inr [OF 1 [unfolded pm]]
  have "distinct (map (section_name \<circ> snd) (pm # pms)) \<Longrightarrow>
      dget (section_precedences c') (section_name m) = Some (int k)"
    using add_sections_other [OF 2, of "section_name m"] s by (force simp: pm)
  with Cons.IH [OF 2] s show ?case by (auto simp: pm o_def)
qed simp

lemma add_sections_ok:
  "(\<exists>r. add_sections mods pms st = Inr r) \<longleftrightarrow> (\<forall>m \<in> snd ` set pms. dget mods m \<noteq> None)"
proof (induction pms arbitrary: st)
  case (Cons pm pms)
  have "(\<exists>st'. add_section mods pm st = Inr st') \<longleftrightarrow> dget mods (snd pm) \<noteq> None"
    by (cases pm, cases st) (auto simp: add_section_def Let_def split: option.splits)
  moreover have "(\<exists>r. add_sections mods (pm # pms) st = Inr r) \<longleftrightarrow>
      (\<exists>st'. add_section mods pm st = Inr st') \<and> (\<forall>m \<in> snd ` set pms. dget mods m \<noteq> None)"
    using Cons.IH unfolding add_sections.simps rbind_eq_Inr by meson
  ultimately show ?case by simp
qed simp

lemma plan_sections_Inr:
  assumes "plan_sections mods = Inr (sections, c)"
  obtains xs where "topsort_keys (module_graph mods) = Inr xs"
    and "add_sections mods (enumerate 0 xs) ([''__main__''], \<lparr>headers_map = [], section_precedences = []\<rparr>) = Inr (sections, c)"
  using assms by (auto simp: plan_sections_def split: sum.splits)

lemma section_name_main: "section_name m \<noteq> ''__main__''"
  by (simp add: section_name_def)

text \<open>C13. The sections are the main one and one for each module that depends on another or has a dependent, each once.  The
  section of a module has a higher precedence than those of the modules it depends on, and the main section, \<open>-1\<close>, the
  lowest.  Two modules must not have names that differ only in \<open>-\<close> and \<open>_\<close>.\<close>

theorem section_precedences_ordered:
  assumes "plan_sections mods = Inr (sections, c)"
    and "inj_on section_name (Domain (depends mods) \<union> Range (depends mods))"
  shows "set sections = insert ''__main__'' (section_name ` (Domain (depends mods) \<union> Range (depends mods))) \<and>
    distinct sections \<and>
    (\<forall>(d, m) \<in> depends mods. \<exists>i j. get_section_precedence c (section_name d) = Inr i \<and>
       get_section_precedence c (section_name m) = Inr j \<and> - 1 < i \<and> i < j)"
proof -
  from assms(1) obtain xs where xs: "topsort_keys (module_graph mods) = Inr xs"
    and as: "add_sections mods (enumerate 0 xs) ([''__main__''], \<lparr>headers_map = [], section_precedences = []\<rparr>) = Inr (sections, c)"
    by (rule plan_sections_Inr)
  note sorted = by_answer.sorted_facts [OF xs]
  have dist: "distinct (map section_name xs)"
    using sorted assms(2) by (simp add: distinct_map elems_module_graph)
  have names: "map (section_name \<circ> snd) (enumerate 0 xs) = map section_name xs"
    by (simp flip: map_map)
  have sections: "sections = ''__main__'' # map section_name xs"
    using add_sections_Inr [OF as] names by simp
  have prec: "get_section_precedence c (section_name (xs ! i)) = Inr (int i)" if "i < length xs" for i
  proof -
    have "(i, xs ! i) \<in> set (enumerate 0 xs)"
      using that by (simp add: in_set_enumerate_eq)
    with add_sections_Inr [OF as] dist names have "dget (section_precedences c) (section_name (xs ! i)) = Some (int i)"
      by auto
    then show ?thesis by (simp add: get_section_precedence_def section_name_main)
  qed
  have "\<exists>i j. get_section_precedence c (section_name d) = Inr i \<and>
      get_section_precedence c (section_name m) = Inr j \<and> - 1 < i \<and> i < j" if "(d, m) \<in> depends mods" for d m
  proof -
    have dm: "(d, m) \<in> set (module_graph mods)" using that by (simp add: set_module_graph)
    have "m \<in> set xs" using that sorted(2) elems_module_graph by auto
    then obtain j where j: "j < length xs" "xs ! j = m" by (auto simp: in_set_conv_nth)
    with by_answer.precedence_increases [OF xs dm] obtain i where "i < j" "xs ! i = d" by blast
    with j prec [of j] prec [of i] show ?thesis by auto
  qed
  with sections dist sorted(2) show ?thesis
    using section_name_main by (auto simp: elems_module_graph) metis+
qed

text \<open>The plan is made exactly when no module depends on itself, directly or not, and every dependency is a module of the
  dictionary; otherwise the sort raises its CycleError or the loop over the sorted modules a KeyError.\<close>

theorem plan_sections_total:
  "(\<exists>r. plan_sections mods = Inr r) \<longleftrightarrow> acyclic (depends mods) \<and> Domain (depends mods) \<subseteq> set (dkeys mods)"
proof -
  have ran: "Range (depends mods) \<subseteq> set (dkeys mods)"
    by (auto simp: depends_def set_dkeys simp del: set_map)
  show ?thesis
  proof (cases "topsort_keys (module_graph mods)")
    case (Inl e)
    then have "\<not> acyclic (depends mods)"
      using by_answer.sorted_iff_acyclic [of "module_graph mods"] by (auto simp: set_module_graph)
    with Inl show ?thesis by (simp add: plan_sections_def)
  next
    case (Inr xs)
    then have "acyclic (depends mods)"
      using by_answer.sorted_iff_acyclic [of "module_graph mods"] by (auto simp: set_module_graph)
    moreover have "snd ` set (enumerate 0 xs) = Domain (depends mods) \<union> Range (depends mods)"
      using by_answer.sorted_facts(2) [OF Inr] elems_module_graph map_snd_enumerate [of 0 xs]
      by (metis set_map)
    moreover have "(\<exists>r. plan_sections mods = Inr r) \<longleftrightarrow>
        (\<exists>r. add_sections mods (enumerate 0 xs) ([''__main__''], \<lparr>headers_map = [], section_precedences = []\<rparr>) = Inr r)"
      using Inr by (auto simp: plan_sections_def split: sum.splits)
    ultimately show ?thesis
      using ran unfolding add_sections_ok set_dkeys by blast
  qed
qed

definition small_modules :: modules where
  "small_modules = [(''wifi'', ([''core''], [''w.h''])), (''core'', ([], [''c.h''])), (''lte'', ([''wifi'', ''core''], []))]"

lemma small_depends: "depends small_modules = {(''core'', ''wifi''), (''wifi'', ''lte''), (''core'', ''lte'')}"
  unfolding set_module_graph [symmetric] by code_simp

lemma small_plan: "plan_sections small_modules =
    Inr ([''__main__'', ''ns3_module_core'', ''ns3_module_wifi'', ''ns3_module_lte''],
      \<lparr>headers_map = [(''c.h'', ''ns3_module_core''), (''w.h'', ''ns3_module_wifi'')],
       section_precedences = [(''ns3_module_core'', 0), (''ns3_module_wifi'', 1), (''ns3_module_lte'', 2)]\<rparr>)"
  by code_simp

theorem section_precedences_ordered_witness:
  "\<exists>sections c i j. plan_sections small_modules = Inr (sections, c) \<and> distinct sections \<and>
     get_section_precedence c ''ns3_module_core'' = Inr i \<and> get_section_precedence c ''ns3_module_lte'' = Inr j \<and> i < j"
proof -
  have "section_name ''core'' = ''ns3_module_core''" "section_name ''lte'' = ''ns3_module_lte''"
    by (simp_all add: section_name_def)
  moreover have "inj_on section_name (Domain (depends small_modules) \<union> Range (depends small_modules))"
    by (simp add: small_depends inj_on_def section_name_def)
  moreover have "(''core'', ''lte'') \<in> depends small_modules"
    by (simp add: small_depends)
  ultimately show ?thesis
    using section_precedences_ordered [OF small_plan] small_plan by fastforce
qed

section \<open>The annotations of a declaration\<close>

text \<open>What a step of the hook leaves alone.\<close>

definition same_table :: "scan \<Rightarrow> scan \<Rightarrow> bool" where
  "same_table s t \<longleftrightarrow> table t = table s \<and> parameter_annotations t = parameter_annotations s \<and>
     dl_kind (scanned t) = dl_kind (scanned s) \<and> dl_name (scanned t) = dl_name (scanned s) \<and>
     dl_str (scanned t) = dl_str (scanned s) \<and> dl_file (scanned t) = dl_file (scanned s) \<and>
     dget (global_annotations t) ''params'' = dget (global_annotations s) ''params''"

lemma same_table_trans: "same_table s t \<Longrightarrow> same_table t u \<Longrightarrow> same_table s u"
  by (simp add: same_table_def)

lemma same_table_annotate: "k \<noteq> ''params'' \<Longrightarrow> same_table s (annotate k v s)"
  by (simp add: same_table_def annotate_def)

lemma same_table_method: "same_table s (method_annotations s)"
  by (simp add: method_annotations_def Let_def same_table_def annotate_def)

lemma same_table_defaults: "same_table s (fix_defaults s)"
  by (simp add: fix_defaults_def same_table_def)

lemma pre_scan_hook_Inr:
  assumes "pre_scan_hook s = Some (Inr s')" and "dl_kind (scanned s) \<noteq> Class"
  obtains t where "same_table s t" and "s' = function_annotations t"
proof -
  from assms(1) obtain h where "get_ns3_relative_path (dl_file (scanned s)) = Some (Inr h)"
    and s': "s' = (let s = annotate ''pygen_comment'' (Text (h @ '': '' @ dl_str (scanned s))) s;
           s = fix_defaults (method_annotations s)
       in if dl_kind (scanned s) = Class then class_annotations s else function_annotations s)"
    by (auto simp: pre_scan_hook_def Let_def)
  let ?a = "annotate ''pygen_comment'' (Text (h @ '': '' @ dl_str (scanned s))) s"
  have "same_table s (fix_defaults (method_annotations ?a))"
    using same_table_annotate [of "''pygen_comment''" s] same_table_method same_table_defaults
    by (blast intro: same_table_trans)
  with s' assms(2) show ?thesis
    by (intro that) (auto simp: Let_def same_table_def)
qed

lemma pre_scan_hook_defined:
  assumes "pre_scan_hook s = Some (Inr s')" and "dl_file (scanned t) = dl_file (scanned s)"
  shows "\<exists>t'. pre_scan_hook t = Some (Inr t')"
proof -
  from assms obtain h where "get_ns3_relative_path (dl_file (scanned t)) = Some (Inr h)"
    by (auto simp: pre_scan_hook_def)
  then show ?thesis by (simp add: pre_scan_hook_def Let_def)
qed

lemma ddel_absent: "dget d k = None \<Longrightarrow> ddel k d = d"
  by (simp add: delete_idem map_of_eq_None_iff)

lemma function_annotations_params:
  assumes "dl_kind (scanned t) \<in> {Free_function, Member_function, Constructor}"
    and "dl_kind (scanned t) = Free_function \<longrightarrow> dl_name (scanned t) \<noteq> ''PeekPointer''"
    and "dget (table t) (dl_str (scanned t)) = Some as"
  shows "parameter_annotations (function_annotations t) =
      (case dget as ''params'' of Some (Params ps) \<Rightarrow> dict_update (parameter_annotations t) ps | _ \<Rightarrow> parameter_annotations t)"
    and "scanned (function_annotations t) = scanned t"
    and "dget as ''params'' = None \<or> (\<exists>ps. dget as ''params'' = Some (Params ps)) \<Longrightarrow>
      dget (table (function_annotations t)) (dl_str (scanned t)) = Some (ddel ''params'' as)"
  using assms by (auto simp: function_annotations_def Let_def ddel_absent split: option.splits annotation.splits)

lemma function_annotations_global:
  assumes "dl_kind (scanned t) \<in> {Free_function, Member_function, Constructor}"
    and "dl_kind (scanned t) = Free_function \<longrightarrow> dl_name (scanned t) \<noteq> ''PeekPointer''"
    and "dget (table t) (dl_str (scanned t)) = Some as"
  shows "dget (global_annotations (function_annotations t)) ''params'' = dget (global_annotations t) ''params''"
proof -
  have "map_of (rev (ddel ''params'' as)) ''params'' = None"
    using dget_ddel [of "''params''" as "''params''"] by (simp only: map_of_eq_None_iff set_rev simp_thms if_True)
  then show ?thesis
    using assms by (auto simp: function_annotations_def Let_def dget_dict_update split: option.splits annotation.splits)
qed

text \<open>The parameter annotations of a function are given once: the hook deletes them from the table while it copies the
  others, and a second declaration with the same text gets none.  The global annotations never hold the entry \<open>params\<close> of
  the table.\<close>

theorem params_given_once:
  assumes "dl_kind (scanned s) \<in> {Free_function, Member_function, Constructor}"
    and "dl_kind (scanned s) = Free_function \<longrightarrow> dl_name (scanned s) \<noteq> ''PeekPointer''"
    and "dget (table s) (dl_str (scanned s)) = Some as" and "dget as ''params'' = Some (Params ps)"
    and "dget (global_annotations s) ''params'' = None"
    and "pre_scan_hook s = Some (Inr s')"
  shows "parameter_annotations s' = dict_update (parameter_annotations s) ps \<and>
    dget (global_annotations s') ''params'' = None \<and>
    (\<exists>s''. pre_scan_hook (s'\<lparr>global_annotations := [], parameter_annotations := []\<rparr>) = Some (Inr s'') \<and>
       parameter_annotations s'' = [])"
proof -
  have "dl_kind (scanned s) \<noteq> Class" using assms(1) by auto
  with assms(6) obtain t where t: "same_table s t" and s': "s' = function_annotations t"
    by (rule pre_scan_hook_Inr)
  note same = t [unfolded same_table_def]
  have fn: "dl_kind (scanned t) \<in> {Free_function, Member_function, Constructor}"
    "dl_kind (scanned t) = Free_function \<longrightarrow> dl_name (scanned t) \<noteq> ''PeekPointer''"
    and tab: "dget (table t) (dl_str (scanned t)) = Some as"
    using same assms by auto
  note first = function_annotations_params [OF fn tab] function_annotations_global [OF fn tab]
  let ?u = "s'\<lparr>global_annotations := [], parameter_annotations := []\<rparr>"
  have "dl_file (scanned ?u) = dl_file (scanned s)" using first(2) same s' by simp
  then obtain u' where u': "pre_scan_hook ?u = Some (Inr u')"
    using pre_scan_hook_defined [OF assms(6)] by blast
  have "dl_kind (scanned ?u) \<noteq> Class" using first(2) s' fn(1) by auto
  with u' obtain v where v: "same_table ?u v" and u'v: "u' = function_annotations v"
    by (rule pre_scan_hook_Inr)
  have "parameter_annotations u' = []"
  proof (unfold u'v, subst function_annotations_params(1))
    show "dget (table v) (dl_str (scanned v)) = Some (ddel ''params'' as)"
      using v first(2,3) assms(4) s' by (simp add: same_table_def)
  qed (use v first(2) fn s' in \<open>auto simp: same_table_def\<close>)
  with u' first(1,4) s' same assms(4,5) show ?thesis by auto
qed

definition seed_scan :: scan where
  "seed_scan = \<lparr>global_annotations = [], parameter_annotations = [], table = type_annotations,
     scanned = \<lparr>dl_kind = Member_function, dl_name = ''GetSeed'', dl_parent = ''RandomVariable'', dl_decl_string = '''',
       dl_str = ''void ns3::RandomVariable::GetSeed(uint32_t * seed) const [member function]'', dl_template_args = [],
       dl_file = ''/b/ns3/rv.h'', dl_defaults = [None]\<rparr>\<rparr>"

lemma seed_relative: "get_ns3_relative_path ''/b/ns3/rv.h'' = Some (Inr ''rv.h'')"
proof -
  have "path_split ''/b/ns3/rv.h'' = (''/b/ns3'', ''rv.h'')" "path_split ''/b/ns3'' = (''/b'', ''ns3'')"
    by code_simp+
  then show ?thesis by (simp add: get_ns3_relative_path_def relative_loop.simps join_all_def)
qed

lemma seed_entry: "dget type_annotations ''void ns3::RandomVariable::GetSeed(uint32_t * seed) const [member function]''
    = Some [(''params'', Params [(''seed'', [(''direction'', ''out''), (''array_length'', ''6'')])])]"
  by (simp add: type_annotations_def)

theorem params_given_once_witness:
  "\<exists>s' s''. pre_scan_hook seed_scan = Some (Inr s') \<and> dget (parameter_annotations s') ''seed'' \<noteq> None \<and>
     pre_scan_hook (s'\<lparr>global_annotations := [], parameter_annotations := []\<rparr>) = Some (Inr s'') \<and> parameter_annotations s'' = []"
proof -
  obtain s' where s': "pre_scan_hook seed_scan = Some (Inr s')"
    by (simp add: pre_scan_hook_def seed_scan_def seed_relative Let_def)
  have "parameter_annotations s' = dict_update [] [(''seed'', [(''direction'', ''out''), (''array_length'', ''6'')])] \<and>
    (\<exists>s''. pre_scan_hook (s'\<lparr>global_annotations := [], parameter_annotations := []\<rparr>) = Some (Inr s'') \<and>
       parameter_annotations s'' = [])"
    using params_given_once [OF _ _ _ _ _ s', of "[(''params'', Params [(''seed'', [(''direction'', ''out''), (''array_length'', ''6'')])])]"]
    by (simp add: seed_scan_def seed_entry)
  with s' show ?thesis by (auto simp: dict_update_def)
qed

end
