(* ===== verification/Modulescan_Modular.thy ===== *)
theory Modulescan_Modular
  imports Modulescan
begin

text \<open>
  \<^verbatim>\<open>bindings/python/ns3modulescan-modular.py\<close>: the scanner that writes the bindings of one module.  It shares the table
  and the cases of the hook with \<open>Modulescan\<close>; here are its own search for \<^verbatim>\<open>ns3\<close>, which ends for every path, and
  the module a declaration belongs to.
\<close>

section \<open>The path of a header\<close>

lemma path_split_shorter: "fst (path_split p) \<noteq> p \<Longrightarrow> length (fst (path_split p)) < length p"
proof -
  assume fst: "fst (path_split p) \<noteq> p"
  obtain us where us: "p = fst (path_split p) @ us @ snd (path_split p)" using path_split_prefix by blast
  with fst have "us @ snd (path_split p) \<noteq> []" by auto
  moreover have "length p = length (fst (path_split p)) + length (us @ snd (path_split p))"
    using arg_cong [OF us, of length] by (simp only: length_append)
  ultimately show ?thesis by simp
qed

lemma path_split_fixed: "fst (path_split p) = p \<Longrightarrow> snd (path_split p) = []"
  using path_split_prefix [of p] by auto

function modular_loop :: "string \<Rightarrow> string list \<Rightarrow> py_exn + string" where
  "modular_loop p l =
     (if p = [] then Inl AssertionError
      else if fst (path_split p) = p then Inl ValueError
      else if snd (path_split p) = ''ns3'' then join_all l
      else modular_loop (fst (path_split p)) (snd (path_split p) # l))"
  by pat_completeness auto
termination by (relation "measure (\<lambda>(p, l). length p)") (auto simp: path_split_shorter)

declare modular_loop.simps [simp del]

definition modular_relative_path :: "string \<Rightarrow> py_exn + string option" where
  "modular_relative_path path = (if path = [] then Inr None else rbind (modular_loop path []) (\<lambda>h. Inr (Some h)))"

section \<open>The module of a declaration\<close>

text \<open>The modules of the parameters of a template: \<open>None\<close> is a parameter without a location.\<close>

fun param_modules :: "(string, string) dict \<Rightarrow> string option list \<Rightarrow> py_exn + string list" where
  "param_modules headers [] = Inr []"
| "param_modules headers (None # files) = param_modules headers files"
| "param_modules headers (Some f # files) =
     (case modular_relative_path f of
        Inl e \<Rightarrow> if e = ValueError then param_modules headers files else Inl e
      | Inr h \<Rightarrow>
          (case Option.bind h (dget headers) of
             None \<Rightarrow> Inl KeyError
           | Some m \<Rightarrow> rbind (param_modules headers files) (\<lambda>ms. Inr (m # ms))))"

definition class_module :: "(string, string) dict \<Rightarrow> string \<Rightarrow> string option list option \<Rightarrow> string \<Rightarrow> py_exn + string" where
  "class_module headers m parameters definition_module =
     (case parameters of
        None \<Rightarrow> Inr definition_module
      | Some files \<Rightarrow>
          rbind (param_modules headers files) (\<lambda>ms. Inr (if m \<in> set ms then m else definition_module)))"

definition underscores :: "string \<Rightarrow> string" where
  "underscores m = map (\<lambda>c. if c = CHR ''-'' then CHR ''_'' else c) m"

definition import_annotation :: "string \<Rightarrow> string \<Rightarrow> string \<Rightarrow> scan \<Rightarrow> scan" where
  "import_annotation m definition_module name s =
     (if definition_module \<noteq> m then annotate ''import_from_module'' (Text (''ns.'' @ name)) s else s)"

definition modular_declaration ::
    "(string, string) dict \<Rightarrow> string \<Rightarrow> string option list option \<Rightarrow> string \<Rightarrow> scan \<Rightarrow> py_exn + scan" where
  "modular_declaration headers m parameters dm s =
     (case dl_kind (scanned s) of
        Class \<Rightarrow>
          rbind (class_module headers m parameters dm) (\<lambda>dm. Inr (class_annotations (import_annotation m dm (underscores dm) s)))
      | Enumeration \<Rightarrow> Inr (import_annotation m dm dm s)
      | Free_function \<Rightarrow> Inr (if dm \<noteq> m then annotate ''ignore'' Nothing s else function_annotations s)
      | _ \<Rightarrow> Inr (function_annotations s))"

text \<open>\<open>PreScanHook.__call__\<close>; \<open>parameters\<close> is \<open>None\<close> for what is no instance of a template.\<close>

definition modular_hook ::
    "(string, string) dict \<Rightarrow> string \<Rightarrow> string option list option \<Rightarrow> scan \<Rightarrow> py_exn + scan" where
  "modular_hook headers m parameters s =
     (case modular_relative_path (dl_file (scanned s)) of
        Inl e \<Rightarrow> if e = ValueError then Inr s else Inl e
      | Inr None \<Rightarrow> Inr s
      | Inr (Some ns3_header) \<Rightarrow>
          if ns3_header = [] then Inr s
          else case dget headers ns3_header of
                 None \<Rightarrow> Inl KeyError
               | Some dm \<Rightarrow>
                   modular_declaration headers m parameters dm (fix_defaults (method_annotations
                     (annotate ''pygen_comment'' (Text (ns3_header @ '' (module '' @ repr_str dm @ ''): '' @ dl_str (scanned s))) s))))"

definition scan_header :: "(string \<Rightarrow> bool) \<Rightarrow> string \<Rightarrow> string \<Rightarrow> string \<Rightarrow> string" where
  "scan_header exists top_builddir module_name output_file_name =
     (let h = path_join (fst (path_split output_file_name)) ''scan-header.h''
      in if exists h then h else path_join (path_join top_builddir ''ns3'') (module_name @ ''-module.h''))"

section \<open>The two searches\<close>

lemma relative_loop_fixed: "p \<noteq> [] \<Longrightarrow> fst (path_split p) = p \<Longrightarrow> relative_loop p l = None"
proof -
  have "relative_loop p l = Some r \<Longrightarrow> fst (path_split p) \<noteq> p \<or> p = []" for p r
  proof (rule relative_loop.raw_induct [of "\<lambda>p l r. fst (path_split p) \<noteq> p \<or> p = []"])
    fix f :: "string \<Rightarrow> string list \<Rightarrow> (py_exn + string) option" and p l r
    assume f: "\<And>p l r. f p l = Some r \<Longrightarrow> fst (path_split p) \<noteq> p \<or> p = []"
      and step: "(if p = [] then Some (Inl AssertionError)
        else if snd (path_split p) = ''ns3'' then Some (join_all l)
        else f (fst (path_split p)) (snd (path_split p) # l)) = Some r"
    show "fst (path_split p) \<noteq> p \<or> p = []"
    proof (rule ccontr)
      assume "\<not> ?thesis"
      with step have "f p ([] # l) = Some r" by (simp add: path_split_fixed)
      with f \<open>\<not> ?thesis\<close> show False by blast
    qed
  qed
  then show "p \<noteq> [] \<Longrightarrow> fst (path_split p) = p \<Longrightarrow> relative_loop p l = None"
    by (cases "relative_loop p l") auto
qed

lemma loops_agree:
  "relative_loop p l = (if modular_loop p l = Inl ValueError then None else Some (modular_loop p l))"
proof (induction p l rule: modular_loop.induct)
  case (1 p l)
  have "join_all l \<noteq> Inl ValueError" by (simp add: join_all_def split: list.splits)
  with 1 show ?case
    by (cases "p = []"; cases "fst (path_split p) = p")
       (auto simp: relative_loop_fixed path_split_fixed modular_loop.simps [of p l] relative_loop.simps [of p l]
          modular_loop.simps [of "[]" l] relative_loop.simps [of "[]" l])
qed

text \<open>C37. The search of this script on every path: for the empty path it returns None, where \<^verbatim>\<open>ns3modulescan.py\<close> raises
  AssertionError; for any other path it returns the header that the other finds, raises what the other raises, and raises ValueError
  exactly where the other goes on for ever.\<close>

theorem modular_path_agrees:
  "modular_relative_path path =
     (if path = [] then Inr None
      else case get_ns3_relative_path path of
             None \<Rightarrow> Inl ValueError
           | Some (Inl e) \<Rightarrow> Inl e
           | Some (Inr h) \<Rightarrow> Inr (Some h)) \<and>
   get_ns3_relative_path [] = Some (Inl AssertionError) \<and>
   get_ns3_relative_path path \<noteq> Some (Inl ValueError)"
proof (intro conjI)
  show "get_ns3_relative_path [] = Some (Inl AssertionError)"
    by (simp add: get_ns3_relative_path_def relative_loop.simps)
  show "get_ns3_relative_path path \<noteq> Some (Inl ValueError)"
    by (simp add: get_ns3_relative_path_def loops_agree)
  show "modular_relative_path path =
     (if path = [] then Inr None
      else case get_ns3_relative_path path of
             None \<Rightarrow> Inl ValueError
           | Some (Inl e) \<Rightarrow> Inl e
           | Some (Inr h) \<Rightarrow> Inr (Some h))"
    by (cases "modular_loop path []") (simp_all add: get_ns3_relative_path_def modular_relative_path_def loops_agree)
qed

section \<open>What is imported\<close>

text \<open>The file of a declaration is in a module when its path below \<^verbatim>\<open>ns3\<close> is one of the module's headers.\<close>

definition in_module :: "(string, string) dict \<Rightarrow> string \<Rightarrow> string \<Rightarrow> bool" where
  "in_module headers m f \<longleftrightarrow> (\<exists>h. modular_relative_path f = Inr (Some h) \<and> dget headers h = Some m)"

lemma param_modules_set:
  "param_modules headers files = Inr ms \<Longrightarrow> m \<in> set ms \<longleftrightarrow> (\<exists>f. Some f \<in> set files \<and> in_module headers m f)"
proof (induction headers files arbitrary: ms rule: param_modules.induct)
  case (3 headers f files)
  show ?case
  proof (cases "modular_relative_path f")
    case (Inl e)
    with 3 show ?thesis by (auto simp: in_module_def split: if_splits)
  next
    case (Inr h)
    with 3(3) obtain x ms' where x: "Option.bind h (dget headers) = Some x"
      and ms: "param_modules headers files = Inr ms'" "ms = x # ms'"
      by (auto split: option.splits)
    then have "in_module headers m f \<longleftrightarrow> x = m"
      using Inr by (cases h) (auto simp: in_module_def)
    with 3(2) [OF Inr x ms(1)] ms(2) show ?thesis by auto
  qed
qed simp_all

text \<open>The steps of the hook leave the annotation of the import alone.\<close>

lemma method_annotations_keep:
  "k \<notin> {''template_instance_names'', ''ignore''} \<Longrightarrow> dget (global_annotations (method_annotations s)) k = dget (global_annotations s) k"
  "table (method_annotations s) = table s" "scanned (method_annotations s) = scanned s"
  by (simp_all add: method_annotations_def annotate_def Let_def)

lemma fix_defaults_keep:
  "global_annotations (fix_defaults s) = global_annotations s" "table (fix_defaults s) = table s"
  "dl_kind (scanned (fix_defaults s)) = dl_kind (scanned s)"
  by (simp_all add: fix_defaults_def)

lemma class_annotations_keep:
  assumes "k \<notin> {''ignore'', ''automatic_type_narrowing'', ''peekref_method'', ''decref_method'', ''incref_method''}"
    and "\<forall>n as. dget (table s) n = Some as \<longrightarrow> dget as k = None"
  shows "dget (global_annotations (class_annotations s)) k = dget (global_annotations s) k"
proof -
  have "map_of (rev as) k = None" if "dget (table s) n = Some as" for n as
  proof -
    have "dget as k = None" using that assms(2) by blast
    then show ?thesis by (metis map_of_eq_None_iff set_rev)
  qed
  then show ?thesis
    using assms(1) by (auto simp: class_annotations_def annotate_def Let_def dget_dict_update split: option.splits)
qed

lemma modular_hook_in_module:
  assumes "in_module headers dm (dl_file (scanned s))" and "dget headers [] = None"
  obtains t where "modular_hook headers m parameters s = modular_declaration headers m parameters dm t"
    and "table t = table s" and "dl_kind (scanned t) = dl_kind (scanned s)"
    and "dget (global_annotations t) ''import_from_module'' = dget (global_annotations s) ''import_from_module''"
proof -
  from assms(1) obtain h where h: "modular_relative_path (dl_file (scanned s)) = Inr (Some h)" "dget headers h = Some dm"
    by (auto simp: in_module_def)
  with assms(2) have "h \<noteq> []" by auto
  let ?c = "annotate ''pygen_comment'' (Text (h @ '' (module '' @ repr_str dm @ ''): '' @ dl_str (scanned s))) s"
  show ?thesis
  proof (rule that)
    show "modular_hook headers m parameters s = modular_declaration headers m parameters dm (fix_defaults (method_annotations ?c))"
      using h \<open>h \<noteq> []\<close> by (simp add: modular_hook_def)
  qed (simp_all add: fix_defaults_keep method_annotations_keep annotate_def)
qed

text \<open>C38. A class or an enumeration is imported exactly when it does not belong to the module scanned.  It belongs to the module of
  its header; an instance of a template also belongs to the module scanned when the declaration of one of its parameters does.  The
  dashes of the module's name are replaced in the import of a class but not in that of an enumeration.\<close>

theorem imported_from_module:
  assumes "in_module headers dm (dl_file (scanned s))" and "dget headers [] = None"
    and "dl_kind (scanned s) \<in> {Class, Enumeration}"
    and "\<forall>n as. dget (table s) n = Some as \<longrightarrow> dget as ''import_from_module'' = None"
    and "dget (global_annotations s) ''import_from_module'' = None"
    and "modular_hook headers m parameters s = Inr s'"
  shows "dget (global_annotations s') ''import_from_module'' =
     (if dm = m \<or> dl_kind (scanned s) = Class \<and> (\<exists>files f. parameters = Some files \<and> Some f \<in> set files \<and> in_module headers m f)
      then None
      else Some (Text (''ns.'' @ (if dl_kind (scanned s) = Class then underscores dm else dm))))"
proof -
  from modular_hook_in_module [OF assms(1,2)] obtain t where t:
    "modular_hook headers m parameters s = modular_declaration headers m parameters dm t"
    "table t = table s" "dl_kind (scanned t) = dl_kind (scanned s)"
    "dget (global_annotations t) ''import_from_module'' = dget (global_annotations s) ''import_from_module''" by metis
  show ?thesis
  proof (cases "dl_kind (scanned s) = Class")
    case True
    with t(1,3) assms(6) obtain owner where owner: "class_module headers m parameters dm = Inr owner"
      and s': "s' = class_annotations (import_annotation m owner (underscores owner) t)"
      by (cases "class_module headers m parameters dm") (simp_all add: modular_declaration_def)
    have "owner = (if \<exists>files f. parameters = Some files \<and> Some f \<in> set files \<and> in_module headers m f then m else dm)"
      using owner param_modules_set [of headers _ _ m]
      by (cases parameters) (auto simp: class_module_def)
    moreover have "dget (global_annotations s') ''import_from_module'' =
        dget (global_annotations (import_annotation m owner (underscores owner) t)) ''import_from_module''"
      unfolding s' by (rule class_annotations_keep) (use t(2) assms(4) in \<open>auto simp: import_annotation_def annotate_def\<close>)
    ultimately show ?thesis
      using True t(4) assms(5) by (auto simp: import_annotation_def annotate_def)
  next
    case False
    with assms(3) t(1,3) assms(6) have "s' = import_annotation m dm dm t" by (auto simp: modular_declaration_def)
    with False t(4) assms(5) show ?thesis by (simp add: import_annotation_def annotate_def)
  qed
qed

definition small_headers :: "(string, string) dict" where
  "small_headers = [(''cl.h'', ''csma-layout''), (''ob.h'', ''core'')]"

definition small_scan :: "decl_kind \<Rightarrow> scan" where
  "small_scan k = \<lparr>global_annotations = [], parameter_annotations = [], table = [],
     scanned = \<lparr>dl_kind = k, dl_name = ''List'', dl_parent = '''', dl_decl_string = ''::ns3::List<ns3::Object>'',
       dl_str = ''ns3::List<ns3::Object> [class]'', dl_template_args = [], dl_file = ''/b/ns3/cl.h'', dl_defaults = []\<rparr>\<rparr>"

lemma small_in_module: "in_module small_headers ''csma-layout'' ''/b/ns3/cl.h''" "in_module small_headers ''core'' ''/b/ns3/ob.h''"
proof -
  have "modular_relative_path ''/b/ns3/cl.h'' = Inr (Some ''cl.h'')" "modular_relative_path ''/b/ns3/ob.h'' = Inr (Some ''ob.h'')"
    by code_simp+
  then show "in_module small_headers ''csma-layout'' ''/b/ns3/cl.h''" "in_module small_headers ''core'' ''/b/ns3/ob.h''"
    by (auto simp: in_module_def small_headers_def)
qed

lemma small_hooks: "\<exists>e. modular_hook small_headers ''core'' None (small_scan Enumeration) = Inr e"
  "\<exists>c. modular_hook small_headers ''core'' None (small_scan Class) = Inr c"
  "\<exists>i. modular_hook small_headers ''core'' (Some [Some ''/b/ns3/ob.h'', None]) (small_scan Class) = Inr i"
proof -
  have "case modular_hook small_headers ''core'' None (small_scan Enumeration) of Inl _ \<Rightarrow> False | Inr _ \<Rightarrow> True"
    "case modular_hook small_headers ''core'' None (small_scan Class) of Inl _ \<Rightarrow> False | Inr _ \<Rightarrow> True"
    "case modular_hook small_headers ''core'' (Some [Some ''/b/ns3/ob.h'', None]) (small_scan Class) of Inl _ \<Rightarrow> False | Inr _ \<Rightarrow> True"
    by code_simp+
  then show "\<exists>e. modular_hook small_headers ''core'' None (small_scan Enumeration) = Inr e"
    "\<exists>c. modular_hook small_headers ''core'' None (small_scan Class) = Inr c"
    "\<exists>i. modular_hook small_headers ''core'' (Some [Some ''/b/ns3/ob.h'', None]) (small_scan Class) = Inr i"
    by (auto split: sum.splits)
qed

theorem imported_from_module_witness:
  "\<exists>e c i. modular_hook small_headers ''core'' None (small_scan Enumeration) = Inr e \<and>
     dget (global_annotations e) ''import_from_module'' = Some (Text ''ns.csma-layout'') \<and>
     modular_hook small_headers ''core'' None (small_scan Class) = Inr c \<and>
     dget (global_annotations c) ''import_from_module'' = Some (Text ''ns.csma_layout'') \<and>
     modular_hook small_headers ''core'' (Some [Some ''/b/ns3/ob.h'', None]) (small_scan Class) = Inr i \<and>
     dget (global_annotations i) ''import_from_module'' = None"
proof -
  obtain e c i where hooks: "modular_hook small_headers ''core'' None (small_scan Enumeration) = Inr e"
    "modular_hook small_headers ''core'' None (small_scan Class) = Inr c"
    "modular_hook small_headers ''core'' (Some [Some ''/b/ns3/ob.h'', None]) (small_scan Class) = Inr i"
    using small_hooks by blast
  have nil: "dget small_headers [] = None" by (simp add: small_headers_def)
  have loc: "in_module small_headers ''csma-layout'' (dl_file (scanned (small_scan k)))" for k
    using small_in_module(1) by (simp add: small_scan_def)
  have rest: "dl_kind (scanned (small_scan k)) = k" "dget (table (small_scan k)) n = None"
    "dget (global_annotations (small_scan k)) n = None" for k n
    by (simp_all add: small_scan_def)
  from imported_from_module [OF loc nil _ _ _ hooks(1)] imported_from_module [OF loc nil _ _ _ hooks(2)]
    imported_from_module [OF loc nil _ _ _ hooks(3)]
  show ?thesis using hooks small_in_module(2) by (auto simp: rest underscores_def)
qed

end
