(* ===== verification/Create_Module.thy ===== *)
theory Create_Module
  imports Py_Path
begin

text \<open>
  \<^verbatim>\<open>src/create-module.py\<close>: the templates of a new module and the script that writes them.  The command line has been
  parsed: \<open>args\<close> are its positional arguments.  Names are ASCII.
\<close>

section \<open>Templates\<close>

definition text_lines :: "string list \<Rightarrow> string" where
  "text_lines ls = concat (map (\<lambda>l. l @ [nl]) ls)"

definition wscript_template :: string where
  \<open>wscript_template = text_lines
     [''# -*- Mode: python; py-indent-offset: 4; indent-tabs-mode: nil; coding: utf-8; -*-'',
      [],
      ''# def options(opt):'',
      ''#     pass'',
      [],
      ''# def configure(conf):'',
      ''#     conf.check_nonfatal(header_name='stdint.h', define_name='HAVE_STDINT_H')'',
      [],
      ''def build(bld):'',
      ''    module = bld.create_ns3_module(%(MODULE)r, ['core'])'',
      ''    module.source = ['',
      ''        'model/%(MODULE)s.cc','',
      ''        'helper/%(MODULE)s-helper.cc','',
      ''        ]'',
      [],
      ''    module_test = bld.create_ns3_module_test_library('%(MODULE)s')'',
      ''    module_test.source = ['',
      ''        'test/%(MODULE)s-test-suite.cc','',
      ''        ]'',
      [],
      ''    headers = bld(features='ns3header')'',
      ''    headers.module = %(MODULE)r'',
      ''    headers.source = ['',
      ''        'model/%(MODULE)s.h','',
      ''        'helper/%(MODULE)s-helper.h','',
      ''        ]'',
      [],
      ''    if bld.env.ENABLE_EXAMPLES:'',
      ''        bld.recurse('examples')'',
      [],
      ''    # bld.ns3_python_bindings()'',
      []]\<close>

definition model_cc_template :: string where
  \<open>model_cc_template = text_lines
     [''/* -*- Mode:C++; c-file-style:"gnu"; indent-tabs-mode:nil; -*- */'',
      [],
      ''#include "%(MODULE)s.h"'',
      [],
      ''namespace ns3 {'',
      [],
      ''/* ... */'',
      [],
      [],
      ''}'',
      []]\<close>

definition model_h_template :: string where
  \<open>model_h_template = text_lines
     [''/* -*- Mode:C++; c-file-style:"gnu"; indent-tabs-mode:nil; -*- */'',
      ''#ifndef %(INCLUDE_GUARD)s'',
      ''#define %(INCLUDE_GUARD)s'',
      [],
      ''namespace ns3 {'',
      [],
      ''/* ... */'',
      [],
      ''}'',
      [],
      ''#endif /* %(INCLUDE_GUARD)s */'',
      []]\<close>

definition helper_cc_template :: string where
  \<open>helper_cc_template = text_lines
     [''/* -*- Mode:C++; c-file-style:"gnu"; indent-tabs-mode:nil; -*- */'',
      [],
      ''#include "%(MODULE)s-helper.h"'',
      [],
      ''namespace ns3 {'',
      [],
      ''/* ... */'',
      [],
      [],
      ''}'',
      []]\<close>

definition helper_h_template :: string where
  \<open>helper_h_template = text_lines
     [''/* -*- Mode:C++; c-file-style:"gnu"; indent-tabs-mode:nil; -*- */'',
      ''#ifndef %(INCLUDE_GUARD)s'',
      ''#define %(INCLUDE_GUARD)s'',
      [],
      ''#include "ns3/%(MODULE)s.h"'',
      [],
      ''namespace ns3 {'',
      [],
      ''/* ... */'',
      [],
      ''}'',
      [],
      ''#endif /* %(INCLUDE_GUARD)s */'',
      []]\<close>

definition examples_wscript_template :: string where
  \<open>examples_wscript_template = text_lines
     [''# -*- Mode: python; py-indent-offset: 4; indent-tabs-mode: nil; coding: utf-8; -*-'',
      [],
      ''def build(bld):'',
      ''    obj = bld.create_ns3_program('%(MODULE)s-example', [%(MODULE)r])'',
      ''    obj.source = '%(MODULE)s-example.cc'' @ [CHR 0x27],
      []]\<close>

definition example_cc_template :: string where
  \<open>example_cc_template = text_lines
     [''/* -*- Mode:C++; c-file-style:"gnu"; indent-tabs-mode:nil; -*- */'',
      [],
      ''#include "ns3/core-module.h"'',
      ''#include "ns3/%(MODULE)s-helper.h"'',
      [],
      ''using namespace ns3;'',
      [],
      [],
      ''int '',
      ''main (int argc, char *argv[])'',
      ''{'',
      ''  bool verbose = true;'',
      [],
      ''  CommandLine cmd;'',
      ''  cmd.AddValue ("verbose", "Tell application to log if true", verbose);'',
      [],
      ''  cmd.Parse (argc,argv);'',
      [],
      ''  /* ... */'',
      [],
      ''  Simulator::Run ();'',
      ''  Simulator::Destroy ();'',
      ''  return 0;'',
      ''}'',
      [],
      []]\<close>

definition test_cc_template :: string where
  \<open>test_cc_template = text_lines
     [''/* -*- Mode:C++; c-file-style:"gnu"; indent-tabs-mode:nil; -*- */'',
      [],
      ''// Include a header file from your module to test.'',
      ''#include "ns3/%(MODULE)s.h"'',
      [],
      ''// An essential include is test.h'',
      ''#include "ns3/test.h"'',
      [],
      ''// Do not put your test classes in namespace ns3.  You may find it useful'',
      ''// to use the using directive to access the ns3 namespace directly'',
      ''using namespace ns3;'',
      [],
      ''// This is an example TestCase.'',
      ''class %(CAPITALIZED)sTestCase1 : public TestCase'',
      ''{'',
      ''public:'',
      ''  %(CAPITALIZED)sTestCase1 ();'',
      ''  virtual ~%(CAPITALIZED)sTestCase1 ();'',
      [],
      ''private:'',
      ''  virtual void DoRun (void);'',
      ''};'',
      [],
      ''// Add some help text to this case to describe what it is intended to test'',
      ''%(CAPITALIZED)sTestCase1::%(CAPITALIZED)sTestCase1 ()'',
      ''  : TestCase ("%(CAPITALIZED)s test case (does nothing)")'',
      ''{'',
      ''}'',
      [],
      ''// This destructor does nothing but we include it as a reminder that'',
      ''// the test case should clean up after itself'',
      ''%(CAPITALIZED)sTestCase1::~%(CAPITALIZED)sTestCase1 ()'',
      ''{'',
      ''}'',
      [],
      ''//'',
      ''// This method is the pure virtual method from class TestCase that every'',
      ''// TestCase must implement'',
      ''//'',
      ''void'',
      ''%(CAPITALIZED)sTestCase1::DoRun (void)'',
      ''{'',
      ''  // A wide variety of test macros are available in src/core/test.h'',
      ''  NS_TEST_ASSERT_MSG_EQ (true, true, "true doesn't equal true for some reason");'',
      ''  // Use this one for floating point comparisons'',
      ''  NS_TEST_ASSERT_MSG_EQ_TOL (0.01, 0.01, 0.001, "Numbers are not equal within tolerance");'',
      ''}'',
      [],
      ''// The TestSuite class names the TestSuite, identifies what type of TestSuite,'',
      ''// and enables the TestCases to be run.  Typically, only the constructor for'',
      ''// this class must be defined'',
      ''//'',
      ''class %(CAPITALIZED)sTestSuite : public TestSuite'',
      ''{'',
      ''public:'',
      ''  %(CAPITALIZED)sTestSuite ();'',
      ''};'',
      [],
      ''%(CAPITALIZED)sTestSuite::%(CAPITALIZED)sTestSuite ()'',
      ''  : TestSuite ("%(MODULE)s", UNIT)'',
      ''{'',
      ''  // TestDuration for TestCase can be QUICK, EXTENSIVE or TAKES_FOREVER'',
      ''  AddTestCase (new %(CAPITALIZED)sTestCase1, TestCase::QUICK);'',
      ''}'',
      [],
      ''// Do not forget to allocate an instance of this TestSuite'',
      ''static %(CAPITALIZED)sTestSuite %(COMPOUND)sTestSuite;'',
      []]\<close>

definition doc_rst_template :: string where
  \<open>doc_rst_template = text_lines
     [''Example Module Documentation'',
      ''----------------------------'',
      [],
      ''.. include:: replace.txt'',
      ''.. highlight:: cpp'',
      [],
      ''.. heading hierarchy:'',
      ''   ------------- Chapter'',
      ''   ************* Section (#.#)'',
      ''   ============= Subsection (#.#.#)'',
      ''   ############# Paragraph (no number)'',
      [],
      ''This is a suggested outline for adding new module documentation to |ns3|.'',
      ''See ``src/click/doc/click.rst`` for an example.'',
      [],
      ''The introductory paragraph is for describing what this code is trying to'',
      ''model.'',
      [],
      ''For consistency (italicized formatting), please use |ns3| to refer to'',
      ''ns-3 in the documentation (and likewise, |ns2| for ns-2).  These macros'',
      ''are defined in the file ``replace.txt``.'',
      [],
      ''Model Description'',
      ''*****************'',
      [],
      ''The source code for the new module lives in the directory ``src/%(MODULE)s``.'',
      [],
      ''Add here a basic description of what is being modeled.'',
      [],
      ''Design'',
      ''======'',
      [],
      ''Briefly describe the software design of the model and how it fits into '',
      ''the existing ns-3 architecture. '',
      [],
      ''Scope and Limitations'',
      ''====================='',
      [],
      ''What can the model do?  What can it not do?  Please use this section to'',
      ''describe the scope and limitations of the model.'',
      [],
      ''References'',
      ''=========='',
      [],
      ''Add academic citations here, such as if you published a paper on this'',
      ''model, or if readers should read a particular specification or other work.'',
      [],
      ''Usage'',
      ''*****'',
      [],
      ''This section is principally concerned with the usage of your model, using'',
      ''the public API.  Focus first on most common usage patterns, then go'',
      ''into more advanced topics.'',
      [],
      ''Building New Module'',
      ''==================='',
      [],
      ''Include this subsection only if there are special build instructions or'',
      ''platform limitations.'',
      [],
      ''Helpers'',
      ''======='',
      [],
      ''What helper API will users typically use?  Describe it here.'',
      [],
      ''Attributes'',
      ''=========='',
      [],
      ''What classes hold attributes, and what are the key ones worth mentioning?'',
      [],
      ''Output'',
      ''======'',
      [],
      ''What kind of data does the model generate?  What are the key trace'',
      ''sources?   What kind of logging output can be enabled?'',
      [],
      ''Advanced Usage'',
      ''=============='',
      [],
      ''Go into further details (such as using the API outside of the helpers)'',
      ''in additional sections, as needed.'',
      [],
      ''Examples'',
      ''========'',
      [],
      ''What examples using this new code are available?  Describe them here.'',
      [],
      ''Troubleshooting'',
      ''==============='',
      [],
      ''Add any tips for avoiding pitfalls, etc.'',
      [],
      ''Validation'',
      ''**********'',
      [],
      ''Describe how the model has been tested/validated.  What tests run in the'',
      ''test suite?  How much API and code is covered by the tests?  Again, '',
      ''references to outside published work may help here.'']\<close>

section \<open>Formatting\<close>

text \<open>\<^verbatim>\<open>template % d\<close> for the directives \<^verbatim>\<open>%(NAME)s\<close>, \<^verbatim>\<open>%(NAME)r\<close> and \<^verbatim>\<open>%%\<close>; others are
  refused.  \<open>Name\<close> holds the name read so far, \<open>Conversion\<close> what comes after the parenthesis.\<close>

datatype format_state = Plain | Percent | Name string | Conversion string

fun format_dict :: "(string, string) dict \<Rightarrow> format_state \<Rightarrow> string \<Rightarrow> py_exn + string" where
  "format_dict d Plain [] = Inr []"
| "format_dict d _ [] = Inl ValueError"
| "format_dict d Plain (c # s) =
     (if c = CHR 0x25 then format_dict d Percent s else rbind (format_dict d Plain s) (\<lambda>r. Inr (c # r)))"
| "format_dict d Percent (c # s) =
     (if c = CHR 0x25 then rbind (format_dict d Plain s) (\<lambda>r. Inr (c # r))
      else if c = CHR ''('' then format_dict d (Name []) s else Inl ValueError)"
| "format_dict d (Name n) (c # s) =
     (if c = CHR '')'' then case dget d n of None \<Rightarrow> Inl KeyError | Some v \<Rightarrow> format_dict d (Conversion v) s
      else format_dict d (Name (n @ [c])) s)"
| "format_dict d (Conversion v) (c # s) =
     (if c = CHR ''s'' then rbind (format_dict d Plain s) (\<lambda>r. Inr (v @ r))
      else if c = CHR ''r'' then rbind (format_dict d Plain s) (\<lambda>r. Inr (repr_str v @ r)) else Inl ValueError)"

section \<open>Names\<close>

definition is_alnum :: "char \<Rightarrow> bool" where
  "is_alnum c \<longleftrightarrow> is_letter c \<or> is_digit c"

text \<open>\<^verbatim>\<open>word.isalnum()\<close> for every word between dashes\<close>

definition good_name :: "string \<Rightarrow> bool" where
  "good_name modname \<longleftrightarrow> list_all (\<lambda>w. w \<noteq> [] \<and> list_all is_alnum w) (split_on (CHR ''-'') modname)"

definition capitalize :: "string \<Rightarrow> string" where
  "capitalize w = (case w of [] \<Rightarrow> [] | c # s \<Rightarrow> upper_char c # map to_lower s)"

definition capitalized :: "string \<Rightarrow> string" where
  "capitalized modname = concat (map capitalize (split_on (CHR ''-'') modname))"

definition compound :: "string \<Rightarrow> string" where
  "compound modname =
     (let ws = split_on (CHR ''-'') modname in concat ([hd ws] @ map capitalize (tl ws)))"

definition guard_name :: "string \<Rightarrow> string" where
  "guard_name modname = map upper_char (map (\<lambda>c. if c = CHR ''-'' then CHR ''_'' else c) modname)"

section \<open>The script\<close>

record world =
  directories :: "string list"
  contents :: "(string, string) dict"

definition exists :: "world \<Rightarrow> string \<Rightarrow> bool" where
  "exists w p \<longleftrightarrow> p \<in> set (directories w) \<or> dget (contents w) p \<noteq> None"

datatype action = Mkdir string | Write string string "(string, string) dict"

text \<open>\<open>os.mkdir\<close>, and \<open>open\<close>, \<open>write\<close> and \<open>close\<close>; both need the directory above.\<close>

definition above :: "string \<Rightarrow> world \<Rightarrow> bool" where
  "above p w \<longleftrightarrow> (let d = fst (path_split p) in d = [] \<or> d \<in> set (directories w))"

fun run_action :: "action \<Rightarrow> world \<Rightarrow> py_exn + world" where
  "run_action (Mkdir p) w =
     (if exists w p \<or> \<not> above p w then Inl OSError else Inr (w\<lparr>directories := directories w @ [p]\<rparr>))"
| "run_action (Write p template d) w =
     (if p \<in> set (directories w) \<or> \<not> above p w then Inl OSError
      else rbind (format_dict d Plain template) (\<lambda>t. Inr (w\<lparr>contents := dset p t (contents w)\<rparr>)))"

definition module_actions :: "string \<Rightarrow> string \<Rightarrow> action list" where
  "module_actions moduledir modname =
     (let file = (\<lambda>dir name. path_join (path_join moduledir dir) name);
          m = [(''MODULE'', modname)]
      in [Mkdir moduledir,
          Write (path_join moduledir ''wscript'') wscript_template m,
          Mkdir (path_join moduledir ''model''),
          Write (file ''model'' (modname @ ''.cc'')) model_cc_template m,
          Write (file ''model'' (modname @ ''.h'')) model_h_template (m @ [(''INCLUDE_GUARD'', guard_name modname @ ''_H'')]),
          Mkdir (path_join moduledir ''test''),
          Write (file ''test'' (modname @ ''-test-suite.cc'')) test_cc_template
            (m @ [(''CAPITALIZED'', capitalized modname), (''COMPOUND'', compound modname)]),
          Mkdir (path_join moduledir ''helper''),
          Write (file ''helper'' (modname @ ''-helper.cc'')) helper_cc_template m,
          Write (file ''helper'' (modname @ ''-helper.h'')) helper_h_template (m @ [(''INCLUDE_GUARD'', guard_name modname @ ''_HELPER_H'')]),
          Mkdir (path_join moduledir ''examples''),
          Write (file ''examples'' ''wscript'') examples_wscript_template m,
          Write (file ''examples'' (modname @ ''-example.cc'')) example_cc_template m,
          Mkdir (path_join moduledir ''doc''),
          Write (file ''doc'' (modname @ ''.rst'')) doc_rst_template m])"

text \<open>The exit status, and the world the script leaves; \<open>script\<close> is \<open>__file__\<close>.\<close>

definition create_module :: "string \<Rightarrow> string list \<Rightarrow> world \<Rightarrow> py_exn + nat \<times> world" where
  "create_module script args w =
     (case args of
        [a] \<Rightarrow>
          let modname = map to_lower a; moduledir = path_join (fst (path_split script)) modname
          in if \<not> good_name modname then Inr (2, w)
             else if CHR ''/'' \<in> set modname then Inl AssertionError
             else if exists w moduledir then Inr (2, w)
             else rbind (foldM run_action (module_actions moduledir modname) w) (\<lambda>w. Inr (0, w))
      | _ \<Rightarrow> Inr (1, w))"

section \<open>Formatting succeeds\<close>

text \<open>A template whose directives are complete and whose names are in \<open>ks\<close>.\<close>

fun well_formed :: "string list \<Rightarrow> format_state \<Rightarrow> string \<Rightarrow> bool" where
  "well_formed ks Plain [] \<longleftrightarrow> True"
| "well_formed ks _ [] \<longleftrightarrow> False"
| "well_formed ks Plain (c # s) \<longleftrightarrow> well_formed ks (if c = CHR 0x25 then Percent else Plain) s"
| "well_formed ks Percent (c # s) \<longleftrightarrow>
     (if c = CHR 0x25 then well_formed ks Plain s else c = CHR ''('' \<and> well_formed ks (Name []) s)"
| "well_formed ks (Name n) (c # s) \<longleftrightarrow>
     (if c = CHR '')'' then n \<in> set ks \<and> well_formed ks (Conversion []) s else well_formed ks (Name (n @ [c])) s)"
| "well_formed ks (Conversion v) (c # s) \<longleftrightarrow> c \<in> {CHR ''s'', CHR ''r''} \<and> well_formed ks Plain s"

lemma well_formed_conversion: "well_formed ks (Conversion v) s \<longleftrightarrow> well_formed ks (Conversion u) s"
  by (cases s) auto

lemma well_formed_formats: "well_formed ks st s \<Longrightarrow> set ks \<subseteq> set (dkeys d) \<Longrightarrow> \<exists>t. format_dict d st s = Inr t"
proof (induction d st s rule: format_dict.induct)
  case (5 d n c s)
  show ?case
  proof (cases "c = CHR '')''")
    case True
    with 5(3,4) have "dget d n \<noteq> None" by (auto simp: map_of_eq_None_iff)
    then obtain v where v: "dget d n = Some v" by blast
    with True 5(1) [of v] 5(3,4) well_formed_conversion [of ks "[]" s v] show ?thesis by simp
  qed (use 5 in simp)
next
  case (3 d c s)
  then show ?case by (cases "c = CHR 0x25") auto
next
  case (4 d c s)
  then show ?case by (cases "c = CHR 0x25") auto
next
  case (6 d v c s)
  then have "\<exists>t. format_dict d Plain s = Inr t" by auto
  with 6(3) show ?case by auto
qed simp_all

lemma templates_well_formed:
  "well_formed [''MODULE''] Plain wscript_template" "well_formed [''MODULE''] Plain model_cc_template"
  "well_formed [''MODULE'', ''INCLUDE_GUARD''] Plain model_h_template" "well_formed [''MODULE''] Plain helper_cc_template"
  "well_formed [''MODULE'', ''INCLUDE_GUARD''] Plain helper_h_template" "well_formed [''MODULE''] Plain examples_wscript_template"
  "well_formed [''MODULE''] Plain example_cc_template" "well_formed [''MODULE''] Plain doc_rst_template"
  "well_formed [''MODULE'', ''CAPITALIZED'', ''COMPOUND''] Plain test_cc_template"
  by code_simp+

section \<open>Running the actions\<close>

fun path_of :: "action \<Rightarrow> string" where
  "path_of (Mkdir p) = p"
| "path_of (Write p t d) = p"

fun dirs_of :: "action list \<Rightarrow> string list" where
  "dirs_of [] = []"
| "dirs_of (Mkdir p # as) = p # dirs_of as"
| "dirs_of (Write p t d # as) = dirs_of as"

definition text_of :: "string \<Rightarrow> (string, string) dict \<Rightarrow> string" where
  "text_of t d = (case format_dict d Plain t of Inl _ \<Rightarrow> [] | Inr r \<Rightarrow> r)"

fun files_of :: "action list \<Rightarrow> (string, string) dict" where
  "files_of [] = []"
| "files_of (Mkdir p # as) = files_of as"
| "files_of (Write p t d # as) = (p, text_of t d) # files_of as"

text \<open>Every action finds the directory above its path, and its template can be formatted.\<close>

fun ready :: "string set \<Rightarrow> action list \<Rightarrow> bool" where
  "ready ds [] \<longleftrightarrow> True"
| "ready ds (Mkdir p # as) \<longleftrightarrow> fst (path_split p) \<in> ds \<and> ready (insert p ds) as"
| "ready ds (Write p t d # as) \<longleftrightarrow> fst (path_split p) \<in> ds \<and> (\<exists>r. format_dict d Plain t = Inr r) \<and> ready ds as"

lemma run_ready:
  "ready (insert [] (set (directories w))) as \<Longrightarrow> distinct (map path_of as) \<Longrightarrow> \<forall>a \<in> set as. \<not> exists w (path_of a) \<Longrightarrow>
    foldM run_action as w = Inr (w\<lparr>directories := directories w @ dirs_of as, contents := contents w @ files_of as\<rparr>)"
proof (induction as arbitrary: w)
  case (Cons a as)
  show ?case
  proof (cases a)
    case (Mkdir p)
    let ?w = "w\<lparr>directories := directories w @ [p]\<rparr>"
    have "run_action a w = Inr ?w"
      using Cons.prems by (auto simp: Mkdir above_def Let_def)
    moreover have "foldM run_action as ?w = Inr (?w\<lparr>directories := directories ?w @ dirs_of as, contents := contents ?w @ files_of as\<rparr>)"
      using Cons.prems by (intro Cons.IH) (auto simp: Mkdir exists_def insert_commute)
    ultimately show ?thesis by (simp add: Mkdir)
  next
    case (Write p t d)
    then obtain r where r: "format_dict d Plain t = Inr r" using Cons.prems(1) by auto
    let ?w = "w\<lparr>contents := contents w @ [(p, r)]\<rparr>"
    have new: "p \<notin> fst ` set (contents w)" "p \<notin> set (directories w)"
      using Cons.prems(3) by (auto simp: Write exists_def map_of_eq_None_iff)
    then have "run_action a w = Inr ?w"
      using Cons.prems(1) r by (auto simp: Write above_def Let_def dset_new)
    moreover have "foldM run_action as ?w = Inr (?w\<lparr>directories := directories ?w @ dirs_of as, contents := contents ?w @ files_of as\<rparr>)"
      using Cons.prems by (intro Cons.IH) (auto simp: Write exists_def map_of_eq_None_iff)
    ultimately show ?thesis by (simp add: Write text_of_def r)
  qed
qed simp

section \<open>The actions for a module\<close>

lemma in_split_on: "x \<in> set s \<Longrightarrow> x \<noteq> c \<Longrightarrow> \<exists>w \<in> set (split_on c s). x \<in> set w"
proof (induction s)
  case (Cons y s)
  then show ?case by (cases "split_on c s") auto
qed simp

lemma good_name_chars: "good_name m \<Longrightarrow> c \<in> set m \<Longrightarrow> is_alnum c \<or> c = CHR ''-''"
  using in_split_on [of c m "CHR ''-''"] by (auto simp: good_name_def list_all_iff)

lemma good_name_part: "good_name m \<Longrightarrow> part m"
proof -
  assume m: "good_name m"
  have "\<not> is_alnum (CHR ''/'')" by (simp add: is_alnum_def is_letter_def is_digit_def)
  with good_name_chars [OF m, of "CHR ''/''"] have "CHR ''/'' \<notin> set m" by auto
  moreover have "m \<noteq> []" using m by (auto simp: good_name_def)
  ultimately show ?thesis by (simp add: part_def)
qed

definition solid :: "string \<Rightarrow> bool" where
  "solid d \<longleftrightarrow> d \<noteq> [] \<and> last d \<noteq> CHR ''/''"

lemma path_join_part:
  assumes "solid d" and "part x"
  shows "path_join d x = d @ ''/'' @ x" and "path_split (path_join d x) = (d, x)" and "solid (path_join d x)"
proof -
  show *: "path_join d x = d @ ''/'' @ x"
    using assms by (cases x) (auto simp: path_join_def solid_def part_def startswith_def)
  show "path_split (path_join d x) = (d, x)"
    unfolding * by (rule path_split_solid) (use assms in \<open>auto simp: solid_def\<close>)
  show "solid (path_join d x)"
    unfolding * using part_solid [OF assms(2)] by (simp add: solid_def)
qed

lemma path_join_inject:
  assumes "solid d" and "part x" and "solid e" and "part y"
  shows "path_join d x = path_join e y \<longleftrightarrow> d = e \<and> x = y"
  by (metis Pair_inject assms path_join_part(2))

lemma path_join_longer: "solid d \<Longrightarrow> part x \<Longrightarrow> path_join d x \<noteq> d" "solid d \<Longrightarrow> part x \<Longrightarrow> d \<noteq> path_join d x"
  by (simp_all add: path_join_part(1))

lemma path_join_longer2:
  assumes "solid d" and "part x" and "part y"
  shows "d \<noteq> path_join (path_join d x) y"
  using path_join_part(1) [OF path_join_part(3) [OF assms(1,2)] assms(3)] path_join_part(1) [OF assms(1,2)] by simp

lemma part_append: "part m \<Longrightarrow> part n \<Longrightarrow> part (m @ n)"
  by (auto simp: part_def)

definition module_dirs :: "string \<Rightarrow> string list" where
  "module_dirs md = md # map (path_join md) [''model'', ''test'', ''helper'', ''examples'', ''doc'']"

text \<open>The files of a module, below its directory.\<close>

definition module_files :: "string \<Rightarrow> string \<Rightarrow> string list" where
  "module_files md m =
     (let file = (\<lambda>dir name. path_join (path_join md dir) name)
      in [path_join md ''wscript'', file ''model'' (m @ ''.cc''), file ''model'' (m @ ''.h''), file ''test'' (m @ ''-test-suite.cc''),
          file ''helper'' (m @ ''-helper.cc''), file ''helper'' (m @ ''-helper.h''), file ''examples'' ''wscript'',
          file ''examples'' (m @ ''-example.cc''), file ''doc'' (m @ ''.rst'')])"

lemma parts:
  "part ''wscript''" "part ''model''" "part ''test''" "part ''helper''" "part ''examples''" "part ''doc''"
  "part ''.cc''" "part ''.h''" "part ''-test-suite.cc''" "part ''-helper.cc''" "part ''-helper.h''" "part ''-example.cc''" "part ''.rst''"
  by (simp_all add: part_def)

lemma example_not_wscript: "m @ ''-example.cc'' \<noteq> ''wscript''" "''wscript'' \<noteq> m @ ''-example.cc''"
  using arg_cong [of "m @ ''-example.cc''" "''wscript''" length] by auto

lemma module_actions_facts:
  assumes "part m" and "solid md" and "fst (path_split md) \<in> ds"
  shows "dirs_of (module_actions md m) = module_dirs md" and "dkeys (files_of (module_actions md m)) = module_files md m"
    and "ready ds (module_actions md m)" and "distinct (map path_of (module_actions md m))"
    and "set (map path_of (module_actions md m)) \<subseteq> set (module_dirs md) \<union> set (module_files md m)"
proof -
  note formats = templates_well_formed [THEN well_formed_formats]
  show "dirs_of (module_actions md m) = module_dirs md" and "dkeys (files_of (module_actions md m)) = module_files md m"
    by (simp_all add: module_actions_def module_dirs_def module_files_def Let_def)
  show "set (map path_of (module_actions md m)) \<subseteq> set (module_dirs md) \<union> set (module_files md m)"
    by (simp add: module_actions_def module_dirs_def module_files_def Let_def)
  show "ready ds (module_actions md m)"
    using assms formats by (simp add: module_actions_def Let_def path_join_part(2,3) parts part_append)
  show "distinct (map path_of (module_actions md m))"
    using assms by (simp add: module_actions_def Let_def path_join_part(3) parts part_append path_join_inject path_join_longer path_join_longer2 example_not_wscript)
qed

lemma solid_moduledir:
  assumes "part m"
  shows "solid (path_join (fst (path_split script)) m)"
proof -
  have "path_split (path_join (fst (path_split script)) m) = (fst (path_split script), m)"
    by (rule path_split_join [OF refl assms])
  moreover have "path_join (fst (path_split script)) m \<in> {m, fst (path_split script) @ m, (fst (path_split script) @ [slash]) @ m}"
    by (simp add: path_join_def)
  then obtain us where "path_join (fst (path_split script)) m = us @ m" by (metis append_Nil empty_iff insert_iff)
  ultimately show ?thesis using part_solid [OF assms] by (simp add: solid_def)
qed

lemma ready_formats: "ready ds as \<Longrightarrow> Write p t d \<in> set as \<Longrightarrow> \<exists>r. format_dict d Plain t = Inr r"
  by (induction ds as rule: ready.induct) auto

lemma dget_files_of: "distinct (map path_of as) \<Longrightarrow> Write p t d \<in> set as \<Longrightarrow> dget (files_of as) p = Some (text_of t d)"
proof (induction as rule: files_of.induct)
  case (3 p' t' d' as)
  show ?case
  proof (cases "Write p t d = Write p' t' d'")
    case False
    with 3(3) have as: "Write p t d \<in> set as" by auto
    then have "p \<in> path_of ` set as" by (metis image_eqI path_of.simps(2))
    with 3(2) have "p \<noteq> p'" by auto
    with 3(1) [OF _ as] 3(2) show ?thesis by simp
  qed simp
qed auto

text \<open>Nothing of the new module is there, and the directory above is.\<close>

definition room_for :: "world \<Rightarrow> string \<Rightarrow> string \<Rightarrow> bool" where
  "room_for w md m \<longleftrightarrow> above md w \<and> list_all (\<lambda>p. \<not> exists w p) (module_dirs md @ module_files md m)"

lemma create_module_run:
  assumes "good_name (map to_lower a)" and "md = path_join (fst (path_split script)) (map to_lower a)"
    and "room_for w md (map to_lower a)"
  shows "create_module script [a] w = Inr (0, w\<lparr>directories := directories w @ module_dirs md,
           contents := contents w @ files_of (module_actions md (map to_lower a))\<rparr>)"
    and "dkeys (files_of (module_actions md (map to_lower a))) = module_files md (map to_lower a)"
    and "Write p t d \<in> set (module_actions md (map to_lower a)) \<Longrightarrow>
      \<exists>r. format_dict d Plain t = Inr r \<and> dget (files_of (module_actions md (map to_lower a))) p = Some r"
proof -
  let ?m = "map to_lower a"
  have part: "part ?m" by (rule good_name_part [OF assms(1)])
  then have solid: "solid md" unfolding assms(2) by (rule solid_moduledir)
  have above: "fst (path_split md) \<in> insert [] (set (directories w))"
    using assms(3) by (auto simp: room_for_def above_def Let_def)
  note facts = module_actions_facts [OF part solid above]
  have fresh: "\<forall>a \<in> set (module_actions md ?m). \<not> exists w (path_of a)"
    using facts(5) assms(3) by (fastforce simp: room_for_def list_all_iff)
  have "\<not> exists w md" using assms(3) by (simp add: room_for_def module_dirs_def)
  moreover have "CHR ''/'' \<notin> set ?m" using part by (simp add: part_def)
  ultimately show "create_module script [a] w = Inr (0, w\<lparr>directories := directories w @ module_dirs md,
           contents := contents w @ files_of (module_actions md (map to_lower a))\<rparr>)"
    using assms(1,2) run_ready [OF facts(3,4) fresh] facts(1) by (simp add: create_module_def Let_def)
  show "dkeys (files_of (module_actions md (map to_lower a))) = module_files md (map to_lower a)" by (rule facts(2))
  assume "Write p t d \<in> set (module_actions md ?m)"
  with ready_formats [OF facts(3) this] dget_files_of [OF facts(4) this]
  show "\<exists>r. format_dict d Plain t = Inr r \<and> dget (files_of (module_actions md ?m)) p = Some r"
    by (auto simp: text_of_def)
qed

text \<open>A good name for which nothing exists yet: the script ends with 0, and it has made the directory of the module with five
  directories and nine files; every file holds its template, formatted without an error.  What was there is left alone.\<close>

theorem create_module_makes:
  assumes "good_name m" and "map to_lower a = m" and "md = path_join (fst (path_split script)) m" and "room_for w md m"
  shows "\<exists>new. create_module script [a] w =
           Inr (0, w\<lparr>directories := directories w @ module_dirs md, contents := contents w @ new\<rparr>)
         \<and> dkeys new = module_files md m
         \<and> (\<forall>p t d. Write p t d \<in> set (module_actions md m) \<longrightarrow> (\<exists>r. format_dict d Plain t = Inr r \<and> dget new p = Some r))"
  using create_module_run [of a md script w] assms by blast

section \<open>The build script of the module\<close>

lemma format_append:
  "format_dict d st s = Inr r \<Longrightarrow> format_dict d st (s @ t) = rbind (format_dict d Plain t) (\<lambda>q. Inr (r @ q))"
proof (induction d st s arbitrary: r rule: format_dict.induct)
  case (1 d)
  then show ?case by (cases "format_dict d Plain t") simp_all
next
  case (3 d c s)
  then show ?case by (cases "c = CHR 0x25"; cases "format_dict d Plain t") auto
next
  case (4 d c s)
  then show ?case by (cases "c = CHR 0x25"; cases "c = CHR ''(''"; cases "format_dict d Plain t") auto
next
  case (5 d n c s)
  then show ?case by (cases "c = CHR '')''") (auto split: option.splits)
next
  case (6 d v c s)
  then show ?case by (cases "c = CHR ''s''"; cases "c = CHR ''r''"; cases "format_dict d Plain t") auto
qed simp_all

lemma format_lines: "mapM (format_dict d Plain) ls = Inr rs \<Longrightarrow> format_dict d Plain (text_lines ls) = Inr (text_lines rs)"
proof (induction ls arbitrary: rs)
  case (Cons l ls)
  then obtain r rs' where r: "format_dict d Plain l = Inr r" "mapM (format_dict d Plain) ls = Inr rs'" "rs = r # rs'" by auto
  then have "format_dict d Plain (l @ nl # text_lines ls) = Inr (r @ nl # text_lines rs')"
    using Cons.IH [OF r(2)] by (simp add: format_append [OF r(1)])
  with r(3) show ?case by (simp add: text_lines_def)
qed (simp add: text_lines_def)

text \<open>The file a line of the build script lists: it is quoted and followed by a comma.\<close>

definition source_of :: "string \<Rightarrow> string option" where
  "source_of line =
     (case dropWhile is_space line of
        c # r \<Rightarrow>
          if c = CHR 0x27 then (case rev r of a # b # q \<Rightarrow> if [b, a] = [CHR 0x27, CHR '',''] then Some (rev q) else None | _ \<Rightarrow> None)
          else None
      | [] \<Rightarrow> None)"

lemma wscript_lines:
  "\<exists>ls. format_dict [(''MODULE'', m)] Plain wscript_template = Inr (text_lines ls) \<and>
     List.map_filter source_of ls =
       [''model/'' @ m @ ''.cc'', ''helper/'' @ m @ ''-helper.cc'', ''test/'' @ m @ ''-test-suite.cc'',
        ''model/'' @ m @ ''.h'', ''helper/'' @ m @ ''-helper.h'']"
  unfolding wscript_template_def
  by (rule exI, rule conjI, rule format_lines, simp, simp add: List.map_filter_def source_of_def is_space_def)

lemma path_join_deep: "solid md \<Longrightarrow> part x \<Longrightarrow> part y \<Longrightarrow> path_join md (x @ slash # y) = path_join (path_join md x) y"
proof -
  assume md: "solid md" and x: "part x" and y: "part y"
  have "\<not> startswith (x @ slash # y) [slash]" using x by (cases x) (auto simp: part_def startswith_def)
  with md have "path_join md (x @ slash # y) = md @ slash # x @ slash # y" by (simp add: path_join_def solid_def)
  with path_join_part(1) [OF md x] path_join_part(1) [OF path_join_part(3) [OF md x] y] show ?thesis by simp
qed

text \<open>The build script of a new module lists five sources, headers and tests, and all five have been made by the script.\<close>

theorem wscript_names_files:
  assumes "good_name m" and "map to_lower a = m" and "md = path_join (fst (path_split script)) m" and "room_for w md m"
  shows "\<exists>w' ls. create_module script [a] w = Inr (0, w') \<and> dget (contents w') (path_join md ''wscript'') = Some (text_lines ls)
    \<and> List.map_filter source_of ls =
       [''model/'' @ m @ ''.cc'', ''helper/'' @ m @ ''-helper.cc'', ''test/'' @ m @ ''-test-suite.cc'',
        ''model/'' @ m @ ''.h'', ''helper/'' @ m @ ''-helper.h'']
    \<and> list_all (\<lambda>f. dget (contents w') (path_join md f) \<noteq> None) (List.map_filter source_of ls)"
proof -
  let ?new = "files_of (module_actions md m)"
  have run: "create_module script [a] w = Inr (0, w\<lparr>directories := directories w @ module_dirs md, contents := contents w @ ?new\<rparr>)"
    and keys: "dkeys ?new = module_files md m"
    using create_module_run(1,2) [of a md script w] assms by blast+
  have made: "\<exists>r. format_dict d Plain t = Inr r \<and> dget ?new p = Some r" if "Write p t d \<in> set (module_actions md m)" for p t d
    using create_module_run(3) [of a md script w] assms that by blast
  have part: "part m" by (rule good_name_part [OF assms(1)])
  then have solid: "solid md" unfolding assms(3) by (rule solid_moduledir)
  obtain ls where ls: "format_dict [(''MODULE'', m)] Plain wscript_template = Inr (text_lines ls)"
    "List.map_filter source_of ls =
       [''model/'' @ m @ ''.cc'', ''helper/'' @ m @ ''-helper.cc'', ''test/'' @ m @ ''-test-suite.cc'',
        ''model/'' @ m @ ''.h'', ''helper/'' @ m @ ''-helper.h'']"
    using wscript_lines by blast
  have "Write (path_join md ''wscript'') wscript_template [(''MODULE'', m)] \<in> set (module_actions md m)"
    by (simp add: module_actions_def Let_def)
  from made [OF this] ls(1) have wscript: "dget ?new (path_join md ''wscript'') = Some (text_lines ls)" by simp
  have old: "dget (contents w) p = None" if "p \<in> set (module_files md m)" for p
    using assms(4) that by (auto simp: room_for_def list_all_iff exists_def)
  have made: "dget (contents w @ ?new) p \<noteq> None" if "p \<in> set (module_files md m)" for p
  proof -
    have "p \<in> fst ` set ?new" using that arg_cong [OF keys, where f = set] by simp
    then show ?thesis by (auto simp: map_of_eq_None_iff image_Un)
  qed
  have "path_join md ''wscript'' \<in> set (module_files md m)" by (simp add: module_files_def Let_def)
  with old wscript have 1: "dget (contents w @ ?new) (path_join md ''wscript'') = Some (text_lines ls)"
    by (simp add: map_add_def)
  have "list_all (\<lambda>f. path_join md f \<in> set (module_files md m)) (List.map_filter source_of ls)"
    using path_join_deep [OF solid, of "''model''" "m @ ''.cc''"] path_join_deep [OF solid, of "''helper''" "m @ ''-helper.cc''"]
      path_join_deep [OF solid, of "''test''" "m @ ''-test-suite.cc''"] path_join_deep [OF solid, of "''model''" "m @ ''.h''"]
      path_join_deep [OF solid, of "''helper''" "m @ ''-helper.h''"]
    by (simp add: ls(2) module_files_def Let_def parts part part_append)
  then have "list_all (\<lambda>f. dget (contents w @ ?new) (path_join md f) \<noteq> None) (List.map_filter source_of ls)"
    using made by (auto simp: list_all_iff)
  moreover have "contents (w\<lparr>directories := directories w @ module_dirs md, contents := contents w @ ?new\<rparr>) = contents w @ ?new"
    by simp
  ultimately show ?thesis
    using run 1 ls(2) by metis
qed

section \<open>The names in the templates\<close>

text \<open>A name of C++ or of its preprocessor.\<close>

definition cpp_name :: "string \<Rightarrow> bool" where
  "cpp_name s \<longleftrightarrow> s \<noteq> [] \<and> \<not> is_digit (hd s) \<and> list_all (\<lambda>c. is_alnum c \<or> c = CHR ''_'') s"

lemma case_chars:
  "is_digit (upper_char c) \<longleftrightarrow> is_digit c" "is_alnum (upper_char c) \<longleftrightarrow> is_alnum c"
  "is_digit (to_lower c) \<longleftrightarrow> is_digit c" "is_alnum (to_lower c) \<longleftrightarrow> is_alnum c"
  by (auto simp: is_alnum_def is_letter_def is_digit_def upper_char_def to_lower_def)

lemma split_on_head: "c \<noteq> sep \<Longrightarrow> hd (split_on sep (c # s)) = c # hd (split_on sep s)"
  by (simp split: list.splits)

lemma good_name_words:
  assumes "good_name m"
  obtains c s ws where "split_on (CHR ''-'') m = (c # s) # ws" and "m = c # tl m"
    and "is_alnum c" and "list_all is_alnum s" and "list_all (\<lambda>w. w \<noteq> [] \<and> list_all is_alnum w) ws"
proof -
  obtain w ws where w: "split_on (CHR ''-'') m = w # ws" by (cases "split_on (CHR ''-'') m") simp_all
  with assms obtain c s where c: "w = c # s" by (cases w) (auto simp: good_name_def)
  have "m \<noteq> []" using w c by auto
  then obtain x u where m: "m = x # u" by (cases m) auto
  have "x \<noteq> CHR ''-''" using w c m by auto
  then have "hd (split_on (CHR ''-'') m) = x # hd (split_on (CHR ''-'') u)" unfolding m by (rule split_on_head)
  with w c m have "c = x" by simp
  with w c m assms show ?thesis by (intro that [of c s ws]) (auto simp: good_name_def)
qed

lemma capitalize_chars:
  "list_all is_alnum w \<Longrightarrow> list_all is_alnum (capitalize w)"
  by (cases w) (auto simp: capitalize_def list_all_iff case_chars)

lemma capitalize_all: "list_all (\<lambda>w. w \<noteq> [] \<and> list_all is_alnum w) ws \<Longrightarrow> list_all is_alnum (concat (map capitalize ws))"
  by (induction ws) (auto simp: capitalize_chars)

lemma alnum_name: "list_all is_alnum s \<Longrightarrow> list_all (\<lambda>c. is_alnum c \<or> c = CHR ''_'') s"
  by (auto simp: list_all_iff)

text \<open>The names the templates make of a module's name are names of C++ exactly when the module's name does not begin with a digit,
  which the check of the script allows.\<close>

theorem names_valid:
  assumes "good_name m"
  shows "(cpp_name (capitalized m @ ''TestSuite'') \<longleftrightarrow> \<not> is_digit (hd m))
    \<and> (cpp_name (compound m @ ''TestSuite'') \<longleftrightarrow> \<not> is_digit (hd m))
    \<and> (cpp_name (guard_name m @ ''_H'') \<longleftrightarrow> \<not> is_digit (hd m))"
proof -
  obtain c s ws where w: "split_on (CHR ''-'') m = (c # s) # ws" and m: "m = c # tl m"
    and ok: "is_alnum c" "list_all is_alnum s" "list_all (\<lambda>w. w \<noteq> [] \<and> list_all is_alnum w) ws"
    using good_name_words [OF assms] .
  have underscore: "upper_char (CHR ''_'') = CHR ''_''" by (simp add: upper_char_def)
  have tail: "list_all (\<lambda>c. is_alnum c \<or> c = CHR ''_'') ''TestSuite''" "list_all (\<lambda>c. is_alnum c \<or> c = CHR ''_'') ''_H''"
    by (simp_all add: is_alnum_def is_letter_def)
  have "capitalized m = upper_char c # map to_lower s @ concat (map capitalize ws)"
    by (simp add: capitalized_def w capitalize_def)
  moreover have "list_all is_alnum (upper_char c # map to_lower s @ concat (map capitalize ws))"
    using ok(1,2) capitalize_all [OF ok(3)] by (simp add: case_chars list.pred_map comp_def)
  moreover have "compound m = c # s @ concat (map capitalize ws)" by (simp add: compound_def w)
  moreover have "list_all is_alnum (c # s @ concat (map capitalize ws))"
    using ok capitalize_all [OF ok(3)] by simp
  moreover have "list_all (\<lambda>c. is_alnum c \<or> c = CHR ''_'') (guard_name m)"
    using good_name_chars [OF assms] by (auto simp: guard_name_def list_all_iff case_chars underscore)
  moreover have "c \<noteq> CHR ''-''" using ok(1) by (auto simp: is_alnum_def is_letter_def is_digit_def)
  then have "guard_name m = upper_char c # guard_name (tl m)" by (subst m) (simp add: guard_name_def)
  then have "guard_name m \<noteq> []" "is_digit (hd (guard_name m)) \<longleftrightarrow> is_digit c" by (simp_all add: case_chars)
  moreover have "hd m = c" by (subst m) simp
  ultimately show ?thesis
    using tail alnum_name by (simp add: cpp_name_def case_chars)
qed

definition small_world :: world where
  "small_world = \<lparr>directories = [''src'', ''src/core''], contents = [(''src/create-module.py'', ''#'')]\<rparr>"

lemma small_room: "room_for small_world ''src/5g-nr'' ''5g-nr''" "good_name ''5g-nr''" "path_join (fst (path_split ''src/create-module.py'')) ''5g-nr'' = ''src/5g-nr''"
  "map to_lower ''5G-NR'' = ''5g-nr''"
  by code_simp+

theorem create_module_makes_witness:
  "\<exists>w'. create_module ''src/create-module.py'' [''5G-NR''] small_world = Inr (0, w') \<and> ''src/5g-nr/model'' \<in> set (directories w')"
proof -
  have "''src/5g-nr/model'' \<in> set (module_dirs ''src/5g-nr'')"
    by (simp add: module_dirs_def path_join_def startswith_def)
  with create_module_makes [OF small_room(2,4) small_room(3) [symmetric] small_room(1)] show ?thesis by fastforce
qed

theorem wscript_names_files_witness:
  "\<exists>w'. create_module ''src/create-module.py'' [''5G-NR''] small_world = Inr (0, w') \<and>
     dget (contents w') (path_join ''src/5g-nr'' ''model/5g-nr.cc'') \<noteq> None"
proof -
  obtain w' ls where "create_module ''src/create-module.py'' [''5G-NR''] small_world = Inr (0, w')"
    "List.map_filter source_of ls =
       [''model/'' @ ''5g-nr'' @ ''.cc'', ''helper/'' @ ''5g-nr'' @ ''-helper.cc'', ''test/'' @ ''5g-nr'' @ ''-test-suite.cc'',
        ''model/'' @ ''5g-nr'' @ ''.h'', ''helper/'' @ ''5g-nr'' @ ''-helper.h'']"
    "list_all (\<lambda>f. dget (contents w') (path_join ''src/5g-nr'' f) \<noteq> None) (List.map_filter source_of ls)"
    using wscript_names_files [OF small_room(2,4) small_room(3) [symmetric] small_room(1)] by blast
  then show ?thesis by simp
qed

theorem names_valid_witness: "\<not> cpp_name (capitalized ''5g-nr'' @ ''TestSuite'') \<and> cpp_name (capitalized ''nr-5g'' @ ''TestSuite'')"
proof -
  have "good_name ''nr-5g''" by code_simp
  with names_valid [OF small_room(2)] names_valid [of "''nr-5g''"] show ?thesis by (simp add: is_digit_def)
qed

end
