(* ===== verification/Cflags.thy ===== *)
theory Cflags
  imports Prelude
begin

text \<open>
  \<^verbatim>\<open>waf-tools/cflags.py\<close>: the compiler flags of a build profile.  The environment of waf is a dictionary of lists, in
  which a missing variable reads as the empty list; the declarations of the options are left out.
\<close>

section \<open>Traits of compilers\<close>

datatype traits = GccTraits | IccTraits | MsvcTraits

definition warnings_flags :: "traits \<Rightarrow> string list list" where
  "warnings_flags t =
     (case t of
        GccTraits \<Rightarrow> [[''-Wall''], [''-Werror''], [''-Wextra'']]
      | IccTraits \<Rightarrow> [[], [], [''-Wall'']]
      | MsvcTraits \<Rightarrow> [[''/W2''], [''/WX''], [''/Wall'']])"

text \<open>The loop over \<open>range(level)\<close> with its break; \<open>ls\<close> is what is left of the range.\<close>

fun warnings_loop :: "string list list \<Rightarrow> nat list \<Rightarrow> string list \<Rightarrow> string list" where
  "warnings_loop flags [] warnings = warnings"
| "warnings_loop flags (l # ls) warnings =
     (if l < length flags then warnings_loop flags ls (warnings @ flags ! l) else warnings)"

definition get_warnings_flags :: "traits \<Rightarrow> int \<Rightarrow> string list" where
  "get_warnings_flags t level = warnings_loop (warnings_flags t) [0..<nat level] []"

text \<open>\<open>None\<close> where the function ends without a return.\<close>

definition get_optimization_flags :: "traits \<Rightarrow> int \<Rightarrow> string list option" where
  "get_optimization_flags t level =
     (case t of
        MsvcTraits \<Rightarrow>
          if level = 0 then Some [''/Od''] else if level = 1 then Some []
          else if level = 2 then Some [''/O2''] else if level = 3 then Some [''/Ox''] else None
      | _ \<Rightarrow>
          if level = 0 then Some [''-O0''] else if level = 1 then Some [''-O'']
          else if level = 2 then Some [''-O2''] else if level = 3 then Some [''-O3''] else None)"

definition get_debug_flags :: "traits \<Rightarrow> int \<Rightarrow> (string list \<times> string list) option" where
  "get_debug_flags t level =
     (case t of
        MsvcTraits \<Rightarrow>
          if level = 0 then Some ([], [''NDEBUG'']) else if level = 1 then Some ([''/ZI'', ''/RTC1''], [])
          else if level \<ge> 2 then Some ([''/ZI'', ''/RTC1''], [''_DEBUG'']) else None
      | _ \<Rightarrow>
          if level = 0 then Some ([''-g0''], [''NDEBUG'']) else if level = 1 then Some ([''-g''], [])
          else if level \<ge> 2 then Some ([''-ggdb'', ''-g3''], [''_DEBUG'']) else None)"

definition compiler_mapping :: "(string, traits) dict" where
  "compiler_mapping =
     [(''gcc'', GccTraits), (''g++'', GccTraits), (''msvc'', MsvcTraits), (''icc'', IccTraits), (''icpc'', IccTraits),
      (''clang'', GccTraits), (''clang++'', GccTraits)]"

definition profiles :: "(string, int \<times> int \<times> int) dict" where
  "profiles = [(''default'', 2, 1, 1), (''debug'', 0, 2, 3), (''release'', 3, 1, 0)]"

section \<open>Configuring\<close>

record conf =
  compiler_cc :: "string option"
  compiler_cxx :: "string option"
  variables :: "(string, string list) dict"

definition or_none :: "string option \<Rightarrow> string option" where
  "or_none s = (if s = Some '''' then None else s)"

definition env_list :: "conf \<Rightarrow> string \<Rightarrow> string list" where
  "env_list c v = (case dget (variables c) v of None \<Rightarrow> [] | Some xs \<Rightarrow> xs)"

text \<open>\<open>append_value\<close> with a list; a value that is no list cannot be appended.\<close>

definition append_value :: "string \<Rightarrow> string list option \<Rightarrow> conf \<Rightarrow> py_exn + conf" where
  "append_value v xs c =
     (case xs of
        None \<Rightarrow> Inl TypeError
      | Some xs \<Rightarrow> Inr (c\<lparr>variables := dset v (env_list c v @ xs) (variables c)\<rparr>))"

definition compiler_of :: "string option \<Rightarrow> string option \<Rightarrow> traits option" where
  "compiler_of cc cxx =
     (case Option.bind cc (dget compiler_mapping) of Some t \<Rightarrow> Some t | None \<Rightarrow> Option.bind cxx (dget compiler_mapping))"

text \<open>The four values appended for one language.\<close>

definition append_all ::
    "string option \<Rightarrow> string \<Rightarrow> string \<Rightarrow> string list option \<Rightarrow> string list \<Rightarrow> string list \<Rightarrow> string list \<Rightarrow> conf \<Rightarrow> py_exn + conf" where
  "append_all compiler flags defines optimizations debug warnings debug_defs c =
     (if compiler \<noteq> None \<and> env_list c flags = [] then
        rbind (append_value flags optimizations c) (\<lambda>c.
        rbind (append_value flags (Some debug) c) (\<lambda>c.
        rbind (append_value flags (Some warnings) c) (append_value defines (Some debug_defs))))
      else Inr c)"

definition configure :: "string \<Rightarrow> bool \<Rightarrow> conf \<Rightarrow> py_exn + conf" where
  "configure build_profile disable_werror c =
     (let cc = or_none (compiler_cc c); cxx = or_none (compiler_cxx c)
      in if cc = None \<and> cxx = None then Inl (Exc ''WafError'')
         else case compiler_of cc cxx of
                None \<Rightarrow> Inr c
              | Some compiler \<Rightarrow>
                  (case dget profiles build_profile of
                     None \<Rightarrow> Inl KeyError
                   | Some (opt_level, warn_level, dbg_level) \<Rightarrow>
                       let optimizations = get_optimization_flags compiler opt_level
                       in case get_debug_flags compiler dbg_level of
                            None \<Rightarrow> Inl TypeError
                          | Some (debug, debug_defs) \<Rightarrow>
                              let warnings = get_warnings_flags compiler warn_level;
                                  warnings = (if disable_werror then remove1 ''-Werror'' warnings else warnings)
                              in rbind (append_all cc ''CCFLAGS'' ''CCDEFINES'' optimizations debug warnings debug_defs c)
                                   (append_all cxx ''CXXFLAGS'' ''CXXDEFINES'' optimizations debug warnings debug_defs)))"

section \<open>The levels\<close>

text \<open>The loop gives the flags of the first levels, as far as there are any.\<close>

lemma warnings_loop: "warnings_loop flags [k..<n] ws = ws @ concat (take (n - k) (drop k flags))"
proof (induction "n - k" arbitrary: k ws)
  case (Suc d)
  then have k: "[k..<n] = k # [Suc k..<n]" "n - k = Suc (n - Suc k)" by (simp_all add: upt_conv_Cons)
  have "concat (take (n - k) (drop k flags)) = flags ! k @ concat (take (n - Suc k) (drop (Suc k) flags))" if "k < length flags"
    using that k(2) by (simp add: Cons_nth_drop_Suc [symmetric])
  with Suc k show ?case by auto
qed simp

lemma get_warnings_flags: "get_warnings_flags t level = concat (take (nat level) (warnings_flags t))"
  by (simp add: get_warnings_flags_def warnings_loop)

text \<open>The flags of a profile.\<close>

definition profile_flags :: "traits \<Rightarrow> string \<Rightarrow> bool \<Rightarrow> string list" where
  "profile_flags t profile disable_werror =
     (case dget profiles profile of
        None \<Rightarrow> []
      | Some (opt, warn, dbg) \<Rightarrow>
          the (get_optimization_flags t opt) @ fst (the (get_debug_flags t dbg))
          @ (if disable_werror then remove1 ''-Werror'' (get_warnings_flags t warn) else get_warnings_flags t warn))"

definition profile_defines :: "traits \<Rightarrow> string \<Rightarrow> string list" where
  "profile_defines t profile =
     (case dget profiles profile of None \<Rightarrow> [] | Some (opt, warn, dbg) \<Rightarrow> snd (the (get_debug_flags t dbg)))"

lemma env_list_append: "append_value v (Some xs) c = Inr c' \<Longrightarrow> env_list c' u = env_list c u @ (if u = v then xs else [])"
  by (auto simp: append_value_def env_list_def)

lemma append_all_result:
  "append_all compiler flags defines (Some opt) debug warnings defs c = Inr c' \<Longrightarrow> flags \<noteq> defines \<Longrightarrow>
     env_list c' u =
       (if compiler \<noteq> None \<and> env_list c flags = [] \<and> u = flags then opt @ debug @ warnings
        else if compiler \<noteq> None \<and> env_list c flags = [] \<and> u = defines then env_list c u @ defs
        else env_list c u)"
  by (auto simp: append_all_def append_value_def env_list_def split: if_splits)

lemma append_all_ok: "\<exists>c'. append_all compiler flags defines (Some opt) debug warnings defs c = Inr c'"
  by (simp add: append_all_def append_value_def)

lemma profile_levels:
  assumes "dget profiles p = Some (opt, warn, dbg)"
  shows "get_optimization_flags t opt = Some (the (get_optimization_flags t opt))"
    and "get_debug_flags t dbg = Some (the (get_debug_flags t dbg))"
  using assms by (cases t; auto simp: profiles_def get_optimization_flags_def get_debug_flags_def split: if_splits)+

lemma configure_known:
  assumes "compiler_of (or_none (compiler_cc c)) (or_none (compiler_cxx c)) = Some t" and "dget profiles p \<noteq> None"
  obtains opt debug warnings defs where "profile_flags t p dw = opt @ debug @ warnings" and "profile_defines t p = defs"
    and "configure p dw c =
     rbind (append_all (or_none (compiler_cc c)) ''CCFLAGS'' ''CCDEFINES'' (Some opt) debug warnings defs c)
       (append_all (or_none (compiler_cxx c)) ''CXXFLAGS'' ''CXXDEFINES'' (Some opt) debug warnings defs)"
proof -
  obtain opt warn dbg where p: "dget profiles p = Some (opt, warn, dbg)" using assms(2) by auto
  obtain debug defs where debug: "the (get_debug_flags t dbg) = (debug, defs)" by force
  obtain fs where fs: "get_optimization_flags t opt = Some fs" using profile_levels(1) [OF p, of t] by blast
  have dbg: "get_debug_flags t dbg = Some (debug, defs)" using profile_levels(2) [OF p, of t] debug by simp
  have guard: "\<not> (or_none (compiler_cc c) = None \<and> or_none (compiler_cxx c) = None)"
    using assms(1) by (cases "or_none (compiler_cc c)"; cases "or_none (compiler_cxx c)") (auto simp: compiler_of_def)
  have run: "configure p dw c =
     rbind (append_all (or_none (compiler_cc c)) ''CCFLAGS'' ''CCDEFINES'' (Some fs) debug
         (if dw then remove1 ''-Werror'' (get_warnings_flags t warn) else get_warnings_flags t warn) defs c)
       (append_all (or_none (compiler_cxx c)) ''CXXFLAGS'' ''CXXDEFINES'' (Some fs) debug
         (if dw then remove1 ''-Werror'' (get_warnings_flags t warn) else get_warnings_flags t warn) defs)"
    by (simp only: configure_def Let_def if_not_P [OF guard] assms(1) p fs dbg option.case prod.case)
  show ?thesis
    by (rule that [OF _ _ run]) (simp_all add: profile_flags_def profile_defines_def p fs dbg)
qed

text \<open>With a compiler that is known, configuring succeeds for every profile.  The flags of a language are those of the profile,
  unless there is no compiler for it or the user has set them; then its definitions are left alone too.  No other variable is
  changed.\<close>

theorem configure_flags:
  assumes "compiler_of (or_none (compiler_cc c)) (or_none (compiler_cxx c)) = Some t" and "dget profiles p \<noteq> None"
  shows "\<exists>c'. configure p dw c = Inr c' \<and> (\<forall>u. env_list c' u =
     (if u \<in> {''CCFLAGS'', ''CCDEFINES''} \<and> or_none (compiler_cc c) \<noteq> None \<and> env_list c ''CCFLAGS'' = []
         \<or> u \<in> {''CXXFLAGS'', ''CXXDEFINES''} \<and> or_none (compiler_cxx c) \<noteq> None \<and> env_list c ''CXXFLAGS'' = []
      then env_list c u @ (if u \<in> {''CCFLAGS'', ''CXXFLAGS''} then profile_flags t p dw else profile_defines t p)
      else env_list c u))"
proof -
  obtain opt debug warnings defs where flags: "profile_flags t p dw = opt @ debug @ warnings" "profile_defines t p = defs"
    and run: "configure p dw c =
     rbind (append_all (or_none (compiler_cc c)) ''CCFLAGS'' ''CCDEFINES'' (Some opt) debug warnings defs c)
       (append_all (or_none (compiler_cxx c)) ''CXXFLAGS'' ''CXXDEFINES'' (Some opt) debug warnings defs)"
    by (rule configure_known [OF assms])
  obtain c1 where c1: "append_all (or_none (compiler_cc c)) ''CCFLAGS'' ''CCDEFINES'' (Some opt) debug warnings defs c = Inr c1"
    using append_all_ok by blast
  obtain c2 where c2: "append_all (or_none (compiler_cxx c)) ''CXXFLAGS'' ''CXXDEFINES'' (Some opt) debug warnings defs c1 = Inr c2"
    using append_all_ok by blast
  have "configure p dw c = Inr c2" using run c1 c2 by simp
  then show ?thesis
    by (intro exI [of _ c2]; cases "or_none (compiler_cc c)"; cases "or_none (compiler_cxx c)")
      (auto simp: append_all_result [OF c1] append_all_result [OF c2] flags)
qed

lemma profiles_cases: "dget profiles p \<noteq> None \<Longrightarrow> p = ''default'' \<or> p = ''debug'' \<or> p = ''release''"
  by (simp add: profiles_def split: if_splits)

lemma profile_warnings:
  assumes "dget profiles p \<noteq> None"
  shows "''-Werror'' \<notin> set (profile_flags t p True)"
    and "''/WX'' \<in> set (profile_flags t p True) \<longleftrightarrow> t = MsvcTraits \<and> p = ''debug''"
  using profiles_cases [OF assms]
  by (cases t; auto simp: profile_flags_def profiles_def get_optimization_flags_def get_debug_flags_def get_warnings_flags
      warnings_flags_def numeral_2_eq_2)+

text \<open>With \<^verbatim>\<open>--disable-werror\<close> no flag configured is \<^verbatim>\<open>-Werror\<close>; but the flag with which the compiler
  of Microsoft makes warnings errors, \<^verbatim>\<open>/WX\<close>, stays in the profile \<^verbatim>\<open>debug\<close>.\<close>

theorem disable_werror_flags:
  assumes "compiler_of (or_none (compiler_cc c)) (or_none (compiler_cxx c)) = Some t" and "dget profiles p \<noteq> None"
    and "or_none (compiler_cxx c) \<noteq> None" and "env_list c ''CXXFLAGS'' = []"
  shows "\<exists>c'. configure p True c = Inr c' \<and> ''-Werror'' \<notin> set (env_list c' ''CXXFLAGS'')
    \<and> (''/WX'' \<in> set (env_list c' ''CXXFLAGS'') \<longleftrightarrow> t = MsvcTraits \<and> p = ''debug'')"
proof -
  obtain opt debug warnings defs where flags: "profile_flags t p True = opt @ debug @ warnings" "profile_defines t p = defs"
    and run: "configure p True c =
     rbind (append_all (or_none (compiler_cc c)) ''CCFLAGS'' ''CCDEFINES'' (Some opt) debug warnings defs c)
       (append_all (or_none (compiler_cxx c)) ''CXXFLAGS'' ''CXXDEFINES'' (Some opt) debug warnings defs)"
    by (rule configure_known [OF assms(1,2)])
  obtain c1 where c1: "append_all (or_none (compiler_cc c)) ''CCFLAGS'' ''CCDEFINES'' (Some opt) debug warnings defs c = Inr c1"
    using append_all_ok by blast
  obtain c2 where c2: "append_all (or_none (compiler_cxx c)) ''CXXFLAGS'' ''CXXDEFINES'' (Some opt) debug warnings defs c1 = Inr c2"
    using append_all_ok by blast
  have "env_list c2 ''CXXFLAGS'' = profile_flags t p True"
    using assms(3,4) by (simp add: append_all_result [OF c1] append_all_result [OF c2] flags)
  with run c1 c2 profile_warnings [OF assms(2)] show ?thesis by simp
qed

definition small_conf :: conf where
  "small_conf = \<lparr>compiler_cc = Some ''msvc'', compiler_cxx = Some ''msvc'', variables = [(''CCFLAGS'', [''/O2''])]\<rparr>"

lemma small_compiler: "compiler_of (or_none (compiler_cc small_conf)) (or_none (compiler_cxx small_conf)) = Some MsvcTraits"
  "dget profiles ''debug'' \<noteq> None" "or_none (compiler_cxx small_conf) \<noteq> None" "env_list small_conf ''CXXFLAGS'' = []"
  by code_simp+

theorem configure_flags_witness:
  "\<exists>c'. configure ''debug'' False small_conf = Inr c' \<and> env_list c' ''CCFLAGS'' = [''/O2''] \<and>
     env_list c' ''CXXFLAGS'' = [''/Od'', ''/ZI'', ''/RTC1'', ''/W2'', ''/WX'']"
proof -
  have "profile_flags MsvcTraits ''debug'' False = [''/Od'', ''/ZI'', ''/RTC1'', ''/W2'', ''/WX'']"
    "env_list small_conf ''CCFLAGS'' = [''/O2'']"
    by code_simp+
  with configure_flags [OF small_compiler(1,2), of False] small_compiler(3,4) show ?thesis by auto
qed

theorem disable_werror_flags_witness:
  "\<exists>c'. configure ''debug'' True small_conf = Inr c' \<and> ''/WX'' \<in> set (env_list c' ''CXXFLAGS'')"
  using disable_werror_flags [OF small_compiler] by auto

end
