(* ===== verification/Command.thy ===== *)
theory Command
  imports Shellcmd
begin

text \<open>
  \<^verbatim>\<open>waf-tools/command.py\<close>: the task that runs a command line in which \<^verbatim>\<open>${...}\<close> stands for files and variables.
  The builtin \<open>eval\<close> is a parameter; what it gives is a \<open>value\<close>, as far as \<open>_subst_arg\<close> tells values apart.
\<close>

section \<open>Substitution\<close>

text \<open>A node of waf is its \<open>srcpath()\<close> and its \<open>get_bld().abspath()\<close>; \<open>Inputs\<close> and \<open>Outputs\<close> are the two lists of the
  task themselves.\<close>

record waf_node =
  srcpath :: string
  bld_abspath :: string

datatype pyvalue = Node waf_node | Inputs | Outputs | PyList "pyvalue list" | PyStr string | PyNone | Other

record task =
  inputs :: "waf_node list"
  outputs :: "waf_node list"

text \<open>The text of a value: \<open>re.sub\<close> takes strings, and None for the empty string.\<close>

definition text_value :: "pyvalue \<Rightarrow> py_exn + string" where
  "text_value v = (case v of PyStr s \<Rightarrow> Inr s | PyNone \<Rightarrow> Inr [] | _ \<Rightarrow> Inl TypeError)"

definition repl :: "task \<Rightarrow> string \<Rightarrow> pyvalue \<Rightarrow> py_exn + string" where
  "repl T var result =
     (case result of
        Node n \<Rightarrow> if var = ''TGT'' then Inr (bld_abspath n) else if var = ''SRC'' then Inr (srcpath n) else Inl ValueError
      | Inputs \<Rightarrow> (case inputs T of [n] \<Rightarrow> Inr (srcpath n) | _ \<Rightarrow> Inl ValueError)
      | Outputs \<Rightarrow> (case outputs T of [n] \<Rightarrow> Inr (bld_abspath n) | _ \<Rightarrow> Inl ValueError)
      | PyList vs \<Rightarrow> (case vs of [v] \<Rightarrow> text_value v | _ \<Rightarrow> Inl AssertionError)
      | _ \<Rightarrow> text_value result)"

text \<open>A match of the second alternative of \<open>arg_rx\<close> after \<^verbatim>\<open>${\<close>: the variable, the code and the rest.\<close>

definition match_subst :: "string \<Rightarrow> (string \<times> string \<times> string) option" where
  "match_subst s =
     (let var = takeWhile key_char s; t = dropWhile key_char s;
          code = takeWhile (\<lambda>c. c \<noteq> CHR ''}'' \<and> c \<noteq> nl) t; u = dropWhile (\<lambda>c. c \<noteq> CHR ''}'' \<and> c \<noteq> nl) t
      in if var \<noteq> [] \<and> u \<noteq> [] \<and> hd u = CHR ''}'' then Some (var, code, tl u) else None)"

lemma match_subst_shorter: "match_subst s = Some (var, code, u) \<Longrightarrow> length u < length s"
proof -
  assume m: "match_subst s = Some (var, code, u)"
  let ?t = "dropWhile key_char s"
  have "u = tl (dropWhile (\<lambda>c. c \<noteq> CHR ''}'' \<and> c \<noteq> nl) ?t)" "dropWhile (\<lambda>c. c \<noteq> CHR ''}'' \<and> c \<noteq> nl) ?t \<noteq> []"
    using m by (auto simp: match_subst_def Let_def split: if_splits)
  then have "length u < length (dropWhile (\<lambda>c. c \<noteq> CHR ''}'' \<and> c \<noteq> nl) ?t)" by simp
  also have "\<dots> \<le> length ?t" by (rule length_dropWhile_le)
  also have "\<dots> \<le> length s" by (rule length_dropWhile_le)
  finally show ?thesis .
qed

text \<open>\<open>arg_rx.sub(repl, arg)\<close>\<close>

function subst_arg :: "task \<Rightarrow> (string \<Rightarrow> py_exn + pyvalue) \<Rightarrow> string \<Rightarrow> py_exn + string" where
  "subst_arg T eval [] = Inr []"
| "subst_arg T eval [c] = Inr [c]"
| "subst_arg T eval (c # d # s) =
     (if c = CHR ''$'' \<and> d = CHR ''$'' then rbind (subst_arg T eval s) (\<lambda>r. Inr (CHR ''$'' # r))
      else case (if c = CHR ''$'' \<and> d = CHR ''{'' then match_subst s else None) of
             Some (var, code, u) \<Rightarrow>
               rbind (eval (var @ code)) (\<lambda>v. rbind (repl T var v) (\<lambda>t. rbind (subst_arg T eval u) (\<lambda>r. Inr (t @ r))))
           | None \<Rightarrow> rbind (subst_arg T eval (d # s)) (\<lambda>r. Inr (c # r)))"
  by pat_completeness auto
termination
  by (relation "measure (\<lambda>(T, eval, s). length s)")
     (auto dest: match_subst_shorter split: if_splits simp: less_Suc_eq)

section \<open>Running the task\<close>

definition subst_option :: "task \<Rightarrow> (string \<Rightarrow> py_exn + pyvalue) \<Rightarrow> string option \<Rightarrow> py_exn + string option" where
  "subst_option T eval s =
     (case s of None \<Rightarrow> Inr None | Some t \<Rightarrow> rbind (subst_arg T eval t) (\<lambda>r. Inr (Some r)))"

definition subst_redirect :: "task \<Rightarrow> (string \<Rightarrow> py_exn + pyvalue) \<Rightarrow> redirect option \<Rightarrow> py_exn + redirect option" where
  "subst_redirect T eval r =
     (case r of Some (To f) \<Rightarrow> rbind (subst_arg T eval f) (\<lambda>g. Inr (Some (To g))) | _ \<Rightarrow> Inr r)"

definition subst_env :: "task \<Rightarrow> (string \<Rightarrow> py_exn + pyvalue) \<Rightarrow> (string, string) dict \<Rightarrow> py_exn + (string, string) dict" where
  "subst_env T eval vars = mapM (\<lambda>(name, v). rbind (subst_arg T eval v) (\<lambda>r. Inr (name, r))) vars"

definition subst_command :: "task \<Rightarrow> (string \<Rightarrow> py_exn + pyvalue) \<Rightarrow> command \<Rightarrow> py_exn + command" where
  "subst_command T eval c =
     rbind (subst_option T eval (cmd_stdin c)) (\<lambda>i. rbind (subst_redirect T eval (cmd_stdout c)) (\<lambda>out.
     rbind (subst_redirect T eval (cmd_stderr c)) (\<lambda>err. rbind (mapM (subst_arg T eval) (argv c)) (\<lambda>args.
     rbind (subst_env T eval (env_vars c)) (\<lambda>env.
       Inr (c\<lparr>cmd_stdin := i, cmd_stdout := out, cmd_stderr := err, argv := args, env_vars := env\<rparr>))))))"

text \<open>A directory that was never given is \<open>None\<close>, which the regular expression refuses.\<close>

definition subst_node :: "task \<Rightarrow> (string \<Rightarrow> py_exn + pyvalue) \<Rightarrow> node \<Rightarrow> py_exn + node" where
  "subst_node T eval n =
     (case n of
        Command c \<Rightarrow> rbind (subst_command T eval c) (\<lambda>c. Inr (Command c))
      | Chdir dir \<Rightarrow>
          (case dir of None \<Rightarrow> Inl TypeError | Some d \<Rightarrow> rbind (subst_arg T eval d) (\<lambda>d. Inr (Chdir (Some d))))
      | _ \<Rightarrow> Inr n)"

definition run_task ::
    "runner \<Rightarrow> bool \<Rightarrow> task \<Rightarrow> (string \<Rightarrow> py_exn + pyvalue) \<Rightarrow> string \<Rightarrow> process list \<times> (py_exn + int option)" where
  "run_task R verbose T eval command_line =
     (case rbind (parse_string command_line) (mapM (subst_node T eval)) of
        Inl e \<Rightarrow> ([], Inl e) | Inr ns \<Rightarrow> run_pipeline R verbose ns)"

text \<open>\<open>__str__\<close>, from the \<open>bldpath()\<close> of the files.\<close>

definition task_str :: "string list \<Rightarrow> string list \<Rightarrow> string \<Rightarrow> py_exn + string" where
  "task_str src tgt command_line =
     rbind (parse_string command_line) (\<lambda>ns.
       Inr (''command ('' @ get_abbreviated_command ns @ ''): '' @ join '' '' src @ (if tgt \<noteq> [] then '' -> '' else [])
         @ join '' '' tgt))"

section \<open>Dollars\<close>

text \<open>Every dollar doubled.\<close>

definition escape :: "string \<Rightarrow> string" where
  "escape s = concat (map (\<lambda>c. if c = CHR ''$'' then [c, c] else [c]) s)"

lemma subst_arg_other: "c \<noteq> CHR ''$'' \<Longrightarrow> subst_arg T eval (c # s) = rbind (subst_arg T eval s) (\<lambda>r. Inr (c # r))"
  by (cases s) simp_all

lemma subst_arg_escape: "subst_arg T eval (escape s @ t) = rbind (subst_arg T eval t) (\<lambda>r. Inr (s @ r))"
proof (induction s)
  case Nil
  then show ?case by (cases "subst_arg T eval t") (simp_all add: escape_def)
next
  case (Cons c s)
  have "escape (c # s) @ t = (if c = CHR ''$'' then c # c # escape s @ t else c # escape s @ t)" by (simp add: escape_def)
  with Cons show ?case by (cases "subst_arg T eval t") (auto simp: subst_arg_other)
qed

lemma subst_arg_escaped [simp]: "subst_arg T eval (escape s) = Inr s"
  using subst_arg_escape [of T eval s "[]"] by simp

definition escape_command :: "command \<Rightarrow> command" where
  "escape_command c =
     c\<lparr>cmd_stdin := map_option escape (cmd_stdin c),
       cmd_stdout := map_option (\<lambda>r. case r of To f \<Rightarrow> To (escape f) | _ \<Rightarrow> r) (cmd_stdout c),
       cmd_stderr := map_option (\<lambda>r. case r of To f \<Rightarrow> To (escape f) | _ \<Rightarrow> r) (cmd_stderr c),
       argv := map escape (argv c), env_vars := map (\<lambda>(k, v). (k, escape v)) (env_vars c)\<rparr>"

definition escape_node :: "node \<Rightarrow> node" where
  "escape_node n = (case n of Command c \<Rightarrow> Command (escape_command c) | Chdir d \<Rightarrow> Chdir (map_option escape d) | _ \<Rightarrow> n)"

lemma mapM_inverse: "(\<And>x. x \<in> set xs \<Longrightarrow> f (g x) = Inr x) \<Longrightarrow> mapM f (map g xs) = Inr xs"
  by (induction xs) auto

lemma subst_redirect_escaped:
  "subst_redirect T eval (map_option (\<lambda>r. case r of To f \<Rightarrow> To (escape f) | _ \<Rightarrow> r) r) = Inr r"
  by (auto simp: subst_redirect_def split: option.splits redirect.splits)

lemma subst_command_escaped: "subst_command T eval (escape_command c) = Inr c"
proof -
  have "mapM (subst_arg T eval) (map escape (argv c)) = Inr (argv c)"
    by (rule mapM_inverse) simp
  moreover have "subst_env T eval (map (\<lambda>(k, v). (k, escape v)) (env_vars c)) = Inr (env_vars c)"
    unfolding subst_env_def by (rule mapM_inverse) auto
  moreover have "subst_option T eval (map_option escape (cmd_stdin c)) = Inr (cmd_stdin c)"
    by (simp add: subst_option_def split: option.splits)
  ultimately show ?thesis
    by (simp add: subst_command_def escape_command_def subst_redirect_escaped)
qed

text \<open>C39. A pipeline in which every dollar is doubled is run as it was before: the substitution gives the words, the files of the
  redirections, the values of the variables and the directories back, whatever the variables of the task are.\<close>

theorem escaped_pipeline:
  assumes "Chdir None \<notin> set ns"
  shows "mapM (subst_node T eval) (map escape_node ns) = Inr ns"
proof (rule mapM_inverse)
  fix n
  assume "n \<in> set ns"
  with assms show "subst_node T eval (escape_node n) = Inr n"
  proof (cases n)
    case (Chdir d)
    with assms \<open>n \<in> set ns\<close> show ?thesis by (cases d) (auto simp: escape_node_def subst_node_def)
  qed (simp_all add: escape_node_def subst_node_def subst_command_escaped)
qed

definition small_task :: task where
  "small_task = \<lparr>inputs = [\<lparr>srcpath = ''a.in'', bld_abspath = ''/b/a.in''\<rparr>], outputs = []\<rparr>"

theorem escaped_pipeline_witness:
  "mapM (subst_node small_task (\<lambda>_. Inl KeyError)) (map escape_node [Chdir (Some ''/a$b''), And, Command (new_command ''x$$'')]) =
     Inr [Chdir (Some ''/a$b''), And, Command (new_command ''x$$'')]"
  by (rule escaped_pipeline) simp

lemma match_subst_name:
  assumes "var \<noteq> []" and "list_all key_char var" and "list_all (\<lambda>c. c \<noteq> CHR ''}'' \<and> c \<noteq> nl) code"
    and "code = [] \<or> \<not> key_char (hd code)"
  shows "match_subst (var @ code @ CHR ''}'' # u) = Some (var, code, u)"
proof -
  have "\<not> key_char (hd (code @ CHR ''}'' # u))" using assms(4) by (cases code) (auto simp: key_char_def Let_def)
  then have "takeWhile key_char (code @ CHR ''}'' # u) = []" "dropWhile key_char (code @ CHR ''}'' # u) = code @ CHR ''}'' # u"
    by (cases "code @ CHR ''}'' # u"; simp)+
  then have "takeWhile key_char (var @ code @ CHR ''}'' # u) = var" "dropWhile key_char (var @ code @ CHR ''}'' # u) = code @ CHR ''}'' # u"
    using assms(2) by (simp_all add: list_all_iff takeWhile_append2 dropWhile_append2)
  moreover have "takeWhile (\<lambda>c. c \<noteq> CHR ''}'' \<and> c \<noteq> nl) (code @ CHR ''}'' # u) = code"
    "dropWhile (\<lambda>c. c \<noteq> CHR ''}'' \<and> c \<noteq> nl) (code @ CHR ''}'' # u) = CHR ''}'' # u"
    using assms(3) by (simp_all add: list_all_iff takeWhile_append2 dropWhile_append2)
  ultimately show ?thesis using assms(1) by (simp add: match_subst_def)
qed

text \<open>The sources and targets of a task: \<^verbatim>\<open>${SRC}\<close> becomes the path of the source when there is one, \<^verbatim>\<open>${TGT}\<close>
  that of the target, and both are errors when there are none or several.  The text around them is left as it is.\<close>

theorem subst_files:
  assumes "eval ''SRC'' = Inr Inputs" and "eval ''TGT'' = Inr Outputs"
  shows "subst_arg T eval (escape a @ ''${SRC}'' @ escape b) =
      (if length (inputs T) = 1 then Inr (a @ srcpath (hd (inputs T)) @ b) else Inl ValueError)
    \<and> subst_arg T eval (escape a @ ''${TGT}'' @ escape b) =
      (if length (outputs T) = 1 then Inr (a @ bld_abspath (hd (outputs T)) @ b) else Inl ValueError)"
proof -
  have "match_subst (''SRC'' @ [] @ CHR ''}'' # escape b) = Some (''SRC'', [], escape b)"
    "match_subst (''TGT'' @ [] @ CHR ''}'' # escape b) = Some (''TGT'', [], escape b)"
    by (rule match_subst_name; simp add: key_char_def)+
  then have "subst_arg T eval (''${SRC}'' @ escape b) = rbind (repl T ''SRC'' Inputs) (\<lambda>t. Inr (t @ b))"
    "subst_arg T eval (''${TGT}'' @ escape b) = rbind (repl T ''TGT'' Outputs) (\<lambda>t. Inr (t @ b))"
    using assms by simp_all
  then show ?thesis
    by (cases "inputs T"; cases "outputs T") (auto simp: subst_arg_escape repl_def length_Suc_conv split: list.splits)
qed

theorem subst_files_witness:
  "subst_arg small_task (\<lambda>s. Inr (if s = ''SRC'' then Inputs else Outputs)) ''-i=${SRC}$$'' = Inr ''-i=a.in$''"
  using subst_files [of "\<lambda>s. Inr (if s = ''SRC'' then Inputs else Outputs)" small_task "''-i=''" "''$''"]
  by (simp add: small_task_def escape_def)

end
