(* ===== verification/Viz_Base.thy ===== *)
theory Viz_Base
  imports Py_Path Complex_Main
begin

text \<open>
  \<^verbatim>\<open>src/visualizer/visualizer/base.py\<close>: coordinates of the simulation and of the canvas, what the visualizer knows
  of the types of devices, and the plugins.  A type of device is its name, a plugin the name of its module.
\<close>

section \<open>Coordinates\<close>

type_synonym pt = "rat \<times> rat"

definition pixels_per_meter :: rat where
  "pixels_per_meter = 3"

definition distance_to_canvas :: "rat \<Rightarrow> rat" where
  "distance_to_canvas d = d * pixels_per_meter"

definition point_to_canvas :: "pt \<Rightarrow> pt" where
  "point_to_canvas p = (fst p * pixels_per_meter, snd p * pixels_per_meter)"

definition distance_to_simulation :: "rat \<Rightarrow> rat" where
  "distance_to_simulation d = d / pixels_per_meter"

definition point_to_simulation :: "pt \<Rightarrow> pt" where
  "point_to_simulation p = (fst p / pixels_per_meter, snd p / pixels_per_meter)"

lemma transform_inverse [simp]:
  "distance_to_simulation (distance_to_canvas d) = d" "distance_to_canvas (distance_to_simulation d) = d"
  "point_to_simulation (point_to_canvas p) = p" "point_to_canvas (point_to_simulation p) = p"
  by (simp_all add: distance_to_simulation_def distance_to_canvas_def point_to_simulation_def point_to_canvas_def pixels_per_meter_def)

section \<open>Types of devices\<close>

record traits =
  is_wireless :: "bool option"
  is_virtual :: bool

definition new_traits :: "bool option \<Rightarrow> bool \<Rightarrow> py_exn + traits" where
  "new_traits w v = (if v \<or> w \<noteq> None then Inr \<lparr>is_wireless = w, is_virtual = v\<rparr> else Inl AssertionError)"

definition netdevice_traits :: "(string, traits) dict" where
  "netdevice_traits =
     [(''PointToPointNetDevice'', \<lparr>is_wireless = Some False, is_virtual = False\<rparr>),
      (''CsmaNetDevice'', \<lparr>is_wireless = Some False, is_virtual = False\<rparr>),
      (''WifiNetDevice'', \<lparr>is_wireless = Some True, is_virtual = False\<rparr>),
      (''BridgeNetDevice'', \<lparr>is_wireless = None, is_virtual = True\<rparr>),
      (''LoopbackNetDevice'', \<lparr>is_wireless = Some False, is_virtual = True\<rparr>),
      (''MeshPointDevice'', \<lparr>is_wireless = None, is_virtual = True\<rparr>),
      (''SubscriberStationNetDevice'', \<lparr>is_wireless = Some True, is_virtual = False\<rparr>),
      (''BaseStationNetDevice'', \<lparr>is_wireless = Some True, is_virtual = False\<rparr>),
      (''LteUeNetDevice'', \<lparr>is_wireless = Some True, is_virtual = False\<rparr>),
      (''LteEnbNetDevice'', \<lparr>is_wireless = Some True, is_virtual = False\<rparr>)]"

text \<open>The table and the types warned of.\<close>

type_synonym trait_table = "(string, traits) dict \<times> string list"

definition lookup_netdevice_traits :: "string \<Rightarrow> trait_table \<Rightarrow> traits \<times> trait_table" where
  "lookup_netdevice_traits ty tab =
     (let (d, warned) = tab
      in case dget d ty of
        Some t \<Rightarrow> (t, tab)
      | None \<Rightarrow> let t = \<lparr>is_wireless = Some True, is_virtual = False\<rparr> in (t, dset ty t d, warned @ [ty]))"

text \<open>Every entry is one the class accepts, and a type is warned of at most once.\<close>

lemma traits_accepted: "list_all (\<lambda>(_, t). new_traits (is_wireless t) (is_virtual t) = Inr t) netdevice_traits"
  by (auto simp: netdevice_traits_def new_traits_def)

lemma lookup_again:
  assumes "lookup_netdevice_traits ty tab = (t, tab')"
  shows "lookup_netdevice_traits ty tab' = (t, tab')"
  using assms by (auto simp: lookup_netdevice_traits_def Let_def split: prod.splits option.splits)

section \<open>Plugins\<close>

text \<open>What importing a module gives: an \<^verbatim>\<open>ImportError\<close> with its text, a module without \<^verbatim>\<open>register\<close>, or one with it,
  which can be called or not.\<close>

datatype imported = Import_Error string | No_Register | Register bool

record plugin_state =
  plugins_loaded :: bool
  plugins :: "string list"
  plugin_modules :: "(string, string) dict"
  sys_path :: "string list"
  stderr :: "string list"

definition register_plugin :: "string \<Rightarrow> bool \<Rightarrow> plugin_state \<Rightarrow> py_exn + plugin_state" where
  "register_plugin name callable s =
     (if callable then Inr (s\<lparr>plugins := plugins s @ [name], plugin_modules := dset name name (plugin_modules s)\<rparr>)
      else Inl AssertionError)"

definition load_plugin :: "(string \<Rightarrow> imported) \<Rightarrow> string \<Rightarrow> plugin_state \<Rightarrow> py_exn + plugin_state" where
  "load_plugin importer filename s =
     (let (name, ext) = splitext filename
      in if ext \<noteq> ''.py'' then Inr s
         else case importer name of
           Import_Error e \<Rightarrow> Inr (s\<lparr>stderr := stderr s @ [''Could not load plugin '' @ repr_str filename @ '': '' @ e]\<rparr>)
         | No_Register \<Rightarrow> Inr (s\<lparr>stderr := stderr s @ [''Plugin '' @ repr_str name @ '' has no 'register' function'']\<rparr>)
         | Register callable \<Rightarrow> register_plugin name callable s)"

definition load_plugins :: "(string \<Rightarrow> imported) \<Rightarrow> string \<Rightarrow> string list \<Rightarrow> plugin_state \<Rightarrow> py_exn + plugin_state" where
  "load_plugins importer dir listing s =
     (if plugins_loaded s then Inr s
      else let old_path = sys_path s; s = s\<lparr>plugins_loaded := True, sys_path := dir # old_path\<rparr>
           in rbind (foldM (load_plugin importer) listing s) (\<lambda>s. Inr (s\<lparr>sys_path := old_path\<rparr>)))"

text \<open>The plugins a listing holds.\<close>

definition plugin_names :: "(string \<Rightarrow> imported) \<Rightarrow> string list \<Rightarrow> string list" where
  "plugin_names importer listing =
     [fst (splitext f). f \<leftarrow> listing, snd (splitext f) = ''.py'' \<and> importer (fst (splitext f)) = Register True]"

lemma load_plugin_Inr:
  assumes "load_plugin importer f s = Inr t"
  shows "plugins t = plugins s @ plugin_names importer [f]" and "sys_path t = sys_path s" and "plugins_loaded t = plugins_loaded s"
  using assms by (auto simp: load_plugin_def plugin_names_def register_plugin_def split: prod.splits if_splits imported.splits)

lemma load_plugin_fold:
  "foldM (load_plugin importer) listing s = Inr t \<Longrightarrow>
   plugins t = plugins s @ plugin_names importer listing \<and> sys_path t = sys_path s \<and> plugins_loaded t = plugins_loaded s"
proof (induction listing arbitrary: s)
  case (Cons f fs)
  then obtain u where "load_plugin importer f s = Inr u" "foldM (load_plugin importer) fs u = Inr t" by auto
  with Cons.IH load_plugin_Inr [of importer f s u] show ?case by (simp add: plugin_names_def)
qed (simp add: plugin_names_def)

text \<open>Loading registers every module that has a function \<^verbatim>\<open>register\<close>, in the order of the listing, puts the search path
  back, and is done once.\<close>

theorem load_plugins_once:
  assumes "load_plugins importer dir listing s = Inr t" and "\<not> plugins_loaded s"
  shows "plugins t = plugins s @ plugin_names importer listing \<and> sys_path t = sys_path s \<and>
    load_plugins importer' dir' listing' t = Inr t"
  using assms by (auto simp: load_plugins_def Let_def dest!: load_plugin_fold)

lemma load_plugins_once_witness:
  "map_sum id plugins (load_plugins (\<lambda>n. if n = ''b'' then No_Register else Register True) ''d'' [''a.py'', ''b.py'', ''c.txt'']
     \<lparr>plugins_loaded = False, plugins = [], plugin_modules = [], sys_path = [], stderr = []\<rparr>) = Inr [''a'']"
proof -
  let ?i = "\<lambda>n. if n = ''b'' then No_Register else Register True" and ?fs = "[''a.py'', ''b.py'', ''c.txt'']"
  let ?s = "\<lparr>plugins_loaded = False, plugins = [], plugin_modules = [], sys_path = [], stderr = []\<rparr> :: plugin_state"
  have ext: "splitext ''a.py'' = (''a'', ''.py'')" "splitext ''b.py'' = (''b'', ''.py'')" "splitext ''c.txt'' = (''c'', ''.txt'')"
    by code_simp+
  obtain t where t: "load_plugins ?i ''d'' ?fs ?s = Inr t"
    by (auto simp: load_plugins_def load_plugin_def register_plugin_def ext Let_def)
  have "plugin_names ?i ?fs = [''a'']" by (simp add: plugin_names_def ext)
  with load_plugins_once [OF t, where dir' = "''d''" and listing' = "[]" and importer' = "?i"] t show ?thesis by simp
qed

end
