(* ===== verification/Viz_Axes.thy ===== *)
theory Viz_Axes
  imports Viz_Base
begin

text \<open>
  \<^verbatim>\<open>src/visualizer/visualizer/hud.py\<close>: the two axes drawn over the canvas of the visualizer.  Coordinates are
  rationals; a path is its list of segments, a label an object with a place, the number it shows and its visibility.
\<close>

section \<open>The divisions of an axis\<close>

definition rint :: "rat \<Rightarrow> int" where
  "rint x = \<lfloor>x + 1 / 2\<rfloor>"

text \<open>\<^verbatim>\<open>pow(10, rint(math.log10(x)))\<close> for a positive number, by steps of ten.\<close>

lemma floor_less: "a + 1 \<le> b \<Longrightarrow> 1 \<le> b \<Longrightarrow> nat \<lfloor>a\<rfloor> < nat \<lfloor>b\<rfloor>" for a b :: rat
proof -
  assume "a + 1 \<le> b" "1 \<le> b"
  then have "\<lfloor>a\<rfloor> < \<lfloor>b\<rfloor>" "1 \<le> \<lfloor>b\<rfloor>" by linarith+
  then show ?thesis by simp
qed

function nearest_pow10 :: "rat \<Rightarrow> rat" where
  "nearest_pow10 x =
     (if x \<le> 0 then 1
      else if 10 \<le> x * x then 10 * nearest_pow10 (x / 10)
      else if x * x < 1 / 10 then nearest_pow10 (x * 10) / 10
      else 1)"
  by pat_completeness auto
termination
proof (relation "measure (\<lambda>x. if 10 \<le> x * x then nat \<lfloor>x\<rfloor> else if x * x < 1 / 10 then nat \<lfloor>1 / x\<rfloor> else 0)", goal_cases)
  case (2 x)
  then have x: "0 < x" "10 \<le> x * x" by auto
  have "3 \<le> x"
  proof (rule ccontr)
    assume "\<not> 3 \<le> x"
    then have "x * x < 3 * 3" using x(1) by (intro mult_strict_mono) auto
    with x(2) show False by simp
  qed
  moreover from this have "nat \<lfloor>x / 10\<rfloor> < nat \<lfloor>x\<rfloor>" by (intro floor_less) linarith+
  moreover have "\<not> (x / 10) * (x / 10) < 1 / 10" using x(2) by simp
  ultimately show ?case using x(2) by (simp split: if_splits)
next
  case (3 x)
  then have x: "0 < x" "x * x < 1 / 10" by auto
  have "x < 1 / 3"
  proof (rule ccontr)
    assume "\<not> x < 1 / 3"
    then have "1 / 3 * (1 / 3) \<le> x * x" by (intro mult_mono) auto
    with x(2) show False by simp
  qed
  then have "3 < 1 / x" using x(1) by (simp add: field_simps)
  moreover have "1 / (x * 10) = 1 / x / 10" by simp
  ultimately have "nat \<lfloor>1 / (x * 10)\<rfloor> < nat \<lfloor>1 / x\<rfloor>" by (intro floor_less) linarith+
  moreover have "\<not> 10 \<le> (x * 10) * (x * 10)" using x(2) by simp
  moreover have "1 \<le> \<lfloor>1 / x\<rfloor>" using \<open>3 < 1 / x\<close> by linarith
  ultimately show ?case using x(2) by (simp split: if_splits)
qed simp

declare nearest_pow10.simps [simp del]

definition division :: "rat \<Rightarrow> rat" where
  "division dx_over_ndiv =
     (let d = nearest_pow10 dx_over_ndiv
      in if \<bar>d / 2 - dx_over_ndiv\<bar> < \<bar>d - dx_over_ndiv\<bar> then d / 2
         else if \<bar>d * 2 - dx_over_ndiv\<bar> < \<bar>d - dx_over_ndiv\<bar> then d * 2
         else d)"

text \<open>The loop of five rounds; \<open>ndiv\<close> is computed anew in the last three, but nothing reads it.\<close>

fun divisions_loop :: "rat \<Rightarrow> rat \<Rightarrow> rat \<Rightarrow> rat \<Rightarrow> nat list \<Rightarrow> rat \<times> rat \<times> rat \<Rightarrow> rat \<times> rat \<times> rat" where
  "divisions_loop xi extent text_width dx_over_ndiv [] st = st"
| "divisions_loop xi extent text_width dx_over_ndiv (n # ns) (ndiv, x0, d) =
     (let d = division dx_over_ndiv; x0 = d * of_int \<lceil>xi / d\<rceil> - d;
          ndiv = (if n > 1 then of_int (rint (extent / text_width)) else ndiv)
      in divisions_loop xi extent text_width dx_over_ndiv ns (ndiv, x0, d))"

definition compute_divisions :: "rat \<Rightarrow> rat \<Rightarrow> py_exn + rat \<times> rat" where
  "compute_divisions xi xf =
     (if xf > xi then
        let dx = xf - xi; ndiv = 5
        in Inr (snd (divisions_loop xi dx (dx / ndiv / 2) (dx / ndiv) [0..<5] (ndiv, 0, 0)))
      else Inl AssertionError)"

text \<open>The loop \<^verbatim>\<open>while x < sim_x2\<close>; the distance is positive (\<open>division_bounds\<close>).\<close>

function ticks :: "rat \<Rightarrow> rat \<Rightarrow> rat \<Rightarrow> rat list" where
  "ticks x d limit = (if 0 < d \<and> x < limit then x # ticks (x + d) d limit else [])"
  by pat_completeness auto
termination
proof (relation "measure (\<lambda>(x, d, limit). nat \<lceil>(limit - x) / d\<rceil>)", goal_cases wf step)
  case (step x d limit)
  then have "0 < (limit - x) / d" by simp
  moreover have "(limit - (x + d)) / d = (limit - x) / d - 1" using step by (simp add: field_simps)
  ultimately show ?case by simp
qed simp

declare ticks.simps [simp del]

section \<open>The axes\<close>

record label =
  lb_visible :: bool
  lb_place :: "rat \<times> rat"
  lb_value :: rat

type_synonym segment = "(rat \<times> rat) \<times> (rat \<times> rat)"

record axes =
  ax_visible :: bool
  hlines :: "segment list"
  vlines :: "segment list"
  labels :: "label list"

definition hide :: "label \<Rightarrow> label" where
  "hide l = l\<lparr>lb_visible := False\<rparr>"

definition set_visible :: "bool \<Rightarrow> axes \<Rightarrow> axes" where
  "set_visible v a = (let a = a\<lparr>ax_visible := v\<rparr> in if v then a else a\<lparr>labels := map hide (labels a)\<rparr>)"

text \<open>The labels in use and those left over; a new label is visible from the start.\<close>

definition get_label :: "rat \<times> rat \<Rightarrow> rat \<Rightarrow> label list \<times> label list \<Rightarrow> label list \<times> label list" where
  "get_label place v ls =
     (let (used, unused) = ls; l = \<lparr>lb_visible = True, lb_place = place, lb_value = v\<rparr>
      in case unused of [] \<Rightarrow> (used @ [l], []) | _ # rest \<Rightarrow> (used @ [l], rest))"

definition place_labels :: "(rat \<Rightarrow> rat \<times> rat) \<Rightarrow> rat list \<Rightarrow> label list \<times> label list \<Rightarrow> label list \<times> label list" where
  "place_labels place xs ls = fold (\<lambda>x. get_label (place x) x) xs ls"

text \<open>\<open>update_view\<close>: the zoom is \<open>None\<close> while the window is built; the corners of what is seen are those
  \<open>convert_from_pixels\<close> gives.\<close>

definition update_view :: "rat option \<Rightarrow> rat \<times> rat \<Rightarrow> rat \<times> rat \<Rightarrow> axes \<Rightarrow> py_exn + axes" where
  "update_view zoom corner1 corner2 a =
     (case zoom of
        None \<Rightarrow> Inr a
      | Some z \<Rightarrow>
          if z = 0 then Inl ZeroDivisionError
          else
            let (x1, y1) = corner1; (x2, y2) = corner2; offset = 10 / z; line_width = 5 / z; ppm = pixels_per_meter;
                unused = map hide (labels a); yc = y2 - line_width / 2
            in rbind (compute_divisions (x1 / ppm) (x2 / ppm)) (\<lambda>(x0, xdiv).
                 let xs = ticks x0 xdiv (x2 / ppm); ls = place_labels (\<lambda>x. (ppm * x, yc - offset)) xs ([], unused);
                     xc = x1 + line_width / 2
                 in rbind (compute_divisions (y1 / ppm) (y2 / ppm)) (\<lambda>(y0, ydiv).
                      let ys = ticks y0 ydiv (y2 / ppm); (used, rest) = place_labels (\<lambda>y. (xc + offset, ppm * y)) ys ls
                      in Inr (a\<lparr>hlines := ((x1, yc), (x2, yc)) # map (\<lambda>x. ((ppm * x, yc - offset), (ppm * x, yc))) xs,
                                vlines := ((xc, y1), (xc, y2)) # map (\<lambda>y. ((xc, ppm * y), (xc + offset, ppm * y))) ys,
                                labels := used @ rest\<rparr>))))"

text \<open>What an adjustment that changes calls.\<close>

definition adjustment_changed :: "rat option \<Rightarrow> rat \<times> rat \<Rightarrow> rat \<times> rat \<Rightarrow> axes \<Rightarrow> py_exn + axes" where
  "adjustment_changed zoom corner1 corner2 a = (if ax_visible a then update_view zoom corner1 corner2 a else Inr a)"

section \<open>The nearest power of ten\<close>

lemma nearest_pow10_bounds:
  "0 < x \<Longrightarrow> 0 < nearest_pow10 x \<and> nearest_pow10 x * nearest_pow10 x \<le> 10 * (x * x) \<and> x * x < 10 * (nearest_pow10 x * nearest_pow10 x)"
proof (induction x rule: nearest_pow10.induct)
  case (1 x)
  consider "10 \<le> x * x" | "x * x < 1 / 10" | "1 / 10 \<le> x * x" "x * x < 10" by linarith
  then show ?case
  proof cases
    case 1
    with "1.IH"(1) "1.prems" show ?thesis by (simp add: nearest_pow10.simps [of x])
  next
    case 2
    with "1.IH"(2) "1.prems" show ?thesis by (simp add: nearest_pow10.simps [of x])
  next
    case 3
    with "1.prems" show ?thesis by (simp add: nearest_pow10.simps [of x])
  qed
qed

text \<open>It is the power the code computes with a logarithm.\<close>

lemma nearest_pow10_log:
  "0 < x \<Longrightarrow> of_rat (nearest_pow10 x) = 10 powr real_of_int \<lfloor>log 10 (of_rat x) + 1 / 2\<rfloor>"
proof (induction x rule: nearest_pow10.induct)
  case (1 x)
  have pos: "0 < (of_rat x :: real)" using "1.prems" by simp
  consider "10 \<le> x * x" | "\<not> 10 \<le> x * x" "x * x < 1 / 10" | "1 / 10 \<le> x * x" "x * x < 10" by linarith
  then show ?case
  proof cases
    case 1
    have "log 10 (of_rat (x / 10)) = log 10 (of_rat x) - 1" using pos by (simp add: of_rat_divide log_divide)
    then have "\<lfloor>log 10 (of_rat (x / 10)) + 1 / 2\<rfloor> = \<lfloor>log 10 (of_rat x) + 1 / 2\<rfloor> - 1" by linarith
    moreover have "of_rat (nearest_pow10 x) = (10 :: real) * of_rat (nearest_pow10 (x / 10))"
      using 1 "1.prems" by (simp add: nearest_pow10.simps [of x] of_rat_mult)
    ultimately show ?thesis using "1.IH"(1) "1.prems" 1 by (simp add: powr_diff)
  next
    case 2
    have "log 10 (of_rat (x * 10)) = log 10 (of_rat x) + 1" using pos by (simp add: of_rat_mult log_mult)
    then have "\<lfloor>log 10 (of_rat (x * 10)) + 1 / 2\<rfloor> = \<lfloor>log 10 (of_rat x) + 1 / 2\<rfloor> + 1" by linarith
    moreover have "of_rat (nearest_pow10 x) = of_rat (nearest_pow10 (x * 10)) / (10 :: real)"
      using 2 "1.prems" by (simp add: nearest_pow10.simps [of x] of_rat_divide)
    ultimately show ?thesis using "1.IH"(2) "1.prems" 2 by (simp add: powr_add)
  next
    case 3
    have sq: "1 / 10 \<le> (of_rat x :: real) * of_rat x" "(of_rat x :: real) * of_rat x < 10"
      using 3 by (metis of_rat_less_eq of_rat_mult of_rat_divide of_rat_1 of_rat_numeral_eq, metis of_rat_less of_rat_mult of_rat_numeral_eq)
    have "log 10 (of_rat x * of_rat x) = 2 * log 10 (of_rat x)" using pos by (simp add: log_mult)
    moreover have "log 10 (1 / 10) \<le> log 10 (of_rat x * of_rat x)"
      using sq(1) pos by (subst log_le_cancel_iff) simp_all
    moreover have "log 10 (of_rat x * of_rat x) < log 10 10"
      using sq(2) pos by (subst log_less_cancel_iff) simp_all
    ultimately have "\<lfloor>log 10 (of_rat x) + 1 / 2\<rfloor> = 0" by (simp add: log_divide floor_eq_iff)
    with 3 "1.prems" show ?thesis by (simp add: nearest_pow10.simps [of x])
  qed
qed

definition power_of_ten :: "rat \<Rightarrow> bool" where
  "power_of_ten p \<longleftrightarrow> (\<exists>n. p = 10 ^ n \<or> p = 1 / 10 ^ n)"

lemma power_of_ten_times:
  assumes "power_of_ten p"
  shows "power_of_ten (10 * p)" and "power_of_ten (p / 10)"
proof -
  have up: "power_of_ten (10 ^ n)" and down: "power_of_ten (1 / 10 ^ n)" for n
    by (auto simp: power_of_ten_def)
  from assms obtain n where n: "p = 10 ^ n \<or> p = 1 / 10 ^ n" by (auto simp: power_of_ten_def)
  have "10 * p = 10 ^ Suc n \<or> 10 * p = 10 ^ Suc 0 \<or> 10 * p = 1 / 10 ^ (n - 1)"
    using n by (cases n) auto
  then show "power_of_ten (10 * p)" using up down by metis
  have "p / 10 = 1 / 10 ^ Suc n \<or> p / 10 = 1 / 10 ^ Suc 0 \<or> p / 10 = 10 ^ (n - 1)"
    using n by (cases n) auto
  then show "power_of_ten (p / 10)" using up down by metis
qed

lemma power_of_ten_nearest: "power_of_ten (nearest_pow10 x)"
proof (induction x rule: nearest_pow10.induct)
  case (1 x)
  have "power_of_ten 1" unfolding power_of_ten_def by (intro exI [of _ 0]) simp
  with 1 show ?case
    by (subst nearest_pow10.simps) (simp add: power_of_ten_times)
qed

section \<open>The distance of the ticks\<close>

lemma sq_less: "a * a < b * b \<Longrightarrow> 0 \<le> b \<Longrightarrow> a < b" for a b :: rat
  using power2_less_imp_less [of a b] by (simp add: power2_eq_square)

lemma division_bounds:
  assumes "0 < x"
  shows "0 < division x" and "5 / 8 * division x < x" and "x < 8 / 5 * division x"
proof -
  let ?p = "nearest_pow10 x"
  from nearest_pow10_bounds [OF assms] have p: "0 < ?p" "?p * ?p \<le> 10 * (x * x)" "x * x < 10 * (?p * ?p)" by auto
  have lo: "5 / 16 * ?p < x" by (rule sq_less) (use p assms in auto)
  have hi: "x < 16 / 5 * ?p" by (rule sq_less) (use p assms in auto)
  have near: "\<bar>?p / 2 - x\<bar> < \<bar>?p - x\<bar> \<longleftrightarrow> x < 3 / 4 * ?p" "\<bar>?p * 2 - x\<bar> < \<bar>?p - x\<bar> \<longleftrightarrow> 3 / 2 * ?p < x"
    using p(1) by linarith+
  have "division x = (if x < 3 / 4 * ?p then ?p / 2 else if 3 / 2 * ?p < x then ?p * 2 else ?p)"
    unfolding division_def Let_def near ..
  then show "0 < division x" and "5 / 8 * division x < x" and "x < 8 / 5 * division x"
    using lo hi p(1) by (auto simp: not_less)
qed

lemma divisions_loop_once:
  "ns \<noteq> [] \<Longrightarrow> snd (divisions_loop xi extent text_width dx ns (ndiv, x0, d)) = (division dx * of_int \<lceil>xi / division dx\<rceil> - division dx, division dx)"
proof (induction ns arbitrary: ndiv x0 d)
  case (Cons n ns)
  then show ?case by (cases ns) (simp_all add: Let_def)
qed simp

text \<open>The five rounds of the search for a distance give what the first gives: the distance is that of a fifth of the
  length, the number of divisions computed again in the loop is never used.\<close>

lemma compute_divisions_once:
  "compute_divisions xi xf =
     (if xi < xf then let d = division ((xf - xi) / 5) in Inr (d * of_int \<lceil>xi / d\<rceil> - d, d) else Inl AssertionError)"
  by (simp add: compute_divisions_def divisions_loop_once Let_def)

text \<open>The ticks lie a division apart, from the start to just before the end of what is seen.\<close>

lemma ticks_map: "0 < d \<Longrightarrow> ticks x d limit = map (\<lambda>k. x + of_nat k * d) [0..<nat \<lceil>(limit - x) / d\<rceil>]"
proof (induction x d limit rule: ticks.induct)
  case (1 x d limit)
  show ?case
  proof (cases "x < limit")
    case True
    then have "0 < (limit - x) / d" using 1 by simp
    moreover have "(limit - (x + d)) / d = (limit - x) / d - 1" using 1 by (simp add: field_simps)
    ultimately have n: "nat \<lceil>(limit - x) / d\<rceil> = Suc (nat \<lceil>(limit - (x + d)) / d\<rceil>)" by (simp add: Suc_nat_eq_nat_zadd1)
    have "ticks x d limit = x # ticks (x + d) d limit" using True 1 by (simp add: ticks.simps [of x])
    also have "ticks (x + d) d limit = map (\<lambda>k. x + d + of_nat k * d) [0..<nat \<lceil>(limit - (x + d)) / d\<rceil>]"
      using 1 True by simp
    finally show ?thesis
      unfolding n upt_conv_Cons [OF zero_less_Suc] map_Suc_upt [symmetric] by (simp add: algebra_simps)
  next
    case False
    then have "(limit - x) / d \<le> 0" using 1 by (simp add: divide_le_0_iff)
    then have "nat \<lceil>(limit - x) / d\<rceil> = 0" by simp
    with False show ?thesis by (simp add: ticks.simps [of x])
  qed
qed

lemma division_start:
  fixes xi d :: rat
  assumes "0 < d"
  shows "d * of_int \<lceil>xi / d\<rceil> - d < xi" and "xi \<le> d * of_int \<lceil>xi / d\<rceil>"
proof -
  have "of_int \<lceil>xi / d\<rceil> < xi / d + 1" and "xi / d \<le> of_int \<lceil>xi / d\<rceil>" by linarith+
  then have "of_int \<lceil>xi / d\<rceil> * d < (xi / d + 1) * d" and "xi / d * d \<le> of_int \<lceil>xi / d\<rceil> * d"
    using assms by (intro mult_strict_right_mono mult_right_mono; simp)+
  then show "d * of_int \<lceil>xi / d\<rceil> - d < xi" and "xi \<le> d * of_int \<lceil>xi / d\<rceil>"
    using assms by (simp_all add: algebra_simps)
qed

definition round_number :: "rat \<Rightarrow> bool" where
  "round_number d \<longleftrightarrow> (\<exists>p. power_of_ten p \<and> d \<in> {p, 2 * p, 5 * p})"

lemma division_round: "round_number (division x)"
proof -
  let ?p = "nearest_pow10 x"
  have p: "power_of_ten ?p" "power_of_ten (?p / 10)" by (simp_all add: power_of_ten_nearest power_of_ten_times)
  have "?p / 2 = 5 * (?p / 10)" by simp
  then show ?thesis using p
    by (auto simp: division_def Let_def round_number_def mult.commute)
qed

lemma axis_ticks_bounds:
  assumes "compute_divisions xi xf = Inr (x0, d)"
  shows "0 < d" and "xi - d \<le> x0" and "x0 < xi" and "4 \<le> length (ticks x0 d xf)" and "length (ticks x0 d xf) \<le> 9"
proof -
  have lt: "xi < xf" and d: "d = division ((xf - xi) / 5)" and x0: "x0 = d * of_int \<lceil>xi / d\<rceil> - d"
    using assms by (auto simp: compute_divisions_once Let_def split: if_splits)
  from lt have "0 < (xf - xi) / 5" by simp
  from division_bounds [OF this] have b: "0 < d" "25 / 8 * d < xf - xi" "xf - xi < 8 * d" by (simp_all add: d)
  from division_start [OF b(1), of xi] have s: "x0 < xi" "xi - d \<le> x0" by (simp_all add: x0)
  have "3 < (xf - x0) / d" and "(xf - x0) / d < 9"
    using b s by (simp_all add: pos_less_divide_eq pos_divide_less_eq)
  then have n: "4 \<le> nat \<lceil>(xf - x0) / d\<rceil>" "nat \<lceil>(xf - x0) / d\<rceil> \<le> 9" by linarith+
  show "0 < d" and "xi - d \<le> x0" and "x0 < xi" by (fact b s)+
  show "4 \<le> length (ticks x0 d xf)" and "length (ticks x0 d xf) \<le> 9"
    using n by (simp_all add: ticks_map [OF b(1)])
qed

text \<open>C34. The ticks of an axis: for what is seen from \<open>xi\<close> to \<open>xf\<close> the distance of two ticks is one, two or five
  times a power of ten, the first tick lies at most that distance before \<open>xi\<close>, every tick is a multiple of the
  distance, and there are four to nine.\<close>

theorem axis_ticks:
  assumes "compute_divisions xi xf = Inr (x0, d)"
  shows "round_number d \<and> xi - d \<le> x0 \<and> x0 < xi \<and>
    (\<exists>k :: int. ticks x0 d xf = map (\<lambda>i. of_int (k + int i) * d) [0..<length (ticks x0 d xf)]) \<and>
    4 \<le> length (ticks x0 d xf) \<and> length (ticks x0 d xf) \<le> 9"
proof -
  have d: "d = division ((xf - xi) / 5)" and x0: "x0 = d * of_int \<lceil>xi / d\<rceil> - d"
    using assms by (auto simp: compute_divisions_once Let_def split: if_splits)
  have "ticks x0 d xf = map (\<lambda>i. of_int (\<lceil>xi / d\<rceil> - 1 + int i) * d) [0..<length (ticks x0 d xf)]"
    unfolding ticks_map [OF axis_ticks_bounds(1) [OF assms]] by (simp add: x0 algebra_simps)
  moreover have "round_number d" unfolding d by (rule division_round)
  ultimately show ?thesis using axis_ticks_bounds [OF assms] by blast
qed

lemma axis_ticks_witness:
  "round_number (1 / 2) \<and> ticks (- (1 / 2)) (1 / 2) 3 = map (\<lambda>i. of_int (- 1 + int i) * (1 / 2)) [0..<7]"
proof -
  have "compute_divisions 0 3 = Inr (- (1 / 2), 1 / 2)"
    by (simp add: compute_divisions_once division_def nearest_pow10.simps Let_def)
  from axis_ticks [OF this] show ?thesis by (simp add: ticks.simps upt_rec)
qed

section \<open>The pool of labels\<close>

lemma place_labels_pool:
  "place_labels place xs (used, unused) =
     (used @ map (\<lambda>x. \<lparr>lb_visible = True, lb_place = place x, lb_value = x\<rparr>) xs, drop (length xs) unused)"
proof (induction xs arbitrary: used unused)
  case (Cons x xs)
  then show ?case by (cases unused) (simp_all add: place_labels_def get_label_def)
qed (simp add: place_labels_def)

text \<open>A redraw shows one label for every tick of the two axes and none else, and takes the labels of the last
  redraw before it makes new ones: their number grows to the number of ticks at most, never past eighteen.\<close>

theorem redraw_labels:
  assumes "update_view (Some z) (x1, y1) (x2, y2) a = Inr b"
  shows "\<exists>x0 dx y0 dy. compute_divisions (x1 / pixels_per_meter) (x2 / pixels_per_meter) = Inr (x0, dx) \<and>
    compute_divisions (y1 / pixels_per_meter) (y2 / pixels_per_meter) = Inr (y0, dy) \<and>
    map lb_value (filter lb_visible (labels b)) =
      ticks x0 dx (x2 / pixels_per_meter) @ ticks y0 dy (y2 / pixels_per_meter) \<and>
    length (labels b) = max (length (labels a)) (length (filter lb_visible (labels b))) \<and>
    length (labels b) \<le> max (length (labels a)) 18"
proof -
  obtain x0 dx where x: "compute_divisions (x1 / pixels_per_meter) (x2 / pixels_per_meter) = Inr (x0, dx)"
    using assms by (cases "compute_divisions (x1 / pixels_per_meter) (x2 / pixels_per_meter)")
      (auto simp: update_view_def Let_def split: if_splits)
  obtain y0 dy where y: "compute_divisions (y1 / pixels_per_meter) (y2 / pixels_per_meter) = Inr (y0, dy)"
    using assms x by (cases "compute_divisions (y1 / pixels_per_meter) (y2 / pixels_per_meter)")
      (auto simp: update_view_def Let_def split: if_splits)
  let ?xs = "ticks x0 dx (x2 / pixels_per_meter)" and ?ys = "ticks y0 dy (y2 / pixels_per_meter)"
  have n: "length ?xs \<le> 9" "length ?ys \<le> 9" using axis_ticks_bounds [OF x] axis_ticks_bounds [OF y] by auto
  obtain f g where b: "labels b = map (\<lambda>x. \<lparr>lb_visible = True, lb_place = f x, lb_value = x\<rparr>) ?xs @
      map (\<lambda>y. \<lparr>lb_visible = True, lb_place = g y, lb_value = y\<rparr>) ?ys @ drop (length ?xs + length ?ys) (map hide (labels a))"
    using assms x y that [of "\<lambda>x. (pixels_per_meter * x, y2 - 5 / z / 2 - 10 / z)" "\<lambda>y. (x1 + 5 / z / 2 + 10 / z, pixels_per_meter * y)"]
    by (auto simp: update_view_def Let_def place_labels_pool add.commute split: if_splits)
  have hidden: "filter lb_visible (drop k (map hide ls)) = []" for k ls
    using in_set_dropD [of _ k "map hide ls"] by (fastforce simp: filter_empty_conv hide_def)
  have shown: "filter lb_visible (map (\<lambda>x. \<lparr>lb_visible = True, lb_place = f x, lb_value = x\<rparr>) zs) =
      map (\<lambda>x. \<lparr>lb_visible = True, lb_place = f x, lb_value = x\<rparr>) zs" for f zs
    by (simp add: filter_id_conv)
  have v: "map lb_value (filter lb_visible (labels b)) = ?xs @ ?ys"
    by (simp only: b filter_append shown hidden) (simp add: comp_def)
  then have "length (filter lb_visible (labels b)) = length ?xs + length ?ys"
    by (metis length_map length_append)
  moreover have "length (labels b) = max (length (labels a)) (length ?xs + length ?ys)"
    by (simp add: b)
  ultimately show ?thesis using x y v n by auto
qed

lemma redraw_labels_witness:
  "map_sum id (\<lambda>b. (map lb_value (filter lb_visible (labels b)), length (labels b)))
     (update_view (Some 1) (0, 0) (9, 3) \<lparr>ax_visible = True, hlines = [], vlines = [], labels = []\<rparr>) =
   Inr ([- (1 / 2), 0, 1 / 2, 1, 3 / 2, 2, 5 / 2, - (1 / 5), 0, 1 / 5, 2 / 5, 3 / 5, 4 / 5], 13)"
proof -
  let ?a = "\<lparr>ax_visible = True, hlines = [], vlines = [], labels = []\<rparr>"
  have d: "compute_divisions (0 / pixels_per_meter) (9 / pixels_per_meter) = Inr (- (1 / 2), 1 / 2)"
    "compute_divisions (0 / pixels_per_meter) (3 / pixels_per_meter) = Inr (- (1 / 5), 1 / 5)"
    by (simp_all add: compute_divisions_once division_def nearest_pow10.simps Let_def pixels_per_meter_def)
  then have "\<not> isl (update_view (Some 1) (0, 0) (9, 3) ?a)"
    by (simp add: update_view_def Let_def split_beta)
  then obtain b where b: "update_view (Some 1) (0, 0) (9, 3) ?a = Inr b"
    by (cases "update_view (Some 1) (0, 0) (9, 3) ?a") simp_all
  have v: "map lb_value (filter lb_visible (labels b)) = [- (1 / 2), 0, 1 / 2, 1, 3 / 2, 2, 5 / 2, - (1 / 5), 0, 1 / 5, 2 / 5, 3 / 5, 4 / 5]"
    and n: "length (labels b) = length (filter lb_visible (labels b))"
    using redraw_labels [OF b] d by (auto simp: ticks.simps pixels_per_meter_def)
  have "length (filter lb_visible (labels b)) = 13" using arg_cong [OF v, of length] by simp
  with b v n show ?thesis by simp
qed

end
