(* ===== verification/Viz_Thread.thy ===== *)
theory Viz_Thread
  imports Prelude Complex_Main
begin

text \<open>
  \<^verbatim>\<open>src/visualizer/visualizer/core.py\<close>: the two threads of the visualizer.  The simulation thread runs
  \<^verbatim>\<open>SimulationThread.run\<close>, the other the main loop of the window with its callbacks; they share a lock, the
  event \<^verbatim>\<open>go\<close>, the time to run to and the pause messages.  A step is what one thread does between two accesses to
  what they share; the threads interleave in any order.  While \<^verbatim>\<open>update_view_timeout\<close> waits for the lock it
  runs the main loop, so the callbacks of the main thread form a stack.  Times are rationals, in seconds.
\<close>

section \<open>The state\<close>

datatype thread = Sim | View

text \<open>Where the simulation thread is: the next statement of \<^verbatim>\<open>run\<close>.\<close>

datatype sim_pc = Test_Quit | Wait | Clear | Check_Quit | Acquire | Run_Until | Collect | Notify | Release | Ended

text \<open>What a callback does while it holds the lock, and the next statement of a callback of the main thread.  The
  number is that of the timer whose callback runs.\<close>

datatype call = Update_Model | Set_Nodes "nat list"

datatype frame =
    Try nat
  | Events nat
  | Take nat
  | Update nat "string list"
  | Unlock nat "string list"
  | Unlock_Raise nat
  | Report nat "string list"
  | Set_Go nat
  | Call_Acquire call
  | Call_Work call
  | Call_Release call
  | Quit_Flag
  | Quit_Go
  | Quit_Join

type_synonym batch = "nat list"

text \<open>What the play button, the speed and the timer are: attributes of \<^verbatim>\<open>Visualizer\<close> only the main thread
  uses.  \<open>sources\<close> are the timers of the main loop with their intervals in milliseconds; \<open>warned\<close> records that a timer
  was removed that was not there.\<close>

record player =
  active :: bool
  speed :: rat
  sample_period :: rat
  sources :: "(nat \<times> nat) list"
  next_id :: nat
  timeout_id :: "nat option"
  warned :: bool

text \<open>The last three fields are the history: the messages collected and the samples produced so far, and whether a redraw
  has raised.\<close>

record viz =
  lock :: "thread option"
  go :: bool
  quit :: bool
  target_time :: rat
  pause_messages :: "string list"
  pc :: sim_pc
  now :: rat
  helper_messages :: "string list"
  samples :: batch
  interest :: "nat list"
  stack :: "frame list"
  idles :: nat
  player :: player
  time_label :: rat
  dialogs :: "string list list"
  taken :: "batch list"
  main_quit :: bool
  collected :: "string list"
  produced :: "batch list"
  raised :: bool

section \<open>The simulation thread\<close>

text \<open>\<^verbatim>\<open>SimulatorRunUntil\<close> is C++ code (\<^verbatim>\<open>model/pyviz.cc\<close>): it clears the messages and samples of the last
  run, does nothing when the target is not ahead, and otherwise runs events up to the target or to a pause.  What it
  gives is the first argument of the step.\<close>

type_synonym outcome = "rat \<times> string list \<times> batch"

definition run_ok :: "viz \<Rightarrow> outcome \<Rightarrow> bool" where
  "run_ok s r = (let (t, ms, b) = r in if target_time s \<le> now s then t = now s \<and> ms = [] \<and> b = [] else now s \<le> t \<and> t \<le> target_time s)"

fun sim_step :: "outcome \<Rightarrow> viz \<Rightarrow> viz option" where
  "sim_step r s =
     (case pc s of
        Test_Quit \<Rightarrow> Some (s\<lparr>pc := if quit s then Ended else Wait\<rparr>)
      | Wait \<Rightarrow> if go s then Some (s\<lparr>pc := Clear\<rparr>) else None
      | Clear \<Rightarrow> Some (s\<lparr>go := False, pc := Check_Quit\<rparr>)
      | Check_Quit \<Rightarrow> Some (s\<lparr>pc := if quit s then Ended else Acquire\<rparr>)
      | Acquire \<Rightarrow> if lock s = None then Some (s\<lparr>lock := Some Sim, pc := Run_Until\<rparr>) else None
      | Run_Until \<Rightarrow>
          if run_ok s r
          then let (t, ms, b) = r
               in Some (s\<lparr>now := t, helper_messages := ms, samples := b, produced := produced s @ [b], pc := Collect\<rparr>)
          else None
      | Collect \<Rightarrow>
          Some (s\<lparr>pause_messages := pause_messages s @ helper_messages s, collected := collected s @ helper_messages s,
                  pc := Notify\<rparr>)
      | Notify \<Rightarrow> Some (s\<lparr>idles := Suc (idles s), pc := Release\<rparr>)
      | Release \<Rightarrow> Some (s\<lparr>lock := None, pc := Test_Quit\<rparr>)
      | Ended \<Rightarrow> None)"

section \<open>The main thread\<close>

definition source_remove :: "nat \<Rightarrow> player \<Rightarrow> player" where
  "source_remove i p =
     p\<lparr>sources := filter (\<lambda>(j, _). j \<noteq> i) (sources p), warned := (warned p \<or> i \<notin> fst ` set (sources p))\<rparr>"

definition start_update_timer :: "player \<Rightarrow> player" where
  "start_update_timer p =
     (let p = (case timeout_id p of None \<Rightarrow> p | Some i \<Rightarrow> source_remove i p)
      in p\<lparr>sources := sources p @ [(next_id p, nat \<lfloor>1 / 10 / min (speed p) 1 * 1000\<rfloor>)],
           timeout_id := Some (next_id p), next_id := Suc (next_id p)\<rparr>)"

definition on_play_button_toggled :: "player \<Rightarrow> player" where
  "on_play_button_toggled p =
     (if active p then start_update_timer p
      else case timeout_id p of None \<Rightarrow> p | Some i \<Rightarrow> source_remove i p)"

text \<open>A toggle button calls its handler when its state changes.\<close>

definition set_active :: "bool \<Rightarrow> player \<Rightarrow> player" where
  "set_active b p = (if active p = b then p else on_play_button_toggled (p\<lparr>active := b\<rparr>))"

definition speed_changed :: "rat \<Rightarrow> player \<Rightarrow> player" where
  "speed_changed v p = start_update_timer (p\<lparr>speed := v, sample_period := 1 / 10 * v\<rparr>)"

text \<open>The end of \<^verbatim>\<open>update_view_timeout\<close>: the dialog, and the timer stopped when the simulation is paused.  A callback
  that returns \<^verbatim>\<open>False\<close>, or raises, loses its timer.\<close>

definition drop_source :: "nat \<Rightarrow> player \<Rightarrow> player" where
  "drop_source i p = p\<lparr>sources := filter (\<lambda>(j, _). j \<noteq> i) (sources p)\<rparr>"

definition report :: "nat \<Rightarrow> string list \<Rightarrow> frame list \<Rightarrow> viz \<Rightarrow> viz" where
  "report i ms fs s =
     (let s = (if ms \<noteq> [] then s\<lparr>dialogs := dialogs s @ [ms], player := set_active False (player s)\<rparr> else s)
      in if \<not> active (player s) then s\<lparr>player := drop_source i ((player s)\<lparr>timeout_id := None\<rparr>), stack := fs\<rparr>
         else s\<lparr>stack := Set_Go i # fs\<rparr>)"

text \<open>The next statement of the topmost callback; the flag says whether \<^verbatim>\<open>update_view\<close> raises.\<close>

definition work :: "call \<Rightarrow> viz \<Rightarrow> viz" where
  "work c s =
     (case c of
        Update_Model \<Rightarrow> s\<lparr>taken := taken s @ [samples s]\<rparr>
      | Set_Nodes ns \<Rightarrow> s\<lparr>interest := ns\<rparr>)"

fun proceed :: "bool \<Rightarrow> frame \<Rightarrow> frame list \<Rightarrow> viz \<Rightarrow> viz option" where
  "proceed raises (Try i) fs s = Some (if lock s = None then s\<lparr>lock := Some View, stack := Take i # fs\<rparr> else s\<lparr>stack := Events i # fs\<rparr>)"
| "proceed raises (Events i) fs s = (if idles s = 0 then Some (s\<lparr>stack := Try i # fs\<rparr>) else None)"
| "proceed raises (Take i) fs s = Some (s\<lparr>stack := Update i (pause_messages s) # fs, pause_messages := []\<rparr>)"
| "proceed raises (Update i ms) fs s =
     (if raises then Some (s\<lparr>time_label := now s, stack := Unlock_Raise i # fs, raised := True\<rparr>)
      else Some (s\<lparr>time_label := now s, target_time := now s + sample_period (player s), stack := Unlock i ms # fs\<rparr>))"
| "proceed raises (Unlock i ms) fs s = Some (s\<lparr>lock := None, stack := Report i ms # fs\<rparr>)"
| "proceed raises (Unlock_Raise i) fs s = Some (s\<lparr>lock := None, player := drop_source i (player s), stack := fs\<rparr>)"
| "proceed raises (Report i ms) fs s = Some (report i ms fs s)"
| "proceed raises (Set_Go i) fs s = Some (s\<lparr>go := True, stack := fs\<rparr>)"
| "proceed raises (Call_Acquire c) fs s = (if lock s = None then Some (s\<lparr>lock := Some View, stack := Call_Work c # fs\<rparr>) else None)"
| "proceed raises (Call_Work c) fs s = Some ((work c s)\<lparr>stack := Call_Release c # fs\<rparr>)"
| "proceed raises (Call_Release c) fs s = Some (s\<lparr>lock := None, stack := fs\<rparr>)"
| "proceed raises Quit_Flag fs s = Some (s\<lparr>quit := True, stack := Quit_Go # fs\<rparr>)"
| "proceed raises Quit_Go fs s = Some (s\<lparr>go := True, stack := Quit_Join # fs\<rparr>)"
| "proceed raises Quit_Join fs s = (if pc s = Ended then Some (s\<lparr>main_quit := True, stack := fs\<rparr>) else None)"

text \<open>What the main loop gets: the topmost callback goes on, or an event calls a callback.  Events are dispatched when no
  callback runs and while the topmost one has failed to get the lock, until there are no more events; a timer whose
  callback runs is not dispatched again.\<close>

datatype event = Proceed bool | Timer nat | Idle | Toggle | Speed rat | Nodes "nat list" | Delete

definition dispatching :: "viz \<Rightarrow> bool" where
  "dispatching s = (case stack s of [] \<Rightarrow> True | Events _ # _ \<Rightarrow> True | _ \<Rightarrow> False)"

definition delete_event :: "viz \<Rightarrow> viz" where
  "delete_event s =
     (let p = (case timeout_id (player s) of None \<Rightarrow> player s | Some i \<Rightarrow> (source_remove i (player s))\<lparr>timeout_id := None\<rparr>)
      in s\<lparr>player := p, stack := Quit_Flag # stack s\<rparr>)"

fun handle :: "event \<Rightarrow> viz \<Rightarrow> viz option" where
  "handle (Proceed raises) s = None"
| "handle (Timer i) s =
     (if i \<in> fst ` set (sources (player s)) \<and> Events i \<notin> set (stack s) then Some (s\<lparr>stack := Try i # stack s\<rparr>) else None)"
| "handle Idle s = (if 0 < idles s then Some (s\<lparr>idles := idles s - 1, stack := Call_Acquire Update_Model # stack s\<rparr>) else None)"
| "handle Toggle s = Some (s\<lparr>player := set_active (\<not> active (player s)) (player s)\<rparr>)"
| "handle (Speed v) s = (if 1 / 100 \<le> v \<and> v \<le> 10 then Some (s\<lparr>player := speed_changed v (player s)\<rparr>) else None)"
| "handle (Nodes ns) s = Some (s\<lparr>stack := Call_Acquire (Set_Nodes ns) # stack s\<rparr>)"
| "handle Delete s = Some (delete_event s)"

fun view_step :: "event \<Rightarrow> viz \<Rightarrow> viz option" where
  "view_step (Proceed raises) s = (case stack s of [] \<Rightarrow> None | f # fs \<Rightarrow> proceed raises f fs s)"
| "view_step e s = (if dispatching s then handle e s else None)"

section \<open>Runs\<close>

text \<open>The visualizer after \<^verbatim>\<open>create_gui\<close>, when the simulation thread starts, for a simulation of \<open>n\<close> nodes, all of them of
  interest at first; the speed was set to one there, which started a timer.\<close>

definition start :: "nat \<Rightarrow> viz" where
  "start n =
     \<lparr>lock = None, go = False, quit = False, target_time = 0, pause_messages = [], pc = Test_Quit, now = 0,
      helper_messages = [], samples = [], interest = [0..<n], stack = [], idles = 0,
      player = \<lparr>active = False, speed = 1, sample_period = 1 / 10, sources = [(0, 100)], next_id = 1, timeout_id = Some 0,
                warned = False\<rparr>,
      time_label = 0, dialogs = [], taken = [], main_quit = False, collected = [], produced = [], raised = False\<rparr>"

datatype action = S outcome | V event

fun step :: "action \<Rightarrow> viz \<Rightarrow> viz option" where
  "step (S r) s = sim_step r s"
| "step (V e) s = view_step e s"

inductive reachable :: "viz \<Rightarrow> bool" where
  init: "reachable (start n)"
| step: "reachable s \<Longrightarrow> step a s = Some t \<Longrightarrow> reachable t"

fun steps :: "action list \<Rightarrow> viz \<Rightarrow> viz option" where
  "steps [] s = Some s"
| "steps (a # as) s = (case step a s of None \<Rightarrow> None | Some t \<Rightarrow> steps as t)"

lemma reachable_steps: "reachable s \<Longrightarrow> steps as s = Some t \<Longrightarrow> reachable t"
  by (induction as arbitrary: s) (auto split: option.splits intro: reachable.step)

section \<open>The lock\<close>

fun sim_holds :: "sim_pc \<Rightarrow> bool" where
  "sim_holds p = (p \<in> {Run_Until, Collect, Notify, Release})"

fun frame_holds :: "frame \<Rightarrow> bool" where
  "frame_holds (Take i) = True"
| "frame_holds (Update i ms) = True"
| "frame_holds (Unlock i ms) = True"
| "frame_holds (Unlock_Raise i) = True"
| "frame_holds (Call_Work c) = True"
| "frame_holds (Call_Release c) = True"
| "frame_holds f = False"

fun is_events :: "frame \<Rightarrow> bool" where
  "is_events (Events i) = True"
| "is_events f = False"

definition lock_inv :: "viz \<Rightarrow> bool" where
  "lock_inv s \<longleftrightarrow>
     (sim_holds (pc s) \<longleftrightarrow> lock s = Some Sim) \<and>
     (stack s \<noteq> [] \<and> frame_holds (hd (stack s)) \<longleftrightarrow> lock s = Some View) \<and>
     list_all is_events (tl (stack s))"

lemma sample_period_timer [simp]:
  "sample_period (source_remove i p) = sample_period p" "sample_period (start_update_timer p) = sample_period p"
  "active (start_update_timer p) = active p" "active (source_remove i p) = active p" "active (set_active b p) = b"
  "sample_period (set_active b p) = sample_period p" "sample_period (drop_source i p) = sample_period p"
  "sample_period (speed_changed v p) = v / 10"
  by (simp_all add: source_remove_def start_update_timer_def set_active_def on_play_button_toggled_def drop_source_def
      speed_changed_def Let_def split: option.splits)

lemma work_fields [simp]:
  "lock (work c s) = lock s" "go (work c s) = go s" "quit (work c s) = quit s" "pc (work c s) = pc s"
  "now (work c s) = now s" "target_time (work c s) = target_time s" "time_label (work c s) = time_label s"
  "pause_messages (work c s) = pause_messages s" "collected (work c s) = collected s" "raised (work c s) = raised s"
  "dialogs (work c s) = dialogs s" "player (work c s) = player s"
  by (simp_all add: work_def split: call.splits)

lemma report_fields [simp]:
  "lock (report i ms fs s) = lock s" "go (report i ms fs s) = go s" "quit (report i ms fs s) = quit s"
  "pc (report i ms fs s) = pc s" "now (report i ms fs s) = now s" "target_time (report i ms fs s) = target_time s"
  "time_label (report i ms fs s) = time_label s" "pause_messages (report i ms fs s) = pause_messages s"
  "collected (report i ms fs s) = collected s" "raised (report i ms fs s) = raised s"
  "dialogs (report i ms fs s) = (if ms = [] then dialogs s else dialogs s @ [ms])"
  by (simp_all add: report_def Let_def)

lemma report_stack [simp]:
  "stack (report i ms fs s) = (if ms = [] \<and> active (player s) then Set_Go i # fs else fs)"
  "sample_period (player (report i ms fs s)) = sample_period (player s)"
  by (simp_all add: report_def Let_def)

lemma is_events_holds: "is_events f \<Longrightarrow> \<not> frame_holds f"
  by (cases f) auto

lemma dispatching_stack:
  assumes "dispatching s"
  obtains "stack s = []" | i fs where "stack s = Events i # fs"
  using assms by (auto simp: dispatching_def split: list.splits frame.splits)

lemma sim_step_stack: "sim_step r s = Some t \<Longrightarrow> stack t = stack s \<and> player t = player s \<and> quit t = quit s"
  by (cases "pc s") (auto split: if_splits prod.splits)

text \<open>A step of the main thread: the topmost callback goes on, or an event is handled.\<close>

lemma view_step_cases:
  assumes "view_step e s = Some t"
  obtains (proceed) raises f fs where "e = Proceed raises" "stack s = f # fs" "proceed raises f fs s = Some t"
  | (handle) "dispatching s" "handle e s = Some t"
  using assms by (cases e) (auto split: list.splits if_splits)

text \<open>An invariant of the two threads: it holds at the start, and the steps of the simulation thread, of a callback and of
  the main loop keep it, from a reachable state.\<close>

locale viz_invariant =
  fixes inv :: "viz \<Rightarrow> bool"
  assumes inv_start: "inv (start n)"
    and inv_sim: "reachable s \<Longrightarrow> inv s \<Longrightarrow> sim_step r s = Some t \<Longrightarrow> inv t"
    and inv_proceed: "reachable s \<Longrightarrow> inv s \<Longrightarrow> stack s = f # fs \<Longrightarrow> proceed raises f fs s = Some t \<Longrightarrow> inv t"
    and inv_handle: "reachable s \<Longrightarrow> inv s \<Longrightarrow> dispatching s \<Longrightarrow> handle e s = Some t \<Longrightarrow> inv t"
begin

lemma always: "reachable s \<Longrightarrow> inv s"
proof (induction rule: reachable.induct)
  case init
  show ?case by (rule inv_start)
next
  case (step s a t)
  show ?case
  proof (cases a)
    case (S r)
    with step show ?thesis by (simp add: inv_sim del: sim_step.simps)
  next
    case (V e)
    with step(2) have "view_step e s = Some t" by simp
    then show ?thesis
      by (cases rule: view_step_cases) (use step(1,3) in \<open>auto intro: inv_proceed inv_handle\<close>)
  qed
qed

end

lemma lock_inv_sim: "lock_inv s \<Longrightarrow> sim_step r s = Some t \<Longrightarrow> lock_inv t"
  by (cases "pc s") (auto simp: lock_inv_def split: if_splits prod.splits)

lemma list_all_events_tl [simp]: "list_all is_events fs \<Longrightarrow> list_all is_events (tl fs)"
  by (cases fs) simp_all

lemma list_all_events_hd: "list_all is_events fs \<Longrightarrow> fs \<noteq> [] \<Longrightarrow> \<not> frame_holds (hd fs)"
  by (cases fs) (simp_all add: is_events_holds)

lemma lock_inv_proceed:
  assumes "proceed raises f fs s = Some t" and "lock_inv s" and "stack s = f # fs"
  shows "lock_inv t"
proof -
  have "list_all is_events fs" using assms(2,3) by (simp add: lock_inv_def)
  then have fs: "list_all is_events fs" "list_all is_events (tl fs)" "fs = [] \<or> \<not> frame_holds (hd fs)"
    using list_all_events_hd by auto
  show ?thesis using assms fs
    by (cases f) (auto simp: lock_inv_def simp del: sim_holds.simps split: if_splits)
qed

lemma lock_inv_handle:
  assumes "handle e s = Some t" and "lock_inv s" and "dispatching s"
  shows "lock_inv t"
proof -
  have "list_all is_events (stack s)" "stack s = [] \<or> \<not> frame_holds (hd (stack s))"
    using assms(2,3) by (auto simp: lock_inv_def simp del: sim_holds.simps elim!: dispatching_stack)
  with assms(1,2) show ?thesis
    by (cases e) (auto simp: lock_inv_def delete_event_def Let_def simp del: sim_holds.simps split: if_splits)
qed

interpretation exclusion: viz_invariant lock_inv
proof unfold_locales
  show "lock_inv (start n)" for n by (simp add: lock_inv_def start_def)
qed (blast intro: lock_inv_sim lock_inv_proceed lock_inv_handle)+

text \<open>C8. The simulation and the view never work at the same time: whenever the simulation thread is between acquiring
  and releasing the lock, no callback of the main thread is, and the other way round; the callbacks below the topmost one
  all run the main loop while they wait for the lock.\<close>

theorem simulation_view_exclusion:
  assumes "reachable s"
  shows "(\<not> sim_holds (pc s) \<or> list_all (\<lambda>f. \<not> frame_holds f) (stack s)) \<and> list_all is_events (tl (stack s))"
proof -
  have inv: "lock_inv s" using assms by (rule exclusion.always)
  then show ?thesis by (cases "stack s") (auto simp: lock_inv_def list_all_iff dest: is_events_holds)
qed

section \<open>The pause messages\<close>

text \<open>The messages a callback has taken and not yet shown.\<close>

fun frame_messages :: "frame \<Rightarrow> string list" where
  "frame_messages (Update i ms) = ms"
| "frame_messages (Unlock i ms) = ms"
| "frame_messages (Report i ms) = ms"
| "frame_messages f = []"

definition in_hand :: "viz \<Rightarrow> string list" where
  "in_hand s = (case stack s of [] \<Rightarrow> [] | f # _ \<Rightarrow> frame_messages f)"

definition messages_inv :: "viz \<Rightarrow> bool" where
  "messages_inv s \<longleftrightarrow> raised s \<or> concat (dialogs s) @ in_hand s @ pause_messages s = collected s"

lemma messages_inv_sim: "messages_inv s \<Longrightarrow> sim_step r s = Some t \<Longrightarrow> messages_inv t"
  by (cases "pc s") (auto simp: messages_inv_def in_hand_def split: if_splits prod.splits)

lemma in_hand_events: "is_events f \<Longrightarrow> frame_messages f = []"
  by (cases f) auto

lemma messages_inv_proceed:
  assumes "proceed raises f fs s = Some t" and "lock_inv s" and "messages_inv s" and "stack s = f # fs"
  shows "messages_inv t"
proof -
  have fs: "fs = [] \<or> frame_messages (hd fs) = []"
    using assms(2,4) by (cases fs) (auto simp: lock_inv_def in_hand_events)
  show ?thesis using assms(1,3,4) fs
    by (cases f; cases fs) (auto simp: messages_inv_def in_hand_def split: if_splits)
qed

lemma messages_inv_handle:
  assumes "handle e s = Some t" and "dispatching s" and "messages_inv s"
  shows "messages_inv t"
proof -
  have "in_hand s = []" using assms(2) by (rule dispatching_stack) (simp_all add: in_hand_def)
  with assms(1,3) show ?thesis
    by (cases e) (auto simp: messages_inv_def in_hand_def delete_event_def Let_def split: if_splits)
qed

interpretation mess: viz_invariant messages_inv
proof unfold_locales
  show "messages_inv (start n)" for n by (simp add: messages_inv_def in_hand_def start_def)
qed (blast intro: exclusion.always messages_inv_sim messages_inv_proceed messages_inv_handle)+

text \<open>C10. No pause message of the simulation is lost, repeated or shown out of order: as long as no redraw has raised,
  the messages collected are those shown in the dialogs, then those a callback is about to show, then those pending.\<close>

theorem pause_messages_kept:
  assumes "reachable s" and "\<not> raised s"
  shows "concat (dialogs s) @ in_hand s @ pause_messages s = collected s"
  using mess.always [OF assms(1)] assms(2) by (simp add: messages_inv_def)

section \<open>The end of the simulation thread\<close>

text \<open>A wake-up is not lost: once the main thread waits for the other to end, that thread finds \<open>quit\<close> set and is never
  stopped at the event.\<close>

definition quit_inv :: "viz \<Rightarrow> bool" where
  "quit_inv s \<longleftrightarrow>
     (Quit_Go \<in> set (stack s) \<longrightarrow> quit s) \<and> (Quit_Join \<in> set (stack s) \<longrightarrow> quit s \<and> (pc s = Wait \<longrightarrow> go s))"

lemma quit_inv_sim: "quit_inv s \<Longrightarrow> sim_step r s = Some t \<Longrightarrow> quit_inv t"
  by (cases "pc s") (auto simp: quit_inv_def split: if_splits prod.splits)

lemma quit_inv_proceed:
  assumes "proceed raises f fs s = Some t" and "quit_inv s" and "stack s = f # fs"
  shows "quit_inv t"
  using assms by (cases f) (auto simp: quit_inv_def split: if_splits)

lemma quit_inv_handle: "quit_inv s \<Longrightarrow> handle e s = Some t \<Longrightarrow> quit_inv t"
  by (cases e) (auto simp: quit_inv_def delete_event_def Let_def split: if_splits)

interpretation closing: viz_invariant quit_inv
proof unfold_locales
  show "quit_inv (start n)" for n by (simp add: quit_inv_def start_def)
qed (blast intro: quit_inv_sim quit_inv_proceed quit_inv_handle)+

text \<open>The steps the simulation thread has left once \<open>quit\<close> is set.\<close>

fun steps_left :: "sim_pc \<Rightarrow> nat" where
  "steps_left Ended = 0"
| "steps_left Test_Quit = 1"
| "steps_left Release = 2"
| "steps_left Notify = 3"
| "steps_left Collect = 4"
| "steps_left Run_Until = 5"
| "steps_left Acquire = 6"
| "steps_left Check_Quit = 7"
| "steps_left Clear = 8"
| "steps_left Wait = 9"

text \<open>C9. Closing the window ends the simulation thread: while the main thread waits in \<^verbatim>\<open>_quit\<close> for a simulation
  thread that has not ended, that thread can always take a step, and every step it takes brings it nearer to its end,
  nine steps away at most.\<close>

theorem quit_ends_simulation:
  assumes "reachable s" and "stack s = Quit_Join # fs" and "pc s \<noteq> Ended"
  shows "(\<exists>r t. sim_step r s = Some t) \<and>
    (\<forall>r t. sim_step r s = Some t \<longrightarrow> steps_left (pc t) < steps_left (pc s) \<and> stack t = Quit_Join # fs) \<and> steps_left (pc s) \<le> 9"
proof (intro conjI allI impI)
  have q: "quit s" "pc s = Wait \<Longrightarrow> go s"
    using closing.always [OF assms(1)] assms(2) by (simp_all add: quit_inv_def)
  have l: "pc s = Acquire \<Longrightarrow> lock s = None"
    using exclusion.always [OF assms(1)] assms(2) by (cases "lock s"; cases "the (lock s)") (auto simp: lock_inv_def)
  have "\<exists>t. sim_step (now s, [], []) s = Some t"
    using assms(3) q l by (cases "pc s") (auto simp: run_ok_def)
  then show "\<exists>r t. sim_step r s = Some t" by blast
  fix r t assume t: "sim_step r s = Some t"
  then show "steps_left (pc t) < steps_left (pc s)"
    using q by (cases "pc s") (auto split: if_splits prod.splits)
  from t show "stack t = Quit_Join # fs" using sim_step_stack assms(2) by simp
next
  show "steps_left (pc s) \<le> 9" by (cases "pc s") simp_all
qed

section \<open>The time of the simulation and the time shown\<close>

definition time_inv :: "viz \<Rightarrow> bool" where
  "time_inv s \<longleftrightarrow>
     time_label s \<le> now s \<and> now s \<le> target_time s \<and> target_time s \<le> time_label s + 1 \<and>
     0 < sample_period (player s) \<and> sample_period (player s) \<le> 1"

lemma time_inv_sim: "time_inv s \<Longrightarrow> sim_step r s = Some t \<Longrightarrow> time_inv t"
  by (cases "pc s") (auto simp: time_inv_def run_ok_def split: if_splits prod.splits)

lemma time_inv_proceed: "time_inv s \<Longrightarrow> proceed raises f fs s = Some t \<Longrightarrow> time_inv t"
  by (cases f) (auto simp: time_inv_def split: if_splits)

lemma time_inv_handle: "time_inv s \<Longrightarrow> handle e s = Some t \<Longrightarrow> time_inv t"
  by (cases e) (auto simp: time_inv_def delete_event_def Let_def split: if_splits option.splits)

interpretation clock: viz_invariant time_inv
proof unfold_locales
  show "time_inv (start n)" for n by (simp add: time_inv_def start_def)
qed (blast intro: time_inv_sim time_inv_proceed time_inv_handle)+

text \<open>C25. The simulation does not run away from the view: it never passes the time it is to run to, and that time is at
  most one second, the sample period at the highest speed, ahead of the time the window shows.\<close>

theorem simulation_near_view:
  assumes "reachable s"
  shows "time_label s \<le> now s \<and> now s \<le> target_time s \<and> target_time s \<le> time_label s + 1"
  using clock.always [OF assms] by (simp add: time_inv_def)

section \<open>The timer\<close>

definition has_timer :: "player \<Rightarrow> bool" where
  "has_timer p = (case timeout_id p of None \<Rightarrow> False | Some i \<Rightarrow> i \<in> fst ` set (sources p))"

definition play_inv :: "viz \<Rightarrow> bool" where
  "play_inv s \<longleftrightarrow>
     raised s \<or>
     (\<forall>i. Unlock_Raise i \<notin> set (stack s)) \<and>
     (active (player s) \<longrightarrow> quit s \<or> Quit_Flag \<in> set (stack s) \<or> has_timer (player s))"

lemma has_timer_start [simp]: "has_timer (start_update_timer p)" "has_timer (speed_changed v p)"
  by (simp_all add: has_timer_def start_update_timer_def speed_changed_def Let_def)

lemma has_timer_set_active: "has_timer p \<Longrightarrow> has_timer (set_active True p)" "\<not> active p \<Longrightarrow> has_timer (set_active True p)"
  by (simp_all add: set_active_def on_play_button_toggled_def)

lemma play_inv_sim: "play_inv s \<Longrightarrow> sim_step r s = Some t \<Longrightarrow> play_inv t"
  by (cases "pc s") (auto simp: play_inv_def split: if_splits prod.splits)

lemma play_inv_proceed: "play_inv s \<Longrightarrow> stack s = f # fs \<Longrightarrow> proceed raises f fs s = Some t \<Longrightarrow> play_inv t"
  by (cases f) (auto simp: play_inv_def report_def drop_source_def Let_def split: if_splits)

lemma play_inv_handle: "play_inv s \<Longrightarrow> handle e s = Some t \<Longrightarrow> play_inv t"
  by (cases e) (auto simp: play_inv_def delete_event_def has_timer_set_active Let_def split: if_splits)

interpretation playing: viz_invariant play_inv
proof unfold_locales
  show "play_inv (start n)" for n by (simp add: play_inv_def start_def)
qed (blast intro: play_inv_sim play_inv_proceed play_inv_handle)+

text \<open>C24. A simulation that plays goes on: while the button is down, the timer the visualizer remembers is one of the
  main loop, unless a redraw has raised or the window is being closed.\<close>

theorem playing_has_timer:
  assumes "reachable s" and "active (player s)" and "\<not> raised s" and "\<not> quit s" and "Quit_Flag \<notin> set (stack s)"
  shows "\<exists>i. timeout_id (player s) = Some i \<and> i \<in> fst ` set (sources (player s))"
  using playing.always [OF assms(1)] assms(2-) by (simp add: play_inv_def has_timer_def split: option.splits)

section \<open>Runs that go wrong\<close>

text \<open>From the start: the button is pressed, the timer fires, and the simulation runs until it holds the lock.\<close>

definition redraw :: "action list" where
  "redraw = replicate 6 (V (Proceed False))"

definition until_locked :: "action list" where
  "until_locked = S (0, [], []) # V Toggle # V (Timer 1) # redraw @ replicate 4 (S (0, [], []))"

text \<open>The run ends after the redraw has seen the lock taken and found no more events, and before it tries again.\<close>

definition unlocked_late :: "outcome \<Rightarrow> action list" where
  "unlocked_late r = [S r, S (0, [], []), V (Proceed False), S (0, [], []), S (0, [], [])]"

lemmas run_defs = unlocked_late_def redraw_def until_locked_def start_def set_active_def on_play_button_toggled_def start_update_timer_def
  source_remove_def drop_source_def speed_changed_def dispatching_def report_def work_def run_ok_def

text \<open>A simulation paused and played again removes its old timer twice.\<close>

lemma timer_removed_twice:
  "map_option (\<lambda>s. warned (player s)) (steps [V Toggle, V Toggle, V Toggle] (start 2)) = Some True"
  by (simp add: run_defs Let_def)

text \<open>The speed is changed in the pause, while a redraw waits for the simulation: the redraw forgets the timer that
  started, which then runs beside the one the button starts.\<close>

lemma two_timers:
  "map_option (\<lambda>s. (active (player s), map fst (sources (player s))))
     (steps (until_locked @ [V (Timer 1), V (Proceed False), V Toggle, V (Speed 2)] @ unlocked_late (1 / 10, [], []) @
        take 5 redraw @ [V Toggle]) (start 2)) =
   Some (True, [2, 3])"
  by (simp add: run_defs Let_def eval_nat_numeral)

text \<open>The redraw gets the lock before the main loop takes the samples of the run: the next run clears them, and its own are
  taken twice.\<close>

lemma samples_lost:
  "map_option (\<lambda>s. (produced s, taken s, idles s))
     (steps (until_locked @ [V (Timer 1), V (Proceed False)] @ unlocked_late (1 / 10, [], [7]) @ redraw @
        replicate 5 (S (0, [], [])) @ replicate 4 (S (1 / 5, [], [8])) @
        concat (replicate 2 [V Idle, V (Proceed False), V (Proceed False), V (Proceed False)])) (start 2)) =
   Some ([[7], [8]], [[8], [8]], 0)"
  by (simp add: run_defs Let_def eval_nat_numeral)

section \<open>Witnesses\<close>

lemma reachable_the: "steps as (start n) \<noteq> None \<Longrightarrow> reachable (the (steps as (start n)))"
  by (auto intro: reachable_steps [OF reachable.init])

text \<open>A redraw with two messages of the simulation, before it shows them.\<close>

definition with_messages :: "action list" where
  "with_messages = until_locked @ S (1 / 10, [''a'', ''b''], [7]) # replicate 3 (S (0, [], [])) @ V (Timer 1) # take 3 redraw"

lemma simulation_view_exclusion_witness:
  "let s = the (steps until_locked (start 2)) in sim_holds (pc s) \<and> list_all (\<lambda>f. \<not> frame_holds f) (stack s)"
proof -
  have s: "steps until_locked (start 2) \<noteq> None" "sim_holds (pc (the (steps until_locked (start 2))))"
    by (simp_all add: run_defs Let_def eval_nat_numeral)
  with simulation_view_exclusion [OF reachable_the [OF s(1)]] show ?thesis by (simp only: Let_def) blast
qed

lemma pause_messages_kept_witness:
  "let s = the (steps with_messages (start 2)) in concat (dialogs s) @ in_hand s @ pause_messages s = [''a'', ''b'']"
proof -
  have s: "steps with_messages (start 2) \<noteq> None" "\<not> raised (the (steps with_messages (start 2)))"
    "collected (the (steps with_messages (start 2))) = [''a'', ''b'']"
    by (simp_all add: with_messages_def run_defs Let_def eval_nat_numeral)
  with pause_messages_kept [OF reachable_the [OF s(1)] s(2)] show ?thesis by (simp add: Let_def)
qed

lemma quit_ends_simulation_witness:
  "let s = the (steps (until_locked @ [V Delete, V (Proceed False), V (Proceed False)]) (start 2))
   in (\<exists>r t. sim_step r s = Some t) \<and> steps_left (pc s) \<le> 9"
proof -
  let ?as = "until_locked @ [V Delete, V (Proceed False), V (Proceed False)]"
  have s: "steps ?as (start 2) \<noteq> None" "stack (the (steps ?as (start 2))) = [Quit_Join]" "pc (the (steps ?as (start 2))) \<noteq> Ended"
    by (simp_all add: run_defs delete_event_def Let_def eval_nat_numeral)
  from quit_ends_simulation [OF reachable_the [OF s(1)] s(2,3)] show ?thesis by (simp only: Let_def)
qed

lemma simulation_near_view_witness:
  "let s = the (steps with_messages (start 2)) in time_label s \<le> now s \<and> now s = 1 / 10 \<and> target_time s \<le> time_label s + 1"
proof -
  have s: "steps with_messages (start 2) \<noteq> None" "now (the (steps with_messages (start 2))) = 1 / 10"
    by (simp_all add: with_messages_def run_defs Let_def eval_nat_numeral)
  with simulation_near_view [OF reachable_the [OF s(1)]] show ?thesis by (simp add: Let_def)
qed

lemma playing_has_timer_witness:
  "let p = player (the (steps until_locked (start 2))) in \<exists>i. timeout_id p = Some i \<and> i \<in> fst ` set (sources p)"
proof -
  let ?s = "the (steps until_locked (start 2))"
  have s: "steps until_locked (start 2) \<noteq> None" "active (player ?s)" "\<not> raised ?s" "\<not> quit ?s" "Quit_Flag \<notin> set (stack ?s)"
    by (simp_all add: run_defs Let_def eval_nat_numeral)
  from playing_has_timer [OF reachable_the [OF s(1)] s(2-)] show ?thesis by (simp only: Let_def)
qed

end
