(* ===== verification/Viz_Nodes.thy ===== *)
theory Viz_Nodes
  imports Viz_Base "HOL-Library.Word"
begin

text \<open>
  \<^verbatim>\<open>src/visualizer/visualizer/core.py\<close>: the nodes, channels and links on the canvas, what is selected, and the
  nodes whose transmissions are followed; \<^verbatim>\<open>svgitem.py\<close>: the icon of a node.  Objects are entries of dictionaries: a
  node by its index, a channel by its identity, a link by the order of creation.  A canvas item is the properties the
  code sets.  Coordinates are rationals.
\<close>

unbundle bit_operations_syntax

section \<open>Icons\<close>

record svg =
  sv_place :: pt
  handle_size :: pt
  custom_width :: "rat option"
  custom_height :: "rat option"
  sv_width :: rat
  sv_height :: rat
  scale :: pt
  align :: pt

definition quotient :: "rat \<Rightarrow> rat \<Rightarrow> py_exn + rat" where
  "quotient a b = (if b = 0 then Inl ZeroDivisionError else Inr (a / b))"

definition new_svg :: "pt \<Rightarrow> pt \<Rightarrow> svg" where
  "new_svg place dims =
     \<lparr>sv_place = place, handle_size = dims, custom_width = None, custom_height = None, sv_width = fst dims, sv_height = snd dims,
      scale = (1, 1), align = (0, 0)\<rparr>"

definition size_changed :: "svg \<Rightarrow> py_exn + svg" where
  "size_changed i =
     (let (w, h) = handle_size i
      in case (custom_width i, custom_height i) of
        (None, None) \<Rightarrow> Inr (i\<lparr>sv_width := w, sv_height := h, scale := (1, 1)\<rparr>)
      | (Some cw, None) \<Rightarrow> rbind (quotient cw w) (\<lambda>k. Inr (i\<lparr>sv_width := cw, scale := (k, k), sv_height := h * k\<rparr>))
      | (None, Some ch) \<Rightarrow> rbind (quotient ch h) (\<lambda>k. Inr (i\<lparr>sv_height := ch, scale := (k, k), sv_width := w * k\<rparr>))
      | (Some cw, Some ch) \<Rightarrow>
          rbind (quotient cw w) (\<lambda>kx. rbind (quotient ch h) (\<lambda>ky.
            Inr (i\<lparr>sv_width := cw, sv_height := ch, scale := (kx, ky)\<rparr>))))"

definition set_width :: "rat \<Rightarrow> svg \<Rightarrow> py_exn + svg" where
  "set_width w i = size_changed (i\<lparr>custom_width := Some w\<rparr>)"

definition set_height :: "rat \<Rightarrow> svg \<Rightarrow> py_exn + svg" where
  "set_height h i = size_changed (i\<lparr>custom_height := Some h\<rparr>)"

text \<open>\<open>_update_svg_position\<close>\<close>

definition svg_at :: "pt \<Rightarrow> svg \<Rightarrow> svg" where
  "svg_at p i =
     (let (x, y) = p; (ax, ay) = align i
      in i\<lparr>sv_place := (x - (1 - ax) * sv_width i, y - (1 - ay) * sv_height i)\<rparr>)"

section \<open>The scene\<close>

text \<open>A node, with the properties of its ellipse and of its label.\<close>

record node =
  links :: "nat list"
  selected :: bool
  highlighted :: bool
  color :: "32 word"
  node_size :: rat
  icon :: "svg option"
  label :: "string option"
  label_item :: "(string \<times> pt) option"
  center :: pt
  radius :: rat
  fill_color :: "32 word"
  line_width :: rat
  stroke_color :: string

record channel =
  ch_links :: "nat list"
  ch_center :: pt

datatype endpoint = Node nat | Channel nat

record wire =
  node1 :: nat
  node2 :: endpoint
  path :: "(pt \<times> pt) option"

datatype mode = All_Nodes | No_Node | Selected_Node

text \<open>What is dragged: where the pointer and the node were and the node whose handler is connected, and the nodes with a
  connected motion handler.  \<open>mobility\<close> holds the nodes that have a mobility model, with their positions in the simulation;
  which nodes have one does not change, so that what \<^verbatim>\<open>Node.has_mobility\<close> remembers is what it would find.
  \<open>bounds_work\<close> tells whether \<^verbatim>\<open>Canvas.get_bounds\<close> can be called: with some versions of the library it raises TypeError
  (bug 2969), which is caught.\<close>

record scene =
  nodes :: "(nat, node) dict"
  channels :: "(nat, channel) dict"
  wires :: "wire list"
  bounds :: "pt \<times> pt"
  bounds_work :: bool
  selected_node :: "nat option"
  show_mode :: mode
  interest :: "nat list"
  mobility :: "(nat, pt) dict"
  drag :: "(pt \<times> pt \<times> nat) option"
  motion :: "nat list"

definition update_node :: "nat \<Rightarrow> (node \<Rightarrow> node) \<Rightarrow> scene \<Rightarrow> scene" where
  "update_node i f s = (case dget (nodes s) i of None \<Rightarrow> s | Some n \<Rightarrow> s\<lparr>nodes := dset i (f n) (nodes s)\<rparr>)"

fun get_position :: "scene \<Rightarrow> endpoint \<Rightarrow> pt" where
  "get_position s (Node i) = (case dget (nodes s) i of None \<Rightarrow> (0, 0) | Some n \<Rightarrow> center n)"
| "get_position s (Channel c) = (case dget (channels s) c of None \<Rightarrow> (0, 0) | Some d \<Rightarrow> ch_center d)"

definition update_points :: "nat \<Rightarrow> scene \<Rightarrow> scene" where
  "update_points w s =
     (let l = wires s ! w
      in s\<lparr>wires := (wires s)[w := l\<lparr>path := Some (get_position s (Node (node1 l)), get_position s (node2 l))\<rparr>]\<rparr>)"

definition extend :: "pt \<times> pt \<Rightarrow> pt \<Rightarrow> pt \<times> pt" where
  "extend b p = (let ((x1, y1), (x2, y2)) = b; (x, y) = p in ((min x x1, min y y1), (max x x2, max y y2)))"

definition links_of :: "scene \<Rightarrow> endpoint \<Rightarrow> nat list" where
  "links_of s e =
     (case e of Node i \<Rightarrow> (case dget (nodes s) i of None \<Rightarrow> [] | Some n \<Rightarrow> links n)
      | Channel c \<Rightarrow> (case dget (channels s) c of None \<Rightarrow> [] | Some d \<Rightarrow> ch_links d))"

text \<open>\<open>Node.set_position\<close>\<close>

definition place_node :: "pt \<Rightarrow> node \<Rightarrow> node" where
  "place_node p n = n\<lparr>center := p, icon := map_option (svg_at p) (icon n)\<rparr>"

definition place_label :: "pt \<Rightarrow> node \<Rightarrow> node" where
  "place_label p n = n\<lparr>label_item := map_option (\<lambda>(t, _). (t, (fst p, snd p + node_size n * 3))) (label_item n)\<rparr>"

definition set_position :: "nat \<Rightarrow> pt \<Rightarrow> scene \<Rightarrow> scene" where
  "set_position i p s =
     (let s = update_node i (place_node p) s; s = fold update_points (links_of s (Node i)) s;
          s = update_node i (place_label p) s
      in if bounds_work s then s\<lparr>bounds := extend (bounds s) p\<rparr> else s)"

text \<open>\<open>Channel.set_position\<close>\<close>

definition set_channel_position :: "nat \<Rightarrow> pt \<Rightarrow> scene \<Rightarrow> scene" where
  "set_channel_position c p s =
     (case dget (channels s) c of
        None \<Rightarrow> s
      | Some d \<Rightarrow> fold update_points (ch_links d) (s\<lparr>channels := dset c (d\<lparr>ch_center := p\<rparr>) (channels s)\<rparr>))"

text \<open>\<open>_update_appearance\<close>\<close>

definition appearance :: "node \<Rightarrow> node" where
  "appearance n =
     (let size = distance_to_canvas (node_size n); alpha = (if icon n \<noteq> None then 0x80 else 0xFF)
      in n\<lparr>radius := size, fill_color := (color n AND 0xFFFFFF00) OR alpha,
           line_width := (if selected n then size * (3 / 10) else size * (3 / 20)),
           stroke_color := (if highlighted n then ''yellow'' else ''black'')\<rparr>)"

definition show_label :: "node \<Rightarrow> node" where
  "show_label n =
     n\<lparr>label_item := (case label n of None \<Rightarrow> label_item n
        | Some t \<Rightarrow> Some (t, case label_item n of None \<Rightarrow> (0, 0) | Some (_, p) \<Rightarrow> p))\<rparr>"

definition update_appearance :: "nat \<Rightarrow> scene \<Rightarrow> scene" where
  "update_appearance i s =
     (let s = update_node i (show_label \<circ> appearance) s
      in case dget (nodes s) i of
        None \<Rightarrow> s
      | Some n \<Rightarrow> if label n = None then s else set_position i (center n) s)"

text \<open>What changes a node and then its appearance.\<close>

definition change :: "nat \<Rightarrow> (node \<Rightarrow> node) \<Rightarrow> scene \<Rightarrow> scene" where
  "change i f s = update_appearance i (update_node i f s)"

definition new_node :: node where
  "new_node =
     appearance \<lparr>links = [], selected = False, highlighted = False, color = 0x808080FF, node_size = 1, icon = None,
       label = None, label_item = None, center = (0, 0), radius = 0, fill_color = 0, line_width = 0, stroke_color = ''''\<rparr>"

definition get_node :: "nat \<Rightarrow> scene \<Rightarrow> scene" where
  "get_node i s = (case dget (nodes s) i of Some n \<Rightarrow> s | None \<Rightarrow> s\<lparr>nodes := dset i new_node (nodes s)\<rparr>)"

definition get_channel :: "nat \<Rightarrow> scene \<Rightarrow> scene" where
  "get_channel c s =
     (case dget (channels s) c of Some d \<Rightarrow> s | None \<Rightarrow> s\<lparr>channels := dset c \<lparr>ch_links = [], ch_center = (0, 0)\<rparr> (channels s)\<rparr>)"

text \<open>\<open>WiredLink.__init__\<close>: the path has no points until one of the ends is placed.\<close>

definition add_link :: "endpoint \<Rightarrow> nat \<Rightarrow> scene \<Rightarrow> scene" where
  "add_link e w s =
     (case e of
        Node i \<Rightarrow> update_node i (\<lambda>n. n\<lparr>links := links n @ [w]\<rparr>) s
      | Channel c \<Rightarrow>
          (case dget (channels s) c of
             None \<Rightarrow> s
           | Some d \<Rightarrow> s\<lparr>channels := dset c (d\<lparr>ch_links := ch_links d @ [w]\<rparr>) (channels s)\<rparr>))"

definition create_link :: "nat \<Rightarrow> endpoint \<Rightarrow> scene \<Rightarrow> scene" where
  "create_link i e s =
     (let w = length (wires s); s = s\<lparr>wires := wires s @ [\<lparr>node1 = i, node2 = e, path = None\<rparr>]\<rparr>
      in add_link e w (add_link (Node i) w s))"

section \<open>What the user does to a node\<close>

definition set_label :: "bool \<Rightarrow> nat \<Rightarrow> string \<Rightarrow> scene \<Rightarrow> py_exn + scene" where
  "set_label python3 i t s =
     (if python3 then Inl (Exc ''NameError'') else Inr (change i (\<lambda>n. n\<lparr>label := Some t\<rparr>) s))"

definition set_size :: "nat \<Rightarrow> rat \<Rightarrow> scene \<Rightarrow> scene" where
  "set_size i r = change i (\<lambda>n. n\<lparr>node_size := r\<rparr>)"

text \<open>A colour is a number, or a name \<^verbatim>\<open>Gdk.color_parse\<close> gives three 16-bit components for.\<close>

datatype paint = Rgba "32 word" | Parsed "16 word \<times> 16 word \<times> 16 word"

fun rgba :: "paint \<Rightarrow> 32 word" where
  "rgba (Rgba c) = c"
| "rgba (Parsed (r, g, b)) =
     push_bit 24 (ucast (drop_bit 8 r)) OR push_bit 16 (ucast (drop_bit 8 g)) OR push_bit 8 (ucast (drop_bit 8 b)) OR 0xFF"

definition set_color :: "nat \<Rightarrow> paint \<Rightarrow> scene \<Rightarrow> scene" where
  "set_color i c = change i (\<lambda>n. n\<lparr>color := rgba c\<rparr>)"

definition set_highlighted :: "nat \<Rightarrow> bool \<Rightarrow> scene \<Rightarrow> scene" where
  "set_highlighted i b = change i (\<lambda>n. n\<lparr>highlighted := b\<rparr>)"

definition set_selected :: "nat \<Rightarrow> bool \<Rightarrow> scene \<Rightarrow> scene" where
  "set_selected i b = change i (\<lambda>n. n\<lparr>selected := b\<rparr>)"

definition optional :: "(rat \<Rightarrow> svg \<Rightarrow> py_exn + svg) \<Rightarrow> rat option \<Rightarrow> svg \<Rightarrow> py_exn + svg" where
  "optional f v g = (case v of None \<Rightarrow> Inr g | Some d \<Rightarrow> f (distance_to_canvas d) g)"

text \<open>\<open>set_svg_icon\<close>; \<open>dims\<close> is what the library says of the file, \<open>None\<close> where \<^verbatim>\<open>svgitem\<close> could not be imported.\<close>

definition set_svg_icon :: "nat \<Rightarrow> pt option \<Rightarrow> rat option \<Rightarrow> rat option \<Rightarrow> pt \<Rightarrow> scene \<Rightarrow> py_exn + scene" where
  "set_svg_icon i dims width height al s =
     (if width = None \<and> height = None then Inl ValueError
      else case dims of
        None \<Rightarrow> Inl AttributeError
      | Some d \<Rightarrow>
          let p = get_position s (Node i)
          in rbind (optional set_width width (new_svg p d)) (\<lambda>g. rbind (optional set_height height g) (\<lambda>g.
               Inr (change i (\<lambda>n. n\<lparr>icon := Some (svg_at p (g\<lparr>align := al\<rparr>))\<rparr>) s))))"

section \<open>Selection and transmissions\<close>

text \<open>A node is given as such or by its index; anything else is an error.\<close>

datatype selector = To_None | To_Node nat | To_Other

definition selected_interest :: "scene \<Rightarrow> nat list" where
  "selected_interest s = (case selected_node s of None \<Rightarrow> [] | Some i \<Rightarrow> [i])"

definition find_selection :: "selector \<Rightarrow> scene \<Rightarrow> py_exn + nat option" where
  "find_selection k s =
     (case k of
        To_None \<Rightarrow> Inr None
      | To_Node i \<Rightarrow> if dget (nodes s) i = None then Inl KeyError else Inr (Some i)
      | To_Other \<Rightarrow> Inl TypeError)"

definition select_node :: "selector \<Rightarrow> scene \<Rightarrow> py_exn + scene" where
  "select_node k s =
     rbind (find_selection k s) (\<lambda>i.
       if i = selected_node s then Inr s
       else
         let s = (case selected_node s of None \<Rightarrow> s | Some j \<Rightarrow> set_selected j False s);
             s = s\<lparr>selected_node := i\<rparr>;
             s = (case i of None \<Rightarrow> s | Some j \<Rightarrow> set_selected j True s)
         in Inr (if show_mode s = Selected_Node then s\<lparr>interest := selected_interest s\<rparr> else s))"

text \<open>The second argument is the number of nodes of the simulation.\<close>

definition set_show_transmissions_mode :: "mode \<Rightarrow> nat \<Rightarrow> scene \<Rightarrow> scene" where
  "set_show_transmissions_mode m n s =
     (let s = s\<lparr>show_mode := m\<rparr>
      in s\<lparr>interest := (case m of All_Nodes \<Rightarrow> [0..<n] | No_Node \<Rightarrow> [] | Selected_Node \<Rightarrow> selected_interest s)\<rparr>)"

section \<open>Moving nodes\<close>

definition begin_node_drag :: "nat \<Rightarrow> pt \<Rightarrow> scene \<Rightarrow> scene" where
  "begin_node_drag i pointer s =
     (case dget (mobility s) i of
        None \<Rightarrow> s
      | Some p \<Rightarrow> if drag s \<noteq> None then s else s\<lparr>drag := Some (pointer, p, i), motion := motion s @ [i]\<rparr>)"

definition node_drag_motion :: "nat \<Rightarrow> pt \<Rightarrow> scene \<Rightarrow> bool \<times> scene" where
  "node_drag_motion i pointer s =
     (case (dget (mobility s) i, drag s) of
        (Some _, Some ((cx0, cy0), (sx0, sy0), _)) \<Rightarrow>
          let dx = fst pointer - cx0; dy = snd pointer - cy0;
              p = (sx0 + distance_to_simulation dx, sy0 + distance_to_simulation dy)
          in (True, set_position i (point_to_canvas p) (s\<lparr>mobility := dset i p (mobility s)\<rparr>))
      | _ \<Rightarrow> (False, s))"

definition end_node_drag :: "nat \<Rightarrow> scene \<Rightarrow> scene" where
  "end_node_drag i s =
     (case drag s of
        None \<Rightarrow> s
      | Some (_, _, k) \<Rightarrow> s\<lparr>motion := (if i = k then remove1 k (motion s) else motion s), drag := None\<rparr>)"

definition update_node_positions :: "scene \<Rightarrow> scene" where
  "update_node_positions s =
     fold (\<lambda>i s. case dget (mobility s) i of None \<Rightarrow> s | Some p \<Rightarrow> set_position i (point_to_canvas p) s) (dkeys (nodes s)) s"

section \<open>Events on the canvas\<close>

text \<open>What the user does with the pointer: presses of a button beside the nodes and on a node, its release, moves of the
  pointer, which are seen where a handler is connected, and the pointer over a node.  A handler that returns nothing lets
  the event through.\<close>

datatype pointer_event =
    Press_Root nat
  | Press_Node nat nat pt
  | Release_Node nat nat
  | Move_Pointer nat pt
  | Enter_Node nat
  | Leave_Node nat

definition on_root_button_press_event :: "nat \<Rightarrow> scene \<Rightarrow> py_exn + bool \<times> scene" where
  "on_root_button_press_event b s = (if b = 1 then rbind (select_node To_None s) (\<lambda>s. Inr (True, s)) else Inr (False, s))"

text \<open>The menu a right click opens is filled by the plugins.\<close>

definition on_node_button_press_event :: "nat \<Rightarrow> nat \<Rightarrow> pt \<Rightarrow> scene \<Rightarrow> py_exn + bool \<times> scene" where
  "on_node_button_press_event b i pointer s =
     (if b = 1 then rbind (select_node (To_Node i) s) (\<lambda>s. Inr (True, s))
      else if b = 3 then Inr (True, s)
      else if b = 2 then Inr (True, begin_node_drag i pointer s)
      else Inr (False, s))"

definition on_node_button_release_event :: "nat \<Rightarrow> nat \<Rightarrow> scene \<Rightarrow> bool \<times> scene" where
  "on_node_button_release_event b i s = (if b = 2 then (True, end_node_drag i s) else (False, s))"

definition on_enter_notify_event :: "nat \<Rightarrow> scene \<Rightarrow> scene" where
  "on_enter_notify_event i s = set_highlighted i True s"

definition on_leave_notify_event :: "nat \<Rightarrow> scene \<Rightarrow> scene" where
  "on_leave_notify_event i s = set_highlighted i False s"

fun handle_event :: "pointer_event \<Rightarrow> scene \<Rightarrow> py_exn + bool \<times> scene" where
  "handle_event (Press_Root b) s = on_root_button_press_event b s"
| "handle_event (Press_Node b i p) s = on_node_button_press_event b i p s"
| "handle_event (Release_Node b i) s = Inr (on_node_button_release_event b i s)"
| "handle_event (Move_Pointer i p) s = Inr (if i \<in> set (motion s) then node_drag_motion i p s else (False, s))"
| "handle_event (Enter_Node i) s = Inr (False, on_enter_notify_event i s)"
| "handle_event (Leave_Node i) s = Inr (False, on_leave_notify_event i s)"

section \<open>Operations\<close>

text \<open>The scene of a new visualizer, for a simulation of \<open>n\<close> nodes, and what happens to it: calls of the methods by the scan of the topology and by plugins,
  steps of the simulation that move nodes, and events of the user.\<close>

definition new_scene :: "nat \<Rightarrow> bool \<Rightarrow> scene" where
  "new_scene n works =
     set_show_transmissions_mode All_Nodes n
       \<lparr>nodes = [], channels = [], wires = [], bounds = ((-10000, -10000), (10000, 10000)), bounds_work = works,
        selected_node = None, show_mode = No_Node, interest = [], mobility = [], drag = None, motion = []\<rparr>"

datatype operation =
    Get_Node nat
  | Get_Channel nat
  | Link nat endpoint
  | Move_Node nat pt
  | Move_Channel nat pt
  | Set_Label bool nat string
  | Set_Size nat rat
  | Set_Color nat paint
  | Highlight nat bool
  | Set_Icon nat "pt option" "rat option" "rat option" pt
  | Select selector
  | Set_Mode mode nat
  | Begin_Drag nat pt
  | Motion nat pt
  | End_Drag nat
  | Mobility "(nat, pt) dict"
  | Update_Positions
  | Event pointer_event

definition get_end :: "endpoint \<Rightarrow> scene \<Rightarrow> scene" where
  "get_end e = (case e of Node i \<Rightarrow> get_node i | Channel c \<Rightarrow> get_channel c)"

fun perform :: "operation \<Rightarrow> scene \<Rightarrow> py_exn + scene" where
  "perform (Get_Node i) s = Inr (get_node i s)"
| "perform (Get_Channel c) s = Inr (get_channel c s)"
| "perform (Link i e) s = Inr (create_link i e (get_end e (get_node i s)))"
| "perform (Move_Node i p) s = Inr (set_position i p s)"
| "perform (Move_Channel c p) s = Inr (set_channel_position c p s)"
| "perform (Set_Label python3 i t) s = set_label python3 i t s"
| "perform (Set_Size i r) s = Inr (set_size i r s)"
| "perform (Set_Color i c) s = Inr (set_color i c s)"
| "perform (Highlight i b) s = Inr (set_highlighted i b s)"
| "perform (Set_Icon i dims w h al) s = set_svg_icon i dims w h al s"
| "perform (Select k) s = select_node k s"
| "perform (Set_Mode m n) s = Inr (set_show_transmissions_mode m n s)"
| "perform (Begin_Drag i p) s = Inr (begin_node_drag i p s)"
| "perform (Motion i p) s = Inr (snd (node_drag_motion i p s))"
| "perform (End_Drag i) s = Inr (end_node_drag i s)"
| "perform (Mobility m) s = Inr (s\<lparr>mobility := m\<rparr>)"
| "perform Update_Positions s = Inr (update_node_positions s)"
| "perform (Event e) s = rbind (handle_event e s) (\<lambda>(_, s). Inr s)"

text \<open>The number of nodes of the simulation when the mode was last set.\<close>

fun nodes_counted :: "operation \<Rightarrow> nat \<Rightarrow> nat" where
  "nodes_counted (Set_Mode m n) k = n"
| "nodes_counted op k = k"

definition last_count :: "operation list \<Rightarrow> nat \<Rightarrow> nat" where
  "last_count ops k = fold nodes_counted ops k"

text \<open>An event has the effect of a call.\<close>

lemma event_call:
  assumes "perform op s = Inr t"
  obtains call where "perform call s = Inr t" and "call \<notin> range Event" and "\<And>k. nodes_counted call k = nodes_counted op k"
proof (cases op)
  case (Event e)
  show ?thesis
  proof (cases e)
    case (Press_Root b)
    with assms Event that [of "Mobility (mobility s)"] that [of "Select To_None"] show ?thesis
      by (auto simp: on_root_button_press_event_def split: if_splits)
  next
    case (Press_Node b i p)
    with assms Event that [of "Mobility (mobility s)"] that [of "Select (To_Node i)"] that [of "Begin_Drag i p"] show ?thesis
      by (auto simp: on_node_button_press_event_def split: if_splits)
  next
    case (Release_Node b i)
    with assms Event that [of "Mobility (mobility s)"] that [of "End_Drag i"] show ?thesis
      by (auto simp: on_node_button_release_event_def split: if_splits)
  next
    case (Move_Pointer i p)
    with assms Event that [of "Mobility (mobility s)"] that [of "Motion i p"] show ?thesis by (auto split: if_splits prod.splits)
  next
    case (Enter_Node i)
    with assms Event that [of "Highlight i True"] show ?thesis by (auto simp: on_enter_notify_event_def)
  next
    case (Leave_Node i)
    with assms Event that [of "Highlight i False"] show ?thesis by (auto simp: on_leave_notify_event_def)
  qed
qed (use assms that [of op] in auto)

section \<open>What the operations leave alone\<close>

lemma update_node_fields [simp]:
  "dget (nodes (update_node i f s)) j = (if j = i then map_option f (dget (nodes s) i) else dget (nodes s) j)"
  "channels (update_node i f s) = channels s" "wires (update_node i f s) = wires s" "bounds (update_node i f s) = bounds s"
  "bounds_work (update_node i f s) = bounds_work s"
  "selected_node (update_node i f s) = selected_node s" "show_mode (update_node i f s) = show_mode s"
  "interest (update_node i f s) = interest s" "mobility (update_node i f s) = mobility s"
  "drag (update_node i f s) = drag s" "motion (update_node i f s) = motion s"
  by (simp_all add: update_node_def split: option.splits)

lemma update_points_fields [simp]:
  "nodes (fold update_points ws s) = nodes s" "channels (fold update_points ws s) = channels s"
  "bounds (fold update_points ws s) = bounds s" "bounds_work (fold update_points ws s) = bounds_work s" "selected_node (fold update_points ws s) = selected_node s"
  "show_mode (fold update_points ws s) = show_mode s" "interest (fold update_points ws s) = interest s"
  "mobility (fold update_points ws s) = mobility s" "drag (fold update_points ws s) = drag s"
  "motion (fold update_points ws s) = motion s"
  by (induction ws arbitrary: s) (simp_all add: update_points_def Let_def)

lemma get_position_points [simp]: "get_position (fold update_points ws s) e = get_position s e"
  by (cases e) simp_all

text \<open>What a link is drawn as.\<close>

definition redraw :: "scene \<Rightarrow> wire \<Rightarrow> wire" where
  "redraw s l = l\<lparr>path := Some (get_position s (Node (node1 l)), get_position s (node2 l))\<rparr>"

lemma redraw_ends [simp]: "node1 (redraw s l) = node1 l" "node2 (redraw s l) = node2 l" "redraw s (redraw s l) = redraw s l"
  by (simp_all add: redraw_def)

lemma length_update_points [simp]: "length (wires (fold update_points ws s)) = length (wires s)"
  by (induction ws arbitrary: s) (simp_all add: update_points_def Let_def)

lemma nth_update_points:
  "list_all (\<lambda>w. w < length (wires s)) ws \<Longrightarrow> w < length (wires s) \<Longrightarrow>
   wires (fold update_points ws s) ! w = (if w \<in> set ws then redraw s (wires s ! w) else wires s ! w)"
proof (induction ws arbitrary: s)
  case (Cons v ws)
  have pos: "get_position (update_points v s) e = get_position s e" for e
    by (cases e) (simp_all add: update_points_def Let_def)
  then have "redraw (update_points v s) l = redraw s l" for l by (simp only: redraw_def)
  moreover have "wires (update_points v s) = (wires s)[v := redraw s (wires s ! v)]"
    by (simp add: update_points_def redraw_def Let_def)
  ultimately show ?case using Cons by (auto simp: nth_list_update)
qed simp

lemma set_position_fields [simp]:
  "dget (nodes (set_position i p s)) j =
     (if j = i then map_option (place_label p \<circ> place_node p) (dget (nodes s) i) else dget (nodes s) j)"
  "channels (set_position i p s) = channels s" "length (wires (set_position i p s)) = length (wires s)"
  "bounds (set_position i p s) = (if bounds_work s then extend (bounds s) p else bounds s)"
  "bounds_work (set_position i p s) = bounds_work s" "selected_node (set_position i p s) = selected_node s"
  "show_mode (set_position i p s) = show_mode s" "interest (set_position i p s) = interest s"
  "mobility (set_position i p s) = mobility s" "drag (set_position i p s) = drag s" "motion (set_position i p s) = motion s"
  by (simp_all add: set_position_def Let_def option.map_comp)

lemma place_fields [simp]:
  "links (place_node p n) = links n" "links (place_label p n) = links n" "selected (place_node p n) = selected n"
  "selected (place_label p n) = selected n" "center (place_node p n) = p" "center (place_label p n) = center n"
  "icon (place_label p n) = icon n" "icon (place_node p n) = map_option (svg_at p) (icon n)" "label (place_node p n) = label n"
  "label (place_label p n) = label n" "node_size (place_node p n) = node_size n" "node_size (place_label p n) = node_size n"
  "label_item (place_node p n) = label_item n"
  by (simp_all add: place_node_def place_label_def)

lemma appearance_fields [simp]:
  "links (appearance n) = links n" "selected (appearance n) = selected n" "center (appearance n) = center n"
  "icon (appearance n) = icon n" "label (appearance n) = label n" "label_item (appearance n) = label_item n"
  "node_size (appearance n) = node_size n"
  by (simp_all add: appearance_def Let_def)

lemma show_label_fields [simp]:
  "links (show_label n) = links n" "selected (show_label n) = selected n" "center (show_label n) = center n"
  "icon (show_label n) = icon n" "label (show_label n) = label n" "node_size (show_label n) = node_size n"
  by (simp_all add: show_label_def)

text \<open>Placing a node and showing its label do not touch what makes its appearance.\<close>

lemma appearance_commutes:
  "appearance (appearance n) = appearance n" "appearance (place_node p n) = place_node p (appearance n)"
  "appearance (place_label p n) = place_label p (appearance n)" "appearance (show_label n) = show_label (appearance n)"
proof -
  have item: "appearance (n\<lparr>label_item := x\<rparr>) = (appearance n)\<lparr>label_item := x\<rparr>" for n x
    by (simp add: appearance_def Let_def)
  show "appearance (show_label n) = show_label (appearance n)" "appearance (place_label p n) = place_label p (appearance n)"
    by (simp_all only: show_label_def place_label_def item appearance_fields)
qed (simp_all add: appearance_def place_node_def Let_def)

lemma svg_at_twice [simp]: "svg_at p (svg_at q g) = svg_at p g"
  by (simp add: svg_at_def Let_def split_beta)

section \<open>What is on the canvas\<close>

text \<open>The ellipse, the label and the icon of a node are as its state says.\<close>

definition label_place :: "node \<Rightarrow> pt" where
  "label_place n = (fst (center n), snd (center n) + node_size n * 3)"

definition drawn :: "node \<Rightarrow> bool" where
  "drawn n \<longleftrightarrow> appearance n = n \<and> label_item n = map_option (\<lambda>t. (t, label_place n)) (label n)"

definition iconed :: "node \<Rightarrow> bool" where
  "iconed n \<longleftrightarrow> map_option (svg_at (center n)) (icon n) = icon n \<and> (label n = None \<longrightarrow> label_item n = None)"

definition in_bounds :: "pt \<times> pt \<Rightarrow> pt \<Rightarrow> bool" where
  "in_bounds b p \<longleftrightarrow> fst (fst b) \<le> fst p \<and> snd (fst b) \<le> snd p \<and> fst p \<le> fst (snd b) \<and> snd p \<le> snd (snd b)"

text \<open>A link is known to its two ends, which exist, and drawn, if it is, from one to the other.\<close>

definition exists :: "scene \<Rightarrow> endpoint \<Rightarrow> bool" where
  "exists s e = (case e of Node i \<Rightarrow> dget (nodes s) i \<noteq> None | Channel c \<Rightarrow> dget (channels s) c \<noteq> None)"

definition linked :: "scene \<Rightarrow> nat \<Rightarrow> wire \<Rightarrow> bool" where
  "linked s w l \<longleftrightarrow>
     exists s (Node (node1 l)) \<and> exists s (node2 l) \<and> w \<in> set (links_of s (Node (node1 l))) \<and> w \<in> set (links_of s (node2 l)) \<and>
     path l \<in> {None, Some (get_position s (Node (node1 l)), get_position s (node2 l))}"

text \<open>The invariant, where the nodes of a set have changed and are not drawn again yet.\<close>

definition nodes_inv :: "nat set \<Rightarrow> scene \<Rightarrow> bool" where
  "nodes_inv X s \<longleftrightarrow>
     (\<forall>i n. dget (nodes s) i = Some n \<longrightarrow> iconed n \<and> (bounds_work s \<longrightarrow> in_bounds (bounds s) (center n)) \<and> (i \<in> X \<or> drawn n))"

definition wires_inv :: "scene \<Rightarrow> bool" where
  "wires_inv s \<longleftrightarrow>
     (\<forall>w < length (wires s). linked s w (wires s ! w)) \<and>
     (\<forall>e. \<forall>w \<in> set (links_of s e). w < length (wires s) \<and> e \<in> {Node (node1 (wires s ! w)), node2 (wires s ! w)})"

definition canvas_inv :: "nat set \<Rightarrow> scene \<Rightarrow> bool" where
  "canvas_inv X s \<longleftrightarrow> nodes_inv X s \<and> wires_inv s \<and> (bounds_work s \<longrightarrow> in_bounds (bounds s) (0, 0))"

lemma in_bounds_extend [simp]: "in_bounds (extend b p) p" "in_bounds b q \<Longrightarrow> in_bounds (extend b p) q"
  by (auto simp: in_bounds_def extend_def Let_def split_beta)

lemma iconed_placed: "iconed n \<Longrightarrow> iconed (place_label p (place_node p n))"
  by (auto simp: iconed_def place_label_def option.map_comp comp_def)

lemma drawn_placed: "drawn n \<Longrightarrow> drawn (place_label p (place_node p n))"
proof -
  assume n: "drawn n"
  then have "label_item (place_label p (place_node p n)) = map_option (\<lambda>t. (t, fst p, snd p + node_size n * 3)) (label n)"
    by (simp add: drawn_def place_label_def option.map_comp comp_def)
  with n show ?thesis by (simp add: drawn_def appearance_commutes label_place_def)
qed

text \<open>Placing a node draws it where it is, and its links.\<close>

lemma links_of_update: "(\<And>n. links (f n) = links n) \<Longrightarrow> links_of (update_node i f s) e = links_of s e"
  by (auto simp: links_of_def split: endpoint.splits option.splits)

lemma get_position_update:
  "get_position (update_node i f s) e = (if e = Node i \<and> dget (nodes s) i \<noteq> None then center (f (the (dget (nodes s) i))) else get_position s e)"
  by (cases e) (auto split: option.splits)

lemma get_position_other: "e \<noteq> Node i \<Longrightarrow> get_position (update_node i f s) e = get_position s e"
  by (simp add: get_position_update)

lemma get_position_keep: "(\<And>n. center (f n) = center n) \<Longrightarrow> get_position (update_node i f s) e = get_position s e"
  by (auto simp: get_position_update get_position.simps)

lemma exists_update [simp]: "exists (update_node i f s) e = exists s e"
  by (auto simp: exists_def split: endpoint.splits)

lemma links_of_points [simp]: "links_of (fold update_points ws s) e = links_of s e"
  by (simp add: links_of_def split: endpoint.splits)

lemma exists_points [simp]: "exists (fold update_points ws s) e = exists s e"
  by (simp add: exists_def split: endpoint.splits)

declare get_position.simps [simp del]

text \<open>When one end has moved, drawing its links again is enough.\<close>

lemma wires_inv_moved:
  assumes "wires_inv s" and "wires t = wires s" and "\<And>e'. links_of t e' = links_of s e'" and "\<And>e'. exists t e' = exists s e'"
    and "\<And>e'. e' \<noteq> e \<Longrightarrow> get_position t e' = get_position s e'"
  shows "wires_inv (fold update_points (links_of t e) t)"
proof -
  define u where "u = fold update_points (links_of t e) t"
  have len: "length (wires u) = length (wires s)" and fields: "links_of u e' = links_of s e'" "exists u e' = exists s e'"
    "get_position u e' = get_position t e'" for e'
    using assms(2-4) by (simp_all add: u_def)
  have ok: "list_all (\<lambda>w. w < length (wires t)) (links_of t e)"
    using assms(1,2,3) by (auto simp: wires_inv_def list_all_iff)
  have nth: "wires u ! w = (if w \<in> set (links_of s e) then redraw t (wires s ! w) else wires s ! w)" if "w < length (wires s)" for w
    using nth_update_points [OF ok] that assms(2,3) by (simp add: u_def)
  have "linked u w (wires u ! w)" if w: "w < length (wires s)" for w
  proof -
    have l: "linked s w (wires s ! w)" using assms(1) w by (simp add: wires_inv_def)
    show ?thesis
    proof (cases "w \<in> set (links_of s e)")
      case True
      with l show ?thesis by (simp add: nth [OF w] linked_def fields) (simp add: redraw_def)
    next
      case False
      then have "Node (node1 (wires s ! w)) \<noteq> e" "node2 (wires s ! w) \<noteq> e" using l by (auto simp: linked_def)
      with l False show ?thesis by (simp add: nth [OF w] linked_def fields assms(5))
    qed
  qed
  moreover have "w < length (wires s) \<and> e' \<in> {Node (node1 (wires u ! w)), node2 (wires u ! w)}" if "w \<in> set (links_of s e')" for e' w
  proof -
    have "w < length (wires s)" "e' \<in> {Node (node1 (wires s ! w)), node2 (wires s ! w)}"
      using assms(1) that by (auto simp: wires_inv_def)
    then show ?thesis by (simp add: nth)
  qed
  ultimately show ?thesis unfolding u_def [symmetric] wires_inv_def len fields by blast
qed

lemma wires_inv_same:
  assumes "wires_inv s" and "wires t = wires s" and "\<And>e. links_of t e = links_of s e" and "\<And>e. exists t e = exists s e"
    and "\<And>e. get_position t e = get_position s e"
  shows "wires_inv t"
  using assms by (simp add: wires_inv_def linked_def)

text \<open>The canvas is its nodes, channels, links and bounds.\<close>

lemma same_ends:
  assumes "nodes t = nodes s" and "channels t = channels s"
  shows "links_of t e = links_of s e" and "exists t e = exists s e" and "get_position t e = get_position s e"
  using assms by (cases e; simp add: links_of_def exists_def get_position.simps)+

lemma wires_inv_bounds [simp]: "wires_inv (s\<lparr>bounds := b\<rparr>) = wires_inv s"
  by (simp add: wires_inv_def linked_def same_ends [of "s\<lparr>bounds := b\<rparr>" s])

lemma canvas_inv_same:
  assumes "canvas_inv X s" and "nodes t = nodes s" and "channels t = channels s" and "wires t = wires s" and "bounds t = bounds s"
    and "bounds_work t = bounds_work s"
  shows "canvas_inv X t"
  using assms wires_inv_same [of s t] same_ends [of t s] by (simp add: canvas_inv_def nodes_inv_def)

section \<open>Every operation keeps the canvas\<close>

lemma canvas_set_position:
  assumes "canvas_inv X s"
  shows "canvas_inv X (set_position i p s)"
proof -
  let ?s1 = "update_node i (place_node p) s"
  let ?s2 = "fold update_points (links_of ?s1 (Node i)) ?s1"
  have inv: "wires_inv s" using assms by (simp add: canvas_inv_def)
  then have "wires_inv ?s2" by (rule wires_inv_moved) (simp_all add: links_of_update get_position_other)
  then have "wires_inv (update_node i (place_label p) ?s2)"
    by (rule wires_inv_same) (simp_all add: links_of_update get_position_keep)
  then have "wires_inv (set_position i p s)"
    by (simp add: set_position_def Let_def)
  moreover have "nodes_inv X (set_position i p s)"
    using assms by (auto simp: canvas_inv_def nodes_inv_def iconed_placed dest: contrapos_nn [OF _ drawn_placed] split: if_splits)
  moreover have "bounds_work s \<longrightarrow> in_bounds (bounds (set_position i p s)) (0, 0)" using assms by (simp add: canvas_inv_def)
  ultimately show ?thesis by (simp add: canvas_inv_def)
qed

lemma canvas_update_node:
  assumes "canvas_inv X s" and "\<And>n. links (f n) = links n" and "\<And>n. center (f n) = center n"
    and "\<And>n. dget (nodes s) i = Some n \<Longrightarrow> iconed n \<Longrightarrow> iconed (f n)"
  shows "canvas_inv (insert i X) (update_node i f s)"
proof -
  have "wires_inv (update_node i f s)"
    by (rule wires_inv_same [of s]) (use assms(1-3) in \<open>simp_all add: canvas_inv_def links_of_update get_position_keep\<close>)
  moreover have "nodes_inv (insert i X) (update_node i f s)"
    using assms by (auto simp: canvas_inv_def nodes_inv_def split: if_splits)
  ultimately show ?thesis using assms(1) by (simp add: canvas_inv_def)
qed

lemma iconed_shown: "iconed n \<Longrightarrow> iconed (show_label (appearance n))"
  by (simp add: iconed_def show_label_def)

lemma canvas_drawn:
  assumes "canvas_inv (insert i X) s" and "\<And>n. dget (nodes s) i = Some n \<Longrightarrow> drawn n"
  shows "canvas_inv X s"
  using assms by (fastforce simp: canvas_inv_def nodes_inv_def)

lemma canvas_update_appearance:
  assumes "canvas_inv (insert i X) s"
  shows "canvas_inv X (update_appearance i s)"
proof -
  let ?f = "show_label \<circ> appearance"
  let ?t = "update_node i ?f s"
  have t: "canvas_inv (insert i X) ?t"
    using canvas_update_node [OF assms, of ?f i] by (simp add: iconed_shown)
  show ?thesis
  proof (cases "dget (nodes s) i")
    case None
    with t show ?thesis by (auto simp: update_appearance_def Let_def intro: canvas_drawn)
  next
    case (Some n)
    have n: "iconed n" using assms Some by (simp add: canvas_inv_def nodes_inv_def)
    have item: "label_item (show_label (appearance n)) = map_option (\<lambda>u. (u, case label_item n of None \<Rightarrow> (0, 0) | Some (_, p) \<Rightarrow> p)) (label n)"
      using n by (auto simp: show_label_def iconed_def split: option.splits)
    have same: "appearance (show_label (appearance n)) = show_label (appearance n)" by (simp add: appearance_commutes)
    show ?thesis
    proof (cases "label n = None")
      case True
      with item same have "drawn (show_label (appearance n))" by (simp add: drawn_def)
      with t Some True show ?thesis by (auto simp: update_appearance_def Let_def intro: canvas_drawn)
    next
      case False
      have "label_item (place_label (center n) (place_node (center n) (show_label (appearance n)))) =
          map_option (\<lambda>u. (u, fst (center n), snd (center n) + node_size n * 3)) (label n)"
        using item by (simp add: place_label_def option.map_comp comp_def)
      with same have "drawn (place_label (center n) (place_node (center n) (show_label (appearance n))))"
        by (simp add: drawn_def appearance_commutes label_place_def)
      then have "canvas_inv X (set_position i (center n) ?t)"
        by (intro canvas_drawn [OF canvas_set_position [OF t]]) (use Some in auto)
      with Some False show ?thesis by (auto simp: update_appearance_def Let_def)
    qed
  qed
qed

lemma canvas_change:
  assumes "canvas_inv X s" and "\<And>n. links (f n) = links n" and "\<And>n. center (f n) = center n"
    and "\<And>n. dget (nodes s) i = Some n \<Longrightarrow> iconed n \<Longrightarrow> iconed (f n)"
  shows "canvas_inv X (change i f s)"
  unfolding change_def by (intro canvas_update_appearance canvas_update_node assms)

lemma canvas_set_channel_position:
  assumes "canvas_inv X s"
  shows "canvas_inv X (set_channel_position c p s)"
proof (cases "dget (channels s) c")
  case None
  with assms show ?thesis by (simp add: set_channel_position_def)
next
  case (Some d)
  define t where "t = s\<lparr>channels := dset c (d\<lparr>ch_center := p\<rparr>) (channels s)\<rparr>"
  have t: "set_channel_position c p s = fold update_points (links_of t (Channel c)) t"
    using Some by (simp add: set_channel_position_def t_def links_of_def)
  have "links_of t e = links_of s e" "exists t e = exists s e" "e \<noteq> Channel c \<Longrightarrow> get_position t e = get_position s e" for e
    using Some by (cases e; auto simp: t_def links_of_def exists_def get_position.simps)+
  with assms have "wires_inv (set_channel_position c p s)"
    unfolding t by (intro wires_inv_moved [of s t]) (simp_all add: canvas_inv_def t_def)
  with assms show ?thesis by (simp add: canvas_inv_def nodes_inv_def t) (simp add: t_def)
qed

lemma iconed_new [simp]: "iconed new_node" and drawn_new [simp]: "drawn new_node"
  by (simp_all add: iconed_def drawn_def new_node_def appearance_commutes)

lemma center_new [simp]: "center new_node = (0, 0)" and links_new [simp]: "links new_node = []" and selected_new [simp]: "\<not> selected new_node"
  by (simp_all add: new_node_def)

text \<open>A new node or channel lies at the origin and has no links.\<close>

lemma new_end:
  assumes "\<not> exists s e" and "t = (case e of Node i \<Rightarrow> s\<lparr>nodes := dset i new_node (nodes s)\<rparr>
    | Channel c \<Rightarrow> s\<lparr>channels := dset c \<lparr>ch_links = [], ch_center = (0, 0)\<rparr> (channels s)\<rparr>)"
  shows "links_of t e' = links_of s e'" and "get_position t e' = get_position s e'" and "exists s e' \<Longrightarrow> exists t e'"
  using assms by (cases e; cases e'; auto simp: links_of_def get_position.simps exists_def split: option.splits)+

lemma canvas_new_end:
  assumes "canvas_inv X s" and "\<not> exists s e" and "t = (case e of Node i \<Rightarrow> s\<lparr>nodes := dset i new_node (nodes s)\<rparr>
    | Channel c \<Rightarrow> s\<lparr>channels := dset c \<lparr>ch_links = [], ch_center = (0, 0)\<rparr> (channels s)\<rparr>)"
  shows "canvas_inv X t"
proof -
  have "wires t = wires s" "bounds t = bounds s" "bounds_work t = bounds_work s" using assms(3) by (simp_all split: endpoint.splits)
  moreover from this have "wires_inv t"
    using assms(1) new_end [OF assms(2,3)] by (simp add: canvas_inv_def wires_inv_def linked_def)
  moreover have "nodes_inv X t"
    using assms(1,3) by (auto simp: canvas_inv_def nodes_inv_def split: endpoint.splits if_splits)
  ultimately show ?thesis using assms(1) by (simp add: canvas_inv_def)
qed

lemma canvas_get_end: "canvas_inv X s \<Longrightarrow> canvas_inv X (get_end e s)" "exists (get_end e s) e" "exists s e' \<Longrightarrow> exists (get_end e s) e'"
  using canvas_new_end [of X s e] new_end(3) [of s e]
  by (auto simp: get_end_def get_node_def get_channel_def exists_def split: endpoint.splits option.splits)

text \<open>A link is added to its first end, then to its second.\<close>

lemma links_add_link: "links_of (add_link e w s) e' = (if e' = e \<and> exists s e then links_of s e @ [w] else links_of s e')"
  by (cases e; cases e') (auto simp: add_link_def links_of_def exists_def split: option.splits)

lemma add_link_fields [simp]:
  "wires (add_link e w s) = wires s" "bounds (add_link e w s) = bounds s" "bounds_work (add_link e w s) = bounds_work s"
  "get_position (add_link e w s) e' = get_position s e'"
  "exists (add_link e w s) e' = exists s e'" "selected_node (add_link e w s) = selected_node s"
  "show_mode (add_link e w s) = show_mode s" "interest (add_link e w s) = interest s"
  by (cases e; cases e'; auto simp: add_link_def get_position.simps exists_def split: option.splits)+

lemma nodes_add_link: "nodes_inv X s \<Longrightarrow> nodes_inv X (add_link e w s)"
proof -
  have "appearance (n\<lparr>links := l\<rparr>) = (appearance n)\<lparr>links := l\<rparr>" for n l
    by (simp add: appearance_def Let_def)
  then have "drawn n \<Longrightarrow> drawn (n\<lparr>links := l\<rparr>)" "iconed n \<Longrightarrow> iconed (n\<lparr>links := l\<rparr>)" for n l
    by (simp_all add: drawn_def iconed_def label_place_def)
  then show "nodes_inv X s \<Longrightarrow> nodes_inv X (add_link e w s)"
    by (cases e) (fastforce simp: nodes_inv_def add_link_def split: option.splits if_splits)+
qed

lemma canvas_create_link:
  assumes inv: "canvas_inv X s" and ends: "exists s (Node i)" "exists s e"
  shows "canvas_inv X (create_link i e s)"
proof -
  define w s0 where "w = length (wires s)" and "s0 = s\<lparr>wires := wires s @ [\<lparr>node1 = i, node2 = e, path = None\<rparr>]\<rparr>"
  have t: "create_link i e s = add_link e w (add_link (Node i) w s0)"
    by (simp add: create_link_def w_def s0_def Let_def)
  have s0: "links_of s0 e' = links_of s e'" "exists s0 e' = exists s e'" "get_position s0 e' = get_position s e'" for e'
    by (rule same_ends; simp add: s0_def)+
  have l: "set (links_of (create_link i e s) e') = set (links_of s e') \<union> (if e' \<in> {Node i, e} then {w} else {})" for e'
    using ends by (auto simp: t links_add_link s0)
  have f: "wires (create_link i e s) = wires s @ [\<lparr>node1 = i, node2 = e, path = None\<rparr>]" "bounds (create_link i e s) = bounds s"
    "bounds_work (create_link i e s) = bounds_work s"
    "get_position (create_link i e s) e' = get_position s e'" "exists (create_link i e s) e' = exists s e'" for e'
    by (simp_all add: t s0) (simp_all add: s0_def)
  have "linked (create_link i e s) v (wires (create_link i e s) ! v)" if "v < length (wires (create_link i e s))" for v
    using that inv ends by (auto simp: f nth_append linked_def l canvas_inv_def wires_inv_def w_def less_Suc_eq)
  moreover have "v < length (wires (create_link i e s)) \<and> e' \<in> {Node (node1 (wires (create_link i e s) ! v)), node2 (wires (create_link i e s) ! v)}"
    if "v \<in> set (links_of (create_link i e s) e')" for v e'
    using that inv by (auto simp: f nth_append l canvas_inv_def wires_inv_def w_def split: if_splits)
  ultimately have "wires_inv (create_link i e s)" by (simp add: wires_inv_def)
  moreover have "nodes_inv X s0" using inv by (simp add: canvas_inv_def nodes_inv_def s0_def)
  ultimately show ?thesis using inv by (simp add: canvas_inv_def t nodes_add_link f) (simp add: s0_def)
qed

lemma canvas_set_svg_icon:
  assumes "canvas_inv X s" and "set_svg_icon i dims w h al s = Inr t"
  shows "canvas_inv X t"
proof -
  obtain g where t: "t = change i (\<lambda>n. n\<lparr>icon := Some (svg_at (get_position s (Node i)) g)\<rparr>) s"
    using assms(2) by (auto simp: set_svg_icon_def Let_def split: if_splits option.splits)
  show ?thesis unfolding t
    by (rule canvas_change [OF assms(1)]) (simp_all add: iconed_def get_position.simps)
qed

lemma canvas_update_node_positions: "canvas_inv X s \<Longrightarrow> canvas_inv X (update_node_positions s)"
proof -
  have "canvas_inv X s \<Longrightarrow> canvas_inv X (fold (\<lambda>i s. case dget (mobility s) i of None \<Rightarrow> s | Some p \<Rightarrow> set_position i (point_to_canvas p) s) is s)"
    for "is" by (induction "is" arbitrary: s) (simp_all add: canvas_set_position split: option.split)
  then show "canvas_inv X s \<Longrightarrow> canvas_inv X (update_node_positions s)" by (simp add: update_node_positions_def)
qed

lemma canvas_select_node:
  assumes "canvas_inv X s" and "select_node k s = Inr t"
  shows "canvas_inv X t"
proof -
  have sel: "canvas_inv X u \<Longrightarrow> canvas_inv X (set_selected i b u)" for i b u
    unfolding set_selected_def by (rule canvas_change) (simp_all add: iconed_def)
  have upd: "canvas_inv X u \<Longrightarrow> canvas_inv X (u\<lparr>selected_node := j\<rparr>)" "canvas_inv X u \<Longrightarrow> canvas_inv X (u\<lparr>interest := l\<rparr>)" for u j l
    by (erule canvas_inv_same; simp)+
  show ?thesis using assms
    by (auto simp: select_node_def Let_def sel upd split: if_splits option.splits)
qed

lemma canvas_call:
  assumes "canvas_inv X s" and "perform op s = Inr t" and "op \<notin> range Event"
  shows "canvas_inv X t"
proof -
  have upd: "canvas_inv X u \<Longrightarrow> canvas_inv X (u\<lparr>mobility := m\<rparr>)" "canvas_inv X u \<Longrightarrow> canvas_inv X (u\<lparr>drag := d, motion := l\<rparr>)"
    "canvas_inv X u \<Longrightarrow> canvas_inv X (u\<lparr>show_mode := md, interest := l\<rparr>)" "canvas_inv X u \<Longrightarrow> canvas_inv X (u\<lparr>motion := l, drag := d\<rparr>)"
    for u m d l md
    by (erule canvas_inv_same; simp)+
  have link: "canvas_inv X (create_link i e (get_end e (get_node i s)))" for i e
  proof (rule canvas_create_link)
    have get: "get_node i s = get_end (Node i) s" by (simp add: get_end_def)
    show "canvas_inv X (get_end e (get_node i s))" unfolding get by (intro canvas_get_end(1) assms(1))
    show "exists (get_end e (get_node i s)) (Node i)" unfolding get by (intro canvas_get_end(2,3))
    show "exists (get_end e (get_node i s)) e" by (rule canvas_get_end(2))
  qed
  have change: "canvas_inv X (set_size i r s)" "canvas_inv X (set_color i c s)" "canvas_inv X (set_highlighted i b s)"
    "canvas_inv X (change i (\<lambda>n. n\<lparr>label := Some l\<rparr>) s)" for i r c b l
    unfolding set_size_def set_color_def set_highlighted_def
    by (rule canvas_change [OF assms(1)]; simp add: iconed_def)+
  show ?thesis
  proof (cases op)
    case (Get_Node i)
    with assms canvas_get_end(1) [of X s "Node i"] show ?thesis by (simp add: get_end_def)
  next
    case (Get_Channel c)
    with assms canvas_get_end(1) [of X s "Channel c"] show ?thesis by (simp add: get_end_def)
  next
    case (Motion i p)
    with assms show ?thesis
      by (auto simp: node_drag_motion_def Let_def canvas_set_position upd split: option.splits)
  qed (use assms change link upd in
    \<open>auto simp: set_label_def begin_node_drag_def end_node_drag_def set_show_transmissions_mode_def Let_def
      canvas_set_position canvas_set_channel_position canvas_update_node_positions intro: canvas_set_svg_icon canvas_select_node
      split: if_splits option.splits\<close>)
qed

lemma canvas_perform: "canvas_inv X s \<Longrightarrow> perform op s = Inr t \<Longrightarrow> canvas_inv X t"
  by (erule event_call) (rule canvas_call)

end
