(* ===== verification/Viz_Topology.thy ===== *)
theory Viz_Topology
  imports Viz_Nodes
begin

text \<open>
  \<^verbatim>\<open>Visualizer.scan_topology\<close> of \<^verbatim>\<open>core.py\<close>: the nodes, channels and links of the simulation put on the
  canvas.  What the simulation says of its nodes is a record; the layout the library \<^verbatim>\<open>pygraphviz\<close> computes of the
  nodes and edges of a graph is a parameter.  A name in the graph is the node or channel it stands for.
\<close>

section \<open>The scan\<close>

text \<open>The devices of each node, with the name of their type and their channel, \<open>None\<close> for a device without one; the nodes
  of the devices of a channel; the position of the nodes that have a mobility model.\<close>

record device =
  dev_type :: string
  dev_channel :: "nat option"

record topology =
  node_devices :: "device list list"
  channel_nodes :: "nat \<Rightarrow> nat list"
  positions :: "(nat, pt) dict"

record graph =
  vertices :: "endpoint list"
  edges :: "(endpoint \<times> endpoint) list"

type_synonym layout = "graph \<Rightarrow> endpoint \<Rightarrow> pt"

record scan =
  view :: scene
  layout_graph :: graph
  trait_table :: trait_table

definition add_vertex :: "endpoint \<Rightarrow> graph \<Rightarrow> graph" where
  "add_vertex e g = (if e \<in> set (vertices g) then g else g\<lparr>vertices := vertices g @ [e]\<rparr>)"

definition add_edge :: "endpoint \<Rightarrow> endpoint \<Rightarrow> graph \<Rightarrow> graph" where
  "add_edge d e g =
     (let g = add_vertex e (add_vertex d g)
      in if (d, e) \<in> set (edges g) \<or> (e, d) \<in> set (edges g) then g else g\<lparr>edges := edges g @ [(d, e)]\<rparr>)"

text \<open>A channel of more than two devices is drawn as a node of its own, the others as links between their nodes.\<close>

definition link_channel :: "topology \<Rightarrow> nat \<Rightarrow> nat \<Rightarrow> scan \<Rightarrow> scan" where
  "link_channel net i c k =
     k\<lparr>layout_graph := (if dget (positions net) i = None then add_edge (Node i) (Channel c) (layout_graph k) else layout_graph k),
       view := create_link i (Channel c) (get_node i (get_channel c (view k)))\<rparr>"

definition link_node :: "topology \<Rightarrow> nat \<Rightarrow> nat \<Rightarrow> scan \<Rightarrow> scan" where
  "link_node net i j k =
     (let k = k\<lparr>view := get_node j (view k)\<rparr>
      in if j = i then k
         else k\<lparr>layout_graph :=
                  (if dget (positions net) i = None \<and> dget (positions net) j = None then add_edge (Node i) (Node j) (layout_graph k)
                   else layout_graph k),
                view := create_link i (Node j) (get_node i (view k))\<rparr>)"

definition scan_device :: "topology \<Rightarrow> nat \<Rightarrow> device \<Rightarrow> scan \<Rightarrow> py_exn + scan" where
  "scan_device net i d k =
     (let (t, tab) = lookup_netdevice_traits (dev_type d) (trait_table k); k = k\<lparr>trait_table := tab\<rparr>
      in if is_wireless t = Some True then Inr k
         else if is_virtual t then Inr k
         else case dev_channel d of
           None \<Rightarrow> Inl AttributeError
         | Some c \<Rightarrow>
             let js = channel_nodes net c
             in Inr (if length js > 2 then link_channel net i c k else fold (link_node net i) js k))"

definition show_node :: "topology \<Rightarrow> nat \<Rightarrow> scan \<Rightarrow> scan" where
  "show_node net i k =
     (let s = get_node i (view k)
      in case dget (positions net) i of
        Some p \<Rightarrow> k\<lparr>view := set_position i (point_to_canvas p) (set_color i (Parsed (0xFFFF, 0, 0)) s)\<rparr>
      | None \<Rightarrow> k\<lparr>view := s, layout_graph := add_vertex (Node i) (layout_graph k)\<rparr>)"

definition scan_node :: "topology \<Rightarrow> nat \<Rightarrow> scan \<Rightarrow> py_exn + scan" where
  "scan_node net i k = foldM (scan_device net i) (node_devices net ! i) (show_node net i k)"

definition place_vertex :: "(endpoint \<Rightarrow> pt) \<Rightarrow> endpoint \<Rightarrow> scene \<Rightarrow> py_exn + scene" where
  "place_vertex place e s =
     (case e of
        Node i \<Rightarrow> if dget (nodes s) i = None then Inl KeyError else Inr (set_position i (place e) s)
      | Channel c \<Rightarrow> if dget (channels s) c = None then Inl KeyError else Inr (set_channel_position c (place e) s))"

definition start_scan :: "scene \<Rightarrow> scan" where
  "start_scan s = \<lparr>view = s, layout_graph = \<lparr>vertices = [], edges = []\<rparr>, trait_table = (netdevice_traits, [])\<rparr>"

definition scan_topology :: "layout \<Rightarrow> topology \<Rightarrow> scene \<Rightarrow> py_exn + scene" where
  "scan_topology layout net s =
     rbind (foldM (scan_node net) [0..<length (node_devices net)] (start_scan s)) (\<lambda>k.
       foldM (place_vertex (layout (layout_graph k))) (vertices (layout_graph k)) (view k))"

section \<open>Which devices are wired\<close>

definition wired :: "device \<Rightarrow> bool" where
  "wired d \<longleftrightarrow>
     (case dget netdevice_traits (dev_type d) of
        None \<Rightarrow> False
      | Some t \<Rightarrow> is_wireless t \<noteq> Some True \<and> \<not> is_virtual t)"

text \<open>The table changes during the scan, but not what it says of a type.\<close>

definition traits_of :: "trait_table \<Rightarrow> string \<Rightarrow> traits" where
  "traits_of tab ty = fst (lookup_netdevice_traits ty tab)"

definition table_ok :: "trait_table \<Rightarrow> bool" where
  "table_ok tab \<longleftrightarrow> (\<forall>ty. traits_of tab ty = traits_of (netdevice_traits, []) ty)"

lemma lookup_table:
  assumes "lookup_netdevice_traits (dev_type d) tab = (t, tab')" and "table_ok tab"
  shows "table_ok tab'" and "wired d \<longleftrightarrow> is_wireless t \<noteq> Some True \<and> \<not> is_virtual t"
proof -
  have "traits_of tab' ty = traits_of tab ty" for ty
    using assms(1)
    by (cases "ty = dev_type d") (auto simp: lookup_netdevice_traits_def traits_of_def Let_def split: prod.splits option.splits)
  with assms(2) show "table_ok tab'" by (simp add: table_ok_def)
  have "t = traits_of (netdevice_traits, []) (dev_type d)"
    using assms by (metis fst_conv table_ok_def traits_of_def)
  then show "wired d \<longleftrightarrow> is_wireless t \<noteq> Some True \<and> \<not> is_virtual t"
    by (simp add: traits_of_def lookup_netdevice_traits_def wired_def Let_def split: option.split)
qed

section \<open>What the operations keep\<close>

definition ends :: "scene \<Rightarrow> (nat \<times> endpoint) list" where
  "ends s = map (\<lambda>l. (node1 l, node2 l)) (wires s)"

lemma ends_update_points [simp]: "ends (fold update_points ws s) = ends s"
proof (induction ws arbitrary: s)
  case (Cons w ws)
  have "ends (update_points w s) = ends s"
    by (cases "w < length (wires s)")
      (simp_all add: ends_def update_points_def Let_def map_update list_update_same_conv list_update_beyond)
  with Cons show ?case by simp
qed simp

lemma ends_update_node [simp]: "ends (update_node i f s) = ends s"
  by (simp add: ends_def)

lemma ends_set_position [simp]: "ends (set_position i p s) = ends s"
proof -
  have "ends (s\<lparr>bounds := b\<rparr>) = ends s" for s b by (simp add: ends_def)
  then show ?thesis by (simp add: set_position_def Let_def)
qed

lemma ends_change [simp]: "ends (change i f s) = ends s"
  by (simp add: change_def update_appearance_def Let_def split: option.split)

lemma ends_set_channel_position [simp]: "ends (set_channel_position c p s) = ends s"
proof -
  have "ends (s\<lparr>channels := d\<rparr>) = ends s" for d by (simp add: ends_def)
  then show ?thesis by (simp add: set_channel_position_def split: option.split)
qed

lemma ends_get [simp]: "ends (get_node i s) = ends s" "ends (get_channel c s) = ends s"
  by (simp_all add: get_node_def get_channel_def ends_def split: option.split)

lemma ends_create_link [simp]: "ends (create_link i e s) = ends s @ [(i, e)]"
  by (simp add: create_link_def ends_def Let_def)

lemma exists_simps [simp]:
  "exists (set_position i p s) e = exists s e" "exists (change i f s) e = exists s e"
  "exists (get_node i s) e \<longleftrightarrow> e = Node i \<or> exists s e" "exists (get_channel c s) e \<longleftrightarrow> e = Channel c \<or> exists s e"
  "exists (create_link i d s) e = exists s e" "exists (set_channel_position c p s) e = exists s e"
proof -
  show p: "exists (set_position i p s) e = exists s e" for i p s
    by (simp add: exists_def split: endpoint.split)
  show "exists (change i f s) e = exists s e"
    by (simp add: change_def update_appearance_def Let_def p split: option.split)
  have "exists (s\<lparr>wires := l\<rparr>) e = exists s e" for s l by (simp add: exists_def split: endpoint.split)
  then show "exists (create_link i d s) e = exists s e" by (simp add: create_link_def Let_def)
qed (auto simp: get_node_def get_channel_def set_channel_position_def exists_def split: endpoint.split option.split)

lemma position_set_position [simp]:
  "get_position (set_position i p s) e = (if e = Node i \<and> exists s e then p else get_position s e)"
  by (cases e) (auto simp: get_position.simps exists_def split: option.split)

lemma position_change:
  assumes "\<And>n. center (f n) = center n"
  shows "get_position (change i f s) e = get_position s e"
proof -
  have up: "get_position (update_node i g u) e = get_position u e" if "\<And>n. center (g n) = center n" for g u
    using that by (rule get_position_keep)
  have here: "center n = get_position u (Node i)" if "dget (nodes u) i = Some n" for u n
    using that by (simp add: get_position.simps)
  have "get_position (update_appearance i u) e = get_position u e" for u
    by (auto simp: update_appearance_def Let_def up here split: option.split)
  with up [OF assms] show ?thesis by (simp add: change_def)
qed

lemma position_simps [simp]:
  "get_position (set_color i c s) e = get_position s e" "get_position (get_node i s) e = get_position s e"
  "get_position (get_channel c' s) e = get_position s e" "get_position (create_link i d s) e = get_position s e"
proof -
  show "get_position (set_color i c s) e = get_position s e" unfolding set_color_def by (rule position_change) simp
  have "get_position (s\<lparr>wires := l\<rparr>) e = get_position s e" for l by (rule same_ends) simp_all
  then show "get_position (create_link i d s) e = get_position s e" by (simp add: create_link_def Let_def)
qed (cases e; auto simp: get_node_def get_channel_def get_position.simps split: option.split)+

lemma set_color_simps [simp]: "ends (set_color i c s) = ends s" "exists (set_color i c s) e = exists s e"
  by (simp_all add: set_color_def)

lemma position_set_channel [simp]:
  "get_position (set_channel_position c p s) e = (if e = Channel c \<and> exists s e then p else get_position s e)"
  by (cases e) (auto simp: set_channel_position_def get_position.simps exists_def split: option.split)

lemma vertices_add [simp]:
  "set (vertices (add_vertex e g)) = insert e (set (vertices g))" "set (vertices (add_edge d e g)) = insert d (insert e (set (vertices g)))"
  by (auto simp: add_vertex_def add_edge_def Let_def)

section \<open>The links\<close>

definition device_links :: "topology \<Rightarrow> nat \<Rightarrow> device \<Rightarrow> (nat \<times> endpoint) list" where
  "device_links net i d =
     (case dev_channel d of
        Some c \<Rightarrow>
          if \<not> wired d then []
          else if length (channel_nodes net c) > 2 then [(i, Channel c)]
          else map (\<lambda>j. (i, Node j)) (filter (\<lambda>j. j \<noteq> i) (channel_nodes net c))
      | None \<Rightarrow> [])"

definition node_links :: "topology \<Rightarrow> nat \<Rightarrow> (nat \<times> endpoint) list" where
  "node_links net i = concat (map (device_links net i) (node_devices net ! i))"

text \<open>What the scan keeps: the vertices exist and no node among them has a position of its own, nodes with a position are at
  it, the others and the channels, as far as they are not yet laid out, at the origin.\<close>

definition mobile :: "topology \<Rightarrow> endpoint \<Rightarrow> bool" where
  "mobile net e = (case e of Node i \<Rightarrow> dget (positions net) i \<noteq> None | Channel c \<Rightarrow> False)"

definition scan_inv :: "topology \<Rightarrow> nat set \<Rightarrow> scan \<Rightarrow> bool" where
  "scan_inv net done k \<longleftrightarrow>
     table_ok (trait_table k) \<and>
     (\<forall>e \<in> set (vertices (layout_graph k)). exists (view k) e \<and> \<not> mobile net e) \<and>
     (\<forall>i \<in> done. exists (view k) (Node i) \<and>
        (case dget (positions net) i of
           Some p \<Rightarrow> get_position (view k) (Node i) = point_to_canvas p
         | None \<Rightarrow> Node i \<in> set (vertices (layout_graph k))))"

lemma scan_inv_grows:
  assumes "scan_inv net D k" and "table_ok (trait_table k')"
    and "\<And>e. exists (view k) e \<Longrightarrow> exists (view k') e" and "\<And>i. i \<in> D \<Longrightarrow> get_position (view k') (Node i) = get_position (view k) (Node i)"
    and "set (vertices (layout_graph k)) \<subseteq> set (vertices (layout_graph k'))"
    and "\<And>e. e \<in> set (vertices (layout_graph k')) - set (vertices (layout_graph k)) \<Longrightarrow> exists (view k') e \<and> \<not> mobile net e"
  shows "scan_inv net D k'"
  unfolding scan_inv_def
proof (intro conjI ballI)
  fix e assume "e \<in> set (vertices (layout_graph k'))"
  then show "exists (view k') e" and "\<not> mobile net e"
    using assms(1,3,6) by (auto simp: scan_inv_def)
next
  fix i assume "i \<in> D"
  then show "exists (view k') (Node i)" and "case dget (positions net) i of
      Some p \<Rightarrow> get_position (view k') (Node i) = point_to_canvas p
    | None \<Rightarrow> Node i \<in> set (vertices (layout_graph k'))"
    using assms(1,3,4,5) by (auto simp: scan_inv_def split: option.splits)
qed (rule assms(2))

lemma scan_link_channel:
  assumes "scan_inv net D k"
  shows "scan_inv net D (link_channel net i c k)" and "ends (view (link_channel net i c k)) = ends (view k) @ [(i, Channel c)]"
proof -
  show "scan_inv net D (link_channel net i c k)"
    by (rule scan_inv_grows [OF assms]) (use assms in \<open>auto simp: link_channel_def scan_inv_def mobile_def split: if_splits\<close>)
qed (simp add: link_channel_def)

lemma scan_link_node:
  assumes "scan_inv net D k"
  shows "scan_inv net D (link_node net i j k)"
    and "ends (view (link_node net i j k)) = ends (view k) @ (if j = i then [] else [(i, Node j)])"
proof -
  show "scan_inv net D (link_node net i j k)"
    by (rule scan_inv_grows [OF assms]) (use assms in \<open>auto simp: link_node_def scan_inv_def mobile_def Let_def split: if_splits\<close>)
qed (simp add: link_node_def Let_def)

lemma scan_link_nodes:
  "scan_inv net D k \<Longrightarrow> scan_inv net D (fold (link_node net i) js k) \<and>
     ends (view (fold (link_node net i) js k)) = ends (view k) @ map (\<lambda>j. (i, Node j)) (filter (\<lambda>j. j \<noteq> i) js)"
  by (induction js arbitrary: k) (simp_all add: scan_link_node)

lemma scan_device_ok:
  assumes "scan_inv net D k"
  shows "scan_device net i d k = Inl AttributeError \<and> wired d \<and> dev_channel d = None \<or>
    (\<exists>k'. scan_device net i d k = Inr k' \<and> scan_inv net D k' \<and> ends (view k') = ends (view k) @ device_links net i d \<and>
       (wired d \<longrightarrow> dev_channel d \<noteq> None))"
proof -
  obtain t tab where l: "lookup_netdevice_traits (dev_type d) (trait_table k) = (t, tab)" by (metis surj_pair)
  have "table_ok (trait_table k)" using assms by (simp add: scan_inv_def)
  with lookup_table [OF l] have w: "table_ok tab" "wired d \<longleftrightarrow> is_wireless t \<noteq> Some True \<and> \<not> is_virtual t" by auto
  have k: "scan_inv net D (k\<lparr>trait_table := tab\<rparr>)" using assms w(1) by (auto simp: scan_inv_def split: option.splits)
  show ?thesis
  proof (cases "wired d")
    case False
    with l k w show ?thesis by (auto simp: scan_device_def device_links_def Let_def split: option.split)
  next
    case True
    show ?thesis
    proof (cases "dev_channel d")
      case None
      with True l w show ?thesis by (simp add: scan_device_def Let_def)
    next
      case (Some c)
      with True l w k scan_link_channel [OF k, of i c] scan_link_nodes [OF k, of i "channel_nodes net c"] show ?thesis
        by (auto simp: scan_device_def device_links_def Let_def)
    qed
  qed
qed

lemma scan_show_node:
  assumes "scan_inv net D k"
  shows "scan_inv net (insert i D) (show_node net i k)" and "ends (view (show_node net i k)) = ends (view k)"
proof -
  have old: "scan_inv net (D - {i}) (show_node net i k)"
  proof -
    have k: "scan_inv net (D - {i}) k" using assms by (auto simp: scan_inv_def)
    show ?thesis
      by (rule scan_inv_grows [OF k]; cases "dget (positions net) i")
        (use k in \<open>auto simp: show_node_def scan_inv_def mobile_def Let_def\<close>)
  qed
  moreover have "exists (view (show_node net i k)) (Node i) \<and>
      (case dget (positions net) i of Some p \<Rightarrow> get_position (view (show_node net i k)) (Node i) = point_to_canvas p
       | None \<Rightarrow> Node i \<in> set (vertices (layout_graph (show_node net i k))))"
    by (auto simp: show_node_def Let_def split: option.split)
  ultimately show "scan_inv net (insert i D) (show_node net i k)"
    unfolding scan_inv_def by blast
  show "ends (view (show_node net i k)) = ends (view k)" by (simp add: show_node_def Let_def split: option.split)
qed

text \<open>A device that is wired needs a channel.\<close>

definition attached :: "device \<Rightarrow> bool" where
  "attached d \<longleftrightarrow> (wired d \<longrightarrow> dev_channel d \<noteq> None)"

lemma scan_devices:
  "scan_inv net D k \<Longrightarrow>
   \<not> list_all attached ds \<and> foldM (scan_device net i) ds k = Inl AttributeError \<or>
   list_all attached ds \<and>
   (\<exists>k'. foldM (scan_device net i) ds k = Inr k' \<and> scan_inv net D k' \<and> ends (view k') = ends (view k) @ concat (map (device_links net i) ds))"
proof (induction ds arbitrary: k)
  case (Cons d ds)
  from scan_device_ok [OF Cons.prems, of i d] show ?case
  proof (elim disjE exE conjE)
    fix k' assume "scan_device net i d k = Inr k'" "scan_inv net D k'" "ends (view k') = ends (view k) @ device_links net i d"
      "wired d \<longrightarrow> dev_channel d \<noteq> None"
    with Cons.IH [of k'] show ?thesis by (auto simp: attached_def)
  qed (simp add: attached_def)
qed simp

lemma scan_nodes:
  "scan_inv net D k \<Longrightarrow>
   \<not> list_all (\<lambda>i. list_all attached (node_devices net ! i)) is \<and> foldM (scan_node net) is k = Inl AttributeError \<or>
   list_all (\<lambda>i. list_all attached (node_devices net ! i)) is \<and>
   (\<exists>k'. foldM (scan_node net) is k = Inr k' \<and> scan_inv net (D \<union> set is) k' \<and> ends (view k') = ends (view k) @ concat (map (node_links net) is))"
proof (induction "is" arbitrary: D k)
  case (Cons i "is")
  note shown = scan_show_node [OF Cons.prems, of i]
  from scan_devices [OF shown(1), of "node_devices net ! i" i] show ?case
  proof (elim disjE exE conjE)
    fix k' assume "foldM (scan_device net i) (node_devices net ! i) (show_node net i k) = Inr k'" "scan_inv net (insert i D) k'"
      "ends (view k') = ends (view (show_node net i k)) @ concat (map (device_links net i) (node_devices net ! i))"
      "list_all attached (node_devices net ! i)"
    with Cons.IH [of "insert i D" k'] shown(2) show ?thesis by (auto simp: scan_node_def node_links_def)
  qed (simp add: scan_node_def)
qed simp

lemma place_vertices:
  "\<forall>e \<in> set vs. exists s e \<Longrightarrow>
   \<exists>t. foldM (place_vertex f) vs s = Inr t \<and> ends t = ends s \<and> (\<forall>e. get_position t e = (if e \<in> set vs then f e else get_position s e))"
proof (induction vs arbitrary: s)
  case (Cons e vs)
  define u where "u = (case e of Node i \<Rightarrow> set_position i (f e) s | Channel c \<Rightarrow> set_channel_position c (f e) s)"
  have u: "place_vertex f e s = Inr u" using Cons.prems by (auto simp: place_vertex_def u_def exists_def split: endpoint.splits)
  have "ends u = ends s" "exists u e' = exists s e'" "get_position u e' = (if e' = e then f e else get_position s e')" for e'
    using Cons.prems by (cases e; auto simp: u_def)+
  with Cons.IH [of u] Cons.prems u show ?case by auto
qed simp

lemma scan_start: "scan_inv net {} (start_scan s)"
  by (simp add: scan_inv_def start_scan_def table_ok_def)

lemma all_attached: "list_all (\<lambda>i. list_all attached (node_devices net ! i)) [0..<length (node_devices net)] \<longleftrightarrow>
    list_all (list_all attached) (node_devices net)"
  by (auto simp: list_all_length)

lemma scan_result:
  assumes "list_all (list_all attached) (node_devices net)"
  shows "\<exists>t g. scan_topology layout net s = Inr t \<and> ends t = ends s @ concat (map (node_links net) [0..<length (node_devices net)]) \<and>
    (\<forall>i < length (node_devices net). get_position t (Node i) =
       (case dget (positions net) i of Some p \<Rightarrow> point_to_canvas p | None \<Rightarrow> layout g (Node i)))"
proof -
  obtain k where k: "foldM (scan_node net) [0..<length (node_devices net)] (start_scan s) = Inr k"
    "scan_inv net ({} \<union> set [0..<length (node_devices net)]) k"
    "ends (view k) = ends s @ concat (map (node_links net) [0..<length (node_devices net)])"
    using scan_nodes [OF scan_start, of net "[0..<length (node_devices net)]" s] assms
    by (auto simp: all_attached start_scan_def)
  have vs: "\<forall>e \<in> set (vertices (layout_graph k)). exists (view k) e" using k(2) by (simp add: scan_inv_def)
  obtain t where t: "foldM (place_vertex (layout (layout_graph k))) (vertices (layout_graph k)) (view k) = Inr t"
    "ends t = ends (view k)"
    "\<forall>e. get_position t e = (if e \<in> set (vertices (layout_graph k)) then layout (layout_graph k) e else get_position (view k) e)"
    using place_vertices [OF vs, of "layout (layout_graph k)"] by blast
  have "get_position t (Node i) = (case dget (positions net) i of Some p \<Rightarrow> point_to_canvas p | None \<Rightarrow> layout (layout_graph k) (Node i))"
    if "i < length (node_devices net)" for i
  proof -
    have "case dget (positions net) i of Some p \<Rightarrow> get_position (view k) (Node i) = point_to_canvas p
        | None \<Rightarrow> Node i \<in> set (vertices (layout_graph k))"
      and "\<forall>e \<in> set (vertices (layout_graph k)). \<not> mobile net e"
      using k(2) that by (simp_all add: scan_inv_def)
    with t(3) show ?thesis by (auto simp: mobile_def split: option.splits)
  qed
  moreover have "scan_topology layout net s = Inr t" using k(1) t(1) by (simp add: scan_topology_def)
  ultimately show ?thesis using t(2) k(3) by auto
qed

lemma scan_error:
  assumes "\<not> list_all (list_all attached) (node_devices net)"
  shows "scan_topology layout net s = Inl AttributeError"
  using scan_nodes [OF scan_start, of net "[0..<length (node_devices net)]" s] assms
  by (simp add: scan_topology_def all_attached)

text \<open>C30. The links the scan draws are those of the wired devices, in the order of the nodes and of their devices: from the
  node to the channel where more than two devices share it, and to every other node of the channel otherwise.  A wired
  device without a channel, and only that, ends the scan with an error.\<close>

theorem scan_draws_links:
  "map_sum id ends (scan_topology layout net s) =
     (if list_all (list_all attached) (node_devices net)
      then Inr (ends s @ concat (map (node_links net) [0..<length (node_devices net)]))
      else Inl AttributeError)"
  using scan_result [of net layout s] scan_error [of net layout s] by (auto split: if_splits)

text \<open>After the scan every node is where it belongs: one with a mobility model at its position in the simulation, the
  others where the layout of the graph has put them.\<close>

theorem scan_places_nodes:
  assumes "scan_topology layout net s = Inr t" and "i < length (node_devices net)"
  shows "\<exists>g. get_position t (Node i) = (case dget (positions net) i of Some p \<Rightarrow> point_to_canvas p | None \<Rightarrow> layout g (Node i))"
proof -
  have "list_all (list_all attached) (node_devices net)"
    using assms(1) scan_error [of net layout s] by (cases "list_all (list_all attached) (node_devices net)") auto
  from scan_result [OF this, of layout s] assms show ?thesis by auto
qed

text \<open>Two nodes joined by a point-to-point channel, one of them with a position.\<close>

definition small_net :: topology where
  "small_net =
     (let d = \<lparr>dev_type = ''PointToPointNetDevice'', dev_channel = Some 0\<rparr>
      in \<lparr>node_devices = [[d], [d]], channel_nodes = (\<lambda>_. [0, 1]), positions = [(1, (2, 5))]\<rparr>)"

lemma small_net_attached: "list_all (list_all attached) (node_devices small_net)"
  by (simp add: small_net_def attached_def Let_def)

text \<open>Each such channel is drawn by two links, one over the other.\<close>

lemma point_to_point_twice:
  "map_sum id ends (scan_topology layout small_net (new_scene 2 True)) = Inr [(0, Node 1), (1, Node 0)]"
proof -
  have wired: "wired \<lparr>dev_type = ''PointToPointNetDevice'', dev_channel = Some 0\<rparr>" by (simp add: wired_def netdevice_traits_def)
  have "node_links small_net 0 = [(0, Node 1)]" "node_links small_net 1 = [(1, Node 0)]"
    by (simp_all add: node_links_def device_links_def small_net_def wired Let_def)
  moreover have "length (node_devices small_net) = 2" "ends (new_scene 2 True) = []"
    by (simp_all add: small_net_def ends_def new_scene_def set_show_transmissions_mode_def Let_def)
  moreover have "[0..<2] = [0, 1 :: nat]" by (simp add: upt_rec)
  moreover obtain t where "scan_topology layout small_net (new_scene 2 True) = Inr t"
    "ends t = ends (new_scene 2 True) @ concat (map (node_links small_net) [0..<length (node_devices small_net)])"
    using scan_result [OF small_net_attached, of layout "new_scene 2 True"] by blast
  ultimately show ?thesis by simp
qed

lemma scan_places_nodes_witness:
  "map_sum id (\<lambda>t. (get_position t (Node 0), get_position t (Node 1))) (scan_topology (\<lambda>g e. (7, 8)) small_net (new_scene 2 True)) =
     Inr ((7, 8), (6, 15))"
proof -
  obtain t where t: "scan_topology (\<lambda>g e. (7, 8)) small_net (new_scene 2 True) = Inr t"
    using scan_result [OF small_net_attached, of "\<lambda>g e. (7, 8)" "new_scene 2 True"] by blast
  have "length (node_devices small_net) = 2" "positions small_net = [(1, (2, 5))]" by (simp_all add: small_net_def Let_def)
  with scan_places_nodes [OF t, of 0] scan_places_nodes [OF t, of 1] t show ?thesis
    by (simp add: point_to_canvas_def pixels_per_meter_def)
qed

end
