(* ===== verification/Viz_Scene.thy ===== *)
theory Viz_Scene
  imports Viz_Nodes "HOL-Library.Multiset"
begin

text \<open>
  What holds of the scene of \<open>Viz_Nodes\<close> after any sequence of operations: what is on the canvas, what is selected and
  whose transmissions are followed, and how a node is dragged.
\<close>

section \<open>The selection\<close>

text \<open>The node selected exists and is the one that is marked; the nodes of interest are those of the mode, where all nodes are the
  \<open>k\<close> nodes there were when the mode was set.\<close>

definition marked_ok :: "scene \<Rightarrow> bool" where
  "marked_ok s \<longleftrightarrow>
     (\<forall>i n. dget (nodes s) i = Some n \<longrightarrow> (selected n \<longleftrightarrow> selected_node s = Some i)) \<and>
     (\<forall>i. selected_node s = Some i \<longrightarrow> dget (nodes s) i \<noteq> None)"

definition interest_ok :: "nat \<Rightarrow> scene \<Rightarrow> bool" where
  "interest_ok k s \<longleftrightarrow>
     (case show_mode s of All_Nodes \<Rightarrow> interest s = [0..<k] | No_Node \<Rightarrow> interest s = []
      | Selected_Node \<Rightarrow> interest s = selected_interest s)"

text \<open>What an operation that has nothing to do with the selection keeps.\<close>

definition same_selection :: "scene \<Rightarrow> scene \<Rightarrow> bool" where
  "same_selection s t \<longleftrightarrow>
     (\<forall>i. map_option selected (dget (nodes t) i) = map_option selected (dget (nodes s) i)) \<and>
     selected_node t = selected_node s \<and> show_mode t = show_mode s \<and> interest t = interest s \<and> bounds_work t = bounds_work s"

lemma same_selection_refl [simp]: "same_selection s s"
  by (simp add: same_selection_def)

lemma same_selection_trans: "same_selection s t \<Longrightarrow> same_selection t u \<Longrightarrow> same_selection s u"
  by (simp add: same_selection_def)

lemma marked_iff:
  "marked_ok s \<longleftrightarrow>
     (\<forall>i. map_option selected (dget (nodes s) i) \<in> {None, Some (selected_node s = Some i)}) \<and>
     (\<forall>i. selected_node s = Some i \<longrightarrow> map_option selected (dget (nodes s) i) \<noteq> None)"
proof -
  have "map_option selected (dget (nodes s) i) \<in> {None, Some b} \<longleftrightarrow> (\<forall>n. dget (nodes s) i = Some n \<longrightarrow> (selected n \<longleftrightarrow> b))" for i b
    by (cases "dget (nodes s) i") auto
  then show ?thesis by (simp add: marked_ok_def)
qed

lemma same_selection_ok:
  assumes "same_selection s t"
  shows "marked_ok s \<Longrightarrow> marked_ok t" and "interest_ok k s \<Longrightarrow> interest_ok k t"
  using assms by (simp_all add: marked_iff same_selection_def interest_ok_def selected_interest_def del: insert_iff split: mode.split_asm)

lemma same_update_node: "(\<And>n. selected (f n) = selected n) \<Longrightarrow> same_selection s (update_node i f s)"
  by (simp add: same_selection_def option.map_comp comp_def)

lemma same_set_position: "same_selection s (set_position i p s)"
  by (simp add: same_selection_def option.map_comp comp_def)

lemma same_update_appearance: "same_selection s (update_appearance i s)"
proof -
  let ?t = "update_node i (show_label \<circ> appearance) s"
  have t: "same_selection s ?t" by (rule same_update_node) simp
  moreover have "same_selection s (set_position i p ?t)" for p
    using t same_set_position by (rule same_selection_trans)
  ultimately show ?thesis by (simp add: update_appearance_def Let_def split: option.split)
qed

lemma same_change: "(\<And>n. selected (f n) = selected n) \<Longrightarrow> same_selection s (change i f s)"
  unfolding change_def by (blast intro: same_selection_trans same_update_node same_update_appearance)

lemma same_set_channel_position: "same_selection s (set_channel_position c p s)"
  by (simp add: same_selection_def set_channel_position_def split: option.split)

lemma same_update_node_positions: "same_selection s (update_node_positions s)"
proof -
  have "same_selection s (fold (\<lambda>i s. case dget (mobility s) i of None \<Rightarrow> s | Some p \<Rightarrow> set_position i (point_to_canvas p) s) is s)" for "is"
  proof (induction "is" arbitrary: s)
    case (Cons i "is")
    then show ?case by (auto split: option.split intro: same_selection_trans same_set_position)
  qed simp
  then show ?thesis by (simp add: update_node_positions_def)
qed

lemma same_add_link: "same_selection s (add_link e w s)"
  by (cases e) (simp_all add: same_selection_def add_link_def option.map_comp comp_def split: option.split)

lemma same_create_link: "same_selection s (create_link i e s)"
proof -
  have "same_selection s (s\<lparr>wires := l\<rparr>)" for l by (simp add: same_selection_def)
  then show ?thesis unfolding create_link_def Let_def by (blast intro: same_selection_trans same_add_link)
qed

text \<open>A new node is not selected.\<close>

lemma marked_get_end: "marked_ok s \<Longrightarrow> marked_ok (get_end e s)" and interest_get_end: "interest_ok k s \<Longrightarrow> interest_ok k (get_end e s)"
  and works_get_end: "bounds_work (get_end e s) = bounds_work s"
  by (auto simp: marked_ok_def interest_ok_def selected_interest_def get_end_def get_node_def get_channel_def
      split: endpoint.split option.split mode.splits)

lemma set_selected_fields [simp]:
  "map_option selected (dget (nodes (set_selected i b s)) j) =
     (if j = i then map_option (\<lambda>_. b) (dget (nodes s) i) else map_option selected (dget (nodes s) j))"
  "selected_node (set_selected i b s) = selected_node s" "show_mode (set_selected i b s) = show_mode s"
  "interest (set_selected i b s) = interest s" "bounds_work (set_selected i b s) = bounds_work s"
  using same_update_appearance [of "update_node i (\<lambda>n. n\<lparr>selected := b\<rparr>) s" i]
  by (simp_all add: set_selected_def change_def same_selection_def option.map_comp comp_def)

lemma marked_select_node:
  assumes "select_node k s = Inr t" and "marked_ok s"
  shows "marked_ok t \<and> (interest_ok k' s \<longrightarrow> interest_ok k' t) \<and> bounds_work t = bounds_work s"
proof -
  obtain i where i: "find_selection k s = Inr i" and ex: "\<And>j. i = Some j \<Longrightarrow> dget (nodes s) j \<noteq> None"
    using assms(1) by (auto simp: select_node_def find_selection_def split: selector.splits if_splits)
  show ?thesis
  proof (cases "i = selected_node s")
    case True
    with assms i show ?thesis by (simp add: select_node_def)
  next
    case False
    define s1 where "s1 = (case selected_node s of None \<Rightarrow> s | Some j \<Rightarrow> set_selected j False s)"
    define s2 where "s2 = (case i of None \<Rightarrow> s1\<lparr>selected_node := i\<rparr> | Some j \<Rightarrow> set_selected j True (s1\<lparr>selected_node := i\<rparr>))"
    have t: "t = (if show_mode s2 = Selected_Node then s2\<lparr>interest := selected_interest s2\<rparr> else s2)"
      using assms(1) i False by (auto simp: select_node_def Let_def simp flip: s1_def s2_def)
    have old: "map_option selected (dget (nodes s) j) \<in> {None, Some (selected_node s = Some j)}" for j
      using assms(2) by (simp add: marked_iff)
    have first: "map_option selected (dget (nodes s1) j) = map_option (\<lambda>_. False) (dget (nodes s) j)" for j
      using old [of j] by (auto simp: s1_def split: option.splits)
    then have "map_option (\<lambda>_. b) (dget (nodes s1) j) = map_option (\<lambda>_. b) (dget (nodes s) j)" for b j
      by (cases "dget (nodes s1) j"; cases "dget (nodes s) j") (metis option.simps)+
    with first have marked: "map_option selected (dget (nodes s2) j) = map_option (\<lambda>_. i = Some j) (dget (nodes s) j)" for j
      by (auto simp: s2_def split: option.splits)
    have sel: "selected_node s2 = i" "show_mode s2 = show_mode s" "interest s2 = interest s" "bounds_work s2 = bounds_work s"
      by (auto simp: s1_def s2_def split: option.splits)
    have "marked_ok s2" unfolding marked_iff using marked sel(1) ex by (auto split: option.splits)
    then show ?thesis
      by (auto simp: t marked_ok_def interest_ok_def selected_interest_def sel split: mode.splits)
  qed
qed

lemma same_moved: "same_selection s (set_position i p (s\<lparr>mobility := m\<rparr>))"
  by (rule same_selection_trans [OF _ same_set_position]) (simp add: same_selection_def)

text \<open>What is chosen, and that the library stays the same.\<close>

definition choice_ok :: "bool \<Rightarrow> nat \<Rightarrow> scene \<Rightarrow> bool" where
  "choice_ok works k s \<longleftrightarrow> marked_ok s \<and> interest_ok k s \<and> bounds_work s = works"

lemma choice_same:
  assumes "same_selection s t" and "choice_ok works k s"
  shows "choice_ok works k t"
proof -
  have "bounds_work t = bounds_work s" using assms(1) by (simp add: same_selection_def)
  with assms(2) same_selection_ok [OF assms(1)] show ?thesis by (simp add: choice_ok_def)
qed

lemma choice_call:
  assumes "perform op s = Inr t" and "choice_ok works k s" and "op \<notin> range Event"
  shows "choice_ok works (nodes_counted op k) t"
proof -
  have same: "choice_ok works k t" if "same_selection s t"
    using that assms(2) by (rule choice_same)
  have change: "same_selection s (set_size i r s)" "same_selection s (set_color i c s)" "same_selection s (set_highlighted i b s)"
    "same_selection s (change i (\<lambda>n. n\<lparr>label := l\<rparr>) s)" "same_selection s (change i (\<lambda>n. n\<lparr>icon := g\<rparr>) s)" for i r c b l g
    unfolding set_size_def set_color_def set_highlighted_def by (rule same_change; simp)+
  show ?thesis
  proof (cases op)
    case (Get_Node i)
    then have "t = get_end (Node i) s" using assms(1) by (simp add: get_end_def)
    then show ?thesis using assms(2) Get_Node by (simp add: choice_ok_def marked_get_end interest_get_end works_get_end)
  next
    case (Get_Channel c)
    then have "t = get_end (Channel c) s" using assms(1) by (simp add: get_end_def)
    then show ?thesis using assms(2) Get_Channel by (simp add: choice_ok_def marked_get_end interest_get_end works_get_end)
  next
    case (Link i e)
    then have "t = create_link i e (get_end e (get_end (Node i) s))" using assms(1) by (simp add: get_end_def)
    moreover have "choice_ok works k (get_end e (get_end (Node i) s))"
      using assms(2) by (simp add: choice_ok_def marked_get_end interest_get_end works_get_end)
    moreover note same_create_link [of "get_end e (get_end (Node i) s)" i e]
    ultimately have "choice_ok works k t"
      using choice_same by blast
    then show ?thesis by (simp add: Link)
  next
    case (Select c)
    with assms marked_select_node [of _ s t k] show ?thesis by (auto simp: choice_ok_def)
  next
    case (Set_Mode m n)
    then show ?thesis using assms
      by (auto simp: choice_ok_def set_show_transmissions_mode_def Let_def marked_ok_def interest_ok_def
          selected_interest_def split: mode.splits)
  next
    case (Motion i p)
    then have "same_selection s t" using assms(1)
      by (auto simp: node_drag_motion_def Let_def same_moved split: option.splits)
    from same [OF this] show ?thesis by (simp add: Motion)
  next
    case (Set_Icon i d w h al)
    with assms(1) have "same_selection s t"
      by (auto simp: set_svg_icon_def Let_def change split: if_splits option.splits)
    from same [OF this] show ?thesis by (simp add: Set_Icon)
  next
    case (Begin_Drag i p)
    with assms(1) have "same_selection s t"
      by (auto simp: begin_node_drag_def same_selection_def split: if_splits option.splits)
    from same [OF this] show ?thesis by (simp add: Begin_Drag)
  next
    case (End_Drag i)
    with assms(1) have "same_selection s t"
      by (auto simp: end_node_drag_def same_selection_def split: option.splits)
    from same [OF this] show ?thesis by (simp add: End_Drag)
  next
    case (Mobility m)
    with assms(1) have "same_selection s t" by (auto simp: same_selection_def)
    from same [OF this] show ?thesis by (simp add: Mobility)
  qed (use assms(1,3) same in \<open>auto simp: set_label_def change same_set_position same_set_channel_position
      same_update_node_positions split: if_splits\<close>)
qed

text \<open>An event does not set the mode.\<close>

lemma choice_perform:
  assumes "perform op s = Inr t" and "choice_ok works k s"
  shows "choice_ok works (nodes_counted op k) t"
proof -
  from event_call [OF assms(1)] obtain call where "perform call s = Inr t" "call \<notin> range Event"
    and count: "nodes_counted call k = nodes_counted op k" by metis
  from choice_call [OF this(1) assms(2) this(2)] show ?thesis by (simp only: count)
qed

lemma choice_run: "foldM perform ops s = Inr t \<Longrightarrow> choice_ok works k s \<Longrightarrow> choice_ok works (last_count ops k) t"
  by (induction ops arbitrary: s k) (auto simp: last_count_def dest: choice_perform)

section \<open>Any sequence of operations\<close>

text \<open>What is on the canvas is an invariant of the scene.\<close>

interpretation canvas: run_invariant perform "new_scene n works" "canvas_inv {}" for n works
proof unfold_locales
  have "links_of (new_scene n works) e = []" for e
    by (simp add: links_of_def new_scene_def set_show_transmissions_mode_def split: endpoint.split)
  then show "canvas_inv {} (new_scene n works)"
    by (simp add: canvas_inv_def nodes_inv_def wires_inv_def)
      (simp add: new_scene_def set_show_transmissions_mode_def in_bounds_def)
qed (rule canvas_perform)

lemma choice_after: "foldM perform ops (new_scene n works) = Inr s \<Longrightarrow> choice_ok works (last_count ops n) s"
  by (erule choice_run) (simp add: choice_ok_def marked_ok_def interest_ok_def new_scene_def set_show_transmissions_mode_def)

text \<open>The parts of an ellipse whose appearance is up to date.\<close>

lemma rgb_kept:
  fixes c a :: "32 word"
  assumes "drop_bit 8 a = 0" and "take_bit 8 a = a"
  shows "drop_bit 8 ((c AND 0xFFFFFF00) OR a) = drop_bit 8 c" and "take_bit 8 ((c AND 0xFFFFFF00) OR a) = a"
proof -
  have mask: "(0xFFFFFF00 :: 32 word) = push_bit 8 (mask 24)" by (simp add: mask_eq_exp_minus_1)
  show "drop_bit 8 ((c AND 0xFFFFFF00) OR a) = drop_bit 8 c"
    unfolding drop_bit_or assms(1) unfolding mask
    by (rule bit_word_eqI) (auto simp: bit_simps dest: bit_imp_le_length)
  show "take_bit 8 ((c AND 0xFFFFFF00) OR a) = a"
    unfolding take_bit_or assms(2) unfolding mask
    by (rule bit_word_eqI) (auto simp: bit_simps)
qed

lemma appearance_parts:
  assumes "appearance n = n"
  shows "radius n = 3 * node_size n" "line_width n = (if selected n then 9 / 10 else 9 / 20) * node_size n"
    "stroke_color n = (if highlighted n then ''yellow'' else ''black'')"
    "drop_bit 8 (fill_color n) = drop_bit 8 (color n)" "take_bit 8 (fill_color n) = (if icon n = None then 0xFF else 0x80)"
proof -
  let ?alpha = "(if icon n \<noteq> None then 0x80 else 0xFF) :: 32 word"
  have "radius (appearance n) = 3 * node_size n"
    "line_width (appearance n) = (if selected n then 9 / 10 else 9 / 20) * node_size n"
    "stroke_color (appearance n) = (if highlighted n then ''yellow'' else ''black'')"
    "fill_color (appearance n) = (color n AND 0xFFFFFF00) OR ?alpha"
    by (simp_all add: appearance_def distance_to_canvas_def pixels_per_meter_def Let_def)
  note parts = this [unfolded assms]
  show "radius n = 3 * node_size n" "line_width n = (if selected n then 9 / 10 else 9 / 20) * node_size n"
    "stroke_color n = (if highlighted n then ''yellow'' else ''black'')" by (rule parts)+
  have "drop_bit 8 ?alpha = 0" "take_bit 8 ?alpha = ?alpha" by simp_all
  note rgb_kept [OF this, of "color n"]
  then show "drop_bit 8 (fill_color n) = drop_bit 8 (color n)" "take_bit 8 (fill_color n) = (if icon n = None then 0xFF else 0x80)"
    unfolding parts(4) by (simp_all split: if_splits)
qed

lemma icon_place:
  assumes "map_option (svg_at p) (icon n) = icon n" and "icon n = Some g"
  shows "sv_place g = (fst p - (1 - fst (align g)) * sv_width g, snd p - (1 - snd (align g)) * sv_height g)"
proof -
  have "sv_place (svg_at p g) = (fst p - (1 - fst (align g)) * sv_width g, snd p - (1 - snd (align g)) * sv_height g)"
    by (simp add: svg_at_def split_beta)
  with assms show ?thesis by simp
qed

text \<open>C26. Whatever happened to the scene, every node is drawn as its state says.  The radius of its ellipse is three pixels for each
  unit of its size; it is filled with the red, green and blue of its colour, opaque, or half transparent when it has an icon; its line
  is 0.3 of the radius wide when it is selected and 0.15 of it otherwise, and yellow when it is highlighted and black otherwise.  Its
  label, if it has one, stands three sizes below its centre.  The corner of its icon is away from its centre by that part of the
  icon's width and height which the alignment leaves.  Where the library can be asked for the bounds of the canvas, it lies within
  them; they grow with the positions (and are not set anew by \<^verbatim>\<open>set_bounds\<close>).\<close>

theorem nodes_drawn:
  assumes "foldM perform ops (new_scene k works) = Inr s" and "dget (nodes s) i = Some n"
  shows "radius n = 3 * node_size n
    \<and> drop_bit 8 (fill_color n) = drop_bit 8 (color n) \<and> take_bit 8 (fill_color n) = (if icon n = None then 0xFF else 0x80)
    \<and> line_width n = (if selected n then 9 / 10 else 9 / 20) * node_size n
    \<and> stroke_color n = (if highlighted n then ''yellow'' else ''black'')
    \<and> label_item n = map_option (\<lambda>t. (t, fst (center n), snd (center n) + 3 * node_size n)) (label n)
    \<and> (\<forall>g. icon n = Some g \<longrightarrow>
          sv_place g = (fst (center n) - (1 - fst (align g)) * sv_width g, snd (center n) - (1 - snd (align g)) * sv_height g))
    \<and> (works \<longrightarrow> fst (fst (bounds s)) \<le> fst (center n) \<and> fst (center n) \<le> fst (snd (bounds s))
          \<and> snd (fst (bounds s)) \<le> snd (center n) \<and> snd (center n) \<le> snd (snd (bounds s)))"
proof -
  from canvas.after [OF assms(1)] assms(2) have n: "iconed n" "drawn n" "bounds_work s \<longrightarrow> in_bounds (bounds s) (center n)"
    by (simp_all add: canvas_inv_def nodes_inv_def)
  from choice_after [OF assms(1)] have "bounds_work s = works" by (simp add: choice_ok_def)
  with n(3) have inside: "works \<longrightarrow> fst (fst (bounds s)) \<le> fst (center n) \<and> fst (center n) \<le> fst (snd (bounds s))
      \<and> snd (fst (bounds s)) \<le> snd (center n) \<and> snd (center n) \<le> snd (snd (bounds s))" by (simp add: in_bounds_def)
  from n(1) have icon: "map_option (svg_at (center n)) (icon n) = icon n" by (simp add: iconed_def)
  from n(2) have app: "appearance n = n" and
    item: "label_item n = map_option (\<lambda>t. (t, fst (center n), snd (center n) + 3 * node_size n)) (label n)"
    by (simp_all only: drawn_def label_place_def mult.commute)
  show ?thesis
    using appearance_parts [OF app] item icon_place [OF icon] inside by blast
qed

text \<open>C27. Whatever happened to the scene, a link is known to exactly its two ends, which exist, and its line, once drawn,
  goes from where the one is to where the other is.\<close>

theorem links_drawn:
  assumes "foldM perform ops (new_scene k works) = Inr s" and "w < length (wires s)"
  shows "let l = wires s ! w in
    (\<forall>e. w \<in> set (links_of s e) \<longleftrightarrow> e \<in> {Node (node1 l), node2 l}) \<and> exists s (Node (node1 l)) \<and> exists s (node2 l) \<and>
    path l \<in> {None, Some (get_position s (Node (node1 l)), get_position s (node2 l))}"
  using canvas.after [OF assms(1)] assms(2)
  by (auto simp: canvas_inv_def wires_inv_def linked_def Let_def)

text \<open>C28. Whatever happened to the scene, the node selected exists and is the only one marked as selected, and the
  simulation follows the transmissions of the nodes the mode says: all nodes there were when the mode was last set, at first by
  \<^verbatim>\<open>Visualizer.__init__\<close>, or none, or the selected one.\<close>

theorem selection_consistent:
  assumes "foldM perform ops (new_scene k works) = Inr s"
  shows "(\<forall>i n. dget (nodes s) i = Some n \<longrightarrow> (selected n \<longleftrightarrow> selected_node s = Some i)) \<and>
    (\<forall>i. selected_node s = Some i \<longrightarrow> dget (nodes s) i \<noteq> None) \<and>
    (case show_mode s of All_Nodes \<Rightarrow> interest s = [0..<last_count ops k] | No_Node \<Rightarrow> interest s = []
     | Selected_Node \<Rightarrow> interest s = (case selected_node s of None \<Rightarrow> [] | Some i \<Rightarrow> [i]))"
  using choice_after [OF assms] unfolding choice_ok_def marked_ok_def interest_ok_def selected_interest_def by blast

section \<open>Dragging a node\<close>

text \<open>A sequence of events of the user.\<close>

definition handle_events :: "pointer_event list \<Rightarrow> scene \<Rightarrow> py_exn + scene" where
  "handle_events es = foldM (\<lambda>e s. perform (Event e) s) es"

text \<open>The moves of the pointer while a node is dragged: the handler stays connected.\<close>

definition moves :: "nat \<Rightarrow> pt list \<Rightarrow> scene \<Rightarrow> scene" where
  "moves i qs s = fold (\<lambda>q u. snd (node_drag_motion i q u)) qs s"

lemma motion_fields:
  "drag (snd (node_drag_motion i q s)) = drag s" "motion (snd (node_drag_motion i q s)) = motion s"
  "dget (mobility (snd (node_drag_motion i q s))) i = None \<longleftrightarrow> dget (mobility s) i = None"
  "dget (nodes (snd (node_drag_motion i q s))) i = None \<longleftrightarrow> dget (nodes s) i = None"
  by (auto simp: node_drag_motion_def Let_def split: option.splits prod.splits)

lemma moves_fields:
  "drag (moves i qs s) = drag s" "motion (moves i qs s) = motion s"
  "dget (mobility (moves i qs s)) i = None \<longleftrightarrow> dget (mobility s) i = None"
  "dget (nodes (moves i qs s)) i = None \<longleftrightarrow> dget (nodes s) i = None"
  unfolding moves_def by (induction qs arbitrary: s) (simp_all add: motion_fields)

lemma handle_moves: "i \<in> set (motion s) \<Longrightarrow> handle_events (map (Move_Pointer i) qs) s = Inr (moves i qs s)"
  unfolding handle_events_def moves_def
  by (induction qs arbitrary: s) (simp_all add: motion_fields case_prod_beta)

text \<open>C29. A node that is dragged with the middle button follows the pointer: however the pointer has moved, the node is
  displaced on the canvas by as much as the pointer is from where it was pressed, and its position in the simulation by a
  third of it; the release ends the drag and disconnects the handler.\<close>

theorem node_follows_pointer:
  assumes "dget (nodes s) i \<noteq> None" and "dget (mobility s) i = Some (x, y)" and "drag s = None"
  shows "\<exists>t u. handle_events (Press_Node 2 i (px, py) # map (Move_Pointer i) (qs @ [(qx, qy)])) s = Inr t \<and>
    get_position t (Node i) = (3 * x + (qx - px), 3 * y + (qy - py)) \<and>
    dget (mobility t) i = Some (x + (qx - px) / 3, y + (qy - py) / 3) \<and>
    handle_event (Release_Node 2 i) t = Inr (True, u) \<and> drag u = None \<and> mset (motion u) = mset (motion s)"
proof -
  let ?b = "begin_node_drag i (px, py) s"
  have b: "drag ?b = Some ((px, py), (x, y), i)" "motion ?b = motion s @ [i]" "mobility ?b = mobility s" "nodes ?b = nodes s"
    using assms(2,3) by (simp_all add: begin_node_drag_def)
  let ?u = "moves i qs ?b" and ?t = "moves i (qs @ [(qx, qy)]) ?b"
  have run: "handle_events (Press_Node 2 i (px, py) # map (Move_Pointer i) (qs @ [(qx, qy)])) s = Inr ?t"
    using handle_moves [of i ?b "qs @ [(qx, qy)]"] b(2) by (simp add: handle_events_def on_node_button_press_event_def)
  have u: "drag ?u = Some ((px, py), (x, y), i)" "motion ?u = motion s @ [i]" "dget (mobility ?u) i \<noteq> None" "dget (nodes ?u) i \<noteq> None"
    using assms(1,2) b by (simp_all add: moves_fields)
  have t: "?t = snd (node_drag_motion i (qx, qy) ?u)" by (simp add: moves_def)
  have "drag ?t = Some ((px, py), (x, y), i)" "motion ?t = motion s @ [i]" using b by (simp_all add: moves_fields)
  then have "drag (end_node_drag i ?t) = None" "mset (motion (end_node_drag i ?t)) = mset (motion s)"
    by (simp_all add: end_node_drag_def)
  moreover have "get_position ?t (Node i) = (3 * x + (qx - px), 3 * y + (qy - py))"
    "dget (mobility ?t) i = Some (x + (qx - px) / 3, y + (qy - py) / 3)"
    using u by (auto simp: t node_drag_motion_def Let_def get_position.simps point_to_canvas_def distance_to_simulation_def
        pixels_per_meter_def algebra_simps)
  ultimately show ?thesis using run by (simp add: on_node_button_release_event_def)
qed

section \<open>Witnesses\<close>

definition small_ops :: "operation list" where
  "small_ops =
     [Get_Node 0, Link 0 (Node 1), Set_Label False 0 ''a'', Set_Icon 0 (Some (4, 2)) (Some 4) None (1 / 2, 1), Move_Node 0 (3, 6), Select (To_Node 0), Set_Mode Selected_Node 2, Highlight 0 True,
      Select (To_Node 1), Mobility [(0, (1, 2))]]"

lemmas scene_defs = small_ops_def new_scene_def get_node_def get_end_def create_link_def add_link_def set_label_def change_def
  update_appearance_def update_node_def set_position_def links_of_def update_points_def get_position.simps select_node_def
  find_selection_def set_selected_def set_show_transmissions_mode_def selected_interest_def place_node_def place_label_def
  show_label_def new_node_def appearance_def extend_def set_svg_icon_def optional_def set_width_def size_changed_def new_svg_def quotient_def
  set_highlighted_def svg_at_def distance_to_canvas_def pixels_per_meter_def Let_def

lemma small_scene:
  obtains s n g where "foldM perform small_ops (new_scene 3 True) = Inr s" and "dget (nodes s) 0 = Some n" and "label n = Some ''a''"
    and "center n = (3, 6)" and "node_size n = 1" and "length (wires s) = 1" and "path (wires s ! 0) = Some ((3, 6), (0, 0))"
    and "selected_node s = Some 1" and "show_mode s = Selected_Node" and "dget (mobility s) 0 = Some (1, 2)" and "drag s = None"
    and "highlighted n" and "icon n = Some g" and "align g = (1 / 2, 1)" and "sv_width g = 12"
  using that by (simp add: scene_defs)

lemma nodes_drawn_witness:
  "\<exists>s n g. foldM perform small_ops (new_scene 3 True) = Inr s \<and> dget (nodes s) 0 = Some n \<and> label_item n = Some (''a'', (3, 9)) \<and>
     stroke_color n = ''yellow'' \<and> radius n = 3 \<and> take_bit 8 (fill_color n) = 0x80 \<and> icon n = Some g \<and> sv_place g = (- 3, 6)"
proof -
  obtain s n g where s: "foldM perform small_ops (new_scene 3 True) = Inr s" "dget (nodes s) 0 = Some n" "label n = Some ''a''"
    "center n = (3, 6)" "node_size n = 1" "highlighted n" "icon n = Some g" "align g = (1 / 2, 1)" "sv_width g = 12"
    by (rule small_scene)
  from nodes_drawn [OF s(1,2)] s show ?thesis by auto
qed

lemma links_drawn_witness:
  "\<exists>s. foldM perform small_ops (new_scene 3 True) = Inr s \<and> length (wires s) = 1 \<and> path (wires s ! 0) = Some ((3, 6), (0, 0)) \<and>
     exists s (Node (node1 (wires s ! 0)))"
proof -
  obtain s where s: "foldM perform small_ops (new_scene 3 True) = Inr s" "length (wires s) = 1" "path (wires s ! 0) = Some ((3, 6), (0, 0))"
    by (rule small_scene)
  with links_drawn [OF s(1), of 0] show ?thesis by (auto simp: Let_def)
qed

lemma selection_consistent_witness:
  "\<exists>s. foldM perform small_ops (new_scene 3 True) = Inr s \<and> selected_node s = Some 1 \<and> interest s = [1] \<and> dget (nodes s) 1 \<noteq> None"
proof -
  obtain s where s: "foldM perform small_ops (new_scene 3 True) = Inr s" "selected_node s = Some 1" "show_mode s = Selected_Node"
    by (rule small_scene)
  with selection_consistent [OF s(1)] show ?thesis by auto
qed

lemma node_follows_pointer_witness:
  "\<exists>s t. foldM perform small_ops (new_scene 3 True) = Inr s \<and>
     handle_events [Press_Node 2 0 (3, 6), Move_Pointer 0 (100, 100), Move_Pointer 0 (6, 0)] s = Inr t \<and> get_position t (Node 0) = (6, 0)"
proof -
  obtain s n where s: "foldM perform small_ops (new_scene 3 True) = Inr s" "dget (nodes s) 0 = Some n" "dget (mobility s) 0 = Some (1, 2)" "drag s = None"
    by (rule small_scene)
  with node_follows_pointer [of s 0 1 2 3 6 "[(100, 100)]" 6 0] show ?thesis by auto
qed

end
