(* ===== verification/Viz_View.thy ===== *)
theory Viz_View
  imports Viz_Scene
begin

text \<open>
  \<^verbatim>\<open>src/visualizer/visualizer/core.py\<close>: what part of the canvas is seen.  The scrolled window has two
  adjustments, the zoom is a third.  What GTK and GooCanvas do with them is a parameter, a record of their functions.
\<close>

section \<open>The camera\<close>

record adjustment =
  lower :: rat
  upper :: rat
  page_size :: rat
  val :: rat

text \<open>\<^verbatim>\<open>Adjustment.set_value\<close>; \<^verbatim>\<open>Canvas.convert_to_pixels\<close> and back, which depend on the bounds and the scale; what
  \<^verbatim>\<open>set_scale\<close>, \<^verbatim>\<open>scroll_to\<close> and \<^verbatim>\<open>set_bounds\<close> do to the adjustments.\<close>

record toolkit =
  set_value :: "adjustment \<Rightarrow> rat \<Rightarrow> adjustment"
  to_pixels :: "pt \<times> pt \<Rightarrow> rat \<Rightarrow> pt \<Rightarrow> pt"
  from_pixels :: "pt \<times> pt \<Rightarrow> rat \<Rightarrow> pt \<Rightarrow> pt"
  set_scale :: "rat \<Rightarrow> adjustment \<times> adjustment \<Rightarrow> adjustment \<times> adjustment"
  scroll_to :: "pt \<times> pt \<Rightarrow> rat \<Rightarrow> pt \<Rightarrow> adjustment \<times> adjustment \<Rightarrow> adjustment \<times> adjustment"
  set_canvas_bounds :: "pt \<times> pt \<Rightarrow> adjustment \<times> adjustment \<Rightarrow> adjustment \<times> adjustment"

text \<open>While the view is panned: where the pointer and the view were.  \<open>motion_handlers\<close> is the number of handlers of motions
  that are connected.\<close>

record camera =
  hadj :: adjustment
  vadj :: adjustment
  zoom :: adjustment
  panning :: "(pt \<times> pt) option"
  motion_handlers :: nat
  follow_node :: "nat option"

definition zoom_adj :: adjustment where
  "zoom_adj = \<lparr>lower = 1 / 100, upper = 10, page_size = 1, val = 1\<rparr>"

definition move_view :: "toolkit \<Rightarrow> pt \<Rightarrow> camera \<Rightarrow> camera" where
  "move_view g p c = c\<lparr>hadj := set_value g (hadj c) (fst p), vadj := set_value g (vadj c) (snd p)\<rparr>"

section \<open>Panning and zooming\<close>

definition begin_panning :: "pt \<Rightarrow> camera \<Rightarrow> camera" where
  "begin_panning pointer c = c\<lparr>panning := Some (pointer, (val (hadj c), val (vadj c))), motion_handlers := Suc (motion_handlers c)\<rparr>"

definition end_panning :: "camera \<Rightarrow> camera" where
  "end_panning c = (if panning c = None then c else c\<lparr>panning := None, motion_handlers := motion_handlers c - 1\<rparr>)"

definition panning_motion :: "toolkit \<Rightarrow> pt \<Rightarrow> camera \<Rightarrow> py_exn + bool \<times> camera" where
  "panning_motion g pointer c =
     (case panning c of
        None \<Rightarrow> Inl AssertionError
      | Some ((mx0, my0), (cx0, cy0)) \<Rightarrow>
          let dx = fst pointer - mx0; dy = snd pointer - my0 in Inr (True, move_view g (cx0 - dx, cy0 - dy) c))"

definition canvas_button_press :: "nat \<Rightarrow> pt \<Rightarrow> camera \<Rightarrow> bool \<times> camera" where
  "canvas_button_press b pointer c = (if b = 2 then (True, begin_panning pointer c) else (False, c))"

definition canvas_button_release :: "nat \<Rightarrow> camera \<Rightarrow> bool \<times> camera" where
  "canvas_button_release b c = (if b = 2 then (True, end_panning c) else (False, c))"

text \<open>The handler of the zoom is called when its value changes.\<close>

definition set_zoom :: "toolkit \<Rightarrow> rat \<Rightarrow> camera \<Rightarrow> camera" where
  "set_zoom g v c =
     (let z = set_value g (zoom c) v
      in if val z = val (zoom c) then c\<lparr>zoom := z\<rparr>
         else let (h, w) = set_scale g (val z) (hadj c, vadj c) in c\<lparr>zoom := z, hadj := h, vadj := w\<rparr>)"

datatype scroll = Scroll_Up | Scroll_Down | Scroll_Other

definition canvas_scroll_event :: "toolkit \<Rightarrow> scroll \<Rightarrow> camera \<Rightarrow> bool \<times> camera" where
  "canvas_scroll_event g d c =
     (case d of
        Scroll_Up \<Rightarrow> (True, set_zoom g (val (zoom c) * (5 / 4)) c)
      | Scroll_Down \<Rightarrow> (True, set_zoom g (val (zoom c) / (5 / 4)) c)
      | Scroll_Other \<Rightarrow> (False, c))"

text \<open>What the user does to the canvas; a motion is seen where a handler is connected, the first of them ends it.\<close>

datatype camera_event = Canvas_Press nat pt | Canvas_Release nat | Canvas_Motion pt | Canvas_Scroll scroll

fun camera_step :: "toolkit \<Rightarrow> camera_event \<Rightarrow> camera \<Rightarrow> py_exn + camera" where
  "camera_step g (Canvas_Press b p) c = Inr (snd (canvas_button_press b p c))"
| "camera_step g (Canvas_Release b) c = Inr (snd (canvas_button_release b c))"
| "camera_step g (Canvas_Motion p) c = (if motion_handlers c = 0 then Inr c else rbind (panning_motion g p c) (\<lambda>(_, c). Inr c))"
| "camera_step g (Canvas_Scroll d) c = Inr (snd (canvas_scroll_event g d c))"

section \<open>Finding nodes\<close>

text \<open>The view centred on a point of the canvas.\<close>

definition center_on :: "toolkit \<Rightarrow> pt \<times> pt \<Rightarrow> pt \<Rightarrow> camera \<Rightarrow> camera" where
  "center_on g b p c =
     (let (px, py) = to_pixels g b (val (zoom c)) p in move_view g (px - page_size (hadj c) / 2, py - page_size (vadj c) / 2) c)"

definition center_on_node :: "toolkit \<Rightarrow> selector \<Rightarrow> scene \<Rightarrow> camera \<Rightarrow> py_exn + camera" where
  "center_on_node g k s c =
     (case k of
        To_Node i \<Rightarrow>
          (case dget (nodes s) i of None \<Rightarrow> Inl KeyError | Some n \<Rightarrow> Inr (center_on g (bounds s) (center n) c))
      | _ \<Rightarrow> Inl TypeError)"

definition set_follow_node :: "nat option \<Rightarrow> camera \<Rightarrow> camera" where
  "set_follow_node i c = c\<lparr>follow_node := i\<rparr>"

text \<open>\<^verbatim>\<open>_update_node_positions\<close>, with what it does to the view: the canvas is told of its bounds when they grow, and the
  node followed is kept in the centre.\<close>

definition bounds_changed :: "toolkit \<Rightarrow> pt \<times> pt \<Rightarrow> pt \<times> pt \<Rightarrow> camera \<Rightarrow> camera" where
  "bounds_changed g old new c =
     (if new = old then c else let (h, w) = set_canvas_bounds g new (hadj c, vadj c) in c\<lparr>hadj := h, vadj := w\<rparr>)"

definition follow_position :: "toolkit \<Rightarrow> nat \<Rightarrow> scene \<times> camera \<Rightarrow> scene \<times> camera" where
  "follow_position g i sc =
     (let (s, c) = sc
      in case dget (mobility s) i of
           None \<Rightarrow> (s, c)
         | Some p \<Rightarrow>
             let q = point_to_canvas p; t = set_position i q s; c = bounds_changed g (bounds s) (bounds t) c
             in (t, if follow_node c = Some i then center_on g (bounds t) q c else c))"

definition follow_positions :: "toolkit \<Rightarrow> scene \<times> camera \<Rightarrow> scene \<times> camera" where
  "follow_positions g sc = fold (follow_position g) (dkeys (nodes (fst sc))) sc"

definition autoscale_view :: "toolkit \<Rightarrow> scene \<times> camera \<Rightarrow> scene \<times> camera" where
  "autoscale_view g sc =
     (if nodes (fst sc) = [] then sc
      else
        let (s, c) = follow_positions g sc;
            ps = map (\<lambda>i. get_position s (Node i)) (dkeys (nodes s));
            min_x = Min (fst ` set ps); min_y = Min (snd ` set ps); max_x = Max (fst ` set ps); max_y = Max (snd ` set ps);
            (min_x_px, min_y_px) = to_pixels g (bounds s) (val (zoom c)) (min_x, min_y);
            (max_x_px, max_y_px) = to_pixels g (bounds s) (val (zoom c)) (max_x, max_y);
            new_dx = 3 / 2 * (max_x_px - min_x_px); new_dy = 3 / 2 * (max_y_px - min_y_px)
        in if new_dx = 0 \<or> new_dy = 0 then (s, c)
           else
             let c = set_zoom g (min (page_size (hadj c) / new_dx) (page_size (vadj c) / new_dy)) c;
                 h = hadj c; v = vadj c; z = val (zoom c);
                 (x1, y1) = from_pixels g (bounds s) z (val h, val v);
                 (x2, y2) = from_pixels g (bounds s) z (val h + page_size h, val v + page_size v);
                 width = x2 - x1; height = y2 - y1; center_x = (min_x + max_x) / 2; center_y = (min_y + max_y) / 2;
                 (h, v) = scroll_to g (bounds s) z (center_x - width / 2, center_y - height / 2) (h, v)
             in (s, c\<lparr>hadj := h, vadj := v\<rparr>))"

text \<open>\<^verbatim>\<open>set_bounds\<close>, and the hook it leaves.\<close>

definition set_bounds :: "pt \<Rightarrow> pt \<Rightarrow> py_exn + pt \<times> pt" where
  "set_bounds p q =
     (if \<not> fst q > fst p \<or> \<not> snd q > snd p then Inl AssertionError else Inr (point_to_canvas p, point_to_canvas q))"

definition set_bounds_hook :: "toolkit \<Rightarrow> pt \<times> pt \<Rightarrow> scene \<times> camera \<Rightarrow> scene \<times> camera" where
  "set_bounds_hook g b sc =
     (let (s, c) = sc; (h, v) = set_canvas_bounds g b (hadj c, vadj c) in (s\<lparr>bounds := b\<rparr>, c\<lparr>hadj := h, vadj := v\<rparr>))"

section \<open>What the toolkit promises\<close>

text \<open>A value is kept between the limits of its adjustment; the conversions scale distances; none of the functions changes the
  size of a page; the canvas is scrolled to a point as far as its bounds allow.\<close>

definition scrolled :: "rat \<Rightarrow> rat \<Rightarrow> rat \<Rightarrow> rat \<Rightarrow> rat \<Rightarrow> bool" where
  "scrolled lo hi w x l \<longleftrightarrow> (if hi - lo \<le> w then l \<le> lo \<and> hi \<le> l + w else l = max lo (min x (hi - w)))"

definition same_pages :: "adjustment \<times> adjustment \<Rightarrow> adjustment \<times> adjustment \<Rightarrow> bool" where
  "same_pages a b \<longleftrightarrow> page_size (fst a) = page_size (fst b) \<and> page_size (snd a) = page_size (snd b)"

definition clamped :: "adjustment \<Rightarrow> rat \<Rightarrow> adjustment" where
  "clamped a v = a\<lparr>val := max (lower a) (min v (max (lower a) (upper a - page_size a)))\<rparr>"

definition toolkit_laws :: "toolkit \<Rightarrow> bool" where
  "toolkit_laws g \<longleftrightarrow>
     set_value g = clamped \<and>
     (\<forall>b z p q. fst (to_pixels g b z p) - fst (to_pixels g b z q) = z * (fst p - fst q) \<and>
                snd (to_pixels g b z p) - snd (to_pixels g b z q) = z * (snd p - snd q)) \<and>
     (\<forall>b z p q. 0 < z \<longrightarrow> fst (from_pixels g b z p) - fst (from_pixels g b z q) = (fst p - fst q) / z \<and>
                snd (from_pixels g b z p) - snd (from_pixels g b z q) = (snd p - snd q) / z) \<and>
     (\<forall>z hv. same_pages (set_scale g z hv) hv) \<and> (\<forall>b hv. same_pages (set_canvas_bounds g b hv) hv) \<and>
     (\<forall>b z p hv. 0 < z \<longrightarrow>
        (let t = scroll_to g b z p hv; q = from_pixels g b z (val (fst t), val (snd t))
         in same_pages t hv \<and>
            scrolled (fst (fst b)) (fst (snd b)) (page_size (fst hv) / z) (fst p) (fst q) \<and>
            scrolled (snd (fst b)) (snd (snd b)) (page_size (snd hv) / z) (snd p) (snd q)))"

definition seen :: "toolkit \<Rightarrow> scene \<Rightarrow> camera \<Rightarrow> pt \<Rightarrow> bool" where
  "seen g s c p \<longleftrightarrow>
     (let z = val (zoom c); (x1, y1) = from_pixels g (bounds s) z (val (hadj c), val (vadj c));
          (x2, y2) = from_pixels g (bounds s) z (val (hadj c) + page_size (hadj c), val (vadj c) + page_size (vadj c))
      in x1 \<le> fst p \<and> fst p \<le> x2 \<and> y1 \<le> snd p \<and> snd p \<le> y2)"

lemma toolkit_laws:
  assumes "toolkit_laws g"
  shows "set_value g = clamped" and "same_pages (set_scale g z hv) hv" and "same_pages (set_canvas_bounds g b hv) hv"
    and "fst (to_pixels g b z p) - fst (to_pixels g b z q) = z * (fst p - fst q)"
    and "snd (to_pixels g b z p) - snd (to_pixels g b z q) = z * (snd p - snd q)"
    and "0 < z \<Longrightarrow> fst (from_pixels g b z p) - fst (from_pixels g b z q) = (fst p - fst q) / z"
    and "0 < z \<Longrightarrow> snd (from_pixels g b z p) - snd (from_pixels g b z q) = (snd p - snd q) / z"
    and "0 < z \<Longrightarrow> same_pages (scroll_to g b z p hv) hv"
    and "0 < z \<Longrightarrow> scroll_to g b z p hv = t \<Longrightarrow>
      scrolled (fst (fst b)) (fst (snd b)) (page_size (fst hv) / z) (fst p) (fst (from_pixels g b z (val (fst t), val (snd t)))) \<and>
      scrolled (snd (fst b)) (snd (snd b)) (page_size (snd hv) / z) (snd p) (snd (from_pixels g b z (val (fst t), val (snd t))))"
  using assms unfolding toolkit_laws_def Let_def by blast+

section \<open>Panning\<close>

lemma clamped_simps [simp]:
  "page_size (clamped a v) = page_size a" "lower (clamped a v) = lower a" "upper (clamped a v) = upper a"
  "clamped (clamped a v) w = clamped a w" "lower a \<le> v \<Longrightarrow> v \<le> upper a - page_size a \<Longrightarrow> val (clamped a v) = v"
  by (simp_all add: clamped_def max_def min_def)

text \<open>Where the view is while it is panned depends only on where the pointer is: it follows the pointer, within the limits, and
  the release ends it.\<close>

theorem panning_follows:
  assumes "toolkit_laws g" and "motion_handlers c = 0"
  shows "\<exists>t u. foldM (camera_step g) (Canvas_Press 2 (mx, my) # map Canvas_Motion (ps @ [(x, y)])) c = Inr t \<and>
    hadj t = clamped (hadj c) (val (hadj c) - (x - mx)) \<and> vadj t = clamped (vadj c) (val (vadj c) - (y - my)) \<and>
    camera_step g (Canvas_Release 2) t = Inr u \<and> panning u = None \<and> motion_handlers u = 0"
proof -
  have g: "set_value g = clamped" by (rule toolkit_laws(1) [OF assms(1)])
  have again: "move_view g q (move_view g p u) = move_view g q u" for p q u by (simp add: move_view_def g)
  have pan: "panning (move_view g p u) = panning u" "motion_handlers (move_view g p u) = motion_handlers u" for p u
    by (simp_all add: move_view_def)
  let ?b = "begin_panning (mx, my) c" and ?v = "(val (hadj c) - (x - mx), val (vadj c) - (y - my))"
  have "panning u = panning ?b \<Longrightarrow> 0 < motion_handlers u \<Longrightarrow>
      foldM (camera_step g) (map Canvas_Motion (ps @ [(x, y)])) u = Inr (move_view g ?v u)" for u
    by (induction ps arbitrary: u) (simp_all add: panning_motion_def begin_panning_def pan again)
  from this [of ?b] have "foldM (camera_step g) (map Canvas_Motion (ps @ [(x, y)])) ?b = Inr (move_view g ?v ?b)"
    by (simp add: begin_panning_def)
  then show ?thesis using assms(2)
    by (simp add: canvas_button_press_def canvas_button_release_def end_panning_def pan del: map_append)
      (simp add: begin_panning_def move_view_def g)
qed

text \<open>A second press before the release, such as that of a double click, connects a second handler, which the release leaves:
  the next motion of the pointer raises.\<close>

lemma second_press_raises:
  "motion_handlers c = 0 \<Longrightarrow>
   foldM (camera_step g) [Canvas_Press 2 p, Canvas_Release 2, Canvas_Press 2 p, Canvas_Press 2 p, Canvas_Release 2, Canvas_Motion q] c =
   Inl AssertionError"
  by (simp add: canvas_button_press_def canvas_button_release_def begin_panning_def end_panning_def panning_motion_def)

lemma step_zoom: "camera_step g e c = Inr d \<Longrightarrow> zoom d = zoom c \<or> (\<exists>v. d = set_zoom g v c)"
proof (cases e)
  case (Canvas_Scroll k)
  then show "camera_step g e c = Inr d \<Longrightarrow> ?thesis" by (cases k) (auto simp: canvas_scroll_event_def)
qed (auto simp: canvas_button_press_def canvas_button_release_def begin_panning_def end_panning_def panning_motion_def
    move_view_def split: if_splits option.splits prod.splits)

text \<open>The zoom stays between a hundredth and nine, the upper limit less a page.\<close>

theorem zoom_limits:
  assumes g: "toolkit_laws g" and "zoom c = zoom_adj" and "foldM (camera_step g) es c = Inr d"
  shows "1 / 100 \<le> val (zoom d) \<and> val (zoom d) \<le> 9"
proof -
  define inv where "inv c \<longleftrightarrow> (\<exists>v. zoom c = zoom_adj\<lparr>val := v\<rparr> \<and> 1 / 100 \<le> v \<and> v \<le> 9)" for c :: camera
  have set_zoom: "inv (set_zoom g v u)" if "inv u" for u v
    using that by (auto simp: inv_def set_zoom_def toolkit_laws(1) [OF g] clamped_def zoom_adj_def Let_def split: prod.split)
  have "run_invariant (camera_step g) c inv"
  proof
    show "inv c" using assms(2) by (auto simp: inv_def zoom_adj_def)
    show "inv w" if "inv u" and "camera_step g e u = Inr w" for u e w
      using step_zoom [OF that(2)] that(1) set_zoom by (auto simp: inv_def)
  qed
  from run_invariant.after [OF this assms(3)] show ?thesis by (auto simp: inv_def)
qed

section \<open>Following and autoscaling\<close>

lemma follow_position_fields:
  assumes "toolkit_laws g"
  shows "fst (follow_position g i sc) = (case dget (mobility (fst sc)) i of None \<Rightarrow> fst sc | Some p \<Rightarrow> set_position i (point_to_canvas p) (fst sc))"
    and "zoom (snd (follow_position g i sc)) = zoom (snd sc)"
    and "page_size (hadj (snd (follow_position g i sc))) = page_size (hadj (snd sc))"
    and "page_size (vadj (snd (follow_position g i sc))) = page_size (vadj (snd sc))"
proof -
  have g: "set_value g = clamped" "same_pages (set_canvas_bounds g b hv) hv" for b hv by (rule toolkit_laws [OF assms])+
  then have "page_size (hadj (bounds_changed g a b c)) = page_size (hadj c)" "page_size (vadj (bounds_changed g a b c)) = page_size (vadj c)"
    "zoom (bounds_changed g a b c) = zoom c" for a b c
    using g(2) [of b "(hadj c, vadj c)"]
    by (cases "set_canvas_bounds g b (hadj c, vadj c)"; simp add: bounds_changed_def same_pages_def)+
  then show "fst (follow_position g i sc) = (case dget (mobility (fst sc)) i of None \<Rightarrow> fst sc | Some p \<Rightarrow> set_position i (point_to_canvas p) (fst sc))"
    and "zoom (snd (follow_position g i sc)) = zoom (snd sc)"
    and "page_size (hadj (snd (follow_position g i sc))) = page_size (hadj (snd sc))"
    and "page_size (vadj (snd (follow_position g i sc))) = page_size (vadj (snd sc))"
    by (auto simp: follow_position_def center_on_def move_view_def g(1) Let_def split: prod.split option.split)
qed

text \<open>Following a node changes the view only: the nodes are placed as they are without it.\<close>

lemma follow_positions_fields:
  assumes "toolkit_laws g"
  shows "fst (follow_positions g (s, c)) = update_node_positions s" and "zoom (snd (follow_positions g (s, c))) = zoom c"
    and "page_size (hadj (snd (follow_positions g (s, c)))) = page_size (hadj c)"
    and "page_size (vadj (snd (follow_positions g (s, c)))) = page_size (vadj c)"
proof -
  note f = follow_position_fields [OF assms]
  have "fst (fold (follow_position g) is sc) =
      fold (\<lambda>i s. case dget (mobility s) i of None \<Rightarrow> s | Some p \<Rightarrow> set_position i (point_to_canvas p) s) is (fst sc) \<and>
      zoom (snd (fold (follow_position g) is sc)) = zoom (snd sc) \<and>
      page_size (hadj (snd (fold (follow_position g) is sc))) = page_size (hadj (snd sc)) \<and>
      page_size (vadj (snd (fold (follow_position g) is sc))) = page_size (vadj (snd sc))" for "is" sc
    by (induction "is" arbitrary: sc) (simp_all add: f)
  from this [of "dkeys (nodes s)" "(s, c)"]
  show "fst (follow_positions g (s, c)) = update_node_positions s" and "zoom (snd (follow_positions g (s, c))) = zoom c"
    and "page_size (hadj (snd (follow_positions g (s, c)))) = page_size (hadj c)"
    and "page_size (vadj (snd (follow_positions g (s, c)))) = page_size (vadj c)"
    by (simp_all add: follow_positions_def update_node_positions_def)
qed

text \<open>One axis of the view: the middle of the nodes in the middle of a page that is half as long again as they need.\<close>

lemma axis_seen:
  fixes lo hi w l p a b z page :: rat
  assumes "scrolled lo hi (page / z) ((a + b) / 2 - page / z / 2) l" and "0 < z" and "z \<le> page / (3 / 2 * (b - a))" and "a < b"
    and "a \<le> p" and "p \<le> b" and "lo \<le> p" and "p \<le> hi"
  shows "l \<le> p \<and> p \<le> l + page / z"
proof -
  have "z * (3 / 2 * (b - a)) \<le> page" using assms(3,4) by (simp add: pos_le_divide_eq)
  then have w: "3 / 2 * (b - a) \<le> page / z" using assms(2) by (simp add: pos_le_divide_eq mult.commute)
  define w where "w = page / z"
  have "b - a \<le> w" using w assms(4) by (simp flip: w_def)
  then have "a + b \<le> 2 * p + w" "2 * p \<le> a + b + w" using assms(5,6) by linarith+
  then have "(a + b) / 2 - w / 2 \<le> p" "p \<le> (a + b) / 2 - w / 2 + w" by (simp_all add: field_simps)
  then show ?thesis using assms(1,7,8) unfolding scrolled_def w_def [symmetric] by (auto split: if_splits)
qed

definition spread :: "(pt \<Rightarrow> rat) \<Rightarrow> scene \<Rightarrow> rat \<times> rat" where
  "spread f s = (let xs = (\<lambda>i. f (get_position s (Node i))) ` set (dkeys (nodes s)) in (Min xs, Max xs))"

lemma spread_bounds:
  assumes "dget (nodes s) i = Some n"
  shows "fst (spread f s) \<le> f (center n) \<and> f (center n) \<le> snd (spread f s)"
proof -
  have "i \<in> set (dkeys (nodes s))" using assms by (simp add: set_dkeys del: set_map)
  then have "f (center n) \<in> (\<lambda>i. f (get_position s (Node i))) ` set (dkeys (nodes s))"
    using assms by (force simp: get_position.simps)
  then show ?thesis by (simp add: spread_def Let_def)
qed

text \<open>C33. Where the library can be asked for the bounds of the canvas: at the zoom it starts with, the view is scaled and scrolled so that every node is seen, provided they are neither all in a
  row or a column nor too far apart for the least zoom.\<close>

theorem autoscale_shows_nodes:
  assumes g: "toolkit_laws g" and ops: "foldM perform ops (new_scene m True) = Inr s" and z: "zoom c = zoom_adj"
    and x: "spread fst (update_node_positions s) = (x1, x2)" "x1 < x2" "3 / 200 * (x2 - x1) \<le> page_size (hadj c)"
    and y: "spread snd (update_node_positions s) = (y1, y2)" "y1 < y2" "3 / 200 * (y2 - y1) \<le> page_size (vadj c)"
  shows "\<exists>d. autoscale_view g (s, c) = (update_node_positions s, d) \<and>
    (\<forall>i n. dget (nodes (update_node_positions s)) i = Some n \<longrightarrow> seen g (update_node_positions s) d (center n))"
proof -
  note laws = toolkit_laws [OF g]
  define t where "t = update_node_positions s"
  obtain c1 where c1: "follow_positions g (s, c) = (t, c1)" "zoom c1 = zoom_adj" "page_size (hadj c1) = page_size (hadj c)"
    "page_size (vadj c1) = page_size (vadj c)"
    using follow_positions_fields [OF g, of s c] z by (cases "follow_positions g (s, c)") (simp add: t_def)
  let ?X = "page_size (hadj c)" and ?Y = "page_size (vadj c)"
  define v where "v = min (?X / (3 / 2 * (x2 - x1))) (?Y / (3 / 2 * (y2 - y1)))"
  define c2 where "c2 = set_zoom g v c1"
  have c2: "page_size (hadj c2) = ?X" "page_size (vadj c2) = ?Y" "zoom c2 = clamped zoom_adj v"
    using laws(2) [of "val (set_value g (zoom c1) v)" "(hadj c1, vadj c1)"] c1 laws(1)
    by (auto simp: c2_def set_zoom_def Let_def same_pages_def split: prod.split)
  have v: "1 / 100 \<le> v" "v \<le> ?X / (3 / 2 * (x2 - x1))" "v \<le> ?Y / (3 / 2 * (y2 - y1))"
    using x y by (simp_all add: v_def pos_le_divide_eq)
  define k where "k = val (zoom c2)"
  have k: "0 < k" "k \<le> v" using v(1) by (auto simp: k_def c2(3) clamped_def zoom_adj_def)
  define q where "q = ((x1 + x2) / 2 - ?X / k / 2, (y1 + y2) / 2 - ?Y / k / 2)"
  define d where "d = c2\<lparr>hadj := fst (scroll_to g (bounds t) k q (hadj c2, vadj c2)), vadj := snd (scroll_to g (bounds t) k q (hadj c2, vadj c2))\<rparr>"
  show ?thesis
  proof (cases "nodes s = []")
    case True
    then show ?thesis by (simp add: autoscale_view_def update_node_positions_def)
  next
    case False
    have px: "fst (to_pixels g b 1 (x2, y2)) - fst (to_pixels g b 1 (x1, y1)) = x2 - x1"
      "snd (to_pixels g b 1 (x2, y2)) - snd (to_pixels g b 1 (x1, y1)) = y2 - y1" for b
      using laws(4) [of b 1 "(x2, y2)" "(x1, y1)"] laws(5) [of b 1 "(x2, y2)" "(x1, y1)"] by simp_all
    have page: "fst (from_pixels g b k (a + ?X, e + ?Y)) - fst (from_pixels g b k (a, e)) = ?X / k"
      "snd (from_pixels g b k (a + ?X, e + ?Y)) - snd (from_pixels g b k (a, e)) = ?Y / k" for a e b
      using laws(6,7) [OF k(1), of b "(a + ?X, e + ?Y)" "(a, e)"] by simp_all
    let ?ps = "map (\<lambda>i. get_position t (Node i)) (dkeys (nodes t))"
    have ends: "Min (fst ` set ?ps) = x1" "Max (fst ` set ?ps) = x2" "Min (snd ` set ?ps) = y1" "Max (snd ` set ?ps) = y2"
      using x(1) y(1) by (simp_all only: spread_def Let_def set_map image_image prod.inject flip: t_def)
    have one: "val (zoom c1) = 1" by (simp add: c1(2) zoom_adj_def)
    have "autoscale_view g (s, c) = (t, d)"
      using False x(2) y(2)
      by (simp only: autoscale_view_def c1(1) ends one px page c1(3,4) Let_def split_beta fst_conv snd_conv v_def [symmetric]
          c2_def [symmetric] k_def [symmetric] c2(1,2) q_def [symmetric] d_def [symmetric] if_False) simp
    moreover have "seen g t d (center n)" if n: "dget (nodes t) i = Some n" for i n
    proof -
      have "canvas_inv {} t" using canvas.inv_op [OF canvas.after [OF ops], of Update_Positions t] by (simp add: t_def)
      moreover have "bounds_work t"
        using choice_after [OF ops] same_update_node_positions [of s] by (simp add: choice_ok_def same_selection_def t_def)
      ultimately have "in_bounds (bounds t) (center n)" using n by (simp add: canvas_inv_def nodes_inv_def)
      moreover note spread_bounds [OF n, of fst] spread_bounds [OF n, of snd]
      moreover have "scrolled (fst (fst (bounds t))) (fst (snd (bounds t))) (?X / k) (fst q) (fst (from_pixels g (bounds t) k (val (hadj d), val (vadj d))))"
        "scrolled (snd (fst (bounds t))) (snd (snd (bounds t))) (?Y / k) (snd q) (snd (from_pixels g (bounds t) k (val (hadj d), val (vadj d))))"
        using laws(9) [OF k(1) refl, of "bounds t" "(hadj c2, vadj c2)" q] by (simp_all add: d_def c2)
      moreover have "page_size (hadj d) = ?X" "page_size (vadj d) = ?Y"
        using laws(8) [OF k(1), of "bounds t" q "(hadj c2, vadj c2)"] by (simp_all add: d_def c2 same_pages_def)
      moreover have "fst (from_pixels g b k (a + ?X, e + ?Y)) = fst (from_pixels g b k (a, e)) + ?X / k"
        "snd (from_pixels g b k (a + ?X, e + ?Y)) = snd (from_pixels g b k (a, e)) + ?Y / k" for a e b
        using page [of b a e] by simp_all
      moreover have "zoom d = zoom c2" by (simp add: d_def)
      ultimately show ?thesis
        using x(1,2) y(1,2) k v
          axis_seen [of "fst (fst (bounds t))" "fst (snd (bounds t))" ?X k x1 x2 "fst (from_pixels g (bounds t) k (val (hadj d), val (vadj d)))" "fst (center n)"]
          axis_seen [of "snd (fst (bounds t))" "snd (snd (bounds t))" ?Y k y1 y2 "snd (from_pixels g (bounds t) k (val (hadj d), val (vadj d)))" "snd (center n)"]
        by (simp add: seen_def Let_def q_def in_bounds_def split_beta flip: k_def t_def)
    qed
    ultimately show ?thesis by (auto simp: t_def)
  qed
qed

section \<open>Witnesses\<close>

text \<open>A toolkit as its documentation has it, in a window that does not change when the canvas does.\<close>

definition edge :: "rat \<Rightarrow> rat \<Rightarrow> rat \<Rightarrow> rat \<Rightarrow> rat" where
  "edge lo hi w x = (if hi - lo \<le> w then lo else max lo (min x (hi - w)))"

definition plain_toolkit :: toolkit where
  "plain_toolkit =
     \<lparr>set_value = clamped,
      to_pixels = (\<lambda>b z p. (z * (fst p - fst (fst b)), z * (snd p - snd (fst b)))),
      from_pixels = (\<lambda>b z p. (fst p / z + fst (fst b), snd p / z + snd (fst b))),
      set_scale = (\<lambda>z hv. hv),
      scroll_to = (\<lambda>b z p hv.
        ((fst hv)\<lparr>val := z * (edge (fst (fst b)) (fst (snd b)) (page_size (fst hv) / z) (fst p) - fst (fst b))\<rparr>,
         (snd hv)\<lparr>val := z * (edge (snd (fst b)) (snd (snd b)) (page_size (snd hv) / z) (snd p) - snd (fst b))\<rparr>)),
      set_canvas_bounds = (\<lambda>b hv. hv)\<rparr>"

lemma plain_toolkit_laws: "toolkit_laws plain_toolkit"
  by (auto simp: toolkit_laws_def plain_toolkit_def same_pages_def scrolled_def edge_def Let_def algebra_simps diff_divide_distrib)

definition first_camera :: camera where
  "first_camera =
     \<lparr>hadj = \<lparr>lower = 0, upper = 20000, page_size = 600, val = 0\<rparr>, vadj = \<lparr>lower = 0, upper = 20000, page_size = 450, val = 0\<rparr>,
      zoom = zoom_adj, panning = None, motion_handlers = 0, follow_node = None\<rparr>"

lemma autoscale_shows_nodes_witness:
  "\<exists>s d. foldM perform [Get_Node 0, Get_Node 1, Mobility [(0, (0, 0)), (1, (10, 20))]] (new_scene 2 True) = Inr s \<and>
     autoscale_view plain_toolkit (s, first_camera) = (update_node_positions s, d) \<and> seen plain_toolkit (update_node_positions s) d (30, 60)"
proof -
  obtain s n where s: "foldM perform [Get_Node 0, Get_Node 1, Mobility [(0, (0, 0)), (1, (10, 20))]] (new_scene 2 True) = Inr s"
    "spread fst (update_node_positions s) = (0, 30)" "spread snd (update_node_positions s) = (0, 60)"
    "dget (nodes (update_node_positions s)) 1 = Some n" "center n = (30, 60)"
    by (simp add: scene_defs spread_def update_node_positions_def point_to_canvas_def)
  from autoscale_shows_nodes [OF plain_toolkit_laws s(1) _ s(2) _ _ s(3), of first_camera] s(4,5)
  show ?thesis using s(1) by (force simp: first_camera_def)
qed

end
