(* ===== verification/Viz_Traffic.thy ===== *)
theory Viz_Traffic
  imports Viz_Nodes
begin

text \<open>
  \<^verbatim>\<open>src/visualizer/visualizer/core.py\<close>: the arrows that show transmissions and dropped packets.  The samples are
  those of the last periods of the simulation; the logarithm, the clipping of a line to what is seen
  (\<^verbatim>\<open>PyViz.LineClipping\<close>, C++) and the format of a rate are parameters.  An arrow is its line and its label.
\<close>

section \<open>The last periods\<close>

record sample =
  transmitter :: nat
  receiver :: nat
  bytes :: nat

record packet_drop =
  dropper :: nat
  drop_bytes :: nat

definition smooth_factor :: "rat \<Rightarrow> nat" where
  "smooth_factor v = nat \<lfloor>v * 10\<rfloor>"

text \<open>\<^verbatim>\<open>while len(xs) > n: xs.pop(0)\<close>\<close>

fun trim :: "nat \<Rightarrow> 'a list \<Rightarrow> 'a list" where
  "trim n [] = []"
| "trim n (x # xs) = (if length (x # xs) > n then trim n xs else x # xs)"

definition keep_period :: "nat \<Rightarrow> 'a \<Rightarrow> 'a list \<Rightarrow> 'a list" where
  "keep_period n x xs = trim n (xs @ [x])"

definition do_simulation_periodic_update ::
    "rat \<Rightarrow> sample list \<Rightarrow> packet_drop list \<Rightarrow> sample list list \<times> packet_drop list list \<Rightarrow> sample list list \<times> packet_drop list list" where
  "do_simulation_periodic_update v transmissions drops recent =
     (keep_period (smooth_factor v) transmissions (fst recent), keep_period (smooth_factor v) drops (snd recent))"

section \<open>Averages\<close>

definition add_bytes :: "'k \<Rightarrow> nat \<Rightarrow> ('k, nat \<times> nat) dict \<Rightarrow> ('k, nat \<times> nat) dict" where
  "add_bytes key b d =
     (let (total, count) = (case dget d key of None \<Rightarrow> (0, 0) | Some p \<Rightarrow> p) in dset key (total + b, count + 1) d)"

definition averages :: "('s \<Rightarrow> 'k) \<Rightarrow> ('s \<Rightarrow> nat) \<Rightarrow> 's list list \<Rightarrow> ('k, nat \<times> nat) dict" where
  "averages key b sets = fold (\<lambda>xs d. fold (\<lambda>x. add_bytes (key x) (b x)) xs d) sets []"

section \<open>Arrows\<close>

datatype rate_text = Rightwards string | Leftwards string | Plain string

record arrow =
  ar_visible :: bool
  ar_width :: rat
  ar_points :: "pt \<times> pt"
  rate :: rate_text
  font :: int
  offset :: rat
  place :: pt

definition hide_arrow :: "arrow \<Rightarrow> arrow" where
  "hide_arrow a = a\<lparr>ar_visible := False\<rparr>"

text \<open>What a redraw knows: the size of the nodes, the length of a period, the corners of what is seen.\<close>

record screen =
  adjustment :: rat
  period :: rat
  corners :: "pt \<times> pt"

definition scaled :: "screen \<Rightarrow> rat" where
  "scaled v = adjustment v / 5"

definition speed :: "screen \<Rightarrow> nat \<times> nat \<Rightarrow> rat" where
  "speed v p = of_nat (fst p) / of_nat (snd p) / period v"

definition kbps :: "screen \<Rightarrow> nat \<times> nat \<Rightarrow> rat" where
  "kbps v p = of_nat (fst p * 8) / 1000 / of_nat (snd p) / period v"

text \<open>\<^verbatim>\<open>math.log\<close> raises for what is not positive.\<close>

definition line_width_of :: "(rat \<Rightarrow> rat) \<Rightarrow> screen \<Rightarrow> nat \<times> nat \<Rightarrow> py_exn + rat" where
  "line_width_of mlog v p = (if speed v p \<le> 0 then Inl ValueError else Inr (max (1 / 10) (mlog (speed v p) * scaled v)))"

definition font_size :: "screen \<Rightarrow> int" where
  "font_size v = \<lfloor>1 + 10 * scaled v\<rfloor>"

text \<open>The label of a transmission is turned to read along the line, and stands at the middle of what is seen of it.\<close>

definition transmission_arrow ::
    "(rat \<Rightarrow> string) \<Rightarrow> (pt \<times> pt \<Rightarrow> pt \<Rightarrow> pt \<Rightarrow> pt \<times> pt) \<Rightarrow> screen \<Rightarrow> rat \<Rightarrow> pt \<Rightarrow> pt \<Rightarrow> nat \<times> nat \<Rightarrow> arrow" where
  "transmission_arrow fmt clip v width p q r =
     (let (a, b) = clip (corners v) p q; text = fmt (kbps v r); right = fst q - fst p \<ge> 0
      in \<lparr>ar_visible = True, ar_width = width, ar_points = (p, q),
          rate = (if right then Rightwards text else Leftwards text), font = font_size v,
          offset = (if right then - width / 2 else width / 2), place = ((fst a + fst b) / 2, (snd a + snd b) / 2)\<rparr>)"

definition drop_arrow :: "(rat \<Rightarrow> string) \<Rightarrow> screen \<Rightarrow> rat \<Rightarrow> pt \<Rightarrow> nat \<times> nat \<Rightarrow> arrow" where
  "drop_arrow fmt v width p r =
     (let q = (fst p, snd (snd (corners v)))
      in \<lparr>ar_visible = True, ar_width = width, ar_points = (p, q), rate = Plain (fmt (kbps v r)), font = font_size v,
          offset = 0, place = ((fst p + fst q) / 2, (snd p + snd q) / 2)\<rparr>)"

text \<open>An arrow is taken from the end of the old ones, or made; all its properties are set.\<close>

definition draw_arrow :: "arrow \<Rightarrow> arrow list \<times> arrow list \<Rightarrow> arrow list \<times> arrow list" where
  "draw_arrow a pool = (let (new, old) = pool in (new @ [a], butlast old))"

definition draw_transmission ::
    "(rat \<Rightarrow> rat) \<Rightarrow> (rat \<Rightarrow> string) \<Rightarrow> (pt \<times> pt \<Rightarrow> pt \<Rightarrow> pt \<Rightarrow> pt \<times> pt) \<Rightarrow> screen \<Rightarrow> (nat \<times> nat) \<times> nat \<times> nat \<Rightarrow>
     scene \<times> arrow list \<times> arrow list \<Rightarrow> py_exn + scene \<times> arrow list \<times> arrow list" where
  "draw_transmission mlog fmt clip v x st =
     (let ((i, j), r) = x; (s, pool) = st; s = get_node j (get_node i s)
      in rbind (line_width_of mlog v r) (\<lambda>width.
           Inr (s, draw_arrow (transmission_arrow fmt clip v width (get_position s (Node i)) (get_position s (Node j)) r) pool)))"

definition update_transmissions_view ::
    "(rat \<Rightarrow> rat) \<Rightarrow> (rat \<Rightarrow> string) \<Rightarrow> (pt \<times> pt \<Rightarrow> pt \<Rightarrow> pt \<Rightarrow> pt \<times> pt) \<Rightarrow> screen \<Rightarrow> sample list list \<Rightarrow>
     scene \<times> arrow list \<Rightarrow> py_exn + scene \<times> arrow list" where
  "update_transmissions_view mlog fmt clip v recent st =
     rbind (foldM (draw_transmission mlog fmt clip v) (averages (\<lambda>x. (transmitter x, receiver x)) bytes recent)
              (fst st, [], map hide_arrow (snd st)))
       (\<lambda>(s, new, old). Inr (s, new @ old))"

definition draw_drop ::
    "(rat \<Rightarrow> rat) \<Rightarrow> (rat \<Rightarrow> string) \<Rightarrow> screen \<Rightarrow> nat \<times> nat \<times> nat \<Rightarrow>
     scene \<times> arrow list \<times> arrow list \<Rightarrow> py_exn + scene \<times> arrow list \<times> arrow list" where
  "draw_drop mlog fmt v x st =
     (let (i, r) = x; (s, pool) = st; s = get_node i s
      in rbind (line_width_of mlog v r) (\<lambda>width. Inr (s, draw_arrow (drop_arrow fmt v width (get_position s (Node i)) r) pool)))"

definition update_drops_view ::
    "(rat \<Rightarrow> rat) \<Rightarrow> (rat \<Rightarrow> string) \<Rightarrow> screen \<Rightarrow> packet_drop list list \<Rightarrow> scene \<times> arrow list \<Rightarrow> py_exn + scene \<times> arrow list" where
  "update_drops_view mlog fmt v recent st =
     rbind (foldM (draw_drop mlog fmt v) (averages dropper drop_bytes recent) (fst st, [], map hide_arrow (snd st)))
       (\<lambda>(s, new, old). Inr (s, new @ old))"

section \<open>What is kept\<close>

lemma trim_drop: "trim n xs = drop (length xs - n) xs"
  by (induction xs) (simp_all add: Suc_diff_le drop_Cons')

text \<open>The samples kept are those of the last periods, as many as the factor says.\<close>

lemma last_periods: "fold (keep_period n) xs [] = drop (length xs - n) xs"
proof (induction xs rule: rev_induct)
  case (snoc x xs)
  then show ?case by (cases "n \<le> length xs") (auto simp: keep_period_def trim_drop Suc_diff_le)
qed simp

definition of_key :: "('s \<Rightarrow> 'k) \<Rightarrow> ('s \<Rightarrow> nat) \<Rightarrow> 'k \<Rightarrow> 's list \<Rightarrow> nat list" where
  "of_key key b k xs = map b (filter (\<lambda>x. key x = k) xs)"

lemma averages_concat: "averages key b sets = fold (\<lambda>x. add_bytes (key x) (b x)) (concat sets) []"
proof -
  have "fold (\<lambda>xs d. fold (\<lambda>x. add_bytes (key x) (b x)) xs d) sets d = fold (\<lambda>x. add_bytes (key x) (b x)) (concat sets) d" for d
    by (induction sets arbitrary: d) simp_all
  then show ?thesis by (simp add: averages_def)
qed

lemma dget_averages:
  "dget (averages key b sets) k =
     (let bs = of_key key b k (concat sets) in if bs = [] then None else Some (sum_list bs, length bs))"
proof -
  have "dget (fold (\<lambda>x. add_bytes (key x) (b x)) xs []) k =
      (let bs = of_key key b k xs in if bs = [] then None else Some (sum_list bs, length bs))" for xs
    by (induction xs rule: rev_induct)
      (auto simp: add_bytes_def of_key_def Let_def split: option.splits prod.splits if_splits)
  then show ?thesis by (simp add: averages_concat)
qed

lemma distinct_averages: "distinct (map fst (averages key b sets))"
proof -
  have "wf_dict (fold (\<lambda>x. add_bytes (key x) (b x)) xs [])" for xs
    by (induction xs rule: rev_induct) (auto simp: add_bytes_def split: prod.split)
  then show ?thesis by (simp add: averages_concat wf_dict_def)
qed

section \<open>What is shown\<close>

lemma position_get_node [simp]: "get_position (get_node i s) = get_position s"
proof
  show "get_position (get_node i s) e = get_position s e" for e
    by (cases e) (auto simp: get_node_def get_position.simps split: option.split)
qed

text \<open>A redraw draws one arrow after the other and takes as many old ones as there are.\<close>

lemma draw_arrows:
  assumes "\<And>x s pool st'. draw x (s, pool) = Inr st' \<Longrightarrow>
      \<exists>s'. st' = (s', draw_arrow (arr (get_position s) x) pool) \<and> get_position s' = get_position s"
  shows "foldM draw xs (s, new, old) = Inr (s', new', old') \<Longrightarrow>
    new' = new @ map (arr (get_position s)) xs \<and> old' = take (length old - length xs) old \<and> get_position s' = get_position s"
proof (induction xs arbitrary: s new old)
  case (Cons x xs)
  then obtain st where st: "draw x (s, new, old) = Inr st" "foldM draw xs st = Inr (s', new', old')" by auto
  from assms [OF st(1)] obtain t where t: "st = (t, new @ [arr (get_position s) x], butlast old)" "get_position t = get_position s"
    by (auto simp: draw_arrow_def)
  have "take (length (butlast old) - length xs) (butlast old) = take (length old - length (x # xs)) old"
    by (simp add: butlast_conv_take min_def)
  with Cons.IH [OF st(2) [unfolded t(1)]] t(2) show ?case by simp
qed simp

lemma hidden_arrows: "filter ar_visible (take k (map hide_arrow as)) = []"
  using in_set_takeD [of _ k "map hide_arrow as"] by (fastforce simp: filter_empty_conv hide_arrow_def)

lemma pool_shown:
  assumes "\<And>x. ar_visible (f x)" and "as' = map f xs @ take (length as - length xs) (map hide_arrow as)"
  shows "filter ar_visible as' = map f xs" and "length as' = max (length as) (length xs)"
proof -
  have "filter ar_visible (map f xs) = map f xs" using assms(1) by (simp add: filter_id_conv)
  then show "filter ar_visible as' = map f xs" using assms(2) hidden_arrows by simp
  show "length as' = max (length as) (length xs)" using assms(2) by simp
qed

definition shown_transmission ::
    "(rat \<Rightarrow> rat) \<Rightarrow> (rat \<Rightarrow> string) \<Rightarrow> (pt \<times> pt \<Rightarrow> pt \<Rightarrow> pt \<Rightarrow> pt \<times> pt) \<Rightarrow> screen \<Rightarrow> (endpoint \<Rightarrow> pt) \<Rightarrow> (nat \<times> nat) \<times> nat \<times> nat \<Rightarrow> arrow" where
  "shown_transmission mlog fmt clip v pos x =
     transmission_arrow fmt clip v (max (1 / 10) (mlog (speed v (snd x)) * scaled v)) (pos (Node (fst (fst x)))) (pos (Node (snd (fst x)))) (snd x)"

definition shown_drop :: "(rat \<Rightarrow> rat) \<Rightarrow> (rat \<Rightarrow> string) \<Rightarrow> screen \<Rightarrow> (endpoint \<Rightarrow> pt) \<Rightarrow> nat \<times> nat \<times> nat \<Rightarrow> arrow" where
  "shown_drop mlog fmt v pos x =
     drop_arrow fmt v (max (1 / 10) (mlog (speed v (snd x)) * scaled v)) (pos (Node (fst x))) (snd x)"

lemma transmissions_view:
  assumes "update_transmissions_view mlog fmt clip v sets (s, as) = Inr (t, as')"
  shows "filter ar_visible as' =
      map (shown_transmission mlog fmt clip v (get_position s)) (averages (\<lambda>x. (transmitter x, receiver x)) bytes sets)"
    and "length as' = max (length as) (length (averages (\<lambda>x. (transmitter x, receiver x)) bytes sets))"
proof -
  let ?xs = "averages (\<lambda>x. (transmitter x, receiver x)) bytes sets" and ?f = "shown_transmission mlog fmt clip v (get_position s)"
  have draw: "draw_transmission mlog fmt clip v x (u, pool) = Inr st' \<Longrightarrow>
      \<exists>s'. st' = (s', draw_arrow (shown_transmission mlog fmt clip v (get_position u) x) pool) \<and> get_position s' = get_position u"
    for x u pool st'
    by (auto simp: draw_transmission_def line_width_of_def shown_transmission_def Let_def split: prod.splits if_splits)
  obtain new old where f: "foldM (draw_transmission mlog fmt clip v) ?xs (s, [], map hide_arrow as) = Inr (t, new, old)" "as' = new @ old"
    using assms by (auto simp: update_transmissions_view_def)
  have as': "as' = map ?f ?xs @ take (length as - length ?xs) (map hide_arrow as)"
    using draw_arrows [where arr = "shown_transmission mlog fmt clip v", OF draw f(1)] f(2) by simp
  have "ar_visible (?f x)" for x by (simp add: shown_transmission_def transmission_arrow_def Let_def split: prod.split)
  from pool_shown [OF this as'] show "filter ar_visible as' = map ?f ?xs" and "length as' = max (length as) (length ?xs)" by auto
qed

lemma drops_view:
  assumes "update_drops_view mlog fmt v sets (s, as) = Inr (t, as')"
  shows "filter ar_visible as' = map (shown_drop mlog fmt v (get_position s)) (averages dropper drop_bytes sets)"
    and "length as' = max (length as) (length (averages dropper drop_bytes sets))"
proof -
  let ?xs = "averages dropper drop_bytes sets" and ?f = "shown_drop mlog fmt v (get_position s)"
  have draw: "draw_drop mlog fmt v x (u, pool) = Inr st' \<Longrightarrow>
      \<exists>s'. st' = (s', draw_arrow (shown_drop mlog fmt v (get_position u) x) pool) \<and> get_position s' = get_position u" for x u pool st'
    by (auto simp: draw_drop_def line_width_of_def shown_drop_def Let_def split: prod.splits if_splits)
  obtain new old where f: "foldM (draw_drop mlog fmt v) ?xs (s, [], map hide_arrow as) = Inr (t, new, old)" "as' = new @ old"
    using assms by (auto simp: update_drops_view_def)
  have as': "as' = map ?f ?xs @ take (length as - length ?xs) (map hide_arrow as)"
    using draw_arrows [where arr = "shown_drop mlog fmt v", OF draw f(1)] f(2) by simp
  have "ar_visible (?f x)" for x by (simp add: shown_drop_def drop_arrow_def Let_def)
  from pool_shown [OF this as'] show "filter ar_visible as' = map ?f ?xs" and "length as' = max (length as) (length ?xs)" by auto
qed

text \<open>The lines of the arrows seen.\<close>

lemma shown_points [simp]:
  "ar_points (shown_transmission mlog fmt clip v pos x) = (pos (Node (fst (fst x))), pos (Node (snd (fst x))))"
  "ar_points (shown_drop mlog fmt v pos y) = (pos (Node (fst y)), (fst (pos (Node (fst y))), snd (snd (corners v))))"
  by (simp_all add: shown_transmission_def transmission_arrow_def shown_drop_def drop_arrow_def Let_def split: prod.split)

text \<open>C31. A redraw of the transmissions shows one arrow for every pair of nodes between which the last periods have a
  transmission, and none else, from where the sender is to where the receiver is; and it makes new arrows only when the
  old ones do not suffice.\<close>

theorem transmissions_shown:
  assumes "update_transmissions_view mlog fmt clip v sets (s, as) = Inr (t, as')"
  shows "\<exists>pairs. distinct pairs \<and> set pairs = (\<lambda>x. (transmitter x, receiver x)) ` set (concat sets) \<and>
    map ar_points (filter ar_visible as') = map (\<lambda>(i, j). (get_position s (Node i), get_position s (Node j))) pairs \<and>
    length as' = max (length as) (length pairs)"
proof -
  let ?avg = "averages (\<lambda>x. (transmitter x, receiver x)) bytes sets"
  have "set (map fst ?avg) = (\<lambda>x. (transmitter x, receiver x)) ` set (concat sets)"
    unfolding set_dkeys by (auto simp: dget_averages of_key_def filter_empty_conv Let_def)
  moreover have "map ar_points (filter ar_visible as') =
      map (\<lambda>(i, j). (get_position s (Node i), get_position s (Node j))) (map fst ?avg)"
    unfolding transmissions_view(1) [OF assms] by (simp add: comp_def split_beta)
  moreover have "length as' = max (length as) (length (map fst ?avg))"
    unfolding transmissions_view(2) [OF assms] by simp
  ultimately show ?thesis using distinct_averages by blast
qed

text \<open>The rate written beside an arrow is that of the mean size of the transmissions of the pair in the last periods:
  eight thousandths of the bytes, divided by their number and by the length of a period.\<close>

theorem rates_shown:
  assumes "update_transmissions_view mlog fmt clip v sets (s, as) = Inr (t, as')" and "a \<in> set as'" and "ar_visible a"
  shows "\<exists>i j. let bs = of_key (\<lambda>x. (transmitter x, receiver x)) bytes (i, j) (concat sets) in
    bs \<noteq> [] \<and> ar_points a = (get_position s (Node i), get_position s (Node j)) \<and>
    rate a \<in> {Rightwards (fmt (of_nat (8 * sum_list bs) / 1000 / of_nat (length bs) / period v)),
              Leftwards (fmt (of_nat (8 * sum_list bs) / 1000 / of_nat (length bs) / period v))}"
proof -
  let ?avg = "averages (\<lambda>x. (transmitter x, receiver x)) bytes sets"
  have "a \<in> set (filter ar_visible as')" using assms(2,3) by simp
  then obtain i j r where x: "((i, j), r) \<in> set ?avg" and a: "a = shown_transmission mlog fmt clip v (get_position s) ((i, j), r)"
    unfolding transmissions_view(1) [OF assms(1)] by auto
  have "dget ?avg (i, j) = Some r" by (rule map_of_is_SomeI [OF distinct_averages x])
  then have r: "of_key (\<lambda>x. (transmitter x, receiver x)) bytes (i, j) (concat sets) \<noteq> []"
    "r = (sum_list (of_key (\<lambda>x. (transmitter x, receiver x)) bytes (i, j) (concat sets)),
          length (of_key (\<lambda>x. (transmitter x, receiver x)) bytes (i, j) (concat sets)))"
    by (auto simp: dget_averages Let_def split: if_splits)
  have "rate a \<in> {Rightwards (fmt (kbps v r)), Leftwards (fmt (kbps v r))}"
    by (simp add: a shown_transmission_def transmission_arrow_def Let_def split: prod.split)
  then show ?thesis using r a by (auto simp: Let_def kbps_def mult.commute)
qed

text \<open>A redraw of the drops shows one arrow, down to the lower edge of what is seen, for every node that has dropped a
  packet in the last periods, and none else.\<close>

theorem drops_shown:
  assumes "update_drops_view mlog fmt v sets (s, as) = Inr (t, as')"
  shows "\<exists>is. distinct is \<and> set is = dropper ` set (concat sets) \<and>
    map ar_points (filter ar_visible as') =
      map (\<lambda>i. (get_position s (Node i), (fst (get_position s (Node i)), snd (snd (corners v))))) is \<and>
    length as' = max (length as) (length is)"
proof -
  let ?avg = "averages dropper drop_bytes sets"
  have "set (map fst ?avg) = dropper ` set (concat sets)"
    unfolding set_dkeys by (auto simp: dget_averages of_key_def filter_empty_conv Let_def)
  moreover have "map ar_points (filter ar_visible as') =
      map (\<lambda>i. (get_position s (Node i), (fst (get_position s (Node i)), snd (snd (corners v))))) (map fst ?avg)"
    unfolding drops_view(1) [OF assms] by (simp add: comp_def)
  moreover have "length as' = max (length as) (length (map fst ?avg))"
    unfolding drops_view(2) [OF assms] by simp
  ultimately show ?thesis using distinct_averages by blast
qed

text \<open>The logarithm raises for a pair all whose transmissions are empty.\<close>

lemma line_width_error: "0 < period v \<Longrightarrow> line_width_of mlog v (b, Suc n) = Inl ValueError \<longleftrightarrow> b = 0"
proof -
  assume "0 < period v"
  then have "0 < (1 + rat_of_nat n) * period v" by (intro mult_pos_pos add_pos_nonneg) simp_all
  then show "line_width_of mlog v (b, Suc n) = Inl ValueError \<longleftrightarrow> b = 0"
    by (auto simp: line_width_of_def speed_def divide_le_0_iff)
qed

section \<open>Witnesses\<close>

text \<open>Two transmissions from node 0 to node 1 and one back, and an old arrow.\<close>

definition small_samples :: "sample list list" where
  "small_samples =
     [[\<lparr>transmitter = 0, receiver = 1, bytes = 100\<rparr>, \<lparr>transmitter = 1, receiver = 0, bytes = 50\<rparr>],
      [\<lparr>transmitter = 0, receiver = 1, bytes = 300\<rparr>]]"

definition small_screen :: screen where
  "small_screen = \<lparr>adjustment = 1, period = 1 / 10, corners = ((0, 0), (600, 450))\<rparr>"

definition small_redraw :: "py_exn + scene \<times> arrow list" where
  "small_redraw = update_transmissions_view (\<lambda>x. x) (\<lambda>x. ''r'') (\<lambda>b p q. (p, q)) small_screen small_samples (new_scene 2 True, [])"

lemma small_averages:
  "averages (\<lambda>x. (transmitter x, receiver x)) bytes small_samples = [((0, 1), (400, 2)), ((1, 0), (50, 1))]"
  by (simp add: averages_def small_samples_def add_bytes_def)

lemma small_redraw_ok:
  obtains t as where "small_redraw = Inr (t, as)"
proof -
  have ok: "\<not> isl small_redraw"
    by (simp add: small_redraw_def update_transmissions_view_def small_averages draw_transmission_def draw_arrow_def
        line_width_of_def speed_def small_screen_def split_beta Let_def)
  show thesis
  proof (cases small_redraw)
    case (Inl e)
    with ok show ?thesis by (metis sum.disc(1))
  next
    case (Inr p)
    then show ?thesis using that by (cases p) simp
  qed
qed

lemma transmissions_shown_witness:
  "\<exists>t as. small_redraw = Inr (t, as) \<and> length as = 2"
proof -
  obtain t as where t: "small_redraw = Inr (t, as)" by (rule small_redraw_ok)
  obtain pairs where p: "distinct pairs" "set pairs = (\<lambda>x. (transmitter x, receiver x)) ` set (concat small_samples)"
    "length as = max (length ([] :: arrow list)) (length pairs)"
    using transmissions_shown [OF t [unfolded small_redraw_def]] by (elim exE conjE) (rule that)
  have "set pairs = {(0, 1), (1, 0)}" using p(2) by (auto simp: small_samples_def)
  then have "length pairs = 2" using distinct_card [OF p(1)] by simp
  then have "small_redraw = Inr (t, as) \<and> length as = 2" using t p(3) by simp
  then show ?thesis by blast
qed

lemma rates_shown_witness:
  "\<exists>t as a. small_redraw = Inr (t, as) \<and> a \<in> set as \<and> rate a \<in> {Rightwards ''r'', Leftwards ''r''}"
proof -
  obtain t as where t: "small_redraw = Inr (t, as)" by (rule small_redraw_ok)
  note r = t [unfolded small_redraw_def]
  have "filter ar_visible as \<noteq> []" unfolding transmissions_view(1) [OF r] small_averages by simp
  then obtain a where a: "a \<in> set as" "ar_visible a" by (auto simp: filter_empty_conv)
  from rates_shown [OF r a] t a(1) show ?thesis by (auto simp: Let_def)
qed

lemma drops_shown_witness:
  "\<exists>t as. update_drops_view (\<lambda>x. x) (\<lambda>x. ''r'') small_screen [[\<lparr>dropper = 3, drop_bytes = 7\<rparr>]] (new_scene 2 True, []) = Inr (t, as) \<and>
     length as = 1"
proof -
  let ?r = "update_drops_view (\<lambda>x. x) (\<lambda>x. ''r'') small_screen [[\<lparr>dropper = 3, drop_bytes = 7\<rparr>]] (new_scene 2 True, [])"
  have "\<not> isl ?r"
    by (simp add: update_drops_view_def averages_def add_bytes_def draw_drop_def draw_arrow_def line_width_of_def speed_def
        small_screen_def Let_def)
  then obtain t as where t: "?r = Inr (t, as)" by (cases ?r) auto
  obtain "is" where i: "distinct is" "set is = dropper ` set (concat [[\<lparr>dropper = 3, drop_bytes = 7\<rparr>]])"
    "length as = max (length ([] :: arrow list)) (length is)"
    using drops_shown [OF t] by (elim exE conjE) (rule that)
  then have "length is = 1" using distinct_card [OF i(1)] by simp
  with t i(3) show ?thesis by simp
qed

end
