(* ===== verification/Viz_Statistics.thy ===== *)
theory Viz_Statistics
  imports Viz_Traffic
begin

text \<open>
  The plugins of the visualizer that open a window for a node, \<^verbatim>\<open>src/visualizer/visualizer/plugins\<close>: the
  statistics of its interfaces, the packets captured at it, and its routing tables.  What the simulation says is a
  parameter; a window is the rows of its table.
\<close>

section \<open>Interface statistics\<close>

text \<open>\<^verbatim>\<open>interface_statistics.py\<close>: the counters of an interface, and what is shown of it.\<close>

record counters =
  tx_packets :: int
  tx_bytes :: int
  rx_packets :: int
  rx_bytes :: int

record net_dev_stats =
  counted :: counters
  tx_packet_rate :: rat
  rx_packet_rate :: rat
  tx_bit_rate :: rat
  rx_bit_rate :: rat

type_synonym collector = "(nat, counters list list) dict"

definition memory :: nat where
  "memory = 10"

definition collect :: "nat \<times> counters list \<Rightarrow> collector \<Rightarrow> collector" where
  "collect x c =
     (let (i, stats) = x; raw = (case dget c i of None \<Rightarrow> [] | Some l \<Rightarrow> l) in dset i (keep_period memory stats raw) c)"

definition statistics_update :: "(nat \<times> counters list) list \<Rightarrow> collector \<Rightarrow> collector" where
  "statistics_update = fold collect"

definition rates :: "rat \<Rightarrow> counters \<Rightarrow> counters \<Rightarrow> py_exn + net_dev_stats" where
  "rates k a b =
     rbind (quotient (of_int (tx_packets b - tx_packets a)) k) (\<lambda>tp.
     rbind (quotient (of_int (rx_packets b - rx_packets a)) k) (\<lambda>rp.
     rbind (quotient (of_int ((tx_bytes b - tx_bytes a) * 8)) k) (\<lambda>tb.
     rbind (quotient (of_int ((rx_bytes b - rx_bytes a) * 8)) k) (\<lambda>rb.
       Inr \<lparr>counted = b, tx_packet_rate = tp, rx_packet_rate = rp, tx_bit_rate = tb, rx_bit_rate = rb\<rparr>))))"

definition get_interface_statistics :: "rat \<Rightarrow> collector \<Rightarrow> nat \<Rightarrow> py_exn + net_dev_stats list" where
  "get_interface_statistics sample_period c i =
     (case dget c i of
        None \<Rightarrow> Inr []
      | Some raw \<Rightarrow>
          if length raw < memory then Inr []
          else if length raw \<noteq> memory then Inl AssertionError
          else
            let k = sample_period * of_nat (memory - 1)
            in mapM (\<lambda>(iface, b). rbind (py_get (hd raw) (int iface)) (\<lambda>a. rates k a b)) (enumerate 0 (last raw)))"

definition device_name :: "string \<Rightarrow> nat \<Rightarrow> string" where
  "device_name name i = (if name = [] then ''(interface '' @ nat_str i @ '')'' else name)"

text \<open>The rows of the window; \<open>names\<close> are those of the interfaces, \<open>fmt\<close> how a rate is written.\<close>

definition statistics_rows :: "(rat \<Rightarrow> string) \<Rightarrow> (nat \<Rightarrow> string) \<Rightarrow> net_dev_stats list \<Rightarrow> string list list" where
  "statistics_rows fmt names xs =
     map (\<lambda>(i, x).
       [device_name (names i) i, int_str (tx_packets (counted x)), int_str (tx_bytes (counted x)), fmt (tx_packet_rate x), fmt (tx_bit_rate x),
        int_str (rx_packets (counted x)), int_str (rx_bytes (counted x)), fmt (rx_packet_rate x), fmt (rx_bit_rate x)])
       (enumerate 0 xs)"

section \<open>Packets captured\<close>

text \<open>\<^verbatim>\<open>show_last_packets.py\<close>: the types of headers and trailers that can be asked for.  A type is a number; a
  type without a parent is a root.  A loop over parents that never ends is \<open>None\<close>.\<close>

partial_function (option) is_header_type :: "(nat \<Rightarrow> nat option) \<Rightarrow> nat \<Rightarrow> nat \<Rightarrow> nat \<Rightarrow> bool option" where
  "is_header_type parent header trailer t =
     (if t = header \<or> t = trailer then Some True
      else case parent t of None \<Rightarrow> Some False | Some p \<Rightarrow> is_header_type parent header trailer p)"

declare is_header_type.simps [code]

primrec packet_filter_list :: "(nat \<Rightarrow> nat option) \<Rightarrow> nat \<Rightarrow> nat \<Rightarrow> nat list \<Rightarrow> (nat \<times> bool) list option" where
  "packet_filter_list parent header trailer [] = Some []"
| "packet_filter_list parent header trailer (t # ts) =
     (case is_header_type parent header trailer t of
        None \<Rightarrow> None
      | Some good \<Rightarrow>
          map_option (\<lambda>l. if \<not> good \<or> t \<in> {header, trailer} then l else (t, True) # l) (packet_filter_list parent header trailer ts))"

text \<open>What the simulation was last told to capture: whether all headers must be there or one of them, the number of packets,
  and the headers.\<close>

datatype capture_mode = Headers_And | Headers_Or

record capture =
  capture_mode :: capture_mode
  num_last_packets :: nat
  headers :: "nat list"

record packets_window =
  filter_list :: "(nat \<times> bool) list"
  op_and :: bool
  capture_set :: "capture option"

definition update_capture_options :: "packets_window \<Rightarrow> packets_window" where
  "update_capture_options s =
     s\<lparr>capture_set := Some
       \<lparr>capture_mode = (if op_and s then Headers_And else Headers_Or), num_last_packets = 100,
        headers = map fst (filter snd (filter_list s))\<rparr>\<rparr>"

definition select_all :: "bool \<Rightarrow> packets_window \<Rightarrow> packets_window" where
  "select_all b s = update_capture_options (s\<lparr>filter_list := map (\<lambda>(t, _). (t, b)) (filter_list s)\<rparr>)"

text \<open>The handler of the button is called when its state changes.\<close>

definition op_toggled :: "bool \<Rightarrow> packets_window \<Rightarrow> packets_window" where
  "op_toggled b s = (if op_and s = b then s else update_capture_options (s\<lparr>op_and := b\<rparr>))"

definition cell_edited :: "nat \<Rightarrow> bool \<Rightarrow> packets_window \<Rightarrow> packets_window" where
  "cell_edited k b s =
     (if k < length (filter_list s)
      then update_capture_options (s\<lparr>filter_list := (filter_list s)[k := (fst (filter_list s ! k), b)]\<rparr>)
      else s)"

text \<open>The window when it opens: every header selected, one of them enough.\<close>

definition show_last_packets :: "(nat \<times> bool) list \<Rightarrow> packets_window" where
  "show_last_packets l = update_capture_options \<lparr>filter_list = l, op_and = False, capture_set = None\<rparr>"

datatype packets_event = Select_All | Select_None | Op_And bool | Cell_Edited nat bool

fun packets_step :: "packets_event \<Rightarrow> packets_window \<Rightarrow> py_exn + packets_window" where
  "packets_step Select_All s = Inr (select_all True s)"
| "packets_step Select_None s = Inr (select_all False s)"
| "packets_step (Op_And b) s = Inr (op_toggled b s)"
| "packets_step (Cell_Edited k b) s = Inr (cell_edited k b s)"

text \<open>The rows of a list of packets: the time, the interface, the size and the contents, as the simulation writes them; the
  interface by its name and number, if it is known.\<close>

record packet_sample =
  sample_time :: string
  sample_device :: "(string \<times> nat) option"
  sample_size :: nat
  sample_contents :: string

definition packet_rows :: "packet_sample list \<Rightarrow> string list list" where
  "packet_rows =
     map (\<lambda>x. [sample_time x, case sample_device x of None \<Rightarrow> ''(unknown)'' | Some (name, i) \<Rightarrow> device_name name i,
                nat_str (sample_size x), sample_contents x])"

section \<open>Routing tables\<close>

text \<open>\<^verbatim>\<open>ipv4_routing_table.py\<close> and \<^verbatim>\<open>olsr.py\<close>: a route, and the routing protocol of a node; a list of
  protocols has priorities.\<close>

record route =
  destination :: string
  next_hop :: string
  interface :: nat

datatype routing = Static "route list" | Global "route list" | Listed "(routing \<times> int) list" | Other_Routing

definition routing_protocols :: "routing \<Rightarrow> (route list \<times> string \<times> int) list" where
  "routing_protocols r =
     (case r of
        Static rs \<Rightarrow> [(rs, ''static'', 0)]
      | Listed l \<Rightarrow>
          concat (map (\<lambda>(q, prio).
            case q of Static rs \<Rightarrow> [(rs, ''static'', prio)] | Global rs \<Rightarrow> [(rs, ''global'', prio)] | _ \<Rightarrow> []) l)
      | _ \<Rightarrow> [])"

text \<open>\<open>dev\<close> is the name of the device of an interface, \<open>None\<close> where it has no device.\<close>

definition route_interface :: "(nat \<Rightarrow> string option) \<Rightarrow> nat \<Rightarrow> string" where
  "route_interface dev i = (case dev i of None \<Rightarrow> ''lo'' | Some name \<Rightarrow> device_name name i)"

type_synonym route_row = "string \<times> string \<times> string \<times> string \<times> int"

definition ipv4_table_update :: "(nat \<Rightarrow> string option) \<Rightarrow> routing option \<Rightarrow> route_row list \<Rightarrow> route_row list" where
  "ipv4_table_update dev r rows =
     (case r of
        None \<Rightarrow> rows
      | Some r \<Rightarrow>
          if routing_protocols r = [] then rows
          else concat (map (\<lambda>(rs, type_string, prio).
            map (\<lambda>x. (destination x, next_hop x, route_interface dev (interface x), type_string, prio)) rs) (routing_protocols r)))"

text \<open>The routes of OLSR have a distance.\<close>

definition olsr_table_update ::
    "(nat \<Rightarrow> string option) \<Rightarrow> (route \<times> nat) list option \<Rightarrow> (string \<times> string \<times> string \<times> nat) list \<Rightarrow> (string \<times> string \<times> string \<times> nat) list" where
  "olsr_table_update dev r rows =
     (case r of
        None \<Rightarrow> rows
      | Some rs \<Rightarrow> map (\<lambda>(x, d). (destination x, next_hop x, route_interface dev (interface x), d)) rs)"

section \<open>What the statistics are\<close>

definition samples_of :: "nat \<Rightarrow> (nat \<times> 'a) list \<Rightarrow> 'a list" where
  "samples_of i xs = map snd (filter (\<lambda>x. fst x = i) xs)"

lemma dget_collect:
  "dget (fold collect xs c) i =
     (if samples_of i xs = [] then dget c i
      else Some (fold (keep_period memory) (samples_of i xs) (case dget c i of None \<Rightarrow> [] | Some l \<Rightarrow> l)))"
  by (induction xs arbitrary: c) (auto simp: samples_of_def collect_def split: prod.split)

lemma statistics_concat: "fold statistics_update us c = fold collect (concat us) c"
  by (induction us arbitrary: c) (simp_all add: statistics_update_def)

definition between :: "rat \<Rightarrow> counters \<Rightarrow> counters \<Rightarrow> net_dev_stats" where
  "between k a b =
     \<lparr>counted = b, tx_packet_rate = of_int (tx_packets b - tx_packets a) / k, rx_packet_rate = of_int (rx_packets b - rx_packets a) / k,
      tx_bit_rate = 8 * of_int (tx_bytes b - tx_bytes a) / k, rx_bit_rate = 8 * of_int (rx_bytes b - rx_bytes a) / k\<rparr>"

lemma rates_between: "k \<noteq> 0 \<Longrightarrow> rates k a b = Inr (between k a b)"
  by (simp add: rates_def between_def quotient_def mult.commute)

theorem statistics_rates:
  fixes us :: "(nat \<times> counters list) list list" and i
  defines "xs \<equiv> samples_of i (concat us)"
  assumes "p \<noteq> 0" and "10 \<le> length xs \<Longrightarrow> length (last xs) \<le> length (xs ! (length xs - 10))"
  shows "get_interface_statistics p (fold statistics_update us []) i = Inr
    (if length xs < 10 then []
     else map (\<lambda>j. between (9 * p) (xs ! (length xs - 10) ! j) (last xs ! j)) [0..<length (last xs)])"
proof -
  have c: "dget (fold statistics_update us []) i = (if xs = [] then None else Some (drop (length xs - 10) xs))"
    by (simp add: statistics_concat dget_collect last_periods memory_def flip: xs_def)
  show ?thesis
  proof (cases "length xs < 10")
    case True
    then show ?thesis by (simp add: get_interface_statistics_def c memory_def)
  next
    case False
    let ?a = "xs ! (length xs - 10)" and ?f = "\<lambda>(j, b). between (9 * p) (xs ! (length xs - 10) ! j) b"
    from False have ends: "hd (drop (length xs - 10) xs) = ?a" "last (drop (length xs - 10) xs) = last xs"
      by (simp_all add: hd_drop_conv_nth)
    have "mapM (\<lambda>(j, b). rbind (py_get ?a (int j)) (\<lambda>a. rates (p * 9) a b)) (enumerate 0 (last xs)) =
        Inr (map ?f (enumerate 0 (last xs)))"
    proof (rule mapM_all_ok)
      fix x assume "x \<in> set (enumerate 0 (last xs))"
      then have "fst x < length ?a" using assms(3) False by (simp add: in_set_enumerate_eq)
      then obtain j b where x: "x = (j, b)" "j < length ?a" by (cases x) simp
      then show "(case x of (j, b) \<Rightarrow> rbind (py_get ?a (int j)) (\<lambda>a. rates (p * 9) a b)) = Inr (?f x)"
        using assms(2) by (simp add: py_get_nonneg rates_between mult.commute)
    qed
    moreover have "map ?f (enumerate 0 (last xs)) = map (\<lambda>j. ?f (j, last xs ! j)) [0..<length (last xs)]"
      by (rule nth_equalityI) (simp_all add: nth_enumerate_eq)
    ultimately show ?thesis using False c ends by (auto simp: get_interface_statistics_def memory_def Let_def)
  qed
qed

text \<open>An interface added to a node within the last ten periods has no counters to be compared with: the window of the node
  raises.\<close>

lemma new_interface_raises:
  assumes "length us = 10" and "\<forall>u \<in> set us. \<exists>x. u = [(i, x)]" and "length (snd (hd (hd us))) < length (snd (hd (last us)))"
    and "p \<noteq> 0"
  shows "get_interface_statistics p (fold statistics_update us []) i = Inl IndexError"
proof -
  have "samples_of i (concat us) = map (snd \<circ> hd) us" using assms(2)
    by (induction us) (auto simp: samples_of_def)
  then have "dget (fold statistics_update us []) i = Some (map (snd \<circ> hd) us)"
    using assms(1) by (auto simp: statistics_concat dget_collect last_periods memory_def)
  moreover have "mapM (\<lambda>(j, b). rbind (py_get xs (int j)) (\<lambda>a. rates (p * 9) a b)) (enumerate k ys) = Inl IndexError"
    if "length xs < k + length ys" "k \<le> length xs" for xs ys k
    using that
  proof (induction ys arbitrary: k)
    case (Cons y ys)
    then show ?case using assms(4)
      by (cases "k < length xs") (simp_all add: py_get_nonneg rates_between, simp add: py_get_def)
  qed simp
  from this [of "snd (hd (hd us))" 0 "snd (hd (last us))"]
  have "mapM (\<lambda>(j, b). rbind (py_get (snd (hd (hd us))) (int j)) (\<lambda>a. rates (p * 9) a b)) (enumerate 0 (snd (hd (last us)))) = Inl IndexError"
    using assms(3) by simp
  moreover have "us \<noteq> []" using assms(1) by auto
  ultimately show ?thesis
    using assms(1) by (simp add: get_interface_statistics_def memory_def Let_def hd_map last_map)
qed

section \<open>What is captured\<close>

text \<open>Where no type is its own ancestor the list is that of the types below header or trailer.\<close>

definition below :: "(nat \<Rightarrow> nat option) \<Rightarrow> (nat \<times> nat) set" where
  "below parent = {(p, t). parent t = Some p}"

lemma is_header_type_ends:
  assumes "wf (below parent)"
  shows "is_header_type parent h r t = Some (\<exists>a \<in> {h, r}. (a, t) \<in> (below parent)\<^sup>*)"
  using assms
proof (induction t)
  case (less t)
  have step: "(a, t) \<in> (below parent)\<^sup>* \<longleftrightarrow> a = t \<or> (\<exists>p. parent t = Some p \<and> (a, p) \<in> (below parent)\<^sup>*)" for a
    by (auto simp: below_def elim: rtranclE intro: rtrancl_into_rtrancl)
  show ?case
  proof (cases "parent t")
    case None
    then show ?thesis by (subst is_header_type.simps) (auto simp: step)
  next
    case (Some p)
    then have "is_header_type parent h r p = Some (\<exists>a \<in> {h, r}. (a, p) \<in> (below parent)\<^sup>*)"
      by (intro less) (simp add: below_def)
    with Some show ?thesis by (subst is_header_type.simps) (auto simp: step)
  qed
qed

theorem packet_types:
  assumes "wf (below parent)"
  shows "packet_filter_list parent h r ts =
    Some (map (\<lambda>t. (t, True)) (filter (\<lambda>t. t \<notin> {h, r} \<and> (\<exists>a \<in> {h, r}. (a, t) \<in> (below parent)\<^sup>*)) ts))"
  by (induction ts) (auto simp: is_header_type_ends [OF assms])

text \<open>The simulation captures what the window shows.\<close>

definition capture_ok :: "packets_window \<Rightarrow> bool" where
  "capture_ok s \<longleftrightarrow> capture_set s = capture_set (update_capture_options s)"

interpretation capture: run_invariant packets_step "show_last_packets l" capture_ok for l
proof unfold_locales
  show "capture_ok (show_last_packets l)" by (simp add: capture_ok_def show_last_packets_def update_capture_options_def)
  show "capture_ok t" if "capture_ok s" "packets_step x s = Inr t" for s x t
    using that by (cases x)
      (auto simp: capture_ok_def select_all_def op_toggled_def cell_edited_def update_capture_options_def split: if_splits)
qed

theorem capture_as_shown:
  assumes "foldM packets_step es (show_last_packets l) = Inr s"
  shows "\<exists>c. capture_set s = Some c \<and> (capture_mode c = Headers_And \<longleftrightarrow> op_and s) \<and> num_last_packets c = 100 \<and>
    headers c = map fst (filter snd (filter_list s))"
  using capture.after [OF assms] by (auto simp: capture_ok_def update_capture_options_def)

end
