(* ===== verification/Viz_Wifi.thy ===== *)
theory Viz_Wifi
  imports Viz_Base "HOL-Library.Multiset"
begin

text \<open>
  \<^verbatim>\<open>src/visualizer/visualizer/plugins/wifi_intrastructure_link.py\<close>: the lines from the stations of wireless
  networks to their access points.  What the simulation says of the stations is a parameter.
\<close>

section \<open>Wireless links\<close>

text \<open>A link knows its station and its access point; a link destroyed knows neither.
  \<open>known\<close> are the links each node has been told of.\<close>

record wifi_link =
  sta :: "nat option"
  ap :: "nat option"
  shown :: bool
  line :: "(pt \<times> pt) option"

record wifi =
  wifi_links :: "wifi_link list"
  known :: "(nat, nat list) dict"
  stations :: "(nat \<times> nat \<times> nat) list"
  access_points :: "(string, nat) dict"

definition node_links :: "wifi \<Rightarrow> nat \<Rightarrow> nat list" where
  "node_links s n = (case dget (known s) n of None \<Rightarrow> [] | Some l \<Rightarrow> l)"

text \<open>\<open>Node.add_link\<close> and \<open>Node.remove_link\<close> of \<^verbatim>\<open>core.py\<close>\<close>

definition node_add_link :: "nat \<Rightarrow> nat \<Rightarrow> wifi \<Rightarrow> wifi" where
  "node_add_link n w s = s\<lparr>known := dset n (node_links s n @ [w]) (known s)\<rparr>"

definition node_remove_link :: "nat \<Rightarrow> nat \<Rightarrow> wifi \<Rightarrow> py_exn + wifi" where
  "node_remove_link n w s =
     (if w \<in> set (node_links s n) then Inr (s\<lparr>known := dset n (remove1 w (node_links s n)) (known s)\<rparr>) else Inl ValueError)"

definition set_link :: "nat \<Rightarrow> (wifi_link \<Rightarrow> wifi_link) \<Rightarrow> wifi \<Rightarrow> wifi" where
  "set_link w f s = s\<lparr>wifi_links := (wifi_links s)[w := f (wifi_links s ! w)]\<rparr>"

definition wifi_update_points :: "(nat \<Rightarrow> pt) \<Rightarrow> nat \<Rightarrow> wifi \<Rightarrow> py_exn + wifi" where
  "wifi_update_points pos w s =
     (case (ap (wifi_links s ! w), sta (wifi_links s ! w)) of
        (None, _) \<Rightarrow> Inr s
      | (Some a, None) \<Rightarrow> Inl AttributeError
      | (Some a, Some n) \<Rightarrow> Inr (set_link w (\<lambda>l. l\<lparr>line := Some (pos n, pos a)\<rparr>) s))"

definition set_ap :: "(nat \<Rightarrow> pt) \<Rightarrow> nat option \<Rightarrow> nat \<Rightarrow> wifi \<Rightarrow> py_exn + wifi" where
  "set_ap pos a w s =
     (if a = ap (wifi_links s ! w) then Inr s
      else
        rbind (case ap (wifi_links s ! w) of None \<Rightarrow> Inr s | Some old \<Rightarrow> node_remove_link old w s) (\<lambda>s.
          let s = set_link w (\<lambda>l. l\<lparr>ap := a\<rparr>) s;
              s = (case a of
                     None \<Rightarrow> set_link w (\<lambda>l. l\<lparr>shown := False\<rparr>) s
                   | Some n \<Rightarrow> set_link w (\<lambda>l. l\<lparr>shown := True\<rparr>) (node_add_link n w s))
          in wifi_update_points pos w s))"

text \<open>A link is made without an access point; setting it to none does nothing then, so the link is not hidden, but it has no
  points.\<close>

definition new_wifi_link :: "nat \<Rightarrow> wifi_link" where
  "new_wifi_link n = \<lparr>sta = Some n, ap = None, shown = True, line = None\<rparr>"

definition destroy :: "nat \<Rightarrow> wifi \<Rightarrow> wifi" where
  "destroy w = set_link w (\<lambda>l. l\<lparr>sta := None, ap := None, shown := False\<rparr>)"

text \<open>A device of a node: a station by its identity, an access point with its address, or neither.\<close>

datatype wifi_device = Station nat | Access_Point string | Other_Device

definition scan_wifi_device :: "nat \<Rightarrow> wifi_device \<Rightarrow> wifi \<Rightarrow> wifi" where
  "scan_wifi_device n d s =
     (case d of
        Station k \<Rightarrow>
          s\<lparr>wifi_links := wifi_links s @ [new_wifi_link n], stations := stations s @ [(k, n, length (wifi_links s))]\<rparr>
      | Access_Point bssid \<Rightarrow> s\<lparr>access_points := dset bssid n (access_points s)\<rparr>
      | Other_Device \<Rightarrow> s)"

definition scan_nodes :: "(nat \<times> wifi_device list) list \<Rightarrow> wifi \<Rightarrow> wifi" where
  "scan_nodes ns s =
     (let s = fold (\<lambda>(_, _, w). destroy w) (stations s) s
      in fold (\<lambda>(n, ds). fold (scan_wifi_device n) ds) ns (s\<lparr>access_points := [], stations := []\<rparr>))"

text \<open>Whether the link of a station is up, and the identifier of its network, zero where it has none.\<close>

definition no_bssid :: string where
  "no_bssid = ''00:00:00:00:00:00''"

record air =
  up :: "nat \<Rightarrow> bool"
  bssid :: "nat \<Rightarrow> string"

definition new_ap :: "air \<Rightarrow> (string, nat) dict \<Rightarrow> nat \<Rightarrow> py_exn + nat option" where
  "new_ap e aps d =
     (if \<not> up e d then Inr None
      else if bssid e d = no_bssid then Inr None
      else case dget aps (bssid e d) of None \<Rightarrow> Inl KeyError | Some n \<Rightarrow> Inr (Some n))"

definition wifi_periodic_update :: "(nat \<Rightarrow> pt) \<Rightarrow> air \<Rightarrow> wifi \<Rightarrow> py_exn + wifi" where
  "wifi_periodic_update pos e s =
     foldM (\<lambda>(d, n, w) s. rbind (new_ap e (access_points s) d) (\<lambda>a. set_ap pos a w s)) (stations s) s"

definition wifi_update_view :: "(nat \<Rightarrow> pt) \<Rightarrow> wifi \<Rightarrow> py_exn + wifi" where
  "wifi_update_view pos s = foldM (\<lambda>(d, n, w). wifi_update_points pos w) (stations s) s"

text \<open>A node that moves has the links it knows redrawn.\<close>

definition wifi_node_moved :: "(nat \<Rightarrow> pt) \<Rightarrow> nat \<Rightarrow> wifi \<Rightarrow> py_exn + wifi" where
  "wifi_node_moved pos n s = foldM (wifi_update_points pos) (node_links s n) s"

datatype wifi_event =
    Scanned "(nat \<times> wifi_device list) list"
  | Period "nat \<Rightarrow> pt" air
  | View_Updated "nat \<Rightarrow> pt"
  | Moved "nat \<Rightarrow> pt" nat

fun wifi_step :: "wifi_event \<Rightarrow> wifi \<Rightarrow> py_exn + wifi" where
  "wifi_step (Scanned ns) s = Inr (scan_nodes ns s)"
| "wifi_step (Period pos e) s = wifi_periodic_update pos e s"
| "wifi_step (View_Updated pos) s = wifi_update_view pos s"
| "wifi_step (Moved pos n) s = wifi_node_moved pos n s"

definition new_monitor :: wifi where
  "new_monitor = \<lparr>wifi_links = [], known = [], stations = [], access_points = []\<rparr>"

section \<open>What the wireless links show\<close>

text \<open>A link of a station is known to its access point and to no other node, seen while it has one, and drawn then; one that
  has been destroyed has no access point.\<close>

definition link_ok :: "wifi \<Rightarrow> nat \<Rightarrow> bool" where
  "link_ok s w \<longleftrightarrow>
     (let l = wifi_links s ! w
      in if sta l = None then ap l = None
         else (\<forall>n. count_list (node_links s n) w = (if ap l = Some n then 1 else 0)) \<and>
              (if ap l = None then shown l \<longrightarrow> line l = None else shown l \<and> line l \<noteq> None))"

definition wifi_inv :: "wifi \<Rightarrow> bool" where
  "wifi_inv s \<longleftrightarrow>
     distinct (map (snd \<circ> snd) (stations s)) \<and>
     (\<forall>(d, n, w) \<in> set (stations s). w < length (wifi_links s) \<and> sta (wifi_links s ! w) = Some n) \<and>
     (\<forall>w < length (wifi_links s). link_ok s w) \<and>
     (\<forall>n. \<forall>w \<in> set (node_links s n). w < length (wifi_links s))"

lemma node_links_add [simp]: "node_links (node_add_link n w s) m = node_links s m @ (if m = n then [w] else [])"
  by (simp add: node_links_def node_add_link_def)

lemma node_links_fields [simp]:
  "node_links (set_link w f s) = node_links s" "wifi_links (node_add_link n w s) = wifi_links s"
  "wifi_links (set_link w f s) = (wifi_links s)[w := f (wifi_links s ! w)]" "stations (set_link w f s) = stations s"
  "access_points (set_link w f s) = access_points s" "stations (node_add_link n w s) = stations s"
  "access_points (node_add_link n w s) = access_points s"
  by (auto simp: node_links_def set_link_def node_add_link_def)

text \<open>What setting the access point of a link does.\<close>

lemma set_ap_changes:
  assumes "wifi_inv s" and w: "w < length (wifi_links s)" and n: "sta (wifi_links s ! w) = Some n" and "a \<noteq> ap (wifi_links s ! w)"
  obtains t where "set_ap pos a w s = Inr t" and "stations t = stations s" and "access_points t = access_points s"
    and "wifi_links t = (wifi_links s)[w := (wifi_links s ! w)
      \<lparr>ap := a, shown := a \<noteq> None, line := (case a of None \<Rightarrow> line (wifi_links s ! w) | Some b \<Rightarrow> Some (pos n, pos b))\<rparr>]"
    and "\<And>m. node_links t m =
      (if ap (wifi_links s ! w) = Some m then remove1 w (node_links s m) else node_links s m) @ (if a = Some m then [w] else [])"
proof -
  let ?l = "wifi_links s ! w"
  have ok: "link_ok s w" using assms(1) w by (simp add: wifi_inv_def)
  have mem: "w \<in> set (node_links s m)" if "ap ?l = Some m" for m
  proof -
    from ok n that have "count_list (node_links s m) w = 1" by (simp add: link_ok_def Let_def)
    then show ?thesis using count_notin by fastforce
  qed
  define s1 where "s1 = (case ap ?l of None \<Rightarrow> s | Some m \<Rightarrow> s\<lparr>known := dset m (remove1 w (node_links s m)) (known s)\<rparr>)"
  have first: "(case ap ?l of None \<Rightarrow> Inr s | Some old \<Rightarrow> node_remove_link old w s) = Inr s1"
    using mem by (auto simp: s1_def node_remove_link_def split: option.split)
  have s1: "wifi_links s1 = wifi_links s" "stations s1 = stations s" "access_points s1 = access_points s"
    "node_links s1 m = (if ap ?l = Some m then remove1 w (node_links s m) else node_links s m)" for m
    by (auto simp: s1_def node_links_def split: option.split)
  show thesis
  proof (cases a)
    case None
    show thesis
      by (rule that [of "set_link w (\<lambda>l. l\<lparr>shown := False\<rparr>) (set_link w (\<lambda>l. l\<lparr>ap := None\<rparr>) s1)"])
        (use assms(4) first s1 w None in \<open>simp_all add: set_ap_def Let_def wifi_update_points_def\<close>)
  next
    case (Some b)
    show thesis
      by (rule that [of "set_link w (\<lambda>l. l\<lparr>line := Some (pos n, pos b)\<rparr>) (set_link w (\<lambda>l. l\<lparr>shown := True\<rparr>)
          (node_add_link b w (set_link w (\<lambda>l. l\<lparr>ap := Some b\<rparr>) s1)))"])
        (use assms(4) first s1 w n Some in \<open>auto simp: set_ap_def Let_def wifi_update_points_def\<close>)
  qed
qed

text \<open>The lists of links of the other links stay as they are.\<close>

lemma set_ap_keeps:
  assumes "wifi_inv s" and w: "w < length (wifi_links s)" and n: "sta (wifi_links s ! w) = Some n"
  obtains t where "set_ap pos a w s = Inr t" and "wifi_inv t" and "stations t = stations s" and "access_points t = access_points s"
    and "length (wifi_links t) = length (wifi_links s)" and "ap (wifi_links t ! w) = a"
    and "\<And>v. v \<noteq> w \<Longrightarrow> wifi_links t ! v = wifi_links s ! v" and "\<And>v. sta (wifi_links t ! v) = sta (wifi_links s ! v)"
proof (cases "a = ap (wifi_links s ! w)")
  case True
  then have "set_ap pos a w s = Inr s" by (simp add: set_ap_def)
  from that [OF this assms(1)] True show thesis by simp
next
  case False
  let ?l = "wifi_links s ! w"
  obtain t where t: "set_ap pos a w s = Inr t" "stations t = stations s" "access_points t = access_points s"
    "wifi_links t = (wifi_links s)[w := ?l
      \<lparr>ap := a, shown := a \<noteq> None, line := (case a of None \<Rightarrow> line ?l | Some b \<Rightarrow> Some (pos n, pos b))\<rparr>]"
    "\<And>m. node_links t m = (if ap ?l = Some m then remove1 w (node_links s m) else node_links s m) @ (if a = Some m then [w] else [])"
    using set_ap_changes [OF assms False] by metis
  have sta: "sta (wifi_links t ! v) = sta (wifi_links s ! v)" for v
    using w by (simp add: t(4) nth_list_update)
  have count: "count_list (remove1 w l) v = count_list l v - (if v = w then 1 else 0)" for l v
    by (induction l) auto
  have ok: "link_ok t v" if v: "v < length (wifi_links s)" for v
  proof (cases "v = w")
    case True
    moreover have "link_ok s w" using assms(1) w by (simp add: wifi_inv_def)
    ultimately show ?thesis using w n False by (auto simp: link_ok_def Let_def t(4,5) count split: option.split)
  next
    case False
    then have "wifi_links t ! v = wifi_links s ! v" "count_list (node_links t m) v = count_list (node_links s m) v" for m
      by (auto simp: t(4,5) count)
    moreover have "link_ok s v" using assms(1) v by (simp add: wifi_inv_def)
    ultimately show ?thesis by (simp only: link_ok_def)
  qed
  have "v < length (wifi_links s)" if "v \<in> set (node_links t m)" for v m
    using that w assms(1) by (auto simp: t(5) wifi_inv_def dest: subsetD [OF set_remove1_subset] split: if_splits)
  with ok sta assms(1) have "wifi_inv t" by (auto simp: wifi_inv_def t(2,4))
  then show thesis by (rule that [OF t(1) _ t(2,3)]) (use w sta in \<open>simp_all add: t(4)\<close>)
qed

lemma update_points_keeps:
  assumes "wifi_inv s" and w: "w < length (wifi_links s)"
  obtains t where "wifi_update_points pos w s = Inr t" and "wifi_inv t" and "stations t = stations s"
    and "access_points t = access_points s" and "length (wifi_links t) = length (wifi_links s)"
    and "\<And>v. ap (wifi_links t ! v) = ap (wifi_links s ! v)" and "\<And>v. sta (wifi_links t ! v) = sta (wifi_links s ! v)"
    and "\<And>v. shown (wifi_links t ! v) = shown (wifi_links s ! v)" and "\<And>v. v \<noteq> w \<Longrightarrow> wifi_links t ! v = wifi_links s ! v"
    and "\<And>a n. ap (wifi_links s ! w) = Some a \<Longrightarrow> sta (wifi_links s ! w) = Some n \<Longrightarrow> line (wifi_links t ! w) = Some (pos n, pos a)"
proof (cases "ap (wifi_links s ! w)")
  case None
  then have "wifi_update_points pos w s = Inr s" by (simp add: wifi_update_points_def split: option.split)
  from that [OF this assms(1)] None show thesis by simp
next
  case (Some a)
  have "link_ok s w" using assms by (simp add: wifi_inv_def)
  then obtain n where n: "sta (wifi_links s ! w) = Some n" using Some by (auto simp: link_ok_def Let_def split: if_splits)
  define t where "t = set_link w (\<lambda>l. l\<lparr>line := Some (pos n, pos a)\<rparr>) s"
  have run: "wifi_update_points pos w s = Inr t" by (simp add: wifi_update_points_def Some n t_def)
  have same: "ap (wifi_links t ! v) = ap (wifi_links s ! v)" "sta (wifi_links t ! v) = sta (wifi_links s ! v)"
    "shown (wifi_links t ! v) = shown (wifi_links s ! v)" "line (wifi_links t ! v) = None \<longleftrightarrow> v \<noteq> w \<and> line (wifi_links s ! v) = None" for v
    using w by (cases "v = w"; simp add: t_def)+
  have "link_ok t v" if "link_ok s v" for v
    using that \<open>link_ok s w\<close> Some n by (cases "v = w") (simp_all add: link_ok_def Let_def same, simp_all add: t_def)
  then have "wifi_inv t" using assms(1) same(2) by (auto simp: wifi_inv_def) (auto simp: t_def)
  then show thesis by (rule that [OF run]) (use same w in \<open>simp_all add: t_def Some n\<close>)
qed

text \<open>The loops over the stations.\<close>

definition no_ap :: "air \<Rightarrow> (string, nat) dict \<Rightarrow> nat \<Rightarrow> bool" where
  "no_ap e aps d \<longleftrightarrow> up e d \<and> bssid e d \<noteq> no_bssid \<and> dget aps (bssid e d) = None"

lemma new_ap_no_ap: "new_ap e aps d = (if no_ap e aps d then Inl KeyError
    else Inr (if up e d \<and> bssid e d \<noteq> no_bssid then dget aps (bssid e d) else None))"
  by (auto simp: new_ap_def no_ap_def split: option.split)

definition stations_ok :: "(nat \<times> nat \<times> nat) list \<Rightarrow> wifi \<Rightarrow> bool" where
  "stations_ok xs s \<longleftrightarrow> distinct (map (snd \<circ> snd) xs) \<and>
     (\<forall>(d, n, w) \<in> set xs. w < length (wifi_links s) \<and> sta (wifi_links s ! w) = Some n)"

lemma stations_ok_Cons [simp]:
  "stations_ok ((d, n, w) # xs) s \<longleftrightarrow>
     stations_ok xs s \<and> w < length (wifi_links s) \<and> sta (wifi_links s ! w) = Some n \<and> w \<notin> (snd \<circ> snd) ` set xs"
  by (auto simp: stations_ok_def)

lemma periodic_loop:
  assumes "wifi_inv s" and "stations_ok xs s"
  shows "if \<exists>(d, n, w) \<in> set xs. no_ap e (access_points s) d
    then foldM (\<lambda>(d, n, w) s. rbind (new_ap e (access_points s) d) (\<lambda>a. set_ap pos a w s)) xs s = Inl KeyError
    else \<exists>t. foldM (\<lambda>(d, n, w) s. rbind (new_ap e (access_points s) d) (\<lambda>a. set_ap pos a w s)) xs s = Inr t \<and>
      wifi_inv t \<and> stations t = stations s \<and> access_points t = access_points s \<and> length (wifi_links t) = length (wifi_links s) \<and>
      (\<forall>v. v \<notin> (snd \<circ> snd) ` set xs \<longrightarrow> wifi_links t ! v = wifi_links s ! v) \<and>
      (\<forall>(d, n, w) \<in> set xs. new_ap e (access_points s) d = Inr (ap (wifi_links t ! w)))"
  using assms
proof (induction xs arbitrary: s)
  case (Cons x xs)
  obtain d n w where x: "x = (d, n, w)" by (cases x)
  show ?case
  proof (cases "no_ap e (access_points s) d")
    case True
    then show ?thesis by (simp add: x new_ap_no_ap)
  next
    case False
    then obtain a where a: "new_ap e (access_points s) d = Inr a" by (simp add: new_ap_no_ap)
    from Cons.prems have w: "w < length (wifi_links s)" "sta (wifi_links s ! w) = Some n" "w \<notin> (snd \<circ> snd) ` set xs" "stations_ok xs s"
      by (simp_all add: x)
    obtain t where t: "set_ap pos a w s = Inr t" "wifi_inv t" "stations t = stations s" "access_points t = access_points s"
      "length (wifi_links t) = length (wifi_links s)" "ap (wifi_links t ! w) = a" "\<And>v. v \<noteq> w \<Longrightarrow> wifi_links t ! v = wifi_links s ! v"
      "\<And>v. sta (wifi_links t ! v) = sta (wifi_links s ! v)"
      using set_ap_keeps [OF Cons.prems(1) w(1,2)] by metis
    have "stations_ok xs t" using w(4) by (simp add: stations_ok_def t(5,8))
    from Cons.IH [OF t(2) this] show ?thesis
      using a t w(3) False by (auto simp: x split: if_splits)
  qed
qed simp

lemma view_loop:
  assumes "wifi_inv s" and "stations_ok xs s"
  shows "\<exists>t. foldM (\<lambda>(d, n, w). wifi_update_points pos w) xs s = Inr t \<and> wifi_inv t \<and> stations t = stations s \<and>
    access_points t = access_points s \<and> length (wifi_links t) = length (wifi_links s) \<and>
    (\<forall>v. ap (wifi_links t ! v) = ap (wifi_links s ! v) \<and> shown (wifi_links t ! v) = shown (wifi_links s ! v)) \<and>
    (\<forall>v. v \<notin> (snd \<circ> snd) ` set xs \<longrightarrow> wifi_links t ! v = wifi_links s ! v) \<and>
    (\<forall>(d, n, w) \<in> set xs. \<forall>a. ap (wifi_links s ! w) = Some a \<longrightarrow> line (wifi_links t ! w) = Some (pos n, pos a))"
  using assms
proof (induction xs arbitrary: s)
  case (Cons x xs)
  obtain d n w where x: "x = (d, n, w)" by (cases x)
  from Cons.prems have w: "w < length (wifi_links s)" "sta (wifi_links s ! w) = Some n" "w \<notin> (snd \<circ> snd) ` set xs" "stations_ok xs s"
    by (simp_all add: x)
  obtain t where t: "wifi_update_points pos w s = Inr t" "wifi_inv t" "stations t = stations s" "access_points t = access_points s"
    "length (wifi_links t) = length (wifi_links s)" "\<And>v. ap (wifi_links t ! v) = ap (wifi_links s ! v)"
    "\<And>v. sta (wifi_links t ! v) = sta (wifi_links s ! v)" "\<And>v. shown (wifi_links t ! v) = shown (wifi_links s ! v)"
    "\<And>v. v \<noteq> w \<Longrightarrow> wifi_links t ! v = wifi_links s ! v"
    "\<And>a. ap (wifi_links s ! w) = Some a \<Longrightarrow> line (wifi_links t ! w) = Some (pos n, pos a)"
    using update_points_keeps [OF Cons.prems(1) w(1), of pos thesis] w(2) by metis
  have "stations_ok xs t" using w(4) by (simp add: stations_ok_def t(5,7))
  from Cons.IH [OF t(2) this] show ?case using t w(3) by (auto simp: x)
qed simp

lemma wifi_inv_stations: "wifi_inv s \<Longrightarrow> stations_ok (stations s) s"
  by (simp add: wifi_inv_def stations_ok_def)

lemma link_shown:
  assumes "wifi_inv s" and "(d, n, w) \<in> set (stations s)"
  shows "shown (wifi_links s ! w) \<and> line (wifi_links s ! w) \<noteq> None \<longleftrightarrow> ap (wifi_links s ! w) \<noteq> None"
proof -
  have "w < length (wifi_links s)" "sta (wifi_links s ! w) = Some n" using assms by (auto simp: wifi_inv_def)
  with assms(1) have "link_ok s w" "sta (wifi_links s ! w) \<noteq> None" by (simp_all add: wifi_inv_def)
  then show ?thesis by (auto simp: link_ok_def Let_def split: if_splits)
qed

lemma wifi_periodic_keeps:
  assumes "wifi_inv s" and "wifi_periodic_update pos e s = Inr t"
  shows "wifi_inv t"
  using periodic_loop [OF assms(1) wifi_inv_stations [OF assms(1)], of e pos] assms(2)
  by (simp add: wifi_periodic_update_def split: if_split_asm)

lemma wifi_view_keeps: "wifi_inv s \<Longrightarrow> \<exists>t. wifi_update_view pos s = Inr t \<and> wifi_inv t"
  using view_loop [OF _ wifi_inv_stations] unfolding wifi_update_view_def by metis

lemma wifi_moved_keeps: "wifi_inv s \<Longrightarrow> \<exists>t. wifi_node_moved pos n s = Inr t \<and> wifi_inv t"
proof -
  have "wifi_inv u \<Longrightarrow> \<forall>w \<in> set ws. w < length (wifi_links u) \<Longrightarrow> \<exists>t. foldM (wifi_update_points pos) ws u = Inr t \<and> wifi_inv t" for ws u
  proof (induction ws arbitrary: u)
    case (Cons w ws)
    then obtain t where "wifi_update_points pos w u = Inr t" "wifi_inv t" "length (wifi_links t) = length (wifi_links u)"
      using update_points_keeps [of u w pos thesis] by auto
    with Cons show ?case by simp
  qed simp
  then show "wifi_inv s \<Longrightarrow> ?thesis" by (simp add: wifi_node_moved_def wifi_inv_def)
qed

text \<open>A scan destroys the links there were and makes new ones.\<close>

lemma wifi_inv_iff:
  "wifi_inv s \<longleftrightarrow> stations_ok (stations s) s \<and> (\<forall>w < length (wifi_links s). link_ok s w) \<and>
     (\<forall>n. \<forall>w \<in> set (node_links s n). w < length (wifi_links s))"
  by (auto simp: wifi_inv_def stations_ok_def)

lemma destroy_keeps:
  assumes "\<forall>w < length (wifi_links s). link_ok s w" and "\<forall>n. \<forall>w \<in> set (node_links s n). w < length (wifi_links s)"
  shows "(\<forall>v < length (wifi_links (destroy w s)). link_ok (destroy w s) v) \<and>
    (\<forall>n. \<forall>v \<in> set (node_links (destroy w s) n). v < length (wifi_links (destroy w s)))"
proof -
  have "link_ok (destroy w s) v" if "v < length (wifi_links s)" for v
    using that assms(1) by (cases "v = w") (simp_all add: link_ok_def destroy_def Let_def)
  then show ?thesis using assms(2) by (simp add: destroy_def)
qed

lemma destroy_all_keeps:
  "\<forall>w < length (wifi_links s). link_ok s w \<Longrightarrow> \<forall>n. \<forall>w \<in> set (node_links s n). w < length (wifi_links s) \<Longrightarrow>
   let t = fold (\<lambda>(d, n, w). destroy w) xs s
   in (\<forall>v < length (wifi_links t). link_ok t v) \<and> (\<forall>n. \<forall>v \<in> set (node_links t n). v < length (wifi_links t))"
proof (induction xs arbitrary: s)
  case (Cons x xs)
  obtain d n w where x: "x = (d, n, w)" by (cases x)
  from destroy_keeps [OF Cons.prems, of w] Cons.IH [of "destroy w s"] show ?case by (simp add: x)
qed simp

lemma scan_device_keeps:
  assumes "wifi_inv s"
  shows "wifi_inv (scan_wifi_device n d s)"
proof (cases d)
  case (Station k)
  let ?t = "scan_wifi_device n d s" and ?w = "length (wifi_links s)"
  have t: "wifi_links ?t = wifi_links s @ [new_wifi_link n]" "node_links ?t = node_links s" "stations ?t = stations s @ [(k, n, ?w)]"
    by (auto simp: scan_wifi_device_def Station node_links_def)
  have new: "count_list (node_links s m) ?w = 0" for m
    using assms by (intro count_notin) (auto simp: wifi_inv_def)
  have ok: "link_ok ?t v" if "v < Suc ?w" for v
  proof (cases "v = ?w")
    case True
    then show ?thesis by (simp add: link_ok_def t new new_wifi_link_def)
  next
    case False
    with that have "v < ?w" by simp
    then have "link_ok s v" "wifi_links ?t ! v = wifi_links s ! v" using assms by (simp_all add: wifi_inv_def t nth_append)
    then show ?thesis by (simp only: link_ok_def t(2))
  qed
  have "stations_ok (stations ?t) ?t"
    using wifi_inv_stations [OF assms] by (auto simp: stations_ok_def t nth_append new_wifi_link_def)
  then show ?thesis using ok assms by (auto simp: wifi_inv_iff t less_Suc_eq)
next
  case (Access_Point b)
  have "link_ok (s\<lparr>access_points := l\<rparr>) w = link_ok s w" "node_links (s\<lparr>access_points := l\<rparr>) = node_links s" for l w
    by (auto simp: link_ok_def node_links_def)
  with assms show ?thesis by (simp add: scan_wifi_device_def Access_Point wifi_inv_def)
qed (use assms in \<open>simp add: scan_wifi_device_def\<close>)

lemma scan_nodes_keeps:
  assumes "wifi_inv s"
  shows "wifi_inv (scan_nodes ns s)"
proof -
  let ?d = "fold (\<lambda>(d, n, w). destroy w) (stations s) s"
  have same: "link_ok (?d\<lparr>access_points := [], stations := []\<rparr>) w = link_ok ?d w"
    "node_links (?d\<lparr>access_points := [], stations := []\<rparr>) = node_links ?d" for w
    by (auto simp: link_ok_def node_links_def)
  have "(\<forall>v < length (wifi_links ?d). link_ok ?d v) \<and> (\<forall>n. \<forall>v \<in> set (node_links ?d n). v < length (wifi_links ?d))"
    using destroy_all_keeps [of s "stations s"] assms by (simp add: wifi_inv_def Let_def)
  then have "wifi_inv (?d\<lparr>access_points := [], stations := []\<rparr>)" by (simp add: wifi_inv_def same)
  moreover have "wifi_inv u \<Longrightarrow> wifi_inv (fold (scan_wifi_device n) ds u)" for n ds u
    by (induction ds arbitrary: u) (simp_all add: scan_device_keeps)
  then have "wifi_inv u \<Longrightarrow> wifi_inv (fold (\<lambda>(n, ds). fold (scan_wifi_device n) ds) ns u)" for u
    by (induction ns arbitrary: u) (simp_all add: case_prod_beta)
  ultimately show ?thesis by (simp add: scan_nodes_def Let_def)
qed

lemma wifi_step_keeps:
  assumes "wifi_inv s" and "wifi_step ev s = Inr t"
  shows "wifi_inv t"
proof (cases ev)
  case (Scanned ns)
  with assms scan_nodes_keeps show ?thesis by auto
next
  case (Period pos e)
  with assms wifi_periodic_keeps show ?thesis by simp
next
  case (View_Updated pos)
  with assms wifi_view_keeps [OF assms(1), of pos] show ?thesis by auto
next
  case (Moved pos n)
  with assms wifi_moved_keeps [OF assms(1), of pos n] show ?thesis by auto
qed

interpretation wireless: run_invariant wifi_step new_monitor wifi_inv
proof unfold_locales
  show "wifi_inv new_monitor" by (simp add: wifi_inv_def new_monitor_def node_links_def)
qed (rule wifi_step_keeps)

text \<open>C32. Whatever happened before: an update of the links raises exactly when a station is in a network whose access point is not
  known; otherwise, after a redraw, the line of a station in a network goes from where it is to where its access point is,
  and a station in none has no line.\<close>

theorem wifi_links_shown:
  assumes "foldM wifi_step evs new_monitor = Inr s"
  shows "if \<exists>(d, n, w) \<in> set (stations s). up e d \<and> bssid e d \<noteq> no_bssid \<and> dget (access_points s) (bssid e d) = None
    then wifi_periodic_update pos e s = Inl KeyError
    else \<exists>t u. wifi_periodic_update pos e s = Inr t \<and> wifi_update_view now t = Inr u \<and>
      (\<forall>(d, n, w) \<in> set (stations s). let l = wifi_links u ! w in
        if up e d \<and> bssid e d \<noteq> no_bssid
        then shown l \<and> line l = Some (now n, now (the (dget (access_points s) (bssid e d))))
        else \<not> (shown l \<and> line l \<noteq> None))"
proof -
  have inv: "wifi_inv s" by (rule wireless.after [OF assms])
  note loop = periodic_loop [OF inv wifi_inv_stations [OF inv], of e pos, folded wifi_periodic_update_def]
  show ?thesis
  proof (cases "\<exists>(d, n, w) \<in> set (stations s). no_ap e (access_points s) d")
    case True
    with loop show ?thesis by (simp add: no_ap_def)
  next
    case False
    with loop obtain t where t: "wifi_periodic_update pos e s = Inr t" "wifi_inv t" "stations t = stations s"
      and ap: "\<forall>(d, n, w) \<in> set (stations s). new_ap e (access_points s) d = Inr (ap (wifi_links t ! w))"
      by auto
    obtain u where u: "wifi_update_view now t = Inr u" "wifi_inv u" "stations u = stations s"
      "\<And>v. ap (wifi_links u ! v) = ap (wifi_links t ! v)"
      and line: "\<forall>(d, n, w) \<in> set (stations s). \<forall>a. ap (wifi_links t ! w) = Some a \<longrightarrow> line (wifi_links u ! w) = Some (now n, now a)"
      using view_loop [OF t(2) wifi_inv_stations [OF t(2)], of now, folded wifi_update_view_def] t(3) by auto
    have "\<forall>(d, n, w) \<in> set (stations s). let l = wifi_links u ! w in
        if up e d \<and> bssid e d \<noteq> no_bssid
        then shown l \<and> line l = Some (now n, now (the (dget (access_points s) (bssid e d))))
        else \<not> (shown l \<and> line l \<noteq> None)"
      unfolding Let_def
    proof clarify
      fix d n w assume st: "(d, n, w) \<in> set (stations s)"
      have "ap (wifi_links u ! w) = (if up e d \<and> bssid e d \<noteq> no_bssid then dget (access_points s) (bssid e d) else None)"
        "\<not> no_ap e (access_points s) d"
        using ap st False by (auto simp: u(4) new_ap_no_ap split: if_splits)
      moreover have "\<forall>a. ap (wifi_links u ! w) = Some a \<longrightarrow> line (wifi_links u ! w) = Some (now n, now a)" using line st u(4) by auto
      ultimately show "if up e d \<and> bssid e d \<noteq> no_bssid
          then shown (wifi_links u ! w) \<and> line (wifi_links u ! w) = Some (now n, now (the (dget (access_points s) (bssid e d))))
          else \<not> (shown (wifi_links u ! w) \<and> line (wifi_links u ! w) \<noteq> None)"
        using link_shown [OF u(2), of d n w] st u(3) by (auto simp: no_ap_def)
    qed
    moreover from False have "\<not> (\<exists>(d, n, w) \<in> set (stations s). up e d \<and> bssid e d \<noteq> no_bssid \<and> dget (access_points s) (bssid e d) = None)"
      by (simp add: no_ap_def)
    ultimately show ?thesis using t(1) u(1) by (simp only: if_False) blast
  qed
qed

lemma wifi_links_shown_witness:
  "\<exists>s t u. wifi_step (Scanned [(0, [Station 7]), (1, [Access_Point ''a''])]) new_monitor = Inr s \<and>
     wifi_periodic_update (\<lambda>_. (0, 0)) \<lparr>up = (\<lambda>_. True), bssid = (\<lambda>_. ''a'')\<rparr> s = Inr t \<and>
     wifi_update_view (\<lambda>n. (rat_of_nat n, 5)) t = Inr u \<and> line (wifi_links u ! 0) = Some ((0, 5), (1, 5))"
proof -
  obtain s where s: "foldM wifi_step [Scanned [(0, [Station 7]), (1, [Access_Point ''a''])]] new_monitor = Inr s"
    "stations s = [(7, 0, 0)]" "access_points s = [(''a'', 1)]"
    by (simp add: new_monitor_def scan_nodes_def scan_wifi_device_def)
  from wifi_links_shown [OF s(1), of "\<lparr>up = (\<lambda>_. True), bssid = (\<lambda>_. ''a'')\<rparr>" "\<lambda>_. (0, 0)" "\<lambda>n. (rat_of_nat n, 5)"] s
  show ?thesis by (auto simp: no_bssid_def Let_def)
qed

text \<open>A scan that comes later leaves the links destroyed with the nodes that knew them.\<close>

lemma destroyed_link_known:
  "\<exists>s. foldM wifi_step
      [Scanned [(0, [Station 7]), (1, [Access_Point ''a''])], Period (\<lambda>_. (0, 0)) \<lparr>up = (\<lambda>_. True), bssid = (\<lambda>_. ''a'')\<rparr>,
       Scanned [(1, [Access_Point ''a''])]] new_monitor = Inr s \<and> node_links s 1 = [0] \<and> sta (wifi_links s ! 0) = None"
  by (simp add: new_monitor_def scan_nodes_def scan_wifi_device_def wifi_periodic_update_def new_ap_def no_bssid_def set_ap_def
      node_add_link_def set_link_def wifi_update_points_def new_wifi_link_def destroy_def node_links_def Let_def)

end
