(* ===== verification/Spec2Isabelle.thy ===== *)
theory Spec2Isabelle
  imports Rad_Bits Rad_Util Topsort_Levels Find_Cycles Check_Style Testpy_Main Shellcmd Grid_Start Flowmon Wutils Modulescan_Modular
    Create_Module Cflags Command Viz_Axes Viz_Thread Viz_Topology Viz_View Viz_Statistics Viz_Wifi
begin

text \<open>
  A verification library for the Python tooling of the ns-3 tree.

  \<^bold>\<open>The program.\<close>  The tree is a fork of the network simulator ns-3.  Its simulation modules and the Raft
  example of the fork are C++; what is written in Python is the tooling around them: the test driver
  \<^verbatim>\<open>test.py\<close>, the configuration reader \<^verbatim>\<open>utils.py\<close> it shares with waf, the style checker
  \<^verbatim>\<open>utils/check-style.py\<close>, the timeline viewer \<^verbatim>\<open>utils/grid.py\<close>, the waf extension
  \<^verbatim>\<open>waf-tools/shellcmd.py\<close> that parses and runs command lines, \<^verbatim>\<open>wutils.py\<close>, with which waf runs the programs
  of the tree, \<^verbatim>\<open>waf-tools/cflags.py\<close> with the compiler flags, the script \<^verbatim>\<open>flowmon-parse-results.py\<close> that
  reads the results of the flow monitor, \<^verbatim>\<open>src/create-module.py\<close> that writes a new module, the two scanners of the
  Python bindings, \<^verbatim>\<open>ns3modulescan.py\<close> and \<^verbatim>\<open>ns3modulescan-modular.py\<close>, and the two modules \<^verbatim>\<open>topsort.py\<close> and \<^verbatim>\<open>rad_util.py\<close> under \<^verbatim>\<open>bindings/python\<close>, with the
  first of which the scanner orders the modules.  The visualizer, \<^verbatim>\<open>src/visualizer\<close>, shows a simulation while it
  runs: a window over the C++ bindings, with plugins.

  \<^bold>\<open>The theories.\<close>
  \<^item> \<open>Prelude\<close>: exceptions (\<open>py_exn\<close>), results as sums with \<open>rbind\<close> and \<open>mapM\<close>, Python's indexing and
    slices, dictionaries as association lists in insertion order, strings (\<open>split\<close>, \<open>join\<close>, \<open>strip\<close>,
    decimal numerals, lines), the locale \<open>codec\<close>: a printer whose texts a parser reads back, and the locale
    \<open>run_invariant\<close>: what holds of an object after any sequence of its operations.
  \<^item> \<open>Py_Path\<close>: the functions of \<open>os.path\<close> the scripts use (POSIX).
  \<^item> \<open>Rad_Bits\<close>, \<open>Rad_Util\<close>: \<^verbatim>\<open>bindings/python/rad_util.py\<close>, the functions on integers, bit strings, sequences and rationals.
  \<^item> \<open>Topsort\<close>, \<open>Topsort_Levels\<close>, \<open>Find_Cycles\<close>: \<^verbatim>\<open>bindings/python/topsort.py\<close>.  \<open>topsort\<close> and
    \<open>topsort_levels\<close> are two implementations of one contract, the locale \<open>topological_sort\<close>.
  \<^item> \<open>Patch\<close>, \<open>Check_Style\<close>: \<^verbatim>\<open>utils/check-style.py\<close>, its patches and its driver.
  \<^item> \<open>Ns3_Config\<close>: \<^verbatim>\<open>utils.py\<close>, and \<open>parse_examples_to_run_file\<close> and \<open>make_paths\<close> of \<^verbatim>\<open>test.py\<close>.
  \<^item> \<open>Testpy_Job\<close> (class \<open>Job\<close>, running a job, the jobs dispatched), \<open>Testpy_Workers\<close> (queues and
    threads), \<open>Testpy_Report\<close> (results, summary, exit status), \<open>Testpy_Translate\<close> (text and HTML
    reports), \<open>Testpy_Main\<close> (\<open>run_tests\<close> put together): \<^verbatim>\<open>test.py\<close>.
  \<^item> \<open>Shellcmd\<close>: \<^verbatim>\<open>waf-tools/shellcmd.py\<close>; \<open>Wutils\<close>: \<^verbatim>\<open>wutils.py\<close>, which splits its command
    lines with \<open>Shellcmd\<close>'s \<open>shlex_split\<close>.
  \<^item> \<open>Modulescan\<close>, \<open>Modulescan_Modular\<close>: the scanners under \<^verbatim>\<open>bindings/python\<close>; the first is a client of
    \<open>topsort\<close> through the interpretation \<open>by_answer\<close> of \<open>topological_sort\<close>, the second shares the cases of the hook.
  \<^item> \<open>Create_Module\<close>: \<^verbatim>\<open>src/create-module.py\<close>; \<open>Cflags\<close>: \<^verbatim>\<open>waf-tools/cflags.py\<close>;
    \<open>Command\<close>: \<^verbatim>\<open>waf-tools/command.py\<close>, which substitutes in the pipelines of \<open>Shellcmd\<close> and runs them.
  \<^item> \<open>Flowmon\<close>: \<^verbatim>\<open>src/flow-monitor/examples/flowmon-parse-results.py\<close>, with the XML trees of \<open>Testpy_Translate\<close>.
  \<^item> \<^verbatim>\<open>utils/grid.py\<close>: \<open>Grid_Data\<close> (events, ranges, timelines and their binary searches: the locale \<open>bisection\<close>),
    \<open>Grid_Read\<close> (\<open>read_data\<close>; the locale \<open>named\<close> of objects found by name), \<open>Grid_Legend\<close>,
    \<open>Grid_Timelines\<close>, \<open>Grid_Scale\<close> and \<open>Grid_Graphic\<close> (layout and drawing), \<open>Grid_Gui\<close> (the handlers of the widget;
    the locale \<open>event_loop\<close>), \<open>Grid_Drag\<close> (what a sequence of events does to the range shown), \<open>Grid_Start\<close>
    (what \<open>main\<close> shows at first).
  \<^item> \<^verbatim>\<open>src/visualizer/visualizer\<close>: \<open>Viz_Base\<close> (\<^verbatim>\<open>base.py\<close>: coordinates, types of devices, plugins),
    \<open>Viz_Thread\<close> (the two threads of \<^verbatim>\<open>core.py\<close>; the locale \<open>viz_invariant\<close>), \<open>Viz_Nodes\<close> and \<open>Viz_Scene\<close> (nodes, links,
    selection and dragging, with the icons of \<^verbatim>\<open>svgitem.py\<close>; \<open>run_invariant\<close> as \<open>canvas\<close>), \<open>Viz_Topology\<close>
    (\<open>scan_topology\<close>), \<open>Viz_Traffic\<close> (transmissions and drops), \<open>Viz_View\<close> (panning, zooming, following, scaling), \<open>Viz_Axes\<close>
    (\<^verbatim>\<open>hud.py\<close>), and the plugins: \<open>Viz_Wifi\<close> (links of wireless stations; \<open>run_invariant\<close> as \<open>wireless\<close>) and
    \<open>Viz_Statistics\<close> (statistics, packets captured, routing tables; \<open>run_invariant\<close> as \<open>capture\<close>).

  \<^bold>\<open>How the state corresponds.\<close>  An object is a record with the fields of the class (\<open>job\<close>, \<open>patch_chunk\<close>,
  \<open>command\<close>, \<open>parser\<close>), a method a function from the record to the record.  An exception is \<open>Inl e\<close>; an
  early end of \<open>run_tests\<close> is a value of \<open>stop\<close>.  Python's integers are \<open>int\<close>.  Everything the
  scripts do not define themselves is a parameter: what a program prints and returns
  (\<open>popen\<close>, \<open>launch\<close>, \<open>runner\<close>, \<open>tools\<close>), the files (\<open>fs\<close>, \<open>world\<close>), the builtin \<open>eval\<close>, the format of
  times.  The threads of \<^verbatim>\<open>test.py\<close> are the step relation \<open>step\<close> on \<open>system\<close>: each atomic action of the main
  thread, of a worker and of the signal handler is a rule, and the theorems hold for every interleaving.
  The widget of \<^verbatim>\<open>grid.py\<close> is the record \<open>gtk\<close> and its handlers are composed by \<open>run_loop\<close> over the events the user
  makes, any sequence of them; a drawing is the list of the calls made on the cairo context (\<open>cairo\<close>), and an attribute
  the class sets only later is an option.  That program is Python 2, which divides integers rounding down: \<open>num2\<close> keeps
  integers and floats apart.
  The threads of the visualizer are a step relation too (\<open>Viz_Thread.step\<close> on \<open>viz\<close>): what a thread does between two
  accesses to what they share is a step, and the callbacks of the main loop form a stack, since one of them runs the loop
  while it waits for the lock.  Its canvas is the record \<open>scene\<close> with the nodes, channels and links by their indices, its
  view the record \<open>camera\<close>; a canvas item is the properties the code sets.  GTK and GooCanvas are the functions of the record
  \<open>toolkit\<close>, what is relied on of them is \<open>toolkit_laws\<close>.

  \<^bold>\<open>What the lemmas show.\<close>
  \<^item> Sorting: \<open>topsort\<close> returns the elements of the pairs, once each, parents first, exactly
    when there is no cycle, and otherwise raises \<open>CycleError\<close> with the elements on or after a cycle;
    \<open>topsort_levels\<close> does the same in levels; both fail on the same inputs.  \<open>find_cycles\<close> yields every
    elementary cycle exactly once up to rotation.
  \<^item> Threads: every run is finite, none deadlocks, and the results collected are those of the jobs
    dispatched, one each, whatever the schedule; so the summary and the exit status do not depend on it
    (invariant \<open>inv\<close>, measure \<open>weight\<close>, lemma \<open>progress\<close>).
  \<^item> \<^verbatim>\<open>test.py\<close>: which suites and examples are run, how it ends, that \<^verbatim>\<open>--suite\<close> succeeds exactly when the
    process of the suite does; when the tags of the HTML report, read from its text, are well nested.
  \<^item> \<^verbatim>\<open>grid.py\<close>: which events and ranges the binary searches select, what the reader collects, that the legends fit
    and how high the timelines are drawn, the ticks of the scale, and, for every sequence of events, that the parts of the
    picture agree and where the range can lie; what dragging does, to a range of integers or of floats, the cases that raise included.
  \<^item> \<^verbatim>\<open>wutils.py\<close>: that a command template gives the program the words of the user, what is in the environment of a
    process, when a run returns.
  \<^item> \<open>Flowmon\<close>: the numbers the flow monitor writes are read back, its histograms of interruptions included (the writer,
    \<^verbatim>\<open>flow-monitor.cc\<close> and \<^verbatim>\<open>histogram.cc\<close>, is modelled for that; the number a stream prints for a double is a parameter), each flow gets its last five tuple, and exactly when the
    report is complete.
  \<^item> The scanners: the precedence of the sections follows the dependencies of the modules, which annotations are given once,
    from which module a class is imported, and where the search for the directory \<^verbatim>\<open>ns3\<close> ends: the newer search returns for
    every path and is determined by the older one.
  \<^item> \<open>Create_Module\<close>: what is made, that the build script names only files that are made, which names are names of C++;
    \<open>Cflags\<close>: the flags of every profile.
  \<^item> The visualizer: simulation and redraw exclude each other, no pause message is lost, closing the window ends the simulation,
    a simulation that plays keeps its timer and stays near the view; after any sequence of operations the canvas shows what
    the nodes and links are and the selection is consistent; what dragging does, which links a scan draws, which arrows a redraw
    shows, with which rates; when all nodes are seen; the ticks of the axes; the links of wireless stations.
  \<^item> Round trips: patches, pipelines and bit strings (interpretations of \<open>codec\<close>).
  \<^item> Errors: the branches on which the scripts raise or report nothing are theorems of their own.

  \<^bold>\<open>Bounds and fuel.\<close>  No definition uses fuel; the three loops that need not end, in \<open>binary_range\<close>, in
  \<open>get_ns3_relative_path\<close> and in \<open>is_header_type\<close>, are partial functions into options, where \<open>None\<close> is a loop without an end.  Loops are recursive functions with termination
  proofs; \<open>topsort\<close> and \<open>find_cycles\<close> recurse on measures of the unvisited part of the graph.  Integers are
  unbounded as in Python.

  \<^bold>\<open>What is not modelled.\<close>  The generated bindings (\<^verbatim>\<open>modulegen__gcc_*.py\<close>), the waf scripts (\<open>wscript\<close>
  files and most of \<^verbatim>\<open>waf-tools\<close>, which call into waf), the calls with which the scanners drive
  pygccxml and pybindgen, and the generator of the bindings, of the visualizer the making of its widgets, tooltips, menus and pictures and the shell,
  example scripts, documentation settings, option
  declarations, verbose output, and functions of \<open>rad_util\<close> on floats, dates and regular expressions.  Floats
  that are times are rationals, and so are the coordinates of \<^verbatim>\<open>grid.py\<close> and of the visualizer; the run of
  the main loop of \<^verbatim>\<open>grid.py\<close> is followed up to the
  first exception of a handler.
\<close>

end
